(* ===== verification/Coreinit_Prelude.thy ===== *)
theory Coreinit_Prelude
  imports Main "HOL-Library.Word"
begin

text \<open>
  Shared vocabulary of the development: the machine integers of the C sources
  (\<open>uint8_t\<close>, \<open>uint16_t\<close>, \<open>uint32_t\<close>, \<open>uint64_t\<close> as words of that width), the
  scan for the first free slot that every fixed-size pool of the program uses,
  facts on list update, and facts that bring unsigned 64-bit sums without
  wrap-around back to the natural numbers.
\<close>

unbundle bit_operations_syntax

type_synonym u8 = "8 word"
type_synonym u16 = "16 word"
type_synonym u32 = "32 word"
type_synonym u64 = "64 word"
type_synonym i32 = "32 word"
type_synonym bytes = "u8 list"

named_theorems slot_simps \<open>facts on the first-free-slot scan\<close>
named_theorems wire_simps \<open>facts on flat Cap'n Proto messages\<close>
named_theorems word_nat \<open>facts that turn word sums and comparisons into naturals\<close>

subsection \<open>Scanning a fixed array for the first slot with a property\<close>

text \<open>
  \<open>first_slot P xs\<close> is the index at which a C loop of the form
  \<open>for (i = 0; i < N; i++) if (P(xs[i])) { ...; break; }\<close> stops.
\<close>

primrec first_slot_from :: "nat \<Rightarrow> ('a \<Rightarrow> bool) \<Rightarrow> 'a list \<Rightarrow> nat option" where
  "first_slot_from i P [] = None"
| "first_slot_from i P (x # xs) = (if P x then Some i else first_slot_from (Suc i) P xs)"

definition first_slot :: "('a \<Rightarrow> bool) \<Rightarrow> 'a list \<Rightarrow> nat option" where
  "first_slot P xs = first_slot_from 0 P xs"

lemma first_slot_from_SomeD:
  "first_slot_from k P xs = Some i \<Longrightarrow>
    k \<le> i \<and> i - k < length xs \<and> P (xs ! (i - k)) \<and> (\<forall>j < i - k. \<not> P (xs ! j))"
proof (induction xs arbitrary: k)
  case (Cons x xs)
  show ?case
  proof (cases "P x")
    case False
    with Cons.prems have *: "first_slot_from (Suc k) P xs = Some i" by simp
    note IH = Cons.IH [OF *]
    then have "i - k = Suc (i - Suc k)" by linarith
    then show ?thesis using IH False
      by (auto simp: less_Suc_eq_0_disj)
  qed (use Cons.prems in simp)
qed simp

lemma first_slot_from_None: "first_slot_from k P xs = None \<longleftrightarrow> (\<forall>x \<in> set xs. \<not> P x)"
  by (induction xs arbitrary: k) auto

lemma first_slot_SomeD:
  assumes "first_slot P xs = Some i"
  shows "i < length xs" "P (xs ! i)" "\<And>j. j < i \<Longrightarrow> \<not> P (xs ! j)"
  using first_slot_from_SomeD [OF assms [unfolded first_slot_def]] by simp_all

lemma first_slot_None [slot_simps]: "first_slot P xs = None \<longleftrightarrow> (\<forall>x \<in> set xs. \<not> P x)"
  by (simp add: first_slot_def first_slot_from_None)

lemma first_slot_ex: "x \<in> set xs \<Longrightarrow> P x \<Longrightarrow> \<exists>i. first_slot P xs = Some i"
  by (meson first_slot_None not_Some_eq)

lemma first_slot_eq_SomeI:
  assumes "i < length xs" "P (xs ! i)" "\<And>j. j < i \<Longrightarrow> \<not> P (xs ! j)"
  shows "first_slot P xs = Some i"
proof -
  obtain k where k: "first_slot P xs = Some k"
    using first_slot_ex [of "xs ! i" xs P] assms by auto
  note D = first_slot_SomeD [OF k]
  have "k = i" using D assms by (meson linorder_neqE_nat)
  with k show ?thesis by simp
qed

lemma first_slot_code [code]:
  "first_slot P xs = first_slot_from 0 P xs"
  by (fact first_slot_def)

lemma first_slot_Cons [slot_simps]:
  "first_slot P (x # xs) = (if P x then Some 0 else map_option Suc (first_slot P xs))"
proof -
  have "first_slot_from (Suc k) P ys = map_option Suc (first_slot_from k P ys)" for k ys
    by (induction ys arbitrary: k) auto
  then show ?thesis by (simp add: first_slot_def)
qed

lemma first_slot_Nil [slot_simps]: "first_slot P [] = None"
  by (simp add: first_slot_def)

subsection \<open>Lists\<close>

lemma nth_list_update_if:
  "i < length xs \<Longrightarrow> xs[i := x] ! j = (if j = i then x else xs ! j)"
  by simp

lemma set_update_cases: "y \<in> set (xs[i := x]) \<Longrightarrow> y = x \<or> y \<in> set xs"
  by (meson insertE set_update_subset_insert subsetD)

subsection \<open>Unsigned 64-bit arithmetic\<close>

lemma u64_unat_lt [simp]: "unat (w :: u64) < 18446744073709551616"
  using unsigned_less [of w] by simp

lemma unat_plus_no_wrap [word_nat]:
  fixes a b :: "'a :: len word"
  shows "a \<le> a + b \<Longrightarrow> unat (a + b) = unat a + unat b"
  by (simp add: unat_plus_simple)

lemma no_wrap_iff: "(a :: u64) \<le> a + b \<longleftrightarrow> unat a + unat b < 18446744073709551616"
  by (simp add: no_olen_add_nat)

lemma no_wrap_if_lt: "unat (a :: u64) + unat b < 18446744073709551616 \<Longrightarrow>
    unat (a + b) = unat a + unat b"
  using no_wrap_iff unat_plus_no_wrap by blast

lemma unat_of_nat_u64: "n < 18446744073709551616 \<Longrightarrow> unat (of_nat n :: u64) = n"
  by (simp add: unat_of_nat)

lemma unat_ucast_u64:
  fixes w :: "'a :: len word"
  assumes "LENGTH('a) \<le> 64"
  shows "unat (ucast w :: u64) = unat w"
proof -
  have "unat w < 2 ^ LENGTH('a)" by (rule unsigned_less)
  also have "(2 :: nat) ^ LENGTH('a) \<le> 2 ^ 64" using assms by (intro power_increasing) simp_all
  finally show ?thesis by (simp add: unsigned_ucast_eq take_bit_nat_eq_self)
qed

subsection \<open>Bytes and characters\<close>

lemma unat_byte: "unat (b :: u8) < 256"
  using unsigned_less [of b, where 'a = nat] by simp

lemma unat_of_char: "unat (of_char c :: u8) = of_char c"
proof -
  have "unat (of_nat (of_char c) :: u8) = take_bit 8 (of_char c)" by (simp only: unsigned_of_nat) simp
  then show ?thesis using nat_of_char_less_256 [of c] by (simp add: take_bit_nat_eq_self of_nat_of_char)
qed

end
