(* ===== verification/Capnp_Flat.thy ===== *)
theory Capnp_Flat
  imports Coreinit_Prelude
begin

text \<open>
  The flat Cap'n Proto messages of \<open>coreinit/capnp_build.h\<close>: one segment whose
  root is a struct of plain 64-bit data words and no pointers.  Messages are
  byte lists; the stores of 64-bit words are little-endian, as on both targets.
\<close>

subsection \<open>Little-endian stores and loads\<close>

definition u32_bytes :: "u32 \<Rightarrow> bytes" where
  "u32_bytes w = map (\<lambda>i. ucast (drop_bit (8 * i) w)) [0..<4]"

definition u64_bytes :: "u64 \<Rightarrow> bytes" where
  "u64_bytes w = map (\<lambda>i. ucast (drop_bit (8 * i) w)) [0..<8]"

fun le_word :: "bytes \<Rightarrow> 'a :: len word" where
  "le_word [] = 0"
| "le_word (b # bs) = ucast b OR push_bit 8 (le_word bs)"

lemma length_u32_bytes [simp, wire_simps]: "length (u32_bytes w) = 4"
  by (simp add: u32_bytes_def)

lemma length_u64_bytes [simp, wire_simps]: "length (u64_bytes w) = 8"
  by (simp add: u64_bytes_def)

lemma bit_le_word:
  "bit (le_word bs :: 'a :: len word) n \<longleftrightarrow>
    n < LENGTH('a) \<and> n div 8 < length bs \<and> bit (bs ! (n div 8)) (n mod 8)"
proof (induction bs arbitrary: n)
  case (Cons b bs)
  show ?case
  proof (cases "n < 8")
    case True
    then show ?thesis by (auto simp: bit_simps)
  next
    case False
    have n8: "n div 8 = Suc ((n - 8) div 8)" "(n - 8) mod 8 = n mod 8"
      using False by (simp_all add: le_div_geq le_mod_geq [symmetric])
    have nb: "\<not> bit b n"
      using False bit_imp_le_length [of b n] by auto
    show ?thesis
      using False n8 nb Cons.IH [of "n - 8"] by (auto simp: bit_simps)
  qed
qed simp

lemma le_word_u64_bytes [simp, wire_simps]: "le_word (u64_bytes w) = w"
proof (rule bit_word_eqI)
  fix n assume n: "n < LENGTH(64)"
  then have d: "n div 8 < 8" by simp
  have "8 * (n div 8) + n mod 8 = n" by simp
  then show "bit (le_word (u64_bytes w) :: u64) n = bit w n"
    using n d by (simp add: bit_le_word u64_bytes_def bit_simps)
qed

lemma le_word_u32_bytes [simp, wire_simps]: "le_word (u32_bytes w) = w"
proof (rule bit_word_eqI)
  fix n assume n: "n < LENGTH(32)"
  then have d: "n div 8 < 4" by simp
  have "8 * (n div 8) + n mod 8 = n" by simp
  then show "bit (le_word (u32_bytes w) :: u32) n = bit w n"
    using n d by (simp add: bit_le_word u32_bytes_def bit_simps)
qed

lemma u64_bytes_le_word:
  assumes "length bs = 8"
  shows "u64_bytes (le_word bs) = bs"
proof (rule nth_equalityI)
  fix i assume "i < length (u64_bytes (le_word bs))"
  then have i: "i < 8" by simp
  show "u64_bytes (le_word bs) ! i = bs ! i"
  proof (rule bit_word_eqI)
    fix n assume n: "n < LENGTH(8)"
    have "(8 * i + n) div 8 = i" "(8 * i + n) mod 8 = n" "8 * i + n < 64"
      using n i by simp_all
    then show "bit (u64_bytes (le_word bs) ! i) n = bit (bs ! i) n"
      using n i assms by (simp add: u64_bytes_def bit_simps bit_le_word)
  qed
qed (simp add: assms)

lemma u32_bytes_le_word:
  assumes "length bs = 4"
  shows "u32_bytes (le_word bs) = bs"
proof (rule nth_equalityI)
  fix i assume "i < length (u32_bytes (le_word bs))"
  then have i: "i < 4" by simp
  show "u32_bytes (le_word bs) ! i = bs ! i"
  proof (rule bit_word_eqI)
    fix n assume n: "n < LENGTH(8)"
    have "(8 * i + n) div 8 = i" "(8 * i + n) mod 8 = n" "8 * i + n < 32"
      using n i by simp_all
    then show "bit (u32_bytes (le_word bs) ! i) n = bit (bs ! i) n"
      using n i assms by (simp add: u32_bytes_def bit_simps bit_le_word)
  qed
qed (simp add: assms)

text \<open>A run of 64-bit words in memory, and its bytes.\<close>

fun words_bytes :: "u64 list \<Rightarrow> bytes" where
  "words_bytes [] = []"
| "words_bytes (w # ws) = u64_bytes w @ words_bytes ws"

function bytes_words :: "bytes \<Rightarrow> u64 list" where
  "bytes_words bs = (if length bs < 8 then [] else le_word (take 8 bs) # bytes_words (drop 8 bs))"
  by pat_completeness auto
termination by (relation "measure length") auto

declare bytes_words.simps [simp del]

lemma length_words_bytes [simp, wire_simps]: "length (words_bytes ws) = 8 * length ws"
  by (induction ws) auto

lemma length_bytes_words [simp, wire_simps]: "length (bytes_words bs) = length bs div 8"
  by (induction bs rule: bytes_words.induct) (subst bytes_words.simps, auto simp: le_div_geq)

lemma bytes_words_append [simp, wire_simps]:
  "bytes_words (u64_bytes w @ bs) = w # bytes_words bs"
  by (subst bytes_words.simps) simp

lemma bytes_words_Nil [simp, wire_simps]: "bytes_words [] = []"
  by (subst bytes_words.simps) simp

lemma bytes_words_words_bytes [simp, wire_simps]: "bytes_words (words_bytes ws) = ws"
  by (induction ws) auto

lemma words_bytes_bytes_words:
  "8 dvd length bs \<Longrightarrow> words_bytes (bytes_words bs) = bs"
proof (induction bs rule: bytes_words.induct)
  case (1 bs)
  show ?case
  proof (cases "length bs < 8")
    case True
    then have "bs = []" using 1(2) by (auto dest: dvd_imp_le)
    then show ?thesis by simp
  next
    case False
    then have "words_bytes (bytes_words (drop 8 bs)) = drop 8 bs"
      using 1 by simp
    then show ?thesis using False
      by (subst bytes_words.simps) (simp add: u64_bytes_le_word)
  qed
qed

text \<open>Evaluation of the stores and loads through integers.\<close>

fun le_int :: "bytes \<Rightarrow> int" where
  "le_int [] = 0"
| "le_int (b # bs) = uint b + 256 * le_int bs"

lemma or_push_bit_8: "ucast (b :: u8) OR push_bit 8 w = (word_of_int (uint b) + 256 * w :: 'a :: len word)"
proof -
  have "ucast b AND push_bit 8 w = (0 :: 'a word)"
    by (rule bit_word_eqI) (auto simp: bit_simps dest: bit_imp_le_length)
  from disjunctive_add_eq_or [OF this]
  have e: "ucast b OR push_bit 8 w = ucast b + push_bit 8 w" by (rule sym)
  have "push_bit 8 w = 256 * w" by (simp add: push_bit_eq_mult mult.commute)
  moreover have "ucast b = (word_of_int (uint b) :: 'a word)" by simp
  ultimately show ?thesis unfolding e by (simp only:)
qed

lemma le_word_code [code]: "le_word bs = word_of_int (le_int bs)"
  by (induction bs) (simp_all add: or_push_bit_8 of_int_add)

fun int_bytes :: "nat \<Rightarrow> int \<Rightarrow> bytes" where
  "int_bytes 0 i = []"
| "int_bytes (Suc n) i = word_of_int (i mod 256) # int_bytes n (i div 256)"

lemma int_bytes_map: "int_bytes n i = map (\<lambda>k. word_of_int (i div 2 ^ (8 * k))) [0..<n]"
proof (induction n arbitrary: i)
  case (Suc n)
  have "word_of_int (i mod 256) = (word_of_int i :: u8)"
    by (rule word_of_int_eq_iff [THEN iffD2]) (simp add: take_bit_eq_mod)
  moreover have "i div 256 div 2 ^ (8 * k) = i div 2 ^ (8 * Suc k)" for k :: nat
    by (simp add: power_add flip: zdiv_zmult2_eq)
  ultimately show ?case
    by (simp only: int_bytes.simps Suc upt_conv_Cons map_Suc_upt [symmetric] map_map comp_def) simp
qed simp

lemma u64_bytes_code [code]: "u64_bytes w = int_bytes 8 (uint w)"
proof -
  have "ucast (drop_bit (8 * i) w) = (word_of_int (uint w div 2 ^ (8 * i)) :: u8)" for i
    unfolding ucast_eq unsigned_drop_bit_eq
    using bintr_uint [of 64 w] by (simp add: drop_bit_eq_div [where 'a = int])
  then show ?thesis by (simp only: u64_bytes_def int_bytes_map)
qed

subsection \<open>Building and reading flat messages\<close>

text \<open>
  \<open>capnp_build_flat buf_cap data_words\<close> is the run of bytes the C function
  writes at the front of the buffer; its length is the C return value, so the
  empty list stands for the refusal of a buffer that is too small.  The word
  count is the \<open>uint16_t\<close> parameter \<open>n_words\<close>.
\<close>

definition capnp_build_flat :: "nat \<Rightarrow> u64 list \<Rightarrow> u16 \<Rightarrow> bytes" where
  "capnp_build_flat buf_cap data_words n_words =
    (let total = 8 + 8 + unat n_words * 8 in
     if buf_cap < total then []
     else
       let seg_words = 1 + ucast n_words :: u32;
           root_word = push_bit 32 (ucast n_words) :: u64
       in [0, 0, 0, 0,
           ucast (seg_words AND 0xFF),
           ucast (drop_bit 8 seg_words AND 0xFF),
           ucast (drop_bit 16 seg_words AND 0xFF),
           ucast (drop_bit 24 seg_words AND 0xFF)]
          @ u64_bytes root_word
          @ words_bytes (take (unat n_words) data_words))"

text \<open>The pointer to the data section, as the words found from there on.\<close>

definition capnp_read_flat :: "bytes \<Rightarrow> u64 list" where
  "capnp_read_flat msg = bytes_words (drop 16 msg)"

definition capnp_read_flat_exact :: "bytes option \<Rightarrow> u16 \<Rightarrow> u64 list option" where
  "capnp_read_flat_exact m n_words =
    (case m of None \<Rightarrow> None
     | Some b \<Rightarrow>
        if length b \<noteq> 16 + unat n_words * 8 then None
        else if b ! 0 \<noteq> 0 \<or> b ! 1 \<noteq> 0 \<or> b ! 2 \<noteq> 0 \<or> b ! 3 \<noteq> 0 then None
        else
          let segment_words = (ucast (b ! 4) OR push_bit 8 (ucast (b ! 5)) OR
                push_bit 16 (ucast (b ! 6)) OR push_bit 24 (ucast (b ! 7))) :: u32;
              wire = bytes_words (drop 8 b)
          in if segment_words \<noteq> 1 + ucast n_words then None
             else if wire ! 0 \<noteq> push_bit 32 (ucast n_words) then None
             else Some (drop 1 wire))"

text \<open>The message a sender with enough room writes.\<close>

abbreviation flat_msg :: "u64 list \<Rightarrow> bytes" where
  "flat_msg ws \<equiv> capnp_build_flat (16 + 8 * length ws) ws (of_nat (length ws))"

lemma seg_bytes:
  "[ucast (w AND 0xFF), ucast (drop_bit 8 w AND 0xFF), ucast (drop_bit 16 w AND 0xFF),
    ucast (drop_bit 24 w AND 0xFF)] = u32_bytes w"
proof -
  have "ucast (v AND 0xFF :: u32) = (ucast v :: u8)" for v
  proof -
    have m: "(0xFF :: u32) = mask 8" by (simp add: mask_eq_exp_minus_1)
    show ?thesis unfolding m by (rule bit_word_eqI) (simp add: bit_simps)
  qed
  then show ?thesis by (simp add: u32_bytes_def upt_rec)
qed

lemma seg_word:
  "length b \<ge> 8 \<Longrightarrow>
   (ucast (b ! 4) OR push_bit 8 (ucast (b ! 5)) OR
      push_bit 16 (ucast (b ! 6)) OR push_bit 24 (ucast (b ! 7)) :: u32)
   = le_word (take 4 (drop 4 b))"
proof -
  assume "length b \<ge> 8"
  then have "take 4 (drop 4 b) = [b ! 4, b ! 5, b ! 6, b ! 7]"
    by (intro nth_equalityI) (auto simp: less_Suc_eq numeral_eq_Suc)
  then show ?thesis
    by (simp add: push_bit_or ac_simps)
qed

lemma capnp_build_flat_alt [wire_simps]:
  "capnp_build_flat cap ws n =
    (if cap < 16 + 8 * unat n then []
     else u32_bytes 0 @ u32_bytes (1 + ucast n) @ u64_bytes (push_bit 32 (ucast n))
          @ words_bytes (take (unat n) ws))"
proof -
  have z: "u32_bytes 0 = [0, 0, 0, 0]" by (simp add: u32_bytes_def upt_rec)
  show ?thesis
    unfolding capnp_build_flat_def Let_def
    by (simp add: seg_bytes [symmetric] z mult.commute)
qed

lemma capnp_build_flat_too_small:
  "cap < 16 + 8 * unat n \<Longrightarrow> capnp_build_flat cap ws n = []"
  by (simp add: capnp_build_flat_alt)

lemma length_capnp_build_flat [wire_simps]:
  "length ws = unat n \<Longrightarrow> length (capnp_build_flat cap ws n) =
     (if cap < 16 + 8 * unat n then 0 else 16 + 8 * unat n)"
  by (simp add: capnp_build_flat_alt)

lemma capnp_read_build_flat [wire_simps]:
  "length ws = unat n \<Longrightarrow> 16 + 8 * unat n \<le> cap \<Longrightarrow>
    capnp_read_flat (capnp_build_flat cap ws n) = ws"
  by (simp add: capnp_build_flat_alt capnp_read_flat_def)

lemma length_flat_msg [wire_simps]:
  "length ws < 65536 \<Longrightarrow> length (flat_msg ws) = 16 + 8 * length ws"
  by (simp add: length_capnp_build_flat unsigned_of_nat take_bit_nat_eq_self)

lemma capnp_read_flat_msg [wire_simps]:
  "length ws < 65536 \<Longrightarrow> capnp_read_flat (flat_msg ws) = ws"
  by (simp add: capnp_read_build_flat unsigned_of_nat take_bit_nat_eq_self)

lemma build_flat_enough [wire_simps]:
  "length ws < 65536 \<Longrightarrow> 16 + 8 * length ws \<le> cap \<Longrightarrow>
    capnp_build_flat cap ws (of_nat (length ws)) = flat_msg ws"
  by (simp add: capnp_build_flat_alt unsigned_of_nat take_bit_nat_eq_self)

lemma capnp_read_flat_exact_alt:
  "capnp_read_flat_exact (Some b) n =
    (if length b = 16 + 8 * unat n \<and> take 4 b = u32_bytes 0
        \<and> take 4 (drop 4 b) = u32_bytes (1 + ucast n)
        \<and> take 8 (drop 8 b) = u64_bytes (push_bit 32 (ucast n))
     then Some (bytes_words (drop 16 b)) else None)"
proof (cases "length b = 16 + 8 * unat n")
  case len: True
  have z: "u32_bytes 0 = [0, 0, 0, 0]" by (simp add: u32_bytes_def upt_rec)
  have t4: "take 4 b = [b ! 0, b ! 1, b ! 2, b ! 3]"
    using len by (intro nth_equalityI) (auto simp: less_Suc_eq numeral_eq_Suc)
  have hdr: "take 4 b = u32_bytes 0 \<longleftrightarrow> \<not> (b ! 0 \<noteq> 0 \<or> b ! 1 \<noteq> 0 \<or> b ! 2 \<noteq> 0 \<or> b ! 3 \<noteq> 0)"
    by (auto simp: t4 z)
  have seg: "le_word (take 4 (drop 4 b)) = w \<longleftrightarrow> take 4 (drop 4 b) = u32_bytes w" for w :: u32
  proof -
    have "length (take 4 (drop 4 b)) = 4" using len by simp
    then show ?thesis by (metis le_word_u32_bytes u32_bytes_le_word)
  qed
  have wire: "bytes_words (drop 8 b) = le_word (take 8 (drop 8 b)) # bytes_words (drop 16 b)"
    using len by (subst bytes_words.simps) simp
  have root: "le_word (take 8 (drop 8 b)) = w \<longleftrightarrow> take 8 (drop 8 b) = u64_bytes w" for w :: u64
  proof -
    have "length (take 8 (drop 8 b)) = 8" using len by simp
    then show ?thesis by (metis le_word_u64_bytes u64_bytes_le_word)
  qed
  show ?thesis
    using len by (auto simp: capnp_read_flat_exact_def Let_def hdr seg_word seg wire root mult.commute)
next
  case False
  then show ?thesis by (simp add: capnp_read_flat_exact_def mult.commute)
qed

lemma capnp_read_flat_exact_build:
  "length ws = unat n \<Longrightarrow> 16 + 8 * unat n \<le> cap \<Longrightarrow>
    capnp_read_flat_exact (Some (capnp_build_flat cap ws n)) n = Some ws"
  by (simp add: capnp_read_flat_exact_alt capnp_build_flat_alt)

lemma capnp_read_flat_exactD:
  assumes "capnp_read_flat_exact (Some b) n = Some ws"
  shows "length ws = unat n \<and> b = capnp_build_flat (16 + 8 * unat n) ws n"
proof -
  from assms have len: "length b = 16 + 8 * unat n"
    and h: "take 4 b = u32_bytes 0" "take 4 (drop 4 b) = u32_bytes (1 + ucast n)"
      "take 8 (drop 8 b) = u64_bytes (push_bit 32 (ucast n))"
    and ws: "ws = bytes_words (drop 16 b)"
    by (auto simp: capnp_read_flat_exact_alt split: if_splits)
  have dvd: "8 dvd length (drop 16 b)" using len by simp
  have "b = take 4 b @ take 4 (drop 4 b) @ take 8 (drop 8 b) @ drop 16 b"
  proof -
    have "drop 8 b = take 8 (drop 8 b) @ drop 16 b"
      using append_take_drop_id [of 8 "drop 8 b"] by simp
    moreover have "drop 4 b = take 4 (drop 4 b) @ drop 8 b"
      using append_take_drop_id [of 4 "drop 4 b"] by simp
    ultimately show ?thesis using append_take_drop_id [of 4 b] by metis
  qed
  then show ?thesis
    using h ws len words_bytes_bytes_words [OF dvd] by (simp add: capnp_build_flat_alt)
qed

end
