(* ===== verification/Smp_Layout.thy ===== *)
theory Smp_Layout
  imports Coreinit_Prelude
begin

text \<open>
  The physical layout of \<open>include/smp_layout.h\<close>, for both targets.  The
  preprocessor's \<open>__aarch64__\<close> choice is the argument \<open>arch\<close>, and the aarch64
  addresses use the default \<open>AARCH64_RAM_BASE\<close>.
\<close>

datatype arch = X86_64 | AArch64

definition AARCH64_RAM_BASE :: u64 where "AARCH64_RAM_BASE = 0x40000000"

definition CORE_REGION_BASE :: "arch \<Rightarrow> u64" where
  "CORE_REGION_BASE a = (case a of AArch64 \<Rightarrow> AARCH64_RAM_BASE + 0x02000000 | X86_64 \<Rightarrow> 0x4000000)"

definition CORE_REGION_SIZE :: u64 where "CORE_REGION_SIZE = 0x400000"
definition CORE_KERNEL_OFFSET :: u64 where "CORE_KERNEL_OFFSET = 0"
definition CORE_KERNEL_MAX_SIZE :: u64 where "CORE_KERNEL_MAX_SIZE = 0x100000"
definition CORE_INIT_OFFSET :: u64 where "CORE_INIT_OFFSET = 0x100000"
definition CORE_INIT_MAX_SIZE :: u64 where "CORE_INIT_MAX_SIZE = 0x200000"
definition CORE_STACK_OFFSET :: u64 where "CORE_STACK_OFFSET = 0x300000"
definition CORE_STACK_SIZE :: u64 where "CORE_STACK_SIZE = 0x080000"
definition CORE_MAILBOX_OFFSET :: u64 where "CORE_MAILBOX_OFFSET = 0x380000"
definition CORE_MAILBOX_SIZE :: u64 where "CORE_MAILBOX_SIZE = 0x080000"
definition CORE_DISCOVERY_OFFSET :: u64 where "CORE_DISCOVERY_OFFSET = 0x390000"
definition CORE_DISCOVERY_AP_CORE_STATE_OFF :: u64 where "CORE_DISCOVERY_AP_CORE_STATE_OFF = 0x40"
definition CORE_PGTABLE_OFFSET :: u64 where "CORE_PGTABLE_OFFSET = 0x3A0000"
definition CORE_PGTABLE_PD_HI_OFF :: u64 where "CORE_PGTABLE_PD_HI_OFF = 0x3000"

definition BSP_MAILBOX_REGION_BASE :: "arch \<Rightarrow> u64" where
  "BSP_MAILBOX_REGION_BASE a = (case a of
      AArch64 \<Rightarrow> AARCH64_RAM_BASE + 0x01800000 - CORE_MAILBOX_OFFSET
    | X86_64 \<Rightarrow> 0x1200000 - CORE_MAILBOX_OFFSET)"

definition KERNEL_LOAD_BASE :: "arch \<Rightarrow> u64" where
  "KERNEL_LOAD_BASE a = (case a of AArch64 \<Rightarrow> AARCH64_RAM_BASE + 0x01000000 | X86_64 \<Rightarrow> 0x1000000)"

definition BSP_INIT_LOAD_BASE :: "arch \<Rightarrow> u64" where
  "BSP_INIT_LOAD_BASE a = (case a of AArch64 \<Rightarrow> AARCH64_RAM_BASE + 0x00200000 | X86_64 \<Rightarrow> 0x1800000)"

definition BOOT_ALLOCATOR_REGION_BASE :: u64 where
  "BOOT_ALLOCATOR_REGION_BASE = AARCH64_RAM_BASE + 0x01880000"
definition BOOT_ALLOCATOR_REGION_SIZE :: u64 where "BOOT_ALLOCATOR_REGION_SIZE = 0x00110000"

definition ALLOC_MIN :: "arch \<Rightarrow> u64" where
  "ALLOC_MIN a = (case a of AArch64 \<Rightarrow> AARCH64_RAM_BASE + 0x14000000 | X86_64 \<Rightarrow> 0x1C00000)"

definition ALLOC_MAX :: "arch \<Rightarrow> u64" where
  "ALLOC_MAX a = (case a of AArch64 \<Rightarrow> AARCH64_RAM_BASE + 0x18000000 | X86_64 \<Rightarrow> CORE_REGION_BASE X86_64)"

text \<open>The base of the region of an additional core, as \<open>smp_x86_64.c\<close> and
  \<open>smp_aarch64.c\<close> compute it from the core's region index.\<close>

definition core_region :: "arch \<Rightarrow> u64 \<Rightarrow> u64" where
  "core_region a region_index = CORE_REGION_BASE a + region_index * CORE_REGION_SIZE"

lemmas layout_defs =
  AARCH64_RAM_BASE_def CORE_REGION_BASE_def CORE_REGION_SIZE_def CORE_KERNEL_OFFSET_def
  CORE_KERNEL_MAX_SIZE_def CORE_INIT_OFFSET_def CORE_INIT_MAX_SIZE_def CORE_STACK_OFFSET_def
  CORE_STACK_SIZE_def CORE_MAILBOX_OFFSET_def CORE_MAILBOX_SIZE_def CORE_DISCOVERY_OFFSET_def
  CORE_DISCOVERY_AP_CORE_STATE_OFF_def CORE_PGTABLE_OFFSET_def CORE_PGTABLE_PD_HI_OFF_def
  BSP_MAILBOX_REGION_BASE_def KERNEL_LOAD_BASE_def BSP_INIT_LOAD_BASE_def
  BOOT_ALLOCATOR_REGION_BASE_def BOOT_ALLOCATOR_REGION_SIZE_def ALLOC_MIN_def ALLOC_MAX_def

lemma alloc_window: "ALLOC_MIN a < ALLOC_MAX a"
  by (cases a) (simp_all add: layout_defs)

end
