(* ===== verification/Mem_Mgr.thy ===== *)
theory Mem_Mgr
  imports Capnp_Flat Smp_Layout "HOL-Library.Multiset"
begin

text \<open>
  The memory manager object of \<open>coreinit/mem_mgr.c\<close>: the ledger of claimed
  physical regions, the fixed-address claim, the first-fit allocator and the
  release, their handler, and the start-up claims.  A handler takes the lock of
  the ledger for the whole of its body, so a call is one step on the ledger.
\<close>

subsection \<open>State and operations\<close>

record claim_t =
  cl_base :: u64
  cl_size :: u64
  cl_kind :: u64
  cl_used :: bool

definition MAX_CLAIMS :: nat where "MAX_CLAIMS = 64"

definition MEM_KIND_MMIO :: u64 where "MEM_KIND_MMIO = 0"
definition MEM_KIND_KERNEL_RESERVED :: u64 where "MEM_KIND_KERNEL_RESERVED = 1"
definition MEM_KIND_CORE_REGION :: u64 where "MEM_KIND_CORE_REGION = 2"
definition MEM_KIND_JOB_SLICE :: u64 where "MEM_KIND_JOB_SLICE = 3"

text \<open>
  The ledger is the list of the first \<open>g_claim_count\<close> entries of \<open>g_claims\<close>;
  no entry past the count is ever read.
\<close>

type_synonym ledger = "claim_t list"

definition claim_overlaps :: "u64 \<Rightarrow> u64 \<Rightarrow> claim_t \<Rightarrow> bool" where
  "claim_overlaps start end c \<longleftrightarrow>
     cl_used c \<and> start < cl_base c + cl_size c \<and> cl_base c < end"

definition claim_locked :: "ledger \<Rightarrow> u64 \<Rightarrow> u64 \<Rightarrow> u64 \<Rightarrow> ledger \<times> bool" where
  "claim_locked g base sz kind =
    (let end = base + sz in
     if list_ex (claim_overlaps base end) g then (g, False)
     else if length g \<ge> MAX_CLAIMS then (g, False)
     else (g @ [\<lparr>cl_base = base, cl_size = sz, cl_kind = kind, cl_used = True\<rparr>], True))"

text \<open>The in-place selection sort of the candidate starts.\<close>

definition min_idx :: "u64 list \<Rightarrow> nat \<Rightarrow> nat" where
  "min_idx cs i = foldl (\<lambda>m j. if cs ! j < cs ! m then j else m) i [i + 1..<length cs]"

definition select_step :: "u64 list \<Rightarrow> nat \<Rightarrow> u64 list" where
  "select_step cs i = (let m = min_idx cs i in cs[i := cs ! m, m := cs ! i])"

definition selection_sort :: "u64 list \<Rightarrow> u64 list" where
  "selection_sort cs = foldl select_step cs [0..<length cs]"

definition alloc_candidates :: "arch \<Rightarrow> ledger \<Rightarrow> u64 list" where
  "alloc_candidates a g = ALLOC_MIN a # map (\<lambda>c. cl_base c + cl_size c) (filter cl_used g)"

fun alloc_scan :: "arch \<Rightarrow> ledger \<Rightarrow> u64 \<Rightarrow> u64 \<Rightarrow> u64 list \<Rightarrow> ledger \<times> u64 option" where
  "alloc_scan a g sz kind [] = (g, None)"
| "alloc_scan a g sz kind (cand # cs) =
    (let start = (if cand < ALLOC_MIN a then ALLOC_MIN a else cand);
         end = start + sz
     in if end > ALLOC_MAX a \<or> end < start then alloc_scan a g sz kind cs
        else if list_ex (claim_overlaps start end) g then alloc_scan a g sz kind cs
        else (case claim_locked g start sz kind of
                (g', True) \<Rightarrow> (g', Some start)
              | (g', False) \<Rightarrow> alloc_scan a g' sz kind cs))"

definition alloc_locked :: "arch \<Rightarrow> ledger \<Rightarrow> u64 \<Rightarrow> u64 \<Rightarrow> ledger \<times> u64 option" where
  "alloc_locked a g sz kind = alloc_scan a g sz kind (selection_sort (alloc_candidates a g))"

definition free_locked :: "ledger \<Rightarrow> u64 \<Rightarrow> ledger \<times> bool" where
  "free_locked g base =
    (case first_slot (\<lambda>c. cl_used c \<and> cl_base c = base) g of
       None \<Rightarrow> (g, False)
     | Some i \<Rightarrow> (g[i := (g ! i)\<lparr>cl_used := False\<rparr>], True))"

text \<open>
  The start-up claims.  \<open>phys\<close> gives the bytes found at a physical address; the
  results of the claims are ignored, as in the code.
\<close>

definition INIT_DESCRIPTION_MAGIC :: u64 where "INIT_DESCRIPTION_MAGIC = 0x494e495444455343"
definition BOOT_ALLOCATOR_MAGIC :: u64 where "BOOT_ALLOCATOR_MAGIC = 0x424f4f54414c4f43"

abbreviation claim_ignore :: "u64 \<Rightarrow> u64 \<Rightarrow> u64 \<Rightarrow> ledger \<Rightarrow> ledger" where
  "claim_ignore base sz kind g \<equiv> fst (claim_locked g base sz kind)"

definition boot_allocator_region :: "(u64 \<Rightarrow> bytes) \<Rightarrow> u64 option \<Rightarrow> (u64 \<times> u64) option" where
  "boot_allocator_region phys info =
    (case info of None \<Rightarrow> None
     | Some init_description_phys \<Rightarrow>
        if init_description_phys = 0 then None
        else let description = capnp_read_flat (phys init_description_phys) in
          if description ! 0 = INIT_DESCRIPTION_MAGIC \<and> description ! 1 \<noteq> 0 then
            let allocator = capnp_read_flat (phys (description ! 1)) in
            if allocator ! 0 = BOOT_ALLOCATOR_MAGIC \<and> allocator ! 3 \<noteq> 0 \<and> allocator ! 4 \<noteq> 0
            then Some (allocator ! 3, allocator ! 4)
            else None
          else None)"

definition claim_boot_allocator :: "(u64 \<Rightarrow> bytes) \<Rightarrow> u64 option \<Rightarrow> ledger \<Rightarrow> ledger" where
  "claim_boot_allocator phys info g =
    (case boot_allocator_region phys info of
       None \<Rightarrow> g
     | Some (region_base, region_len) \<Rightarrow>
         claim_ignore region_base region_len MEM_KIND_KERNEL_RESERVED g)"

definition memory_manager_init :: "arch \<Rightarrow> (u64 \<Rightarrow> bytes) \<Rightarrow> u64 option \<Rightarrow> ledger" where
  "memory_manager_init a phys info =
    (let g0 = [];
         g1 = (case a of
                 X86_64 \<Rightarrow> claim_ignore 0xFEC00000 0x1000 MEM_KIND_MMIO
                             (claim_ignore 0xFEE00000 0x1000 MEM_KIND_MMIO g0)
               | AArch64 \<Rightarrow> g0);
         g2 = claim_ignore (KERNEL_LOAD_BASE a) 0x400000 MEM_KIND_KERNEL_RESERVED g1;
         g3 = (case a of
                 AArch64 \<Rightarrow> claim_ignore (BSP_MAILBOX_REGION_BASE a + CORE_MAILBOX_OFFSET)
                              CORE_MAILBOX_SIZE MEM_KIND_KERNEL_RESERVED g2
               | X86_64 \<Rightarrow> claim_ignore 0x8000 0x1000 MEM_KIND_KERNEL_RESERVED g2);
         g4 = claim_boot_allocator phys info g3
     in claim_ignore (BSP_INIT_LOAD_BASE a) 0x400000 MEM_KIND_KERNEL_RESERVED g4)"

text \<open>Method ids of the \<open>MemoryManager\<close> interface in \<open>schemas/coreinit.capnp\<close>.\<close>

definition MEM_METHOD_CLAIM :: u32 where "MEM_METHOD_CLAIM = 0"
definition MEM_METHOD_ALLOC :: u32 where "MEM_METHOD_ALLOC = 1"
definition MEM_METHOD_FREE :: u32 where "MEM_METHOD_FREE = 2"

definition memory_manager_handler ::
  "arch \<Rightarrow> ledger \<Rightarrow> u32 \<Rightarrow> bytes \<Rightarrow> nat \<Rightarrow> ledger \<times> bytes" where
  "memory_manager_handler a g method_id msg response_cap =
    (let words = capnp_read_flat msg in
     if method_id = MEM_METHOD_ALLOC then
       (case alloc_locked a g (words ! 0) (words ! 1) of
          (g', Some base) \<Rightarrow> (g', capnp_build_flat response_cap [1, base] 2)
        | (g', None) \<Rightarrow> (g', capnp_build_flat response_cap [0, 0] 2))
     else if method_id = MEM_METHOD_FREE then
       (let (g', ok) = free_locked g (words ! 0)
        in (g', capnp_build_flat response_cap [if ok then 1 else 0] 1))
     else
       (let (g', ok) = claim_locked g (words ! 0) (words ! 1) (words ! 2)
        in (g', capnp_build_flat response_cap [if ok then 1 else 0] 1)))"

subsection \<open>The candidate sort\<close>

lemma min_idx_aux:
  fixes cs :: "u64 list"
  assumes "i < length cs" "k \<le> length cs"
  defines "m \<equiv> foldl (\<lambda>m j. if cs ! j < cs ! m then j else m) i [i + 1..<k]"
  shows "i \<le> m \<and> m < length cs \<and> (\<forall>j. i \<le> j \<and> j < max k (i + 1) \<longrightarrow> cs ! m \<le> cs ! j)"
  unfolding m_def using assms(1,2)
proof (induction k)
  case (Suc k)
  show ?case
  proof (cases "i + 1 \<le> k")
    case True
    let ?m = "foldl (\<lambda>m j. if cs ! j < cs ! m then j else m) i [i + 1..<k]"
    have IH: "i \<le> ?m \<and> ?m < length cs \<and> (\<forall>j. i \<le> j \<and> j < k \<longrightarrow> cs ! ?m \<le> cs ! j)"
      using Suc True by (simp add: max_def)
    have f: "[i + 1..<Suc k] = [i + 1..<k] @ [k]" using True by simp
    show ?thesis
      unfolding f using IH True Suc.prems
      by (auto simp: max_def less_Suc_eq intro: order.trans less_imp_le)
  qed (use Suc.prems in \<open>auto simp: le_less_Suc_eq\<close>)
qed (auto simp: le_less_Suc_eq)

lemma min_idx_props:
  assumes "i < length cs"
  shows "i \<le> min_idx cs i" "min_idx cs i < length cs"
    "\<And>j. i \<le> j \<Longrightarrow> j < length cs \<Longrightarrow> cs ! min_idx cs i \<le> cs ! j"
  using min_idx_aux [OF assms order.refl] by (auto simp: min_idx_def)

lemma length_select_step [simp]: "length (select_step cs i) = length cs"
  by (simp add: select_step_def Let_def)

lemma mset_select_step: "i < length cs \<Longrightarrow> mset (select_step cs i) = mset cs"
  using min_idx_props(2) [of i cs] by (simp add: select_step_def Let_def mset_swap)

lemma selection_prefix:
  "k \<le> length cs \<Longrightarrow>
    let xs = foldl select_step cs [0..<k] in
      length xs = length cs \<and> mset xs = mset cs \<and>
      (\<forall>a b. a < k \<longrightarrow> a < b \<longrightarrow> b < length cs \<longrightarrow> xs ! a \<le> xs ! b)"
proof (induction k)
  case (Suc k)
  define ys where "ys = foldl select_step cs [0..<k]"
  have IH: "length ys = length cs" "mset ys = mset cs"
    "\<And>a b. a < k \<Longrightarrow> a < b \<Longrightarrow> b < length cs \<Longrightarrow> ys ! a \<le> ys ! b"
    using Suc by (simp_all add: Let_def ys_def)
  define m where "m = min_idx ys k"
  have k: "k < length ys" using Suc.prems IH by simp
  note mp = min_idx_props [OF k, folded m_def]
  have st: "select_step ys k = ys[k := ys ! m, m := ys ! k]"
    by (simp add: select_step_def Let_def m_def)
  have "select_step ys k ! a \<le> select_step ys k ! b"
    if ab: "a < Suc k" "a < b" "b < length cs" for a b
  proof (cases "a < k")
    case True
    then have a: "select_step ys k ! a = ys ! a" using mp by (simp add: st)
    have "select_step ys k ! b \<in> {ys ! b, ys ! m, ys ! k}"
      using k mp(2) ab IH(1) by (simp add: st nth_list_update)
    then show ?thesis using a IH(3) [of a b] IH(3) [of a m] IH(3) [of a k] True ab mp k IH(1)
      by auto
  next
    case False
    then have [simp]: "a = k" using ab by simp
    have a: "select_step ys k ! k = ys ! m"
      using mp(2) k by (simp add: st nth_list_update)
    have "select_step ys k ! b \<in> {ys ! b, ys ! k}"
      using k mp(2) ab IH(1) by (simp add: st nth_list_update)
    then show ?thesis using a mp(3) [of b] mp(3) [of k] k ab IH(1) by auto
  qed
  then show ?case
    using IH k by (simp add: Let_def ys_def [symmetric] mset_select_step)
qed simp

lemma selection_sort_sorted: "sorted (selection_sort cs)"
  and mset_selection_sort: "mset (selection_sort cs) = mset cs"
  using selection_prefix [of "length cs" cs]
  by (auto simp: selection_sort_def Let_def sorted_iff_nth_mono_less)

lemma selection_sort_correct: "selection_sort cs = sort cs"
  by (metis selection_sort_sorted mset_selection_sort properties_for_sort)


subsection \<open>First fit\<close>

definition new_claim :: "u64 \<Rightarrow> u64 \<Rightarrow> u64 \<Rightarrow> claim_t" where
  "new_claim base sz kind = \<lparr>cl_base = base, cl_size = sz, cl_kind = kind, cl_used = True\<rparr>"

definition fits :: "arch \<Rightarrow> ledger \<Rightarrow> u64 \<Rightarrow> u64 \<Rightarrow> bool" where
  "fits a g sz s \<longleftrightarrow> ALLOC_MIN a \<le> s \<and> s \<le> s + sz \<and> s + sz \<le> ALLOC_MAX a
     \<and> \<not> list_ex (claim_overlaps s (s + sz)) g"

lemma claim_locked_alt:
  "claim_locked g base sz kind =
    (if list_ex (claim_overlaps base (base + sz)) g \<or> MAX_CLAIMS \<le> length g
     then (g, False) else (g @ [new_claim base sz kind], True))"
  by (simp add: claim_locked_def new_claim_def Let_def)

lemma alloc_scan_full:
  "MAX_CLAIMS \<le> length g \<Longrightarrow> alloc_scan a g sz kind cs = (g, None)"
  by (induction cs) (simp_all add: Let_def claim_locked_alt)

lemma alloc_scan_find:
  "length g < MAX_CLAIMS \<Longrightarrow>
   alloc_scan a g sz kind cs =
    (case find (fits a g sz) (map (max (ALLOC_MIN a)) cs) of
       None \<Rightarrow> (g, None)
     | Some s \<Rightarrow> (g @ [new_claim s sz kind], Some s))"
proof (induction cs)
  case (Cons c cs)
  let ?s = "max (ALLOC_MIN a) c"
  have s: "(if c < ALLOC_MIN a then ALLOC_MIN a else c) = ?s"
    by (auto simp: max_def)
  have f: "fits a g sz ?s \<longleftrightarrow>
      \<not> (?s + sz > ALLOC_MAX a \<or> ?s + sz < ?s) \<and> \<not> list_ex (claim_overlaps ?s (?s + sz)) g"
    by (auto simp: fits_def not_less)
  show ?case
    using Cons by (simp add: Let_def s f claim_locked_alt)
qed simp

lemma find_sorted_least:
  assumes "sorted xs" "find P xs = Some x"
  shows "x \<in> set xs" "P x" "\<And>y. y \<in> set xs \<Longrightarrow> P y \<Longrightarrow> x \<le> y"
proof -
  from assms(2) obtain i where i: "i < length xs" "P (xs ! i)" "x = xs ! i"
    "\<And>j. j < i \<Longrightarrow> \<not> P (xs ! j)"
    by (auto simp: find_Some_iff)
  then show "x \<in> set xs" "P x" by auto
  show "x \<le> y" if "y \<in> set xs" "P y" for y
  proof -
    obtain j where j: "j < length xs" "y = xs ! j" using \<open>y \<in> set xs\<close> by (auto simp: in_set_conv_nth)
    then have "i \<le> j" using i(4) that(2) by (meson not_less)
    then show ?thesis using assms(1) i j by (simp add: sorted_nth_mono)
  qed
qed

text \<open>
  Every placement that fits has a candidate start at or below it that fits too:
  the greatest end of a live claim not beyond it, or the start of the window.
\<close>

lemma fits_candidate:
  assumes "fits a g sz s"
  shows "\<exists>c \<in> set (alloc_candidates a g). max (ALLOC_MIN a) c \<le> s \<and> fits a g sz (max (ALLOC_MIN a) c)"
proof -
  define C where "C = {c \<in> set (alloc_candidates a g). c \<le> s}"
  have s: "ALLOC_MIN a \<le> s" "s \<le> s + sz" "s + sz \<le> ALLOC_MAX a"
    and no: "\<And>c. c \<in> set g \<Longrightarrow> \<not> claim_overlaps s (s + sz) c"
    using assms by (auto simp: fits_def list_ex_iff)
  have C: "finite C" "ALLOC_MIN a \<in> C" using s(1) by (simp_all add: C_def alloc_candidates_def)
  define c where "c = Max C"
  have c: "c \<in> C" "\<And>d. d \<in> C \<Longrightarrow> d \<le> c" 
    unfolding c_def using C by (auto intro: Max_in Max_ge)
  then have cs: "c \<le> s" "ALLOC_MIN a \<le> c" "c \<in> set (alloc_candidates a g)"
    using C(2) by (simp_all add: C_def)
  have "unat c + unat sz \<le> unat s + unat sz" using cs by (simp add: word_le_nat_alt)
  also have "\<dots> = unat (s + sz)" using s(2) by (simp add: word_nat)
  finally have le: "unat c + unat sz \<le> unat (s + sz)" .
  then have csz: "unat (c + sz) = unat c + unat sz"
    by (intro no_wrap_if_lt) (use u64_unat_lt [of "s + sz"] in linarith)
  have "\<not> claim_overlaps c (c + sz) d" if d: "d \<in> set g" for d
  proof
    assume ov: "claim_overlaps c (c + sz) d"
    then have u: "cl_used d" "c < cl_base d + cl_size d" "cl_base d < c + sz"
      by (auto simp: claim_overlaps_def)
    have "cl_base d < s + sz" using u(3) csz le by (simp add: word_less_nat_alt)
    then have "cl_base d + cl_size d \<le> s" using no [OF d] u by (auto simp: claim_overlaps_def)
    then have "cl_base d + cl_size d \<in> C" using d u by (auto simp: C_def alloc_candidates_def)
    then show False using c(2) u(2) by (meson not_less)
  qed
  moreover have "c \<le> c + sz" "c + sz \<le> s + sz"
    unfolding word_le_nat_alt csz using le by simp_all
  ultimately have "fits a g sz c"
    using cs(2) s(3) by (auto simp: fits_def list_ex_iff intro: order.trans)
  moreover have "max (ALLOC_MIN a) c = c" using cs(2) by (rule max_absorb2)
  ultimately show ?thesis using cs(1,3) by (intro bexI [of _ c]) simp_all
qed

lemma alloc_locked_cases:
  assumes "alloc_locked a g sz kind = (g', r)"
  shows "(case r of
      None \<Rightarrow> g' = g \<and> (MAX_CLAIMS \<le> length g \<or> (\<forall>s. \<not> fits a g sz s))
    | Some b \<Rightarrow> g' = g @ [new_claim b sz kind] \<and> length g < MAX_CLAIMS \<and> fits a g sz b
        \<and> (\<forall>s. fits a g sz s \<longrightarrow> b \<le> s))"
proof (cases "MAX_CLAIMS \<le> length g")
  case True
  then show ?thesis using assms by (auto simp: alloc_locked_def alloc_scan_full)
next
  case False
  let ?xs = "map (max (ALLOC_MIN a)) (selection_sort (alloc_candidates a g))"
  have mono: "mono (max (ALLOC_MIN a))" by (intro monoI max.mono) simp_all
  have sorted: "sorted ?xs"
    by (rule sorted_map_mono [OF selection_sort_sorted]) (rule mono_on_subset [OF mono subset_UNIV])
  have set: "set ?xs = max (ALLOC_MIN a) ` set (alloc_candidates a g)"
    unfolding set_map selection_sort_correct set_sort ..
  have al: "alloc_locked a g sz kind = (case find (fits a g sz) ?xs of
       None \<Rightarrow> (g, None) | Some s \<Rightarrow> (g @ [new_claim s sz kind], Some s))"
    using False by (simp add: alloc_locked_def alloc_scan_find)
  show ?thesis
  proof (cases "find (fits a g sz) ?xs")
    case None
    then have "\<not> fits a g sz x" if "x \<in> max (ALLOC_MIN a) ` set (alloc_candidates a g)" for x
      using that unfolding find_None_iff set by blast
    then have "\<not> fits a g sz s" for s using fits_candidate [of a g sz s] by blast
    then show ?thesis using None al assms by auto
  next
    case (Some b)
    note D = find_sorted_least [OF sorted Some]
    have "b \<le> s" if s: "fits a g sz s" for s
    proof -
      obtain c where "c \<in> set (alloc_candidates a g)" "max (ALLOC_MIN a) c \<le> s"
        "fits a g sz (max (ALLOC_MIN a) c)"
        using fits_candidate [OF s] by blast
      then show ?thesis using D(3) [of "max (ALLOC_MIN a) c"] unfolding set
        by (meson imageI order.trans)
    qed
    then show ?thesis using D(2) al assms Some False by auto
  qed
qed


subsection \<open>The ledger as a set of disjoint regions\<close>

type_synonym region = "nat \<times> nat"

definition apart :: "region \<Rightarrow> region \<Rightarrow> bool" where
  "apart r q \<longleftrightarrow> fst r + snd r \<le> fst q \<or> fst q + snd q \<le> fst r"

lemma apart_sym: "apart r q \<longleftrightarrow> apart q r"
  by (auto simp: apart_def)

lemma apart_no_common_address:
  "apart r q \<Longrightarrow> {fst r..<fst r + snd r} \<inter> {fst q..<fst q + snd q} = {}"
  by (auto simp: apart_def)

text \<open>
  What a client of a region ledger relies on: the live regions never overlap, an
  allocation adds a region, a claim of a region that does not run past the top
  of the address space adds exactly that region or nothing, and a release takes
  one region with the given base away.
\<close>

locale region_ledger =
  fixes inv :: "'s \<Rightarrow> bool"
    and live :: "'s \<Rightarrow> region list"
    and alloc :: "'s \<Rightarrow> u64 \<Rightarrow> u64 \<Rightarrow> 's \<times> u64 option"
    and claim :: "'s \<Rightarrow> u64 \<Rightarrow> u64 \<Rightarrow> u64 \<Rightarrow> 's \<times> bool"
    and free :: "'s \<Rightarrow> u64 \<Rightarrow> 's \<times> bool"
  assumes inv_apart: "inv s \<Longrightarrow> sorted_wrt apart (live s)"
    and alloc_inv: "inv s \<Longrightarrow> inv (fst (alloc s sz k))"
    and alloc_live: "alloc s sz k = (s', Some b) \<Longrightarrow> live s' = live s @ [(unat b, unat sz)]"
    and alloc_none: "alloc s sz k = (s', None) \<Longrightarrow> s' = s"
    and claim_inv: "inv s \<Longrightarrow> b \<le> b + sz \<Longrightarrow> inv (fst (claim s b sz k))"
    and claim_live: "claim s b sz k = (s', True) \<Longrightarrow> live s' = live s @ [(unat b, unat sz)]"
    and claim_refused: "claim s b sz k = (s', False) \<Longrightarrow> s' = s"
    and free_inv: "inv s \<Longrightarrow> inv (fst (free s b))"
    and free_live: "free s b = (s', True) \<Longrightarrow>
          \<exists>xs n ys. live s = xs @ (unat b, n) # ys \<and> live s' = xs @ ys
            \<and> unat b \<notin> fst ` set xs"
    and free_refused: "free s b = (s', False) \<Longrightarrow> s' = s \<and> unat b \<notin> fst ` set (live s)"
begin

text \<open>A fresh allocation shares no address with a region that is already live.\<close>

lemma alloc_fresh:
  assumes "inv s" "alloc s sz k = (s', Some b)" "r \<in> set (live s)"
  shows "{unat b..<unat b + unat sz} \<inter> {fst r..<fst r + snd r} = {}"
proof -
  have "inv s'" using alloc_inv [OF assms(1), of sz k] assms(2) by simp
  then have "sorted_wrt apart (live s @ [(unat b, unat sz)])"
    using inv_apart alloc_live [OF assms(2)] by fastforce
  then have "apart r (unat b, unat sz)" using assms(3) by (simp add: sorted_wrt_append)
  from apart_no_common_address [OF this] show ?thesis by auto
qed

text \<open>Allocating and releasing again leaves the live regions as they were.\<close>

lemma alloc_free:
  assumes "inv s" "alloc s sz k = (s', Some b)" "\<forall>r \<in> set (live s). 0 < snd r" "0 < unat sz"
  shows "\<exists>s''. free s' b = (s'', True) \<and> live s'' = live s"
proof -
  have l': "live s' = live s @ [(unat b, unat sz)]" by (rule alloc_live [OF assms(2)])
  have "inv s'" using alloc_inv [OF assms(1), of sz k] assms(2) by simp
  then have d: "\<And>r. r \<in> set (live s) \<Longrightarrow> apart r (unat b, unat sz)"
    using inv_apart [of s'] by (simp add: l' sorted_wrt_append)
  have new: "unat b \<notin> fst ` set (live s)"
  proof
    assume "unat b \<in> fst ` set (live s)"
    then obtain r where r: "r \<in> set (live s)" "fst r = unat b" by force
    with d [OF r(1)] assms(3,4) show False by (auto simp: apart_def)
  qed
  obtain s'' ok where f: "free s' b = (s'', ok)" by fastforce
  have ok: "ok" using free_refused [of s' b s''] f l' by (cases ok) auto
  then obtain xs n ys where x: "live s' = xs @ (unat b, n) # ys" "live s'' = xs @ ys"
    "unat b \<notin> fst ` set xs"
    using free_live [of s' b s''] f by auto
  have eq: "live s @ [(unat b, unat sz)] = xs @ (unat b, n) # ys" using l' x(1) by simp
  have "ys = []"
  proof (rule ccontr)
    assume "ys \<noteq> []"
    then have "live s = xs @ (unat b, n) # butlast ys"
      using eq by (metis append_butlast_last_id append_Cons append_assoc append1_eq_conv)
    then show False using new by force
  qed
  then show ?thesis using eq x f ok by auto
qed

end


definition claim_region :: "claim_t \<Rightarrow> region" where
  "claim_region c = (unat (cl_base c), unat (cl_size c))"

definition live_regions :: "ledger \<Rightarrow> region list" where
  "live_regions g = map claim_region (filter cl_used g)"

definition no_wrap :: "claim_t \<Rightarrow> bool" where
  "no_wrap c \<longleftrightarrow> cl_base c \<le> cl_base c + cl_size c"

definition ledger_inv :: "ledger \<Rightarrow> bool" where
  "ledger_inv g \<longleftrightarrow> length g \<le> MAX_CLAIMS \<and> (\<forall>c \<in> set g. cl_used c \<longrightarrow> no_wrap c)
     \<and> sorted_wrt apart (live_regions g)"

lemma new_claim_sel [simp]:
  "cl_base (new_claim b sz k) = b" "cl_size (new_claim b sz k) = sz"
  "cl_kind (new_claim b sz k) = k" "cl_used (new_claim b sz k)"
  by (simp_all add: new_claim_def)

lemma live_regions_snoc [simp]:
  "live_regions (g @ [new_claim b sz k]) = live_regions g @ [(unat b, unat sz)]"
  by (simp add: live_regions_def claim_region_def)

lemma claim_overlaps_apart:
  assumes "cl_used c" "no_wrap c" "b \<le> b + sz"
  shows "claim_overlaps b (b + sz) c \<longleftrightarrow> \<not> apart (claim_region c) (unat b, unat sz)"
  using assms unat_plus_no_wrap [OF assms(3)] unat_plus_no_wrap [of "cl_base c" "cl_size c"]
  by (auto simp: claim_overlaps_def apart_def claim_region_def no_wrap_def word_less_nat_alt)

lemma ledger_inv_snoc:
  assumes "ledger_inv g" "length g < MAX_CLAIMS" "b \<le> b + sz"
    "\<not> list_ex (claim_overlaps b (b + sz)) g"
  shows "ledger_inv (g @ [new_claim b sz k])"
proof -
  have "apart r (unat b, unat sz)" if r: "r \<in> set (live_regions g)" for r
  proof -
    obtain c where c: "c \<in> set g" "cl_used c" "r = claim_region c"
      using r by (auto simp: live_regions_def)
    then have "no_wrap c" "\<not> claim_overlaps b (b + sz) c"
      using assms by (auto simp: ledger_inv_def list_ex_iff)
    then show ?thesis using claim_overlaps_apart [OF c(2) _ assms(3)] c(3) by simp
  qed
  then show ?thesis
    using assms by (auto simp: ledger_inv_def sorted_wrt_append no_wrap_def)
qed

lemma filter_update_drop:
  assumes "i < length xs" "P (xs ! i)" "\<not> P y"
  shows "filter P xs = filter P (take i xs) @ xs ! i # filter P (drop (Suc i) xs)"
    and "filter P (xs[i := y]) = filter P (take i xs) @ filter P (drop (Suc i) xs)"
proof -
  have "xs = take i xs @ xs ! i # drop (Suc i) xs" using assms(1) by (rule id_take_nth_drop)
  from arg_cong [OF this, of "filter P"] assms(2)
  show "filter P xs = filter P (take i xs) @ xs ! i # filter P (drop (Suc i) xs)" by simp
  show "filter P (xs[i := y]) = filter P (take i xs) @ filter P (drop (Suc i) xs)"
    using assms by (simp add: upd_conv_take_nth_drop)
qed

lemma free_locked_cases:
  assumes "free_locked g b = (g', ok)"
  shows "if ok then (\<exists>i < length g. cl_used (g ! i) \<and> cl_base (g ! i) = b
              \<and> (\<forall>j < i. \<not> (cl_used (g ! j) \<and> cl_base (g ! j) = b))
              \<and> g' = g[i := (g ! i)\<lparr>cl_used := False\<rparr>])
         else g' = g \<and> (\<forall>c \<in> set g. \<not> (cl_used c \<and> cl_base c = b))"
proof (cases "first_slot (\<lambda>c. cl_used c \<and> cl_base c = b) g")
  case None
  then have "\<forall>c \<in> set g. \<not> (cl_used c \<and> cl_base c = b)" by (simp only: first_slot_None)
  then show ?thesis using assms None by (auto simp: free_locked_def)
next
  case (Some i)
  note D = first_slot_SomeD [OF Some]
  have "g' = g[i := (g ! i)\<lparr>cl_used := False\<rparr>]" "ok"
    using assms Some by (auto simp: free_locked_def)
  then show ?thesis using D by (auto intro!: exI [of _ i])
qed

lemma free_locked_live:
  assumes "free_locked g b = (g', True)"
  shows "\<exists>xs n ys. live_regions g = xs @ (unat b, n) # ys \<and> live_regions g' = xs @ ys
            \<and> unat b \<notin> fst ` set xs"
proof -
  obtain i where i: "i < length g" "cl_used (g ! i)" "cl_base (g ! i) = b"
    and before: "\<And>j. j < i \<Longrightarrow> \<not> (cl_used (g ! j) \<and> cl_base (g ! j) = b)"
    and g': "g' = g[i := (g ! i)\<lparr>cl_used := False\<rparr>]"
    using free_locked_cases [OF assms] by auto
  let ?xs = "map claim_region (filter cl_used (take i g))"
  let ?ys = "map claim_region (filter cl_used (drop (Suc i) g))"
  have lg: "live_regions g = ?xs @ (unat b, unat (cl_size (g ! i))) # ?ys"
    unfolding live_regions_def using i
    by (subst filter_update_drop(1) [of i _ _ "(g ! i)\<lparr>cl_used := False\<rparr>"])
      (simp_all add: claim_region_def)
  have lg': "live_regions g' = ?xs @ ?ys"
    unfolding live_regions_def g' using i by (subst filter_update_drop(2)) simp_all
  have "unat b \<notin> fst ` set ?xs"
  proof
    assume "unat b \<in> fst ` set ?xs"
    then obtain c where c: "c \<in> set (take i g)" "cl_used c" "unat (cl_base c) = unat b"
      by (auto simp: claim_region_def)
    then obtain j where "j < i" "c = g ! j"
      using i(1) by (auto simp: in_set_conv_nth)
    then show False using before c by (metis word_unat_eq_iff)
  qed
  then show ?thesis using lg lg' by (intro exI [of _ ?xs] exI [of _ ?ys]) simp
qed

lemma free_locked_inv:
  assumes "ledger_inv g"
  shows "ledger_inv (fst (free_locked g b))"
proof -
  obtain g' ok where f: "free_locked g b = (g', ok)" by fastforce
  show ?thesis
  proof (cases ok)
    case True
    obtain xs n ys where x: "live_regions g = xs @ (unat b, n) # ys" "live_regions g' = xs @ ys"
      using free_locked_live [of g b g'] f True by auto
    obtain i where g': "g' = g[i := (g ! i)\<lparr>cl_used := False\<rparr>]"
      using free_locked_cases [OF f] True by auto
    have "\<forall>c \<in> set g'. cl_used c \<longrightarrow> no_wrap c"
      using assms by (auto simp: ledger_inv_def g' dest!: set_update_cases)
    moreover have "length g' = length g" by (simp add: g')
    ultimately show ?thesis
      using assms x f by (simp add: ledger_inv_def sorted_wrt_append)
  qed (use free_locked_cases [OF f] f assms in simp)
qed

interpretation mm: region_ledger ledger_inv live_regions "alloc_locked a" claim_locked free_locked for a
proof unfold_locales
  fix s :: ledger and sz k b :: u64 and s' :: ledger
  show "ledger_inv s \<Longrightarrow> sorted_wrt apart (live_regions s)" by (simp add: ledger_inv_def)
  show "ledger_inv s \<Longrightarrow> ledger_inv (fst (alloc_locked a s sz k))"
    using alloc_locked_cases [of a s sz k] ledger_inv_snoc
    by (cases "alloc_locked a s sz k") (auto simp: fits_def split: option.splits)
  show "alloc_locked a s sz k = (s', Some b) \<Longrightarrow> live_regions s' = live_regions s @ [(unat b, unat sz)]"
    by (auto dest: alloc_locked_cases)
  show "alloc_locked a s sz k = (s', None) \<Longrightarrow> s' = s" by (auto dest: alloc_locked_cases)
  show "ledger_inv s \<Longrightarrow> b \<le> b + sz \<Longrightarrow> ledger_inv (fst (claim_locked s b sz k))"
    using ledger_inv_snoc [of s b sz k] by (auto simp: claim_locked_alt)
  show "claim_locked s b sz k = (s', True) \<Longrightarrow> live_regions s' = live_regions s @ [(unat b, unat sz)]"
    by (auto simp: claim_locked_alt split: if_splits)
  show "claim_locked s b sz k = (s', False) \<Longrightarrow> s' = s"
    by (auto simp: claim_locked_alt split: if_splits)
  show "ledger_inv s \<Longrightarrow> ledger_inv (fst (free_locked s b))" by (rule free_locked_inv)
  show "free_locked s b = (s', True) \<Longrightarrow> \<exists>xs n ys. live_regions s = xs @ (unat b, n) # ys
      \<and> live_regions s' = xs @ ys \<and> unat b \<notin> fst ` set xs"
    by (rule free_locked_live)
  show "free_locked s b = (s', False) \<Longrightarrow> s' = s \<and> unat b \<notin> fst ` set (live_regions s)"
    by (drule free_locked_cases) (auto simp: live_regions_def claim_region_def word_unat_eq_iff)
qed


subsection \<open>Calls on the manager object\<close>

lemma mem_method_distinct [simp]:
  "MEM_METHOD_CLAIM \<noteq> MEM_METHOD_ALLOC" "MEM_METHOD_CLAIM \<noteq> MEM_METHOD_FREE"
  "MEM_METHOD_ALLOC \<noteq> MEM_METHOD_FREE" "MEM_METHOD_FREE \<noteq> MEM_METHOD_ALLOC"
  by (simp_all add: MEM_METHOD_CLAIM_def MEM_METHOD_ALLOC_def MEM_METHOD_FREE_def)

lemma handler_alloc [wire_simps]:
  assumes "capnp_read_flat msg = [sz, k]"
  shows "memory_manager_handler a g MEM_METHOD_ALLOC msg cap =
    (fst (alloc_locked a g sz k),
     capnp_build_flat cap (case snd (alloc_locked a g sz k) of
                             Some b \<Rightarrow> [1, b] | None \<Rightarrow> [0, 0]) 2)"
  using assms by (simp add: memory_manager_handler_def split: prod.splits option.splits)

lemma handler_free [wire_simps]:
  assumes "capnp_read_flat msg = [b]"
  shows "memory_manager_handler a g MEM_METHOD_FREE msg cap =
    (fst (free_locked g b), capnp_build_flat cap [if snd (free_locked g b) then 1 else 0] 1)"
  using assms by (simp add: memory_manager_handler_def split: prod.splits)

lemma handler_claim [wire_simps]:
  assumes "capnp_read_flat msg = [b, sz, k]"
  shows "memory_manager_handler a g MEM_METHOD_CLAIM msg cap =
    (fst (claim_locked g b sz k), capnp_build_flat cap [if snd (claim_locked g b sz k) then 1 else 0] 1)"
  using assms by (simp add: memory_manager_handler_def split: prod.splits)

text \<open>
  A request whose region, for the fixed-address claim, does not run past the top
  of the address space.
\<close>

definition request_in_range :: "u32 \<Rightarrow> bytes \<Rightarrow> bool" where
  "request_in_range m msg \<longleftrightarrow> m = MEM_METHOD_ALLOC \<or> m = MEM_METHOD_FREE
     \<or> capnp_read_flat msg ! 0 \<le> capnp_read_flat msg ! 0 + capnp_read_flat msg ! 1"

inductive mm_reach :: "arch \<Rightarrow> ledger \<Rightarrow> ledger \<Rightarrow> bool" for a g0 where
  start: "mm_reach a g0 g0"
| call: "mm_reach a g0 g \<Longrightarrow> request_in_range m msg \<Longrightarrow>
    mm_reach a g0 (fst (memory_manager_handler a g m msg cap))"

lemma handler_ledger_cases:
  "fst (memory_manager_handler a g m msg cap) =
    (let w = capnp_read_flat msg in
     if m = MEM_METHOD_ALLOC then fst (alloc_locked a g (w ! 0) (w ! 1))
     else if m = MEM_METHOD_FREE then fst (free_locked g (w ! 0))
     else fst (claim_locked g (w ! 0) (w ! 1) (w ! 2)))"
  by (auto simp: memory_manager_handler_def Let_def split: prod.splits option.splits)

lemma handler_inv:
  assumes "ledger_inv g" "request_in_range m msg"
  shows "ledger_inv (fst (memory_manager_handler a g m msg cap))"
  using assms mm.alloc_inv mm.claim_inv mm.free_inv
  by (auto simp: handler_ledger_cases Let_def request_in_range_def)

lemma mm_reach_inv: "mm_reach a g0 g \<Longrightarrow> ledger_inv g0 \<Longrightarrow> ledger_inv g"
  by (induction rule: mm_reach.induct) (auto intro: handler_inv)

lemma ledger_length_mono: "length g \<le> length (fst (memory_manager_handler a g m msg cap))"
proof -
  have "length g \<le> length (fst (alloc_locked a g sz k))" for sz k
    using alloc_locked_cases [of a g sz k]
    by (cases "alloc_locked a g sz k") (auto split: option.splits)
  moreover have "length (fst (free_locked g b)) = length g" for b
    by (simp add: free_locked_def split: option.splits)
  moreover have "length g \<le> length (fst (claim_locked g b sz k))" for b sz k
    by (simp add: claim_locked_alt)
  ultimately show ?thesis by (simp add: handler_ledger_cases Let_def)
qed

lemma mm_reach_length: "mm_reach a g0 g \<Longrightarrow> length g0 \<le> length g"
  by (induction rule: mm_reach.induct) (auto intro: order.trans ledger_length_mono)

lemma init_inv:
  assumes "\<And>b len. boot_allocator_region phys info = Some (b, len) \<Longrightarrow> b \<le> b + len"
  shows "ledger_inv (memory_manager_init a phys info)"
proof -
  have e: "ledger_inv []" by (simp add: ledger_inv_def live_regions_def)
  have boot: "ledger_inv (claim_boot_allocator phys info g)" if "ledger_inv g" for g
    using that assms mm.claim_inv
    by (auto simp: claim_boot_allocator_def split: option.splits prod.splits)
  note cl = mm.claim_inv [simplified]
  show ?thesis
    by (cases a)
      (auto simp: memory_manager_init_def Let_def layout_defs intro!: cl boot e)
qed

text \<open>Overlap with the ledger depends on its live regions only.\<close>

lemma overlap_live_regions:
  "list_ex (claim_overlaps s e) g \<longleftrightarrow>
   (\<exists>r \<in> set (live_regions g). s < of_nat (fst r) + of_nat (snd r) \<and> of_nat (fst r) < e)"
  by (auto simp: list_ex_iff claim_overlaps_def live_regions_def claim_region_def)

lemma fits_live_regions:
  "live_regions g = live_regions g' \<Longrightarrow> fits a g = fits a g'"
  by (intro ext) (simp add: fits_def overlap_live_regions)


subsection \<open>Properties\<close>

text \<open>
  C16: The allocator is exactly first fit over the whole window.  For every ledger and
  every size, \<open>alloc_locked\<close> returns the least address of the allocatable window at
  which a region of that size overlaps no live claim, and records it; it fails, and
  leaves the ledger alone, only when the table is full or no such address exists.
\<close>

theorem alloc_locked_first_fit:
  "alloc_locked a g sz kind =
    (if length g < MAX_CLAIMS \<and> (\<exists>s. fits a g sz s)
     then (g @ [\<lparr>cl_base = (LEAST s. fits a g sz s), cl_size = sz, cl_kind = kind, cl_used = True\<rparr>],
           Some (LEAST s. fits a g sz s))
     else (g, None))"
proof -
  obtain g' r where al: "alloc_locked a g sz kind = (g', r)" by fastforce
  note C = alloc_locked_cases [OF al]
  show ?thesis
  proof (cases r)
    case None
    then show ?thesis using C al by (auto simp: not_less)
  next
    case (Some b)
    then have "(LEAST s. fits a g sz s) = b"
      using C by (auto intro: Least_equality)
    then show ?thesis using C al Some by (auto simp: new_claim_def)
  qed
qed



text \<open>
  A released region is available again.  Allocating, releasing the address that was
  returned and allocating the same size once more succeeds and returns the same address,
  as long as the table has a slot left; the release itself always succeeds.
\<close>

theorem alloc_free_alloc_same_base:
  assumes "ledger_inv g" and "\<forall>r \<in> set (live_regions g). 0 < snd r" and "sz \<noteq> 0"
    and "alloc_locked a g sz kind = (g1, Some b)"
    and "length g1 < MAX_CLAIMS"
  shows "snd (free_locked g1 b) \<and> snd (alloc_locked a (fst (free_locked g1 b)) sz kind') = Some b"
proof -
  have "0 < unat sz" using assms(3) by (simp add: unat_gt_0)
  then obtain g2 where g2: "free_locked g1 b = (g2, True)" "live_regions g2 = live_regions g"
    using mm.alloc_free [OF assms(1,4,2)] by auto
  have fit: "fits a g2 = fits a g" using g2(2) by (rule fits_live_regions)
  have b: "fits a g sz b" "\<And>s. fits a g sz s \<Longrightarrow> b \<le> s"
    using alloc_locked_cases [OF assms(4)] by auto
  have len: "length g2 < MAX_CLAIMS"
    using g2(1) assms(5) by (auto simp: free_locked_def split: option.splits)
  obtain g3 r where al: "alloc_locked a g2 sz kind' = (g3, r)" by fastforce
  have "r = Some b"
    using alloc_locked_cases [OF al] len b
    by (auto simp: fit split: option.splits intro: antisym)
  then show ?thesis using g2 al by simp
qed

theorem alloc_free_alloc_same_base_witness:
  "snd (alloc_locked AArch64 (fst (free_locked (fst (alloc_locked AArch64 [] 0x2000 3)) 0x54000000)) 0x2000 2)
    = Some 0x54000000"
proof -
  have "alloc_locked AArch64 [] 0x2000 3 =
      ([\<lparr>cl_base = 0x54000000, cl_size = 0x2000, cl_kind = 3, cl_used = True\<rparr>], Some 0x54000000)"
    by code_simp
  then show ?thesis
    using alloc_free_alloc_same_base [of "[]" "0x2000" AArch64 3 _ "0x54000000" 2]
    by (simp add: ledger_inv_def live_regions_def MAX_CLAIMS_def)
qed

text \<open>
  The table is used up for good.  A slot of the ledger is never taken back, so once
  \<open>MAX_CLAIMS\<close> claims have been recorded, every later allocation of any size fails,
  also when every one of those claims has been released.
\<close>

theorem exhausted_ledger_never_recovers:
  assumes "mm_reach a g0 g" and "length g0 = MAX_CLAIMS"
  shows "alloc_locked a g sz kind = (g, None)"
  using mm_reach_length [OF assms(1)] assms(2) by (simp add: alloc_locked_def alloc_scan_full)

theorem exhausted_ledger_never_recovers_witness:
  "alloc_locked X86_64 (replicate 64 \<lparr>cl_base = 0, cl_size = 0, cl_kind = 0, cl_used = False\<rparr>) 0x1000 3
    = (replicate 64 \<lparr>cl_base = 0, cl_size = 0, cl_kind = 0, cl_used = False\<rparr>, None)"
  by (rule exhausted_ledger_never_recovers [OF mm_reach.start]) (simp add: MAX_CLAIMS_def)

text \<open>
  A claim whose end wraps past the top of the address space defeats the overlap
  test.  On the start-up ledger of the x86 target, a claim that starts inside the kernel
  image and is long enough to wrap is accepted, although it shares addresses with the
  region the kernel image holds.
\<close>

theorem wrapping_claim_is_accepted:
  "let g = memory_manager_init X86_64 (\<lambda>_. []) None;
       base = 0x1100000; sz = 0xFFFFFFFFFEF00001;
       (g', ok) = claim_locked g base sz MEM_KIND_CORE_REGION
   in ok \<and> (\<exists>c \<in> set g. cl_used c \<and> cl_base c = KERNEL_LOAD_BASE X86_64 \<and>
        unat base \<in> {unat (cl_base c)..<unat (cl_base c) + unat (cl_size c)})"
proof -
  have g: "memory_manager_init X86_64 (\<lambda>_. []) None =
    [\<lparr>cl_base = 0xFEE00000, cl_size = 0x1000, cl_kind = 0, cl_used = True\<rparr>,
     \<lparr>cl_base = 0xFEC00000, cl_size = 0x1000, cl_kind = 0, cl_used = True\<rparr>,
     \<lparr>cl_base = 0x1000000, cl_size = 0x400000, cl_kind = 1, cl_used = True\<rparr>,
     \<lparr>cl_base = 0x8000, cl_size = 0x1000, cl_kind = 1, cl_used = True\<rparr>,
     \<lparr>cl_base = 0x1800000, cl_size = 0x400000, cl_kind = 1, cl_used = True\<rparr>]"
    by code_simp
  show ?thesis unfolding g
    by (simp add: Let_def claim_locked_def claim_overlaps_def MAX_CLAIMS_def layout_defs)
qed


end
