(* ===== verification/Cluster_State.thy ===== *)
theory Cluster_State
  imports Mem_Mgr
begin

text \<open>
  The data of \<open>coreinit/cluster_scheduler.c\<close>: the structs of the four kinds of
  object the scheduler creates (resources, nodes, mutexes, jobs), the handlers of
  those objects as functions of one object's data, and the record of the file's
  static variables.  C's \<open>int\<close> fields are integers read through \<open>c_int\<close>; the
  enums are 32-bit words, as the casts of the code make them.
\<close>

subsection \<open>Constants\<close>

definition MAX_NODES :: nat where "MAX_NODES = 16"
definition MAX_ALLOC_RECORDS :: nat where "MAX_ALLOC_RECORDS = 32"
definition MAX_MUTEXES :: nat where "MAX_MUTEXES = 8"
definition JOB_POOL_SIZE :: nat where "JOB_POOL_SIZE = 32"
definition RESOURCE_POOL_SIZE :: nat where "RESOURCE_POOL_SIZE = 128"

definition NODE_AFFINITY_ANY :: u64 where "NODE_AFFINITY_ANY = 0xFFFFFFFFFFFFFFFF"
definition RESOURCE_KIND_NONE :: u64 where "RESOURCE_KIND_NONE = 0xFFFFFFFFFFFFFFFF"
definition RESOURCE_KIND_MEMORY :: u64 where "RESOURCE_KIND_MEMORY = 0"
definition RESOURCE_KIND_CPU_CORE :: u64 where "RESOURCE_KIND_CPU_CORE = 1"
definition RESOURCE_KIND_PERIPHERAL :: u64 where "RESOURCE_KIND_PERIPHERAL = 2"
definition RESOURCE_KIND_MMU :: u64 where "RESOURCE_KIND_MMU = 3"
definition RESOURCE_SYNC_TRANSFER :: u64 where "RESOURCE_SYNC_TRANSFER = 0"
definition RESOURCE_SYNC_STREAM :: u64 where "RESOURCE_SYNC_STREAM = 1"
definition RESOURCE_SYNC_COW :: u64 where "RESOURCE_SYNC_COW = 2"
definition ALLOCATOR_MUTEX_ID :: int where "ALLOCATOR_MUTEX_ID = 0"

definition BLOCK_NONE :: u32 where "BLOCK_NONE = 0"
definition BLOCK_MUTEX :: u32 where "BLOCK_MUTEX = 1"
definition BLOCK_JOB :: u32 where "BLOCK_JOB = 2"

text \<open>The job results of \<open>coreinit/scheduler.h\<close>.\<close>

definition JOB_RUNNING :: u32 where "JOB_RUNNING = 0"
definition JOB_FINISHED :: u32 where "JOB_FINISHED = 1"
definition JOB_BLOCKED_ON_MUTEX :: u32 where "JOB_BLOCKED_ON_MUTEX = 2"
definition JOB_BLOCKED_ON_JOB :: u32 where "JOB_BLOCKED_ON_JOB = 3"

text \<open>Method ids of the object interfaces in \<open>schemas/coreinit.capnp\<close>.\<close>

definition RESOURCE_METHOD_GET_INFO :: u32 where "RESOURCE_METHOD_GET_INFO = 0"
definition RESOURCE_METHOD_RESERVE :: u32 where "RESOURCE_METHOD_RESERVE = 1"
definition RESOURCE_METHOD_RELEASE_RESERVATION :: u32 where "RESOURCE_METHOD_RELEASE_RESERVATION = 2"
definition RESOURCE_METHOD_REASSIGN :: u32 where "RESOURCE_METHOD_REASSIGN = 3"
definition NODE_METHOD_GET_INFO :: u32 where "NODE_METHOD_GET_INFO = 0"
definition NODE_METHOD_SIGNAL :: u32 where "NODE_METHOD_SIGNAL = 1"
definition MUTEX_METHOD_TRY_LOCK :: u32 where "MUTEX_METHOD_TRY_LOCK = 0"
definition MUTEX_METHOD_UNLOCK :: u32 where "MUTEX_METHOD_UNLOCK = 1"
definition JOB_METHOD_GET_INFO :: u32 where "JOB_METHOD_GET_INFO = 0"
definition JOB_METHOD_UPDATE_SCHEDULING_STATE :: u32 where "JOB_METHOD_UPDATE_SCHEDULING_STATE = 1"

text \<open>The C cast \<open>(int)w\<close> of a 64-bit word, and back with sign extension.\<close>

definition c_int :: "u64 \<Rightarrow> int" where "c_int w = sint (ucast w :: 32 word)"
definition c_u64 :: "int \<Rightarrow> u64" where "c_u64 i = word_of_int i"

text \<open>A response of plain words: the bytes written, none if the buffer is too small.\<close>

abbreviation reply :: "nat \<Rightarrow> u64 list \<Rightarrow> bytes" where
  "reply response_cap ws \<equiv> capnp_build_flat response_cap ws (of_nat (length ws))"

subsection \<open>Object data and object handlers\<close>

record alloc_entry_t =
  al_node_id :: u64
  al_base :: u64
  al_size :: u64
  al_kind :: u64
  al_used :: bool

record resource_data_t =
  owner_node :: u64
  kind :: u64
  descriptor :: u64
  capacity :: u64
  reserved_by :: u64
  sync_kind :: u64

definition resource_handler ::
  "resource_data_t \<Rightarrow> u32 \<Rightarrow> bytes \<Rightarrow> nat \<Rightarrow> resource_data_t \<times> bytes" where
  "resource_handler r method_id msg response_cap =
    (let words = capnp_read_flat msg in
     if method_id = RESOURCE_METHOD_GET_INFO then
       (r, reply response_cap [owner_node r, kind r, descriptor r, capacity r, sync_kind r, reserved_by r])
     else if method_id = RESOURCE_METHOD_RESERVE then
       (let requesting_job = words ! 0 in
        if reserved_by r = requesting_job then (r, reply response_cap [1])
        else if reserved_by r = 0 then (r\<lparr>reserved_by := requesting_job\<rparr>, reply response_cap [1])
        else (r, reply response_cap [0]))
     else if method_id = RESOURCE_METHOD_RELEASE_RESERVATION then
       (let requesting_job = words ! 0 in
        if reserved_by r = requesting_job then (r\<lparr>reserved_by := 0\<rparr>, reply response_cap [1])
        else (r, reply response_cap [0]))
     else if method_id = RESOURCE_METHOD_REASSIGN then
       (let new_owner_node = words ! 0 in
        if reserved_by r = 0 then (r\<lparr>owner_node := new_owner_node\<rparr>, reply response_cap [1])
        else (r, reply response_cap [0]))
     else (r, []))"

record node_data_t =
  nd_node_id :: u64
  nd_arch :: u64
  nd_signal_target :: u64

text \<open>The second component is the targets handed to \<open>cross_core_signal_send\<close>.\<close>

definition node_handler :: "node_data_t \<Rightarrow> u32 \<Rightarrow> nat \<Rightarrow> bytes \<times> u64 list" where
  "node_handler n method_id response_cap =
    (if method_id = NODE_METHOD_GET_INFO then (reply response_cap [nd_node_id n, nd_arch n], [])
     else if method_id = NODE_METHOD_SIGNAL then ([], [nd_signal_target n])
     else ([], []))"

record mutex_data_t =
  mx_locked :: bool
  mx_holder :: u64

definition mutex_handler ::
  "mutex_data_t \<Rightarrow> u32 \<Rightarrow> bytes \<Rightarrow> nat \<Rightarrow> mutex_data_t \<times> bytes" where
  "mutex_handler m method_id msg response_cap =
    (let words = capnp_read_flat msg in
     if method_id = MUTEX_METHOD_TRY_LOCK then
       (if \<not> mx_locked m
        then (\<lparr>mx_locked = True, mx_holder = words ! 0\<rparr>, reply response_cap [1, words ! 0])
        else (m, reply response_cap [0, mx_holder m]))
     else if method_id = MUTEX_METHOD_UNLOCK then
       (if mx_locked m \<and> mx_holder m = words ! 0
        then (m\<lparr>mx_locked := False\<rparr>, reply response_cap [1])
        else (m, reply response_cap [0]))
     else (m, []))"

record job_data_t =
  jb_type :: u32
  arg0 :: u64
  arg1 :: u64
  base_priority :: int
  effective_priority :: int
  node_affinity :: u64
  assigned_node :: u64
  resource_id :: u64
  resource_kind :: u64
  resource_min_capacity :: u64
  bound_resource_id :: u64
  blocked :: int
  block_kind :: u32
  block_id :: u64
  dispatched :: bool

definition job_handler :: "job_data_t \<Rightarrow> u32 \<Rightarrow> bytes \<Rightarrow> nat \<Rightarrow> job_data_t \<times> bytes" where
  "job_handler j method_id msg response_cap =
    (let words = capnp_read_flat msg in
     if method_id = JOB_METHOD_GET_INFO then
       (j, reply response_cap
             [ucast (jb_type j), arg0 j, arg1 j, c_u64 (base_priority j), c_u64 (effective_priority j),
              node_affinity j, assigned_node j, resource_id j, resource_kind j,
              resource_min_capacity j, bound_resource_id j, c_u64 (blocked j),
              ucast (block_kind j), block_id j])
     else if method_id = JOB_METHOD_UPDATE_SCHEDULING_STATE then
       (j\<lparr>assigned_node := words ! 0, bound_resource_id := words ! 1, blocked := c_int (words ! 2),
          block_kind := ucast (words ! 3), block_id := words ! 4,
          effective_priority := c_int (words ! 5)\<rparr>,
        reply response_cap [1])
     else (j, []))"

record completion_t =
  cp_job_handle :: u64
  cp_value :: u64
  cp_used :: bool

record resource_index_entry_t =
  rx_handle :: u64
  rx_kind :: u64
  rx_used :: bool

record node_index_entry_t =
  nx_handle :: u64
  nx_node_id :: u64
  nx_used :: bool

text \<open>
  One slot of the job pool: the entries with one index of the arrays
  \<open>g_job_storage_used\<close>, \<open>g_job_handles\<close> and \<open>g_job_storage\<close>.
\<close>

record job_slot =
  js_used :: bool
  js_handle :: u64
  js_data :: job_data_t

end
