(* ===== verification/Cluster_Objects.thy ===== *)
theory Cluster_Objects
  imports Cluster_State
begin

text \<open>
  The scheduler's object layer: the kernel as an argument, \<open>kernel_invoke\<close> on the
  objects of this image, the creation and destruction of resource, node, mutex and
  job objects, and the helpers that call a resource object through its handle.

  The kernel itself (the capability table, the factory object, the message
  validator) is not part of the repository.  It enters as a record of functions on
  a state of unknown type, and \<open>kernel_laws\<close> states what the sources document
  of it: a created object is reachable under a fresh non-zero handle, handles are
  never reused, a destroyed handle reaches nothing, messages of the shape the
  interface file declares are let through, and a request with fewer data words than
  the interface declares is refused before it reaches a handler.
\<close>

subsection \<open>Objects and the kernel\<close>

text \<open>
  An object is named by its handler and its data: the storage slot behind the data
  pointer given at creation.
\<close>

datatype obj =
    OResource nat
  | ONode nat
  | OMutex nat
  | OJob nat
  | OMemoryManager

record 'k platform =
  p_arch :: arch
  k_create :: "'k \<Rightarrow> obj \<Rightarrow> 'k \<times> u64"
  k_destroy :: "'k \<Rightarrow> u64 \<Rightarrow> 'k"
  k_object :: "'k \<Rightarrow> u64 \<Rightarrow> obj option"
  k_issued :: "'k \<Rightarrow> u64 \<Rightarrow> bool"
  k_request_ok :: "obj \<Rightarrow> u32 \<Rightarrow> bytes \<Rightarrow> bool"
  k_result_ok :: "obj \<Rightarrow> u32 \<Rightarrow> bytes \<Rightarrow> bool"

text \<open>
  The number of request and result words of each method, from
  \<open>schemas/coreinit.capnp\<close>; no entry for a method the interface does not have.
\<close>

definition request_words :: "obj \<Rightarrow> u32 \<Rightarrow> nat option" where
  "request_words ob m =
    (case ob of
       OResource _ \<Rightarrow> if m \<le> 3 then Some 1 else None
     | ONode _ \<Rightarrow> if m \<le> 1 then Some 1 else None
     | OMutex _ \<Rightarrow> if m \<le> 1 then Some 1 else None
     | OJob _ \<Rightarrow> if m = 0 then Some 1 else if m = 1 then Some 6 else None
     | OMemoryManager \<Rightarrow> if m = 0 then Some 3 else if m = 1 then Some 2
                         else if m = 2 then Some 1 else None)"

definition result_words :: "obj \<Rightarrow> u32 \<Rightarrow> nat option" where
  "result_words ob m =
    (case ob of
       OResource _ \<Rightarrow> if m = 0 then Some 6 else if m \<le> 3 then Some 1 else None
     | ONode _ \<Rightarrow> if m = 0 then Some 2 else if m = 1 then Some 0 else None
     | OMutex _ \<Rightarrow> if m = 0 then Some 2 else if m = 1 then Some 1 else None
     | OJob _ \<Rightarrow> if m = 0 then Some 14 else if m = 1 then Some 1 else None
     | OMemoryManager \<Rightarrow> if m = 1 then Some 2 else if m = 0 \<or> m = 2 then Some 1 else None)"

definition law_create :: "('k, 'z) platform_scheme \<Rightarrow> bool" where
  "law_create K \<longleftrightarrow> (\<forall>k ob k' h. k_create K k ob = (k', h) \<longrightarrow> h \<noteq> 0 \<longrightarrow>
     \<not> k_issued K k h \<and> k_object K k' = (k_object K k)(h \<mapsto> ob)
     \<and> k_issued K k' = (k_issued K k)(h := True))"

definition law_create_failed :: "('k, 'z) platform_scheme \<Rightarrow> bool" where
  "law_create_failed K \<longleftrightarrow> (\<forall>k ob k'. k_create K k ob = (k', 0) \<longrightarrow>
     k_object K k' = k_object K k \<and> k_issued K k' = k_issued K k)"

definition law_destroy :: "('k, 'z) platform_scheme \<Rightarrow> bool" where
  "law_destroy K \<longleftrightarrow> (\<forall>k h. k_object K (k_destroy K k h) = (k_object K k)(h := None)
     \<and> k_issued K (k_destroy K k h) = k_issued K k)"

definition law_live :: "('k, 'z) platform_scheme \<Rightarrow> bool" where
  "law_live K \<longleftrightarrow> (\<forall>k h. k_object K k h \<noteq> None \<longrightarrow> k_issued K k h \<and> h \<noteq> 0)"

definition law_request :: "('k, 'z) platform_scheme \<Rightarrow> bool" where
  "law_request K \<longleftrightarrow>
     (\<forall>ob m ws. request_words ob m = Some (length ws) \<longrightarrow> k_request_ok K ob m (flat_msg ws))"

definition law_refuse :: "('k, 'z) platform_scheme \<Rightarrow> bool" where
  "law_refuse K \<longleftrightarrow> (\<forall>ob m msg. k_request_ok K ob m msg \<longrightarrow>
     (\<exists>n. request_words ob m = Some n \<and> n \<le> length (capnp_read_flat msg)))"

definition law_result :: "('k, 'z) platform_scheme \<Rightarrow> bool" where
  "law_result K \<longleftrightarrow>
     (\<forall>ob m ws. result_words ob m = Some (length ws) \<longrightarrow> k_result_ok K ob m (flat_msg ws)) \<and>
     (\<forall>ob m b. result_words ob m = Some 0 \<longrightarrow> k_result_ok K ob m b)"

definition kernel_laws :: "('k, 'z) platform_scheme \<Rightarrow> bool" where
  "kernel_laws K \<longleftrightarrow> law_create K \<and> law_create_failed K \<and> law_destroy K \<and> law_live K
     \<and> law_request K \<and> law_refuse K \<and> law_result K"

lemmas kernel_law_defs = kernel_laws_def law_create_def law_create_failed_def law_destroy_def
  law_live_def law_request_def law_refuse_def law_result_def

subsection \<open>The scheduler's state\<close>

text \<open>
  The static variables of the file, the state of the memory manager object it
  calls, the kernel's state, and the record of the cross-core signals sent.
\<close>

record 'k cluster =
  kst :: 'k
  mm_ledger :: ledger
  g_memory_manager :: u64
  g_pool_resource :: u64
  g_resource_storage :: "resource_data_t list"
  g_resource_storage_next :: nat
  g_resource_index :: "resource_index_entry_t list"
  g_node_storage :: "node_data_t list"
  g_node_storage_next :: nat
  g_node_index :: "node_index_entry_t list"
  g_mutex_storage :: "mutex_data_t list"
  g_mutex_handles :: "u64 list"
  g_jobs :: "job_slot list"
  g_completions :: "completion_t list"
  g_completion_next :: nat
  g_allocs :: "alloc_entry_t list"
  signals :: "u64 list"

text \<open>Running the handler of an object on its own data.\<close>

definition run_handler ::
  "('k, 'z) platform_scheme \<Rightarrow> 'k cluster \<Rightarrow> obj \<Rightarrow> u32 \<Rightarrow> bytes \<Rightarrow> nat \<Rightarrow> 'k cluster \<times> bytes" where
  "run_handler K s ob method_id msg response_cap =
    (case ob of
       OResource i \<Rightarrow>
         let (r, resp) = resource_handler (g_resource_storage s ! i) method_id msg response_cap
         in (s\<lparr>g_resource_storage := (g_resource_storage s)[i := r]\<rparr>, resp)
     | ONode i \<Rightarrow>
         let (resp, sent) = node_handler (g_node_storage s ! i) method_id response_cap
         in (s\<lparr>signals := signals s @ sent\<rparr>, resp)
     | OMutex i \<Rightarrow>
         let (m, resp) = mutex_handler (g_mutex_storage s ! i) method_id msg response_cap
         in (s\<lparr>g_mutex_storage := (g_mutex_storage s)[i := m]\<rparr>, resp)
     | OJob i \<Rightarrow>
         let (j, resp) = job_handler (js_data (g_jobs s ! i)) method_id msg response_cap
         in (s\<lparr>g_jobs := (g_jobs s)[i := (g_jobs s ! i)\<lparr>js_data := j\<rparr>]\<rparr>, resp)
     | OMemoryManager \<Rightarrow>
         let (g, resp) = memory_manager_handler (p_arch K) (mm_ledger s) method_id msg response_cap
         in (s\<lparr>mm_ledger := g\<rparr>, resp))"

text \<open>
  \<open>kernel_invoke\<close>: no result when the handle reaches no object, the request is
  refused, or the handler's result does not have the declared shape.
\<close>

definition kernel_invoke ::
  "('k, 'z) platform_scheme \<Rightarrow> 'k cluster \<Rightarrow> u64 \<Rightarrow> u32 \<Rightarrow> bytes \<Rightarrow> nat \<Rightarrow> 'k cluster \<times> bytes option" where
  "kernel_invoke K s h method_id msg response_cap =
    (case k_object K (kst s) h of
       None \<Rightarrow> (s, None)
     | Some ob \<Rightarrow>
         if \<not> k_request_ok K ob method_id msg then (s, None)
         else let (s', resp) = run_handler K s ob method_id msg response_cap
              in (s', if k_result_ok K ob method_id resp then Some resp else None))"

subsection \<open>Resource objects\<close>

definition create_resource_object ::
  "('k, 'z) platform_scheme \<Rightarrow> 'k cluster \<Rightarrow> u64 \<Rightarrow> u64 \<Rightarrow> u64 \<Rightarrow> u64 \<Rightarrow> u64 \<Rightarrow> u64 \<Rightarrow> 'k cluster \<times> u64" where
  "create_resource_object K s owner knd descr cap sync initial_reserved_by =
    (let slot_index = g_resource_storage_next s;
         s1 = s\<lparr>g_resource_storage_next := slot_index + 1\<rparr>
     in if slot_index \<ge> RESOURCE_POOL_SIZE then (s1, 0)
        else
          let rd = \<lparr>owner_node = owner, kind = knd, descriptor = descr, capacity = cap,
                    reserved_by = initial_reserved_by, sync_kind = sync\<rparr>;
              (k', h) = k_create K (kst s) (OResource slot_index);
              s2 = s1\<lparr>g_resource_storage := (g_resource_storage s)[slot_index := rd], kst := k'\<rparr>
          in if h = 0 then (s2, 0)
             else (case first_slot (\<lambda>e. \<not> rx_used e) (g_resource_index s2) of
                     None \<Rightarrow> (s2, h)
                   | Some i \<Rightarrow>
                       (s2\<lparr>g_resource_index := (g_resource_index s2)
                              [i := \<lparr>rx_handle = h, rx_kind = knd, rx_used = True\<rparr>]\<rparr>, h)))"

definition resource_get_info ::
  "('k, 'z) platform_scheme \<Rightarrow> 'k cluster \<Rightarrow> u64 \<Rightarrow> 'k cluster \<times> resource_data_t option" where
  "resource_get_info K s h =
    (if h = 0 then (s, None)
     else let (s', r) = kernel_invoke K s h RESOURCE_METHOD_GET_INFO (reply 24 [0]) 64
     in (s', case r of
               None \<Rightarrow> None
             | Some resp \<Rightarrow>
                 if length resp < 56 then None
                 else let out = capnp_read_flat resp
                      in Some \<lparr>owner_node = out ! 0, kind = out ! 1, descriptor = out ! 2,
                               capacity = out ! 3, reserved_by = out ! 5, sync_kind = out ! 4\<rparr>))"

text \<open>The common shape of the one-word requests with a one-word verdict.\<close>

definition invoke_verdict ::
  "('k, 'z) platform_scheme \<Rightarrow> 'k cluster \<Rightarrow> u64 \<Rightarrow> u32 \<Rightarrow> u64 \<Rightarrow> 'k cluster \<times> bool" where
  "invoke_verdict K s h method_id w =
    (if h = 0 then (s, False)
     else let (s', r) = kernel_invoke K s h method_id (reply 24 [w]) 24
     in (s', case r of
               None \<Rightarrow> False
             | Some resp \<Rightarrow> \<not> length resp < 24 \<and> capnp_read_flat resp ! 0 \<noteq> 0))"

definition resource_reserve ::
  "('k, 'z) platform_scheme \<Rightarrow> 'k cluster \<Rightarrow> u64 \<Rightarrow> u64 \<Rightarrow> 'k cluster \<times> bool" where
  "resource_reserve K s h requesting_job =
     invoke_verdict K s h RESOURCE_METHOD_RESERVE requesting_job"

definition resource_release_reservation ::
  "('k, 'z) platform_scheme \<Rightarrow> 'k cluster \<Rightarrow> u64 \<Rightarrow> u64 \<Rightarrow> 'k cluster \<times> bool" where
  "resource_release_reservation K s h requesting_job =
     invoke_verdict K s h RESOURCE_METHOD_RELEASE_RESERVATION requesting_job"

definition resource_reassign ::
  "('k, 'z) platform_scheme \<Rightarrow> 'k cluster \<Rightarrow> u64 \<Rightarrow> u64 \<Rightarrow> 'k cluster \<times> bool" where
  "resource_reassign K s h new_owner_node =
     invoke_verdict K s h RESOURCE_METHOD_REASSIGN new_owner_node"

fun node_has_mmu_scan ::
  "('k, 'z) platform_scheme \<Rightarrow> u64 \<Rightarrow> 'k cluster \<Rightarrow> resource_index_entry_t list \<Rightarrow> 'k cluster \<times> bool" where
  "node_has_mmu_scan K node_id s [] = (s, False)"
| "node_has_mmu_scan K node_id s (e # es) =
    (if \<not> rx_used e \<or> rx_kind e \<noteq> RESOURCE_KIND_MMU then node_has_mmu_scan K node_id s es
     else case resource_get_info K s (rx_handle e) of
            (s', Some r) \<Rightarrow> if owner_node r = node_id then (s', True)
                            else node_has_mmu_scan K node_id s' es
          | (s', None) \<Rightarrow> node_has_mmu_scan K node_id s' es)"

definition node_has_mmu :: "('k, 'z) platform_scheme \<Rightarrow> 'k cluster \<Rightarrow> u64 \<Rightarrow> 'k cluster \<times> bool" where
  "node_has_mmu K s node_id = node_has_mmu_scan K node_id s (g_resource_index s)"

subsection \<open>Node objects\<close>

definition create_node_object ::
  "('k, 'z) platform_scheme \<Rightarrow> 'k cluster \<Rightarrow> u64 \<Rightarrow> u64 \<Rightarrow> u64 \<Rightarrow> 'k cluster \<times> u64" where
  "create_node_object K s node_id arch signal_target =
    (let slot_index = g_node_storage_next s;
         s1 = s\<lparr>g_node_storage_next := slot_index + 1\<rparr>
     in if slot_index \<ge> MAX_NODES then (s1, 0)
        else
          let nd = \<lparr>nd_node_id = node_id, nd_arch = arch, nd_signal_target = signal_target\<rparr>;
              (k', h) = k_create K (kst s) (ONode slot_index);
              s2 = s1\<lparr>g_node_storage := (g_node_storage s)[slot_index := nd], kst := k'\<rparr>
          in if h = 0 then (s2, 0)
             else (case first_slot (\<lambda>e. \<not> nx_used e) (g_node_index s2) of
                     None \<Rightarrow> (s2, h)
                   | Some i \<Rightarrow>
                       (s2\<lparr>g_node_index := (g_node_index s2)
                              [i := \<lparr>nx_handle = h, nx_node_id = node_id, nx_used = True\<rparr>]\<rparr>, h)))"

definition node_find_by_id :: "'k cluster \<Rightarrow> u64 \<Rightarrow> u64" where
  "node_find_by_id s node_id =
    (case first_slot (\<lambda>e. nx_used e \<and> nx_node_id e = node_id) (g_node_index s) of
       Some i \<Rightarrow> nx_handle (g_node_index s ! i)
     | None \<Rightarrow> 0)"

definition node_destroy :: "('k, 'z) platform_scheme \<Rightarrow> 'k cluster \<Rightarrow> u64 \<Rightarrow> 'k cluster" where
  "node_destroy K s node_id =
    (case first_slot (\<lambda>e. nx_used e \<and> nx_node_id e = node_id) (g_node_index s) of
       None \<Rightarrow> s
     | Some i \<Rightarrow>
         s\<lparr>kst := k_destroy K (kst s) (nx_handle (g_node_index s ! i)),
           g_node_index := (g_node_index s)[i := (g_node_index s ! i)\<lparr>nx_used := False\<rparr>]\<rparr>)"

subsection \<open>Mutex objects\<close>

definition create_mutex_object :: "('k, 'z) platform_scheme \<Rightarrow> nat \<Rightarrow> 'k cluster \<Rightarrow> 'k cluster" where
  "create_mutex_object K i s =
    (let (k', h) = k_create K (kst s) (OMutex i)
     in s\<lparr>g_mutex_storage := (g_mutex_storage s)[i := \<lparr>mx_locked = False, mx_holder = 0\<rparr>],
          g_mutex_handles := (g_mutex_handles s)[i := h], kst := k'\<rparr>)"

definition create_all_mutex_objects :: "('k, 'z) platform_scheme \<Rightarrow> 'k cluster \<Rightarrow> 'k cluster" where
  "create_all_mutex_objects K s = fold (create_mutex_object K) [0..<MAX_MUTEXES] s"

definition mutex_object_for_id :: "'k cluster \<Rightarrow> int \<Rightarrow> u64" where
  "mutex_object_for_id s mutex_id =
    (if mutex_id < 0 \<or> mutex_id \<ge> int MAX_MUTEXES then 0 else g_mutex_handles s ! nat mutex_id)"

subsection \<open>Job objects and retained completions\<close>

definition completion_record :: "'k cluster \<Rightarrow> u64 \<Rightarrow> u64 \<Rightarrow> 'k cluster" where
  "completion_record s job_handle value =
    (let slot = g_completion_next s mod JOB_POOL_SIZE
     in s\<lparr>g_completion_next := g_completion_next s + 1,
          g_completions := (g_completions s)
            [slot := \<lparr>cp_job_handle = job_handle, cp_value = value, cp_used = True\<rparr>]\<rparr>)"

definition completion_find :: "'k cluster \<Rightarrow> u64 \<Rightarrow> u64 option" where
  "completion_find s job_handle =
    (case first_slot (\<lambda>c. cp_used c \<and> cp_job_handle c = job_handle) (g_completions s) of
       Some i \<Rightarrow> Some (cp_value (g_completions s ! i))
     | None \<Rightarrow> None)"

definition create_job_object ::
  "('k, 'z) platform_scheme \<Rightarrow> 'k cluster \<Rightarrow> u32 \<Rightarrow> u64 \<Rightarrow> u64 \<Rightarrow> int \<Rightarrow> u64 \<Rightarrow> u64 \<Rightarrow> u64 \<Rightarrow> u64
    \<Rightarrow> 'k cluster \<times> u64" where
  "create_job_object K s type a0 a1 priority affinity res_id res_kind res_min_capacity =
    (case first_slot (\<lambda>j. \<not> js_used j) (g_jobs s) of
       None \<Rightarrow> (s, 0)
     | Some slot \<Rightarrow>
         let jd = \<lparr>jb_type = type, arg0 = a0, arg1 = a1, base_priority = priority,
                   effective_priority = priority, node_affinity = affinity,
                   assigned_node = NODE_AFFINITY_ANY, resource_id = res_id,
                   resource_kind = res_kind, resource_min_capacity = res_min_capacity,
                   bound_resource_id = 0, blocked = 0, block_kind = BLOCK_NONE, block_id = 0,
                   dispatched = False\<rparr>;
             (k', h) = k_create K (kst s) (OJob slot);
             old_handle = js_handle (g_jobs s ! slot)
         in (s\<lparr>kst := k',
               g_jobs := (g_jobs s)[slot := \<lparr>js_used = (h \<noteq> 0),
                 js_handle = (if h = 0 then old_handle else h), js_data = jd\<rparr>]\<rparr>, h))"

definition destroy_job_object :: "('k, 'z) platform_scheme \<Rightarrow> 'k cluster \<Rightarrow> u64 \<Rightarrow> 'k cluster" where
  "destroy_job_object K s job =
    (case first_slot (\<lambda>j. js_used j \<and> js_handle j = job) (g_jobs s) of
       None \<Rightarrow> s
     | Some i \<Rightarrow>
         s\<lparr>g_jobs := (g_jobs s)[i := (g_jobs s ! i)\<lparr>js_used := False\<rparr>],
           kst := k_destroy K (kst s) job\<rparr>)"

text \<open>The slot behind the pointer \<open>job_data_for_handle_locked\<close> returns.\<close>

definition job_data_for_handle_locked :: "'k cluster \<Rightarrow> u64 \<Rightarrow> nat option" where
  "job_data_for_handle_locked s job =
    (if job = 0 then None
     else first_slot (\<lambda>j. js_used j \<and> js_handle j = job) (g_jobs s))"

definition release_job_resource ::
  "('k, 'z) platform_scheme \<Rightarrow> 'k cluster \<Rightarrow> u64 \<Rightarrow> u64 \<Rightarrow> 'k cluster" where
  "release_job_resource K s job bound_id = fst (resource_release_reservation K s bound_id job)"

text \<open>Updating a job's own data in place.\<close>

definition job_at :: "'k cluster \<Rightarrow> nat \<Rightarrow> job_data_t" where
  "job_at s i = js_data (g_jobs s ! i)"

definition job_update :: "nat \<Rightarrow> (job_data_t \<Rightarrow> job_data_t) \<Rightarrow> 'k cluster \<Rightarrow> 'k cluster" where
  "job_update i f s = s\<lparr>g_jobs := (g_jobs s)[i := (g_jobs s ! i)\<lparr>js_data := f (js_data (g_jobs s ! i))\<rparr>]\<rparr>"

end
