(* ===== verification/Cluster_Scheduler.thy ===== *)
theory Cluster_Scheduler
  imports Cluster_Objects
begin

text \<open>
  The methods of the cluster scheduler object (\<open>handle_*\<close> of
  \<open>coreinit/cluster_scheduler.c\<close>), the choice of the next job for a node with its
  resource matching and binding, the dispatch on the method id, and the start-up.
  Every method takes the data words of the request and the room for the response,
  and returns the state and the bytes of the response.
\<close>

subsection \<open>Membership\<close>

definition handle_join_node ::
  "('k, 'z) platform_scheme \<Rightarrow> 'k cluster \<Rightarrow> u64 list \<Rightarrow> nat \<Rightarrow> 'k cluster \<times> bytes" where
  "handle_join_node K s words response_cap =
    (let node_id = words ! 0; arch = words ! 1; signal_target = words ! 2 in
     if node_find_by_id s node_id \<noteq> 0 then (s, reply response_cap [0])
     else let (s', node_obj) = create_node_object K s node_id arch signal_target
          in if node_obj = 0 then (s', reply response_cap [0])
             else (s', reply response_cap [node_obj]))"

text \<open>One round of each of the two sweeps of \<open>handle_leave_node\<close>.\<close>

definition leave_resource_step ::
  "('k, 'z) platform_scheme \<Rightarrow> u64 \<Rightarrow> nat \<Rightarrow> 'k cluster \<Rightarrow> 'k cluster" where
  "leave_resource_step K node_id i s =
    (if \<not> rx_used (g_resource_index s ! i) then s
     else case resource_get_info K s (rx_handle (g_resource_index s ! i)) of
            (s', None) \<Rightarrow> s'
          | (s', Some r) \<Rightarrow>
              if owner_node r = node_id then
                s'\<lparr>kst := k_destroy K (kst s') (rx_handle (g_resource_index s' ! i)),
                   g_resource_index := (g_resource_index s')
                     [i := (g_resource_index s' ! i)\<lparr>rx_used := False\<rparr>]\<rparr>
              else s')"

definition touches_node :: "u64 \<Rightarrow> job_data_t \<Rightarrow> bool" where
  "touches_node node_id j \<longleftrightarrow> assigned_node j = node_id
     \<or> (assigned_node j = NODE_AFFINITY_ANY \<and> node_affinity j = node_id)"

definition leave_job_step ::
  "('k, 'z) platform_scheme \<Rightarrow> u64 \<Rightarrow> nat \<Rightarrow> 'k cluster \<Rightarrow> 'k cluster" where
  "leave_job_step K node_id i s =
    (if \<not> js_used (g_jobs s ! i) then s
     else let job = js_handle (g_jobs s ! i); j = job_at s i in
       if \<not> touches_node node_id j then s
       else if node_affinity j = node_id then
         destroy_job_object K (release_job_resource K s job (bound_resource_id j)) job
       else job_update i (\<lambda>j. j\<lparr>assigned_node := NODE_AFFINITY_ANY\<rparr>) s)"

definition handle_leave_node ::
  "('k, 'z) platform_scheme \<Rightarrow> 'k cluster \<Rightarrow> u64 list \<Rightarrow> 'k cluster \<times> bytes" where
  "handle_leave_node K s words =
    (let node_id = words ! 0 in
     if node_find_by_id s node_id = 0 then (s, [])
     else let s1 = node_destroy K s node_id;
              s2 = fold (leave_resource_step K node_id) [0..<RESOURCE_POOL_SIZE] s1
          in (fold (leave_job_step K node_id) [0..<JOB_POOL_SIZE] s2, []))"

definition handle_preempt_node ::
  "('k, 'z) platform_scheme \<Rightarrow> 'k cluster \<Rightarrow> u64 list \<Rightarrow> nat \<Rightarrow> 'k cluster \<times> bytes" where
  "handle_preempt_node K s words response_cap =
    (let node = node_find_by_id s (words ! 0) in
     if node \<noteq> 0
     then (fst (kernel_invoke K s node NODE_METHOD_SIGNAL (reply 24 [0]) 0), reply response_cap [1])
     else (s, reply response_cap [0]))"

subsection \<open>Memory\<close>

definition handle_request_allocation ::
  "('k, 'z) platform_scheme \<Rightarrow> 'k cluster \<Rightarrow> u64 list \<Rightarrow> nat \<Rightarrow> 'k cluster \<times> bytes" where
  "handle_request_allocation K s words response_cap =
    (let node_id = words ! 0; base = words ! 1; sz = words ! 2; knd = words ! 3; sync = words ! 4;
         (s1, r) = kernel_invoke K s (g_memory_manager s) MEM_METHOD_CLAIM (reply 48 [base, sz, knd]) 24;
         ok = (case r of None \<Rightarrow> False
               | Some resp \<Rightarrow> length resp \<ge> 24 \<and> capnp_read_flat resp ! 0 \<noteq> 0)
     in if \<not> ok then (s1, reply response_cap [0, 0])
        else
          let s2 = (case first_slot (\<lambda>e. \<not> al_used e) (g_allocs s1) of
                      None \<Rightarrow> s1
                    | Some i \<Rightarrow> s1\<lparr>g_allocs := (g_allocs s1)
                        [i := \<lparr>al_node_id = node_id, al_base = base, al_size = sz, al_kind = knd,
                               al_used = True\<rparr>]\<rparr>);
              (s3, resource) = create_resource_object K s2 node_id RESOURCE_KIND_MEMORY base sz sync 0
          in (s3, reply response_cap [1, resource]))"

definition handle_allocate_slice ::
  "('k, 'z) platform_scheme \<Rightarrow> 'k cluster \<Rightarrow> u64 list \<Rightarrow> nat \<Rightarrow> 'k cluster \<times> bytes" where
  "handle_allocate_slice K s words response_cap =
    (let node_id = words ! 0; requesting_job_id = words ! 1; sz = words ! 2; knd = words ! 3;
         sync = words ! 4;
         (s1, r) = kernel_invoke K s (g_memory_manager s) MEM_METHOD_ALLOC (reply 40 [sz, knd]) 40;
         (ok, base) = (case r of None \<Rightarrow> (False, 0)
               | Some resp \<Rightarrow> if length resp \<ge> 24
                     then (capnp_read_flat resp ! 0 \<noteq> 0, capnp_read_flat resp ! 1) else (False, 0))
     in if \<not> ok then (s1, reply response_cap [0, 0, base])
        else let (s2, resource) = create_resource_object K s1 node_id RESOURCE_KIND_MEMORY base sz
                                    sync requesting_job_id
             in (s2, reply response_cap [1, resource, base]))"

definition forget_resource :: "'k cluster \<Rightarrow> u64 \<Rightarrow> 'k cluster" where
  "forget_resource s h =
    (case first_slot (\<lambda>e. rx_used e \<and> rx_handle e = h) (g_resource_index s) of
       None \<Rightarrow> s
     | Some i \<Rightarrow> s\<lparr>g_resource_index := (g_resource_index s)
                     [i := (g_resource_index s ! i)\<lparr>rx_used := False\<rparr>]\<rparr>)"

definition handle_release_slice ::
  "('k, 'z) platform_scheme \<Rightarrow> 'k cluster \<Rightarrow> u64 list \<Rightarrow> nat \<Rightarrow> 'k cluster \<times> bytes" where
  "handle_release_slice K s words response_cap =
    (let resource = words ! 0; requesting_job_id = words ! 1 in
     case resource_get_info K s resource of
       (s1, None) \<Rightarrow> (s1, reply response_cap [0])
     | (s1, Some r) \<Rightarrow>
         if kind r \<noteq> RESOURCE_KIND_MEMORY then (s1, reply response_cap [0])
         else if reserved_by r \<noteq> requesting_job_id then (s1, reply response_cap [0])
         else
           let (s2, f) = kernel_invoke K s1 (g_memory_manager s1) MEM_METHOD_FREE
                           (reply 24 [descriptor r]) 24;
               freed = (case f of None \<Rightarrow> False
                        | Some resp \<Rightarrow> length resp \<ge> 24 \<and> capnp_read_flat resp ! 0 \<noteq> 0)
           in if freed
              then (forget_resource (s2\<lparr>kst := k_destroy K (kst s2) resource\<rparr>) resource,
                    reply response_cap [1])
              else (s2, reply response_cap [0]))"

subsection \<open>Resources\<close>

definition handle_declare_resource ::
  "('k, 'z) platform_scheme \<Rightarrow> 'k cluster \<Rightarrow> u64 list \<Rightarrow> nat \<Rightarrow> 'k cluster \<times> bytes" where
  "handle_declare_resource K s words response_cap =
    (let node_id = words ! 0; knd = words ! 1; descr = words ! 2; cap = words ! 3; sync = words ! 4;
         (s1, refuse) = (if sync = RESOURCE_SYNC_STREAM \<or> sync = RESOURCE_SYNC_COW
                         then (let (s', has) = node_has_mmu K s node_id in (s', \<not> has))
                         else (s, False))
     in if refuse then (s1, reply response_cap [0])
        else let (s2, resource) = create_resource_object K s1 node_id knd descr cap sync 0
             in (s2, reply response_cap [resource]))"

definition handle_get_resource_info ::
  "('k, 'z) platform_scheme \<Rightarrow> 'k cluster \<Rightarrow> u64 list \<Rightarrow> nat \<Rightarrow> 'k cluster \<times> bytes" where
  "handle_get_resource_info K s words response_cap =
    (case resource_get_info K s (words ! 0) of
       (s', None) \<Rightarrow> (s', reply response_cap [0, 0, 0, 0, 0, 0])
     | (s', Some r) \<Rightarrow> (s', reply response_cap
           [1, owner_node r, kind r, descriptor r, capacity r, sync_kind r]))"

definition handle_reassign_resource ::
  "('k, 'z) platform_scheme \<Rightarrow> 'k cluster \<Rightarrow> u64 list \<Rightarrow> nat \<Rightarrow> 'k cluster \<times> bytes" where
  "handle_reassign_resource K s words response_cap =
    (let resource = words ! 0; new_owner_node = words ! 1 in
     case resource_get_info K s resource of
       (s1, None) \<Rightarrow> (s1, reply response_cap [0])
     | (s1, Some r) \<Rightarrow>
         if reserved_by r \<noteq> 0 then (s1, reply response_cap [0])
         else if node_find_by_id s1 new_owner_node = 0 then (s1, reply response_cap [0])
         else let (s2, ok) = resource_reassign K s1 resource new_owner_node
              in (s2, reply response_cap [if ok then 1 else 0]))"

subsection \<open>Jobs\<close>

definition handle_submit_job ::
  "('k, 'z) platform_scheme \<Rightarrow> 'k cluster \<Rightarrow> u64 list \<Rightarrow> nat \<Rightarrow> 'k cluster \<times> bytes" where
  "handle_submit_job K s words response_cap =
    (let (s', job) = create_job_object K s (ucast (words ! 1)) (words ! 2) (words ! 3)
                       (c_int (words ! 4)) (words ! 0) (words ! 5) (words ! 6) (words ! 7)
     in (s', reply response_cap [job]))"

text \<open>An index entry that a kind-based requirement can use right now.\<close>

fun resource_scan_any ::
  "('k, 'z) platform_scheme \<Rightarrow> job_data_t \<Rightarrow> 'k cluster \<Rightarrow> resource_index_entry_t list \<Rightarrow> 'k cluster \<times> bool" where
  "resource_scan_any K j s [] = (s, False)"
| "resource_scan_any K j s (e # es) =
    (if \<not> rx_used e \<or> rx_kind e \<noteq> resource_kind j then resource_scan_any K j s es
     else case resource_get_info K s (rx_handle e) of
            (s', Some r) \<Rightarrow> if reserved_by r = 0 \<and> capacity r \<ge> resource_min_capacity j
                            then (s', True) else resource_scan_any K j s' es
          | (s', None) \<Rightarrow> resource_scan_any K j s' es)"

definition resource_ok_for ::
  "('k, 'z) platform_scheme \<Rightarrow> 'k cluster \<Rightarrow> u64 \<Rightarrow> job_data_t \<Rightarrow> 'k cluster \<times> bool" where
  "resource_ok_for K s job j =
    (if bound_resource_id j \<noteq> 0 then
       (case resource_get_info K s (bound_resource_id j) of
          (s', None) \<Rightarrow> (s', False)
        | (s', Some r) \<Rightarrow> (s', reserved_by r = 0 \<or> reserved_by r = job))
     else if resource_id j = 0 \<and> resource_kind j = RESOURCE_KIND_NONE then (s, True)
     else if resource_id j \<noteq> 0 then
       (case resource_get_info K s (resource_id j) of
          (s', None) \<Rightarrow> (s', False)
        | (s', Some r) \<Rightarrow> (s', reserved_by r = 0))
     else resource_scan_any K j s (g_resource_index s))"

text \<open>The last usable entry, as the loop of \<open>bind_resource_for\<close> finds it.\<close>

fun resource_scan_last ::
  "('k, 'z) platform_scheme \<Rightarrow> job_data_t \<Rightarrow> 'k cluster \<Rightarrow> u64 \<Rightarrow> resource_index_entry_t list \<Rightarrow> 'k cluster \<times> u64" where
  "resource_scan_last K j s chosen [] = (s, chosen)"
| "resource_scan_last K j s chosen (e # es) =
    (if \<not> rx_used e \<or> rx_kind e \<noteq> resource_kind j then resource_scan_last K j s chosen es
     else case resource_get_info K s (rx_handle e) of
            (s', Some r) \<Rightarrow> if reserved_by r = 0 \<and> capacity r \<ge> resource_min_capacity j
                            then resource_scan_last K j s' (rx_handle e) es
                            else resource_scan_last K j s' chosen es
          | (s', None) \<Rightarrow> resource_scan_last K j s' chosen es)"

definition bind_resource_for ::
  "('k, 'z) platform_scheme \<Rightarrow> 'k cluster \<Rightarrow> u64 \<Rightarrow> nat \<Rightarrow> 'k cluster" where
  "bind_resource_for K s job i =
    (let j = job_at s i in
     if bound_resource_id j \<noteq> 0 then s
     else
       let (s1, chosen) =
             (if resource_id j \<noteq> 0 then (s, resource_id j)
              else if resource_kind j \<noteq> RESOURCE_KIND_NONE
                   then resource_scan_last K j s 0 (g_resource_index s)
              else (s, 0))
       in if chosen = 0 then s1
          else let (s2, ok) = resource_reserve K s1 chosen job
               in if ok then job_update i (\<lambda>j. j\<lparr>bound_resource_id := chosen\<rparr>) s2 else s2)"

definition eligible :: "u64 \<Rightarrow> job_data_t \<Rightarrow> bool" where
  "eligible node_id j \<longleftrightarrow> assigned_node j = node_id
     \<or> (assigned_node j = NODE_AFFINITY_ANY
        \<and> (node_affinity j = node_id \<or> node_affinity j = NODE_AFFINITY_ANY))"

definition better :: "'k cluster \<Rightarrow> nat \<Rightarrow> nat option \<Rightarrow> bool" where
  "better s i best =
    (case best of None \<Rightarrow> True
     | Some b \<Rightarrow> effective_priority (job_at s i) > effective_priority (job_at s b))"

text \<open>
  One round of the scan over the job pool; the accumulator holds the slots behind
  \<open>best_ready_j\<close> and \<open>best_blocked_mutex_j\<close>.
\<close>

definition pick_step ::
  "('k, 'z) platform_scheme \<Rightarrow> u64 \<Rightarrow> nat \<Rightarrow> 'k cluster \<times> nat option \<times> nat option
    \<Rightarrow> 'k cluster \<times> nat option \<times> nat option" where
  "pick_step K node_id i acc =
    (case acc of (s, best_ready, best_blocked_mutex) \<Rightarrow>
     if \<not> js_used (g_jobs s ! i) then acc
     else if dispatched (job_at s i) then acc
     else if \<not> eligible node_id (job_at s i) then acc
     else
       let (s1, ok) = resource_ok_for K s (js_handle (g_jobs s ! i)) (job_at s i) in
       if \<not> ok then (s1, best_ready, best_blocked_mutex)
       else
         let s2 = (if blocked (job_at s1 i) \<noteq> 0 \<and> block_kind (job_at s1 i) = BLOCK_JOB
                      \<and> job_data_for_handle_locked s1 (block_id (job_at s1 i)) = None
                   then job_update i (\<lambda>j. j\<lparr>blocked := 0, block_kind := BLOCK_NONE\<rparr>) s1 else s1)
         in if blocked (job_at s2 i) = 0 then
              (s2, if better s2 i best_ready then Some i else best_ready, best_blocked_mutex)
            else if block_kind (job_at s2 i) = BLOCK_MUTEX then
              (s2, best_ready, if better s2 i best_blocked_mutex then Some i else best_blocked_mutex)
            else (s2, best_ready, best_blocked_mutex))"

definition pick_scan ::
  "('k, 'z) platform_scheme \<Rightarrow> u64 \<Rightarrow> 'k cluster \<Rightarrow> 'k cluster \<times> nat option \<times> nat option" where
  "pick_scan K node_id s = fold (pick_step K node_id) [0..<JOB_POOL_SIZE] (s, None, None)"

definition pick_next_for_node ::
  "('k, 'z) platform_scheme \<Rightarrow> 'k cluster \<Rightarrow> u64 \<Rightarrow> 'k cluster \<times> nat option" where
  "pick_next_for_node K s requesting_node_id =
    (let (s1, best_ready, best_blocked_mutex) = pick_scan K requesting_node_id s;
         chosen = (case best_ready of Some i \<Rightarrow> Some i | None \<Rightarrow> best_blocked_mutex)
     in case chosen of
          None \<Rightarrow> (s1, None)
        | Some i \<Rightarrow>
            if dispatched (job_at s1 i) then (s1, None)
            else
              let s2 = job_update i (\<lambda>j. j\<lparr>dispatched := True\<rparr>) s1;
                  s3 = (if assigned_node (job_at s2 i) = NODE_AFFINITY_ANY
                        then job_update i (\<lambda>j. j\<lparr>assigned_node := requesting_node_id\<rparr>) s2 else s2)
              in (bind_resource_for K s3 (js_handle (g_jobs s3 ! i)) i, Some i))"

definition handle_get_next_job ::
  "('k, 'z) platform_scheme \<Rightarrow> 'k cluster \<Rightarrow> u64 list \<Rightarrow> nat \<Rightarrow> 'k cluster \<times> bytes" where
  "handle_get_next_job K s words response_cap =
    (case pick_next_for_node K s (words ! 0) of
       (s', Some i) \<Rightarrow>
         (if js_handle (g_jobs s' ! i) \<noteq> 0
          then (s', reply response_cap [1, js_handle (g_jobs s' ! i), ucast (jb_type (job_at s' i)),
                                        arg0 (job_at s' i), arg1 (job_at s' i)])
          else (s', reply response_cap [0, 0, 0, 0, 0]))
     | (s', None) \<Rightarrow> (s', reply response_cap [0, 0, 0, 0, 0]))"

definition handle_report_job_result ::
  "('k, 'z) platform_scheme \<Rightarrow> 'k cluster \<Rightarrow> u64 list \<Rightarrow> 'k cluster \<times> bytes" where
  "handle_report_job_result K s words =
    (let job = words ! 0; result = (ucast (words ! 1) :: u32); blk = words ! 2;
         completion_value = words ! 3
     in case job_data_for_handle_locked s job of
          None \<Rightarrow> (s, [])
        | Some i \<Rightarrow>
            if result = JOB_FINISHED then
              (destroy_job_object K
                 (completion_record (release_job_resource K s job (bound_resource_id (job_at s i)))
                    job completion_value) job, [])
            else
              let s1 = job_update i (\<lambda>j. j\<lparr>dispatched := False\<rparr>) s in
              if result = JOB_BLOCKED_ON_MUTEX then
                (job_update i (\<lambda>j. j\<lparr>blocked := 1, block_kind := BLOCK_MUTEX, block_id := blk\<rparr>) s1, [])
              else if result = JOB_BLOCKED_ON_JOB then
                (job_update i (\<lambda>j. j\<lparr>blocked := 1, block_kind := BLOCK_JOB, block_id := blk\<rparr>) s1, [])
              else (s1, []))"

definition handle_get_job_result :: "'k cluster \<Rightarrow> u64 list \<Rightarrow> nat \<Rightarrow> 'k cluster \<times> bytes" where
  "handle_get_job_result s words response_cap =
    (s, reply response_cap (case completion_find s (words ! 0) of
                              Some v \<Rightarrow> [1, v] | None \<Rightarrow> [0, 0]))"

subsection \<open>Mutexes\<close>

definition inherit_priority :: "'k cluster \<Rightarrow> u64 \<Rightarrow> u64 \<Rightarrow> 'k cluster" where
  "inherit_priority s requesting_job_id holder =
    (case (job_data_for_handle_locked s requesting_job_id, job_data_for_handle_locked s holder) of
       (Some self_j, Some holder_j) \<Rightarrow>
         if effective_priority (job_at s self_j) > effective_priority (job_at s holder_j)
         then job_update holder_j (\<lambda>j. j\<lparr>effective_priority := effective_priority (job_at s self_j)\<rparr>) s
         else s
     | _ \<Rightarrow> s)"

definition handle_mutex_try_lock ::
  "('k, 'z) platform_scheme \<Rightarrow> 'k cluster \<Rightarrow> u64 list \<Rightarrow> nat \<Rightarrow> 'k cluster \<times> bytes" where
  "handle_mutex_try_lock K s words response_cap =
    (let mutex_id = c_int (words ! 0); requesting_job_id = words ! 1;
         m = mutex_object_for_id s mutex_id
     in if m = 0 then (s, reply response_cap [0])
        else case kernel_invoke K s m MUTEX_METHOD_TRY_LOCK (reply 24 [requesting_job_id]) 40 of
               (s1, None) \<Rightarrow> (s1, reply response_cap [0])
             | (s1, Some resp) \<Rightarrow>
                 if length resp < 32 then (s1, reply response_cap [0])
                 else let ok = capnp_read_flat resp ! 0; holder = capnp_read_flat resp ! 1
                      in (if ok = 0 then inherit_priority s1 requesting_job_id holder else s1,
                          reply response_cap [ok]))"

definition handle_mutex_unlock ::
  "('k, 'z) platform_scheme \<Rightarrow> 'k cluster \<Rightarrow> u64 list \<Rightarrow> 'k cluster \<times> bytes" where
  "handle_mutex_unlock K s words =
    (let mutex_id = c_int (words ! 0); requesting_job_id = words ! 1;
         m = mutex_object_for_id s mutex_id
     in if m = 0 then (s, [])
        else let (s1, ok) = invoke_verdict K s m MUTEX_METHOD_UNLOCK requesting_job_id
             in if ok then
                  (case job_data_for_handle_locked s1 requesting_job_id of
                     None \<Rightarrow> (s1, [])
                   | Some i \<Rightarrow>
                       (job_update i (\<lambda>j. j\<lparr>effective_priority := base_priority j\<rparr>) s1, []))
                else (s1, []))"

subsection \<open>Dispatch and start-up\<close>

definition cluster_scheduler_handler ::
  "('k, 'z) platform_scheme \<Rightarrow> 'k cluster \<Rightarrow> u32 \<Rightarrow> bytes \<Rightarrow> nat \<Rightarrow> 'k cluster \<times> bytes" where
  "cluster_scheduler_handler K s method_id msg response_cap =
    (let words = capnp_read_flat msg in
     if method_id = 0 then handle_join_node K s words response_cap
     else if method_id = 1 then handle_leave_node K s words
     else if method_id = 2 then handle_request_allocation K s words response_cap
     else if method_id = 3 then handle_declare_resource K s words response_cap
     else if method_id = 10 then handle_get_resource_info K s words response_cap
     else if method_id = 11 then handle_allocate_slice K s words response_cap
     else if method_id = 12 then handle_release_slice K s words response_cap
     else if method_id = 13 then handle_preempt_node K s words response_cap
     else if method_id = 4 then handle_reassign_resource K s words response_cap
     else if method_id = 5 then handle_submit_job K s words response_cap
     else if method_id = 6 then handle_get_next_job K s words response_cap
     else if method_id = 7 then handle_report_job_result K s words
     else if method_id = 14 then handle_get_job_result s words response_cap
     else if method_id = 8 then handle_mutex_try_lock K s words response_cap
     else if method_id = 9 then handle_mutex_unlock K s words
     else (s, []))"

text \<open>The static storage before start-up: everything zero.\<close>

definition zero_job :: job_data_t where
  "zero_job = \<lparr>jb_type = 0, arg0 = 0, arg1 = 0, base_priority = 0, effective_priority = 0,
     node_affinity = 0, assigned_node = 0, resource_id = 0, resource_kind = 0,
     resource_min_capacity = 0, bound_resource_id = 0, blocked = 0, block_kind = BLOCK_NONE,
     block_id = 0, dispatched = False\<rparr>"

definition zero_cluster :: "'k \<Rightarrow> ledger \<Rightarrow> 'k cluster" where
  "zero_cluster k g = \<lparr>kst = k, mm_ledger = g, g_memory_manager = 0, g_pool_resource = 0,
     g_resource_storage = replicate RESOURCE_POOL_SIZE \<lparr>owner_node = 0, kind = 0, descriptor = 0,
        capacity = 0, reserved_by = 0, sync_kind = 0\<rparr>,
     g_resource_storage_next = 0,
     g_resource_index = replicate RESOURCE_POOL_SIZE \<lparr>rx_handle = 0, rx_kind = 0, rx_used = False\<rparr>,
     g_node_storage = replicate MAX_NODES \<lparr>nd_node_id = 0, nd_arch = 0, nd_signal_target = 0\<rparr>,
     g_node_storage_next = 0,
     g_node_index = replicate MAX_NODES \<lparr>nx_handle = 0, nx_node_id = 0, nx_used = False\<rparr>,
     g_mutex_storage = replicate MAX_MUTEXES \<lparr>mx_locked = False, mx_holder = 0\<rparr>,
     g_mutex_handles = replicate MAX_MUTEXES 0,
     g_jobs = replicate JOB_POOL_SIZE \<lparr>js_used = False, js_handle = 0, js_data = zero_job\<rparr>,
     g_completions = replicate JOB_POOL_SIZE \<lparr>cp_job_handle = 0, cp_value = 0, cp_used = False\<rparr>,
     g_completion_next = 0,
     g_allocs = replicate MAX_ALLOC_RECORDS \<lparr>al_node_id = 0, al_base = 0, al_size = 0, al_kind = 0,
        al_used = False\<rparr>,
     signals = []\<rparr>"

definition cluster_scheduler_init ::
  "('k, 'z) platform_scheme \<Rightarrow> u64 \<Rightarrow> 'k cluster \<Rightarrow> 'k cluster" where
  "cluster_scheduler_init K memory_manager s =
    (let s1 = s\<lparr>g_memory_manager := memory_manager,
               g_node_index := map (\<lambda>e. e\<lparr>nx_used := False\<rparr>) (g_node_index s),
               g_allocs := map (\<lambda>e. e\<lparr>al_used := False\<rparr>) (g_allocs s),
               g_resource_index := map (\<lambda>e. e\<lparr>rx_used := False\<rparr>) (g_resource_index s),
               g_jobs := map (\<lambda>j. j\<lparr>js_used := False\<rparr>) (g_jobs s),
               g_resource_storage_next := 0, g_node_storage_next := 0\<rparr>;
         s2 = create_all_mutex_objects K s1;
         (s3, pool) = create_resource_object K s2 0 RESOURCE_KIND_MEMORY (ALLOC_MIN (p_arch K))
                        (ALLOC_MAX (p_arch K) - ALLOC_MIN (p_arch K)) RESOURCE_SYNC_TRANSFER 0
     in s3\<lparr>g_pool_resource := pool\<rparr>)"

end
