(* ===== verification/Cluster_Facts.thy ===== *)
theory Cluster_Facts
  imports Cluster_Scheduler
begin

text \<open>
  What a call through the kernel does to the scheduler's state: the exact effect of
  each method on a resource object, the verdict for a handle that reaches an object
  of another kind, and the parts of the state that no internal call can change.
\<close>

named_theorems method_ids \<open>values of the method ids\<close>

lemmas [method_ids] =
  RESOURCE_METHOD_GET_INFO_def RESOURCE_METHOD_RESERVE_def RESOURCE_METHOD_RELEASE_RESERVATION_def
  RESOURCE_METHOD_REASSIGN_def NODE_METHOD_GET_INFO_def NODE_METHOD_SIGNAL_def
  MUTEX_METHOD_TRY_LOCK_def MUTEX_METHOD_UNLOCK_def JOB_METHOD_GET_INFO_def
  JOB_METHOD_UPDATE_SCHEDULING_STATE_def MEM_METHOD_CLAIM_def MEM_METHOD_ALLOC_def MEM_METHOD_FREE_def

subsection \<open>The laws of the kernel, one by one\<close>

lemma create_fresh:
  assumes "kernel_laws K" "k_create K k ob = (k', h)" "h \<noteq> 0"
  shows "\<not> k_issued K k h" "k_object K k' = (k_object K k)(h \<mapsto> ob)"
    "k_issued K k' = (k_issued K k)(h := True)"
  using assms by (simp_all add: kernel_laws_def law_create_def)

lemma create_failed:
  assumes "kernel_laws K" "k_create K k ob = (k', 0)"
  shows "k_object K k' = k_object K k" "k_issued K k' = k_issued K k"
  using assms unfolding kernel_laws_def law_create_failed_def by blast+

lemma destroy_object:
  assumes "kernel_laws K"
  shows "k_object K (k_destroy K k h) = (k_object K k)(h := None)"
    "k_issued K (k_destroy K k h) = k_issued K k"
  using assms by (simp_all add: kernel_laws_def law_destroy_def)

lemma live_handle:
  assumes "kernel_laws K" "k_object K k h = Some ob"
  shows "k_issued K k h" "h \<noteq> 0"
  using assms unfolding kernel_laws_def law_live_def by (metis option.distinct(1))+

lemma no_object_0 [simp]: "kernel_laws K \<Longrightarrow> k_object K k 0 = None"
  using live_handle(2) [of K k 0] by (cases "k_object K k 0") auto

lemma request_ok:
  "kernel_laws K \<Longrightarrow> request_words ob m = Some (length ws) \<Longrightarrow> k_request_ok K ob m (flat_msg ws)"
  by (simp add: kernel_laws_def law_request_def)

lemma request_refused:
  "kernel_laws K \<Longrightarrow> k_request_ok K ob m msg \<Longrightarrow>
    \<exists>n. request_words ob m = Some n \<and> n \<le> length (capnp_read_flat msg)"
  by (simp add: kernel_laws_def law_refuse_def)

lemma result_ok:
  "kernel_laws K \<Longrightarrow> result_words ob m = Some (length ws) \<Longrightarrow> k_result_ok K ob m (flat_msg ws)"
  "kernel_laws K \<Longrightarrow> result_words ob m = Some 0 \<Longrightarrow> k_result_ok K ob m b"
  by (simp_all add: kernel_laws_def law_result_def)

subsection \<open>Calls on resource objects\<close>

lemma read_one [simp]: "24 \<le> cap \<Longrightarrow> capnp_read_flat (capnp_build_flat cap [w] 1) = [w]"
  by (simp add: capnp_read_build_flat)

lemma request_ok_one:
  "kernel_laws K \<Longrightarrow> request_words ob m = Some 1 \<Longrightarrow> k_request_ok K ob m (capnp_build_flat 24 [w] 1)"
  using request_ok [of K ob m "[w]"] by simp

lemma result_ok_one:
  "kernel_laws K \<Longrightarrow> result_words ob m = Some 1 \<Longrightarrow> k_result_ok K ob m (capnp_build_flat 24 [w] 1)"
  using result_ok(1) [of K ob m "[w]"] by simp

lemma get_info_resource:
  assumes L: "kernel_laws K" and ob: "k_object K (kst s) h = Some (OResource i)"
  shows "resource_get_info K s h = (s, Some (g_resource_storage s ! i))"
proof -
  have h: "h \<noteq> 0" using live_handle [OF L ob] by simp
  have rq: "k_request_ok K (OResource i) 0 (capnp_build_flat 24 [0] 1)"
    by (rule request_ok_one [OF L]) (simp add: request_words_def)
  have rs: "k_result_ok K (OResource i) 0 (capnp_build_flat 64 [a, b, c, d, e, f] 6)" for a b c d e f
    using result_ok(1) [OF L, of "OResource i" 0 "[a, b, c, d, e, f]"] by (simp add: result_words_def)
  show ?thesis
    using h rq rs
    by (simp add: resource_get_info_def kernel_invoke_def ob run_handler_def resource_handler_def
        method_ids length_capnp_build_flat capnp_read_build_flat)
qed

lemma get_info_none:
  assumes L: "kernel_laws K" and ob: "\<nexists>i. k_object K (kst s) h = Some (OResource i)"
  shows "snd (resource_get_info K s h) = None"
proof (cases "k_object K (kst s) h")
  case (Some ob')
  have "\<not> k_request_ok K OMemoryManager 0 (capnp_build_flat 24 [0] 1)"
    using request_refused [OF L, of OMemoryManager 0 "capnp_build_flat 24 [0] 1"]
    by (auto simp: request_words_def)
  then show ?thesis
    using Some ob
    by (cases ob')
      (simp_all add: resource_get_info_def kernel_invoke_def run_handler_def node_handler_def
        mutex_handler_def job_handler_def Let_def method_ids length_capnp_build_flat)
qed (simp add: resource_get_info_def kernel_invoke_def)

lemma get_info_result:
  assumes "kernel_laws K"
  shows "snd (resource_get_info K s h) =
    (case k_object K (kst s) h of Some (OResource i) \<Rightarrow> Some (g_resource_storage s ! i) | _ \<Rightarrow> None)"
  using get_info_resource [OF assms] get_info_none [OF assms]
  by (cases "k_object K (kst s) h") (auto split: obj.splits)

text \<open>The three one-word methods that change a resource.\<close>

lemma verdict_resource:
  assumes L: "kernel_laws K" and ob: "k_object K (kst s) h = Some (OResource i)"
    and m: "m \<in> {1, 2, 3}"
    and hd: "resource_handler (g_resource_storage s ! i) m (capnp_build_flat 24 [w] 1) 24
      = (r', capnp_build_flat 24 [v] 1)"
  shows "invoke_verdict K s h m w =
    (s\<lparr>g_resource_storage := (g_resource_storage s)[i := r']\<rparr>, v \<noteq> 0)"
proof -
  have h: "h \<noteq> 0" using live_handle [OF L ob] by simp
  have rq: "k_request_ok K (OResource i) m (capnp_build_flat 24 [w] 1)"
    by (rule request_ok_one [OF L]) (use m in \<open>auto simp: request_words_def\<close>)
  have rs: "k_result_ok K (OResource i) m (capnp_build_flat 24 [x] 1)" for x
    by (rule result_ok_one [OF L]) (use m in \<open>auto simp: result_words_def\<close>)
  show ?thesis
    using h rq rs
    by (simp add: invoke_verdict_def kernel_invoke_def ob run_handler_def hd length_capnp_build_flat)
qed

lemma reserve_resource:
  assumes L: "kernel_laws K" and ob: "k_object K (kst s) h = Some (OResource i)"
  defines "r \<equiv> g_resource_storage s ! i"
  shows "resource_reserve K s h job =
    (if reserved_by r = job then (s, True)
     else if reserved_by r = 0
     then (s\<lparr>g_resource_storage := (g_resource_storage s)[i := r\<lparr>reserved_by := job\<rparr>]\<rparr>, True)
     else (s, False))"
  unfolding resource_reserve_def r_def
  by (auto simp: resource_handler_def method_ids intro!: trans [OF verdict_resource [OF L ob]])

lemma release_resource:
  assumes L: "kernel_laws K" and ob: "k_object K (kst s) h = Some (OResource i)"
  defines "r \<equiv> g_resource_storage s ! i"
  shows "resource_release_reservation K s h job =
    (if reserved_by r = job
     then (s\<lparr>g_resource_storage := (g_resource_storage s)[i := r\<lparr>reserved_by := 0\<rparr>]\<rparr>, True)
     else (s, False))"
  unfolding resource_release_reservation_def r_def
  by (auto simp: resource_handler_def method_ids intro!: trans [OF verdict_resource [OF L ob]])

lemma reassign_resource:
  assumes L: "kernel_laws K" and ob: "k_object K (kst s) h = Some (OResource i)"
  defines "r \<equiv> g_resource_storage s ! i"
  shows "resource_reassign K s h n =
    (if reserved_by r = 0
     then (s\<lparr>g_resource_storage := (g_resource_storage s)[i := r\<lparr>owner_node := n\<rparr>]\<rparr>, True)
     else (s, False))"
  unfolding resource_reassign_def r_def
  by (auto simp: resource_handler_def method_ids intro!: trans [OF verdict_resource [OF L ob]])

subsection \<open>What no internal call changes\<close>

definition same_resource :: "resource_data_t \<Rightarrow> resource_data_t \<Rightarrow> bool" where
  "same_resource r r' \<longleftrightarrow> kind r' = kind r \<and> descriptor r' = descriptor r
     \<and> capacity r' = capacity r \<and> sync_kind r' = sync_kind r"

definition call_frame :: "'k cluster \<Rightarrow> 'k cluster \<Rightarrow> bool" where
  "call_frame s s' \<longleftrightarrow>
     s' = s\<lparr>g_resource_storage := g_resource_storage s', g_mutex_storage := g_mutex_storage s',
            mm_ledger := mm_ledger s', signals := signals s'\<rparr>
     \<and> list_all2 same_resource (g_resource_storage s) (g_resource_storage s')
     \<and> length (g_mutex_storage s') = length (g_mutex_storage s)
     \<and> (ledger_inv (mm_ledger s) \<longrightarrow> ledger_inv (mm_ledger s'))"

lemma same_resource_refl [simp]: "same_resource r r"
  by (simp add: same_resource_def)

lemma list_all2_same_refl [simp]: "list_all2 same_resource rs rs"
  by (simp add: list_all2_refl)

lemma list_all2_same_update:
  "same_resource (rs ! i) r \<Longrightarrow> list_all2 same_resource rs (rs[i := r])"
  by (cases "i < length rs") (auto simp: list_all2_conv_all_nth nth_list_update list_update_beyond)

lemma call_frame_refl [simp]: "call_frame s s"
  by (simp add: call_frame_def)

lemma cluster_frame_twice:
  "s\<lparr>g_resource_storage := a, g_mutex_storage := b, mm_ledger := c, signals := d\<rparr>
    \<lparr>g_resource_storage := a', g_mutex_storage := b', mm_ledger := c', signals := d'\<rparr>
   = s\<lparr>g_resource_storage := a', g_mutex_storage := b', mm_ledger := c', signals := d'\<rparr>"
  by simp

lemma call_frame_trans:
  assumes "call_frame s t" "call_frame t u"
  shows "call_frame s u"
proof -
  have "list_all2 same_resource (g_resource_storage s) (g_resource_storage u)"
    using assms by (auto simp: call_frame_def list_all2_conv_all_nth same_resource_def)
  moreover have "u = s\<lparr>g_resource_storage := g_resource_storage u, g_mutex_storage := g_mutex_storage u,
            mm_ledger := mm_ledger u, signals := signals u\<rparr>"
  proof -
    have "t = s\<lparr>g_resource_storage := g_resource_storage t, g_mutex_storage := g_mutex_storage t,
            mm_ledger := mm_ledger t, signals := signals t\<rparr>" using assms by (simp add: call_frame_def)
    moreover have "u = t\<lparr>g_resource_storage := g_resource_storage u,
            g_mutex_storage := g_mutex_storage u,
            mm_ledger := mm_ledger u, signals := signals u\<rparr>" using assms by (simp add: call_frame_def)
    ultimately show ?thesis by (metis (no_types) cluster_frame_twice)
  qed
  ultimately show ?thesis using assms by (simp add: call_frame_def)
qed

lemma call_frame_simps:
  assumes "call_frame s s'"
  shows "kst s' = kst s" "g_memory_manager s' = g_memory_manager s"
    "g_pool_resource s' = g_pool_resource s"
    "g_resource_storage_next s' = g_resource_storage_next s"
    "g_resource_index s' = g_resource_index s" "g_node_storage s' = g_node_storage s"
    "g_node_storage_next s' = g_node_storage_next s" "g_node_index s' = g_node_index s"
    "g_mutex_handles s' = g_mutex_handles s" "g_jobs s' = g_jobs s"
    "g_completions s' = g_completions s" "g_completion_next s' = g_completion_next s"
    "g_allocs s' = g_allocs s"
    "length (g_resource_storage s') = length (g_resource_storage s)"
    "length (g_mutex_storage s') = length (g_mutex_storage s)"
    "ledger_inv (mm_ledger s) \<Longrightarrow> ledger_inv (mm_ledger s')"
proof -
  obtain rs ms g sg where e: "s' = s\<lparr>g_resource_storage := rs, g_mutex_storage := ms,
      mm_ledger := g, signals := sg\<rparr>"
    using assms unfolding call_frame_def by blast
  show "kst s' = kst s" "g_memory_manager s' = g_memory_manager s"
    "g_pool_resource s' = g_pool_resource s"
    "g_resource_storage_next s' = g_resource_storage_next s"
    "g_resource_index s' = g_resource_index s" "g_node_storage s' = g_node_storage s"
    "g_node_storage_next s' = g_node_storage_next s" "g_node_index s' = g_node_index s"
    "g_mutex_handles s' = g_mutex_handles s" "g_jobs s' = g_jobs s"
    "g_completions s' = g_completions s" "g_completion_next s' = g_completion_next s"
    "g_allocs s' = g_allocs s"
    by (simp_all add: e)
  show "length (g_resource_storage s') = length (g_resource_storage s)"
    using assms list_all2_lengthD [of same_resource] unfolding call_frame_def by metis
qed (use assms in \<open>simp_all add: call_frame_def\<close>)

lemma call_frame_same_resource:
  "call_frame s s' \<Longrightarrow> i < length (g_resource_storage s) \<Longrightarrow>
    same_resource (g_resource_storage s ! i) (g_resource_storage s' ! i)"
  by (simp add: call_frame_def list_all2_conv_all_nth)

lemma same_resource_handler: "same_resource r (fst (resource_handler r m msg cap))"
  by (simp add: resource_handler_def same_resource_def Let_def)

lemma job_handler_short:
  assumes "kernel_laws K" "k_request_ok K (OJob i) m (capnp_build_flat 24 [w] 1)"
  shows "fst (job_handler j m (capnp_build_flat 24 [w] 1) cap) = j"
  using request_refused [OF assms]
  by (auto simp: job_handler_def request_words_def method_ids split: if_splits)

lemma memory_manager_short:
  assumes "kernel_laws K" "k_request_ok K OMemoryManager m (capnp_build_flat 24 [w] 1)"
  shows "m = MEM_METHOD_FREE"
  using request_refused [OF assms]
  by (auto simp: request_words_def method_ids split: if_splits)

lemma one_word_call_frame:
  assumes L: "kernel_laws K"
  shows "call_frame s (fst (kernel_invoke K s h m (capnp_build_flat 24 [w] 1) cap))"
proof (cases "k_object K (kst s) h")
  case (Some ob)
  show ?thesis
  proof (cases "k_request_ok K ob m (capnp_build_flat 24 [w] 1)")
    case rq: True
    then have f: "fst (kernel_invoke K s h m (capnp_build_flat 24 [w] 1) cap) =
        fst (run_handler K s ob m (capnp_build_flat 24 [w] 1) cap)"
      using Some by (simp add: kernel_invoke_def split_beta)
    show ?thesis
    proof (cases ob)
      case (OResource i)
      then show ?thesis unfolding f
        using same_resource_handler [of "g_resource_storage s ! i" m "capnp_build_flat 24 [w] 1" cap]
        by (simp add: run_handler_def call_frame_def list_all2_same_update split_beta)
    next
      case (OJob i)
      then have "fst (job_handler (js_data (g_jobs s ! i)) m (capnp_build_flat 24 [w] 1) cap)
          = js_data (g_jobs s ! i)"
        using job_handler_short [OF L] rq by simp
      then show ?thesis unfolding f using OJob
        by (auto simp: run_handler_def split_beta)
    next
      case OMemoryManager
      then have "m = MEM_METHOD_FREE" using memory_manager_short [OF L] rq by simp
      then show ?thesis unfolding f using OMemoryManager mm.free_inv
        by (auto simp: run_handler_def call_frame_def handler_free split_beta)
    qed (simp_all add: f run_handler_def call_frame_def split_beta)
  qed (simp add: kernel_invoke_def Some)
qed (simp add: kernel_invoke_def)

lemma verdict_frame: "kernel_laws K \<Longrightarrow> call_frame s (fst (invoke_verdict K s h m w))"
  using one_word_call_frame [of K s h m w 24]
  by (simp add: invoke_verdict_def split_beta)

lemma get_info_frame: "kernel_laws K \<Longrightarrow> call_frame s (fst (resource_get_info K s h))"
  using one_word_call_frame [of K s h RESOURCE_METHOD_GET_INFO 0 64]
  by (simp add: resource_get_info_def split_beta)

text \<open>Reading a resource changes nothing but, for a mutex handle, that mutex.\<close>

lemma get_info_state:
  assumes L: "kernel_laws K"
  shows "fst (resource_get_info K s h) =
    s\<lparr>g_mutex_storage := g_mutex_storage (fst (resource_get_info K s h))\<rparr>"
proof (cases "k_object K (kst s) h")
  case (Some ob)
  show ?thesis
  proof (cases "k_request_ok K ob 0 (capnp_build_flat 24 [0] 1)")
    case True
    then have "ob \<noteq> OMemoryManager"
      using memory_manager_short [OF L, of 0 0] by (auto simp: method_ids)
    then show ?thesis
      using Some by (cases ob)
        (simp_all add: resource_get_info_def kernel_invoke_def run_handler_def resource_handler_def
          node_handler_def mutex_handler_def job_handler_def Let_def method_ids)
  qed (simp add: resource_get_info_def kernel_invoke_def Some method_ids)
qed (simp add: resource_get_info_def kernel_invoke_def)

end
