(* ===== verification/Cluster_Inv.thy ===== *)
theory Cluster_Inv
  imports Cluster_Facts
begin

text \<open>
  The well-formedness of the scheduler's tables: every used entry of a table names a
  live object of its kind, every live object of a kind has its place in the tables,
  and no two handles share storage.  Every method of the scheduler preserves it.
\<close>

type_synonym objects = "u64 \<rightharpoonup> obj"

definition res_wf :: "objects \<Rightarrow> resource_index_entry_t list \<Rightarrow> resource_data_t list \<Rightarrow> nat \<Rightarrow> bool" where
  "res_wf ot idx st next \<longleftrightarrow>
     (\<forall>e \<in> set idx. rx_used e \<longrightarrow> (\<exists>j. ot (rx_handle e) = Some (OResource j) \<and> rx_kind e = kind (st ! j)))
     \<and> (\<forall>h j. ot h = Some (OResource j) \<longrightarrow> j < next \<and> j < length st)
     \<and> (\<forall>h h' j. ot h = Some (OResource j) \<longrightarrow> ot h' = Some (OResource j) \<longrightarrow> h = h')
     \<and> (\<forall>a b. a < length idx \<longrightarrow> b < length idx \<longrightarrow> rx_used (idx ! a) \<longrightarrow> rx_used (idx ! b)
          \<longrightarrow> rx_handle (idx ! a) = rx_handle (idx ! b) \<longrightarrow> a = b)"

definition job_wf :: "objects \<Rightarrow> job_slot list \<Rightarrow> bool" where
  "job_wf ot js \<longleftrightarrow>
     (\<forall>i < length js. js_used (js ! i) \<longrightarrow> ot (js_handle (js ! i)) = Some (OJob i))
     \<and> (\<forall>h i. ot h = Some (OJob i) \<longrightarrow> i < length js \<and> js_used (js ! i) \<and> js_handle (js ! i) = h)"

definition node_wf :: "objects \<Rightarrow> node_index_entry_t list \<Rightarrow> node_data_t list \<Rightarrow> nat \<Rightarrow> bool" where
  "node_wf ot idx st next \<longleftrightarrow>
     (\<forall>e \<in> set idx. nx_used e \<longrightarrow>
        (\<exists>j. ot (nx_handle e) = Some (ONode j) \<and> nx_node_id e = nd_node_id (st ! j)))
     \<and> (\<forall>h j. ot h = Some (ONode j) \<longrightarrow> j < next \<and> j < length st)
     \<and> (\<forall>a b. a < length idx \<longrightarrow> b < length idx \<longrightarrow> nx_used (idx ! a) \<longrightarrow> nx_used (idx ! b)
          \<longrightarrow> nx_handle (idx ! a) = nx_handle (idx ! b) \<or> nx_node_id (idx ! a) = nx_node_id (idx ! b) \<longrightarrow> a = b)"

definition mutex_wf :: "objects \<Rightarrow> u64 list \<Rightarrow> bool" where
  "mutex_wf ot hs \<longleftrightarrow>
     (\<forall>i < length hs. hs ! i \<noteq> 0 \<longrightarrow> ot (hs ! i) = Some (OMutex i))
     \<and> (\<forall>h i. ot h = Some (OMutex i) \<longrightarrow> i < length hs \<and> hs ! i = h)"

definition sizes_wf :: "'k cluster \<Rightarrow> bool" where
  "sizes_wf s \<longleftrightarrow> length (g_resource_storage s) = RESOURCE_POOL_SIZE
     \<and> length (g_resource_index s) = RESOURCE_POOL_SIZE
     \<and> length (g_node_storage s) = MAX_NODES \<and> length (g_node_index s) = MAX_NODES
     \<and> length (g_mutex_storage s) = MAX_MUTEXES \<and> length (g_mutex_handles s) = MAX_MUTEXES
     \<and> length (g_jobs s) = JOB_POOL_SIZE \<and> length (g_completions s) = JOB_POOL_SIZE
     \<and> length (g_allocs s) = MAX_ALLOC_RECORDS"

abbreviation objs :: "('k, 'z) platform_scheme \<Rightarrow> 'k cluster \<Rightarrow> objects" where
  "objs K s \<equiv> k_object K (kst s)"

definition cluster_wf :: "('k, 'z) platform_scheme \<Rightarrow> 'k cluster \<Rightarrow> bool" where
  "cluster_wf K s \<longleftrightarrow> sizes_wf s
     \<and> res_wf (objs K s) (g_resource_index s) (g_resource_storage s) (g_resource_storage_next s)
     \<and> job_wf (objs K s) (g_jobs s)
     \<and> node_wf (objs K s) (g_node_index s) (g_node_storage s) (g_node_storage_next s)
     \<and> mutex_wf (objs K s) (g_mutex_handles s)
     \<and> objs K s (g_memory_manager s) = Some OMemoryManager
     \<and> ledger_inv (mm_ledger s)"

lemma res_wfI:
  assumes "\<And>e. e \<in> set idx \<Longrightarrow> rx_used e \<Longrightarrow>
      \<exists>j. ot (rx_handle e) = Some (OResource j) \<and> rx_kind e = kind (st ! j)"
    and "\<And>h j. ot h = Some (OResource j) \<Longrightarrow> j < n \<and> j < length st"
    and "\<And>h h' j. ot h = Some (OResource j) \<Longrightarrow> ot h' = Some (OResource j) \<Longrightarrow> h = h'"
    and "\<And>a b. a < length idx \<Longrightarrow> b < length idx \<Longrightarrow> rx_used (idx ! a) \<Longrightarrow> rx_used (idx ! b)
      \<Longrightarrow> rx_handle (idx ! a) = rx_handle (idx ! b) \<Longrightarrow> a = b"
  shows "res_wf ot idx st n"
  using assms unfolding res_wf_def by blast

lemma res_wfD:
  assumes "res_wf ot idx st n"
  shows "e \<in> set idx \<Longrightarrow> rx_used e \<Longrightarrow>
      \<exists>j. ot (rx_handle e) = Some (OResource j) \<and> rx_kind e = kind (st ! j)"
    and "ot h = Some (OResource j) \<Longrightarrow> j < n \<and> j < length st"
    and "ot h = Some (OResource j) \<Longrightarrow> ot h' = Some (OResource j) \<Longrightarrow> h = h'"
    and "a < length idx \<Longrightarrow> b < length idx \<Longrightarrow> rx_used (idx ! a) \<Longrightarrow> rx_used (idx ! b)
      \<Longrightarrow> rx_handle (idx ! a) = rx_handle (idx ! b) \<Longrightarrow> a = b"
  using assms unfolding res_wf_def by blast+

subsection \<open>Creating and destroying objects of another kind\<close>

lemma node_wfI:
  assumes "\<And>e. e \<in> set idx \<Longrightarrow> nx_used e \<Longrightarrow>
      \<exists>j. ot (nx_handle e) = Some (ONode j) \<and> nx_node_id e = nd_node_id (st ! j)"
    and "\<And>h j. ot h = Some (ONode j) \<Longrightarrow> j < n \<and> j < length st"
    and "\<And>a b. a < length idx \<Longrightarrow> b < length idx \<Longrightarrow> nx_used (idx ! a) \<Longrightarrow> nx_used (idx ! b)
      \<Longrightarrow> nx_handle (idx ! a) = nx_handle (idx ! b) \<or> nx_node_id (idx ! a) = nx_node_id (idx ! b) \<Longrightarrow> a = b"
  shows "node_wf ot idx st n"
  using assms unfolding node_wf_def by blast

lemma node_wfD:
  assumes "node_wf ot idx st n"
  shows "e \<in> set idx \<Longrightarrow> nx_used e \<Longrightarrow>
      \<exists>j. ot (nx_handle e) = Some (ONode j) \<and> nx_node_id e = nd_node_id (st ! j)"
    and "ot h = Some (ONode j) \<Longrightarrow> j < n \<and> j < length st"
    and "a < length idx \<Longrightarrow> b < length idx \<Longrightarrow> nx_used (idx ! a) \<Longrightarrow> nx_used (idx ! b)
      \<Longrightarrow> nx_handle (idx ! a) = nx_handle (idx ! b) \<or> nx_node_id (idx ! a) = nx_node_id (idx ! b) \<Longrightarrow> a = b"
  using assms unfolding node_wf_def by blast+

text \<open>A change of one entry of the object map that leaves the objects of a kind alone.\<close>

lemma res_wf_other:
  assumes wf: "res_wf ot idx st n" and same: "\<And>x j. ot' x = Some (OResource j) \<longleftrightarrow> ot x = Some (OResource j)"
  shows "res_wf ot' idx st n"
  using wf unfolding res_wf_def same .

lemma node_wf_other:
  assumes wf: "node_wf ot idx st n" and same: "\<And>x j. ot' x = Some (ONode j) \<longleftrightarrow> ot x = Some (ONode j)"
  shows "node_wf ot' idx st n"
  using wf unfolding node_wf_def same .

lemma job_wf_other:
  assumes wf: "job_wf ot js" and same: "\<And>x j. ot' x = Some (OJob j) \<longleftrightarrow> ot x = Some (OJob j)"
  shows "job_wf ot' js"
  using wf unfolding job_wf_def same .

lemma mutex_wf_other:
  assumes wf: "mutex_wf ot hs" and same: "\<And>x j. ot' x = Some (OMutex j) \<longleftrightarrow> ot x = Some (OMutex j)"
  shows "mutex_wf ot' hs"
  using wf unfolding mutex_wf_def same .

lemmas wf_other = res_wf_other node_wf_other job_wf_other mutex_wf_other

subsection \<open>The tables under their own operations\<close>

lemma res_wf_add:
  assumes wf: "res_wf ot idx st n" and h: "ot h = None" and n: "n < length st"
    and rd: "kind rd = knd"
  shows "res_wf (ot(h \<mapsto> OResource n)) idx (st[n := rd]) (Suc n)"
    and "i < length idx \<Longrightarrow> \<not> rx_used (idx ! i) \<Longrightarrow>
      res_wf (ot(h \<mapsto> OResource n)) (idx[i := \<lparr>rx_handle = h, rx_kind = knd, rx_used = True\<rparr>])
        (st[n := rd]) (Suc n)"
proof -
  note D = res_wfD [OF wf]
  have old: "rx_handle e \<noteq> h \<and> (\<exists>j. ot (rx_handle e) = Some (OResource j) \<and> rx_kind e = kind (st[n := rd] ! j))"
    if e: "e \<in> set idx" "rx_used e" for e
  proof -
    obtain j where j: "ot (rx_handle e) = Some (OResource j)" "rx_kind e = kind (st ! j)"
      using D(1) [OF e] by blast
    then have "j < n" using D(2) by blast
    then show ?thesis using j h by auto
  qed
  have st: "j < Suc n \<and> j < length (st[n := rd])" if "(ot(h \<mapsto> OResource n)) x = Some (OResource j)" for x j
    using that D(2) [of x j] n by (auto split: if_splits)
  have inj: "x = y" if "(ot(h \<mapsto> OResource n)) x = Some (OResource j)"
    "(ot(h \<mapsto> OResource n)) y = Some (OResource j)" for x y j
  proof -
    have "ot z \<noteq> Some (OResource n)" for z using D(2) [of z n] by blast
    then show ?thesis using that D(3) [of x j y] by (cases "x = h"; cases "y = h") auto
  qed
  show "res_wf (ot(h \<mapsto> OResource n)) idx (st[n := rd]) (Suc n)"
  proof (rule res_wfI)
    fix e assume e: "e \<in> set idx" "rx_used e"
    show "\<exists>j. (ot(h \<mapsto> OResource n)) (rx_handle e) = Some (OResource j) \<and> rx_kind e = kind (st[n := rd] ! j)"
      using old [OF e] by simp
  qed (erule st, erule (1) inj, erule (4) D(4))
  show "res_wf (ot(h \<mapsto> OResource n)) (idx[i := \<lparr>rx_handle = h, rx_kind = knd, rx_used = True\<rparr>])
        (st[n := rd]) (Suc n)" if i: "i < length idx" "\<not> rx_used (idx ! i)"
  proof (rule res_wfI)
    fix e assume e: "e \<in> set (idx[i := \<lparr>rx_handle = h, rx_kind = knd, rx_used = True\<rparr>])" "rx_used e"
    show "\<exists>j. (ot(h \<mapsto> OResource n)) (rx_handle e) = Some (OResource j) \<and> rx_kind e = kind (st[n := rd] ! j)"
      using set_update_cases [OF e(1)]
    proof
      assume "e \<in> set idx"
      then show ?thesis using old [OF _ e(2)] by simp
    qed (simp add: n rd)
  next
    fix a b assume ab: "a < length (idx[i := \<lparr>rx_handle = h, rx_kind = knd, rx_used = True\<rparr>])"
      "b < length (idx[i := \<lparr>rx_handle = h, rx_kind = knd, rx_used = True\<rparr>])"
      and u: "rx_used (idx[i := \<lparr>rx_handle = h, rx_kind = knd, rx_used = True\<rparr>] ! a)"
       "rx_used (idx[i := \<lparr>rx_handle = h, rx_kind = knd, rx_used = True\<rparr>] ! b)"
      and eq: "rx_handle (idx[i := \<lparr>rx_handle = h, rx_kind = knd, rx_used = True\<rparr>] ! a) =
        rx_handle (idx[i := \<lparr>rx_handle = h, rx_kind = knd, rx_used = True\<rparr>] ! b)"
    have "rx_handle (idx ! c) \<noteq> h" if "c < length idx" "rx_used (idx ! c)" for c
      using old [of "idx ! c"] that by auto
    then show "a = b" using ab u eq D(4) [of a b] i
      by (auto simp: nth_list_update split: if_splits)
  qed (erule st, erule (1) inj)
qed

lemma res_wf_frame:
  assumes "res_wf ot idx st n" "list_all2 same_resource st st'"
  shows "res_wf ot idx st' n"
proof -
  note D = res_wfD [OF assms(1)]
  have st: "length st' = length st" "\<And>j. j < length st \<Longrightarrow> kind (st' ! j) = kind (st ! j)"
    using assms(2) by (auto simp: list_all2_conv_all_nth same_resource_def)
  show ?thesis
  proof (rule res_wfI)
    fix e assume "e \<in> set idx" "rx_used e"
    then obtain j where "ot (rx_handle e) = Some (OResource j)" "rx_kind e = kind (st ! j)"
      using D(1) by blast
    then show "\<exists>j. ot (rx_handle e) = Some (OResource j) \<and> rx_kind e = kind (st' ! j)"
      using D(2) st(2) by auto
  qed (use D st(1) in auto)
qed

lemma res_wf_drop:
  assumes wf: "res_wf ot idx st n" and i: "i < length idx" "rx_used (idx ! i)" "rx_handle (idx ! i) = h"
  shows "res_wf (ot(h := None)) (idx[i := (idx ! i)\<lparr>rx_used := False\<rparr>]) st n"
proof -
  note D = res_wfD [OF wf]
  have e: "rx_handle e \<noteq> h \<and> e \<in> set idx"
    if e: "e \<in> set (idx[i := (idx ! i)\<lparr>rx_used := False\<rparr>])" "rx_used e" for e
  proof -
    obtain a where "a < length idx" "e = idx[i := (idx ! i)\<lparr>rx_used := False\<rparr>] ! a"
      using e(1) by (auto simp: in_set_conv_nth)
    then show ?thesis using e(2) i D(4) [of a i] by (auto simp: nth_list_update split: if_splits)
  qed
  show ?thesis
  proof (rule res_wfI)
    fix e assume "e \<in> set (idx[i := (idx ! i)\<lparr>rx_used := False\<rparr>])" "rx_used e"
    then show "\<exists>j. (ot(h := None)) (rx_handle e) = Some (OResource j) \<and> rx_kind e = kind (st ! j)"
      using e [of e] D(1) [of e] by simp
  next
    fix a b assume "a < length (idx[i := (idx ! i)\<lparr>rx_used := False\<rparr>])"
      "b < length (idx[i := (idx ! i)\<lparr>rx_used := False\<rparr>])"
      "rx_used (idx[i := (idx ! i)\<lparr>rx_used := False\<rparr>] ! a)"
      "rx_used (idx[i := (idx ! i)\<lparr>rx_used := False\<rparr>] ! b)"
      "rx_handle (idx[i := (idx ! i)\<lparr>rx_used := False\<rparr>] ! a) =
       rx_handle (idx[i := (idx ! i)\<lparr>rx_used := False\<rparr>] ! b)"
    then show "a = b" using D(4) [of a b] i(1) by (auto simp: nth_list_update split: if_splits)
  qed (use D in \<open>auto split: if_splits\<close>)
qed

lemma res_wf_drop_unindexed:
  assumes wf: "res_wf ot idx st n" and no: "\<forall>e \<in> set idx. \<not> (rx_used e \<and> rx_handle e = h)"
  shows "res_wf (ot(h := None)) idx st n"
proof (rule res_wfI)
  fix e assume "e \<in> set idx" "rx_used e"
  then show "\<exists>j. (ot(h := None)) (rx_handle e) = Some (OResource j) \<and> rx_kind e = kind (st ! j)"
    using res_wfD(1) [OF wf] no by auto
qed (use res_wfD [OF wf] in \<open>auto split: if_splits\<close>)

lemma job_wf_same:
  assumes wf: "job_wf ot js" and len: "length js' = length js"
    and same: "\<And>i. i < length js \<Longrightarrow> js_used (js' ! i) = js_used (js ! i)
      \<and> (js_used (js ! i) \<longrightarrow> js_handle (js' ! i) = js_handle (js ! i))"
  shows "job_wf ot js'"
  unfolding job_wf_def
proof (intro conjI allI impI)
  fix i assume "i < length js'" "js_used (js' ! i)"
  then show "ot (js_handle (js' ! i)) = Some (OJob i)"
    using wf same [of i] len by (simp add: job_wf_def)
next
  fix h i assume "ot h = Some (OJob i)"
  then have "i < length js" "js_used (js ! i)" "js_handle (js ! i) = h"
    using wf by (auto simp: job_wf_def)
  then show "i < length js'" "js_used (js' ! i)" "js_handle (js' ! i) = h"
    using same [of i] len by auto
qed

lemma job_wf_add:
  assumes wf: "job_wf ot js" and h: "ot h = None" and i: "i < length js" "\<not> js_used (js ! i)"
  shows "job_wf (ot(h \<mapsto> OJob i)) (js[i := \<lparr>js_used = True, js_handle = h, js_data = d\<rparr>])"
proof -
  have 1: "ot (js_handle (js ! a)) = Some (OJob a) \<and> js_handle (js ! a) \<noteq> h"
    if "a < length js" "js_used (js ! a)" for a
    using wf that h by (auto simp: job_wf_def)
  have 2: "a < length js \<and> js_used (js ! a) \<and> js_handle (js ! a) = x \<and> a \<noteq> i"
    if "ot x = Some (OJob a)" for x a
    using wf that i by (auto simp: job_wf_def)
  show ?thesis
    unfolding job_wf_def using 1 2 i
    by (auto simp: nth_list_update split: if_splits)
qed

lemma job_wf_drop:
  assumes wf: "job_wf ot js" and i: "i < length js" "js_used (js ! i)" "js_handle (js ! i) = h"
  shows "job_wf (ot(h := None)) (js[i := (js ! i)\<lparr>js_used := False\<rparr>])"
proof -
  have 1: "ot (js_handle (js ! a)) = Some (OJob a)" if "a < length js" "js_used (js ! a)" for a
    using wf that by (auto simp: job_wf_def)
  have 2: "a < length js \<and> js_used (js ! a) \<and> js_handle (js ! a) = x"
    if "ot x = Some (OJob a)" for x a
    using wf that by (auto simp: job_wf_def)
  have 3: "js_handle (js ! a) \<noteq> h" if "a < length js" "js_used (js ! a)" "a \<noteq> i" for a
    using 1 [OF that(1,2)] 1 [OF i(1,2)] i(3) that(3) by auto
  show ?thesis
    unfolding job_wf_def using 1 2 3 i
    by (auto simp: nth_list_update split: if_splits)
qed

lemma node_wf_add:
  assumes wf: "node_wf ot idx st n" and h: "ot h = None" and n: "n < length st"
    and new: "\<forall>e \<in> set idx. nx_used e \<longrightarrow> nx_node_id e \<noteq> nid" and nd: "nd_node_id nd = nid"
  shows "node_wf (ot(h \<mapsto> ONode n)) idx (st[n := nd]) (Suc n)"
    and "i < length idx \<Longrightarrow> \<not> nx_used (idx ! i) \<Longrightarrow>
      node_wf (ot(h \<mapsto> ONode n)) (idx[i := \<lparr>nx_handle = h, nx_node_id = nid, nx_used = True\<rparr>])
        (st[n := nd]) (Suc n)"
proof -
  note D = node_wfD [OF wf]
  have old: "nx_handle e \<noteq> h \<and> nx_node_id e \<noteq> nid \<and>
      (\<exists>j. ot (nx_handle e) = Some (ONode j) \<and> nx_node_id e = nd_node_id (st[n := nd] ! j))"
    if e: "e \<in> set idx" "nx_used e" for e
  proof -
    obtain j where j: "ot (nx_handle e) = Some (ONode j)" "nx_node_id e = nd_node_id (st ! j)"
      using D(1) [OF e] by blast
    then have "j < n" using D(2) by blast
    then show ?thesis using j h new e by auto
  qed
  have st: "j < Suc n \<and> j < length (st[n := nd])" if "(ot(h \<mapsto> ONode n)) x = Some (ONode j)" for x j
    using that D(2) [of x j] n by (auto split: if_splits)
  show "node_wf (ot(h \<mapsto> ONode n)) idx (st[n := nd]) (Suc n)"
  proof (rule node_wfI)
    fix e assume e: "e \<in> set idx" "nx_used e"
    show "\<exists>j. (ot(h \<mapsto> ONode n)) (nx_handle e) = Some (ONode j) \<and> nx_node_id e = nd_node_id (st[n := nd] ! j)"
      using old [OF e] by simp
  qed (erule st, erule (4) D(3))
  show "node_wf (ot(h \<mapsto> ONode n)) (idx[i := \<lparr>nx_handle = h, nx_node_id = nid, nx_used = True\<rparr>])
        (st[n := nd]) (Suc n)" if i: "i < length idx" "\<not> nx_used (idx ! i)"
  proof (rule node_wfI)
    fix e assume e: "e \<in> set (idx[i := \<lparr>nx_handle = h, nx_node_id = nid, nx_used = True\<rparr>])" "nx_used e"
    show "\<exists>j. (ot(h \<mapsto> ONode n)) (nx_handle e) = Some (ONode j) \<and> nx_node_id e = nd_node_id (st[n := nd] ! j)"
      using set_update_cases [OF e(1)]
    proof
      assume "e \<in> set idx"
      then show ?thesis using old [OF _ e(2)] by simp
    qed (simp add: n nd)
  next
    fix a b assume ab: "a < length (idx[i := \<lparr>nx_handle = h, nx_node_id = nid, nx_used = True\<rparr>])"
      "b < length (idx[i := \<lparr>nx_handle = h, nx_node_id = nid, nx_used = True\<rparr>])"
      and u: "nx_used (idx[i := \<lparr>nx_handle = h, nx_node_id = nid, nx_used = True\<rparr>] ! a)"
       "nx_used (idx[i := \<lparr>nx_handle = h, nx_node_id = nid, nx_used = True\<rparr>] ! b)"
      and eq: "nx_handle (idx[i := \<lparr>nx_handle = h, nx_node_id = nid, nx_used = True\<rparr>] ! a) =
          nx_handle (idx[i := \<lparr>nx_handle = h, nx_node_id = nid, nx_used = True\<rparr>] ! b) \<or>
        nx_node_id (idx[i := \<lparr>nx_handle = h, nx_node_id = nid, nx_used = True\<rparr>] ! a) =
          nx_node_id (idx[i := \<lparr>nx_handle = h, nx_node_id = nid, nx_used = True\<rparr>] ! b)"
    have "nx_handle (idx ! c) \<noteq> h \<and> nx_node_id (idx ! c) \<noteq> nid"
      if "c < length idx" "nx_used (idx ! c)" for c
      using old [of "idx ! c"] that by auto
    then show "a = b" using ab u eq D(3) [of a b] i
      by (auto simp: nth_list_update split: if_splits)
  qed (erule st)
qed

lemma node_wf_drop:
  assumes wf: "node_wf ot idx st n" and i: "i < length idx" "nx_used (idx ! i)" "nx_handle (idx ! i) = h"
  shows "node_wf (ot(h := None)) (idx[i := (idx ! i)\<lparr>nx_used := False\<rparr>]) st n"
proof -
  note D = node_wfD [OF wf]
  have e: "nx_handle e \<noteq> h \<and> e \<in> set idx"
    if e: "e \<in> set (idx[i := (idx ! i)\<lparr>nx_used := False\<rparr>])" "nx_used e" for e
  proof -
    obtain a where "a < length idx" "e = idx[i := (idx ! i)\<lparr>nx_used := False\<rparr>] ! a"
      using e(1) by (auto simp: in_set_conv_nth)
    then show ?thesis using e(2) i D(3) [of a i] by (auto simp: nth_list_update split: if_splits)
  qed
  show ?thesis
  proof (rule node_wfI)
    fix e assume "e \<in> set (idx[i := (idx ! i)\<lparr>nx_used := False\<rparr>])" "nx_used e"
    then show "\<exists>j. (ot(h := None)) (nx_handle e) = Some (ONode j) \<and> nx_node_id e = nd_node_id (st ! j)"
      using e [of e] D(1) [of e] by simp
  next
    fix a b assume "a < length (idx[i := (idx ! i)\<lparr>nx_used := False\<rparr>])"
      "b < length (idx[i := (idx ! i)\<lparr>nx_used := False\<rparr>])"
      "nx_used (idx[i := (idx ! i)\<lparr>nx_used := False\<rparr>] ! a)"
      "nx_used (idx[i := (idx ! i)\<lparr>nx_used := False\<rparr>] ! b)"
      "nx_handle (idx[i := (idx ! i)\<lparr>nx_used := False\<rparr>] ! a) =
       nx_handle (idx[i := (idx ! i)\<lparr>nx_used := False\<rparr>] ! b) \<or>
       nx_node_id (idx[i := (idx ! i)\<lparr>nx_used := False\<rparr>] ! a) =
       nx_node_id (idx[i := (idx ! i)\<lparr>nx_used := False\<rparr>] ! b)"
    then show "a = b" using D(3) [of a b] i(1) by (auto simp: nth_list_update split: if_splits)
  qed (use D in \<open>auto split: if_splits\<close>)
qed

end
