(* ===== verification/Cluster_Preserve.thy ===== *)
theory Cluster_Preserve
  imports Cluster_Inv
begin

text \<open>
  Every object operation preserves \<open>cluster_wf\<close>, and the helpers that only call
  other objects change nothing but what those objects hold.
\<close>

subsection \<open>Object operations\<close>

lemma cluster_wfD:
  assumes "cluster_wf K s"
  shows "sizes_wf s"
    "res_wf (objs K s) (g_resource_index s) (g_resource_storage s) (g_resource_storage_next s)"
    "job_wf (objs K s) (g_jobs s)"
    "node_wf (objs K s) (g_node_index s) (g_node_storage s) (g_node_storage_next s)"
    "mutex_wf (objs K s) (g_mutex_handles s)"
    "objs K s (g_memory_manager s) = Some OMemoryManager" "ledger_inv (mm_ledger s)"
  using assms by (simp_all add: cluster_wf_def)

lemma cluster_wf_frame:
  assumes "cluster_wf K s" "call_frame s s'"
  shows "cluster_wf K s'"
proof -
  note D = cluster_wfD [OF assms(1)] and F = call_frame_simps [OF assms(2)]
  have "list_all2 same_resource (g_resource_storage s) (g_resource_storage s')"
    using assms(2) by (simp add: call_frame_def)
  from res_wf_frame [OF D(2) this] show ?thesis
    using D F(16) by (simp add: cluster_wf_def sizes_wf_def F(1-15))
qed

lemma wf_get_info: "kernel_laws K \<Longrightarrow> cluster_wf K s \<Longrightarrow> cluster_wf K (fst (resource_get_info K s h))"
  by (erule cluster_wf_frame) (rule get_info_frame)

lemma wf_verdict: "kernel_laws K \<Longrightarrow> cluster_wf K s \<Longrightarrow> cluster_wf K (fst (invoke_verdict K s h m w))"
  by (erule cluster_wf_frame) (rule verdict_frame)

lemma job_update_simps [simp]:
  "kst (job_update i f s) = kst s" "mm_ledger (job_update i f s) = mm_ledger s"
  "g_memory_manager (job_update i f s) = g_memory_manager s"
  "g_pool_resource (job_update i f s) = g_pool_resource s"
  "g_resource_storage (job_update i f s) = g_resource_storage s"
  "g_resource_storage_next (job_update i f s) = g_resource_storage_next s"
  "g_resource_index (job_update i f s) = g_resource_index s"
  "g_node_storage (job_update i f s) = g_node_storage s"
  "g_node_storage_next (job_update i f s) = g_node_storage_next s"
  "g_node_index (job_update i f s) = g_node_index s"
  "g_mutex_storage (job_update i f s) = g_mutex_storage s"
  "g_mutex_handles (job_update i f s) = g_mutex_handles s"
  "g_completions (job_update i f s) = g_completions s"
  "g_completion_next (job_update i f s) = g_completion_next s"
  "g_allocs (job_update i f s) = g_allocs s" "signals (job_update i f s) = signals s"
  "length (g_jobs (job_update i f s)) = length (g_jobs s)"
  by (simp_all add: job_update_def)

lemma job_update_slot [simp]:
  "js_used (g_jobs (job_update i f s) ! j) = js_used (g_jobs s ! j)"
  "js_handle (g_jobs (job_update i f s) ! j) = js_handle (g_jobs s ! j)"
  by (cases "i < length (g_jobs s)"; simp add: job_update_def nth_list_update list_update_beyond)+

lemma job_at_update:
  "i < length (g_jobs s) \<Longrightarrow> job_at (job_update i f s) j = (if j = i then f (job_at s i) else job_at s j)"
  by (simp add: job_at_def job_update_def nth_list_update)

lemma wf_job_update:
  assumes "cluster_wf K s"
  shows "cluster_wf K (job_update i f s)"
proof -
  have "job_wf (objs K s) (g_jobs (job_update i f s))"
    by (rule job_wf_same [OF cluster_wfD(3) [OF assms]]) simp_all
  then show ?thesis using assms by (simp add: cluster_wf_def sizes_wf_def)
qed

lemma wf_completion_record: "cluster_wf K s \<Longrightarrow> cluster_wf K (completion_record s h v)"
  by (simp add: cluster_wf_def sizes_wf_def completion_record_def Let_def)

text \<open>A state that differs in the kernel's table by a new object of one kind.\<close>

lemma fresh_handle:
  assumes "kernel_laws K" "k_create K k ob = (k', h)" "h \<noteq> 0"
  shows "k_object K k h = None"
  using create_fresh(1) [OF assms] live_handle(1) [OF assms(1)] by (cases "k_object K k h") auto

text \<open>The storage past the objects created so far does not matter.\<close>

lemma res_wf_more:
  assumes wf: "res_wf ot idx st n" and st: "st' = st \<or> (\<exists>r. st' = st[n := r])"
  shows "res_wf ot idx st' (Suc n)"
proof (rule res_wfI)
  fix e assume "e \<in> set idx" "rx_used e"
  then obtain j where j: "ot (rx_handle e) = Some (OResource j)" "rx_kind e = kind (st ! j)"
    using res_wfD(1) [OF wf] by blast
  then have "j < n" using res_wfD(2) [OF wf] by blast
  then show "\<exists>j. ot (rx_handle e) = Some (OResource j) \<and> rx_kind e = kind (st' ! j)"
    using j st by auto
next
  fix h j assume "ot h = Some (OResource j)"
  then show "j < Suc n \<and> j < length st'" using res_wfD(2) [OF wf, of h j] st by auto
qed (erule (1) res_wfD(3) [OF wf], erule (4) res_wfD(4) [OF wf])

lemma wf_create_resource:
  assumes L: "kernel_laws K" and wf: "cluster_wf K s"
  shows "cluster_wf K (fst (create_resource_object K s own knd des cap syn rb))"
proof -
  note D = cluster_wfD [OF wf]
  let ?n = "g_resource_storage_next s"
  obtain k' h where c: "k_create K (kst s) (OResource ?n) = (k', h)" by fastforce
  define rd where "rd = \<lparr>owner_node = own, kind = knd, descriptor = des, capacity = cap,
     reserved_by = rb, sync_kind = syn\<rparr>"
  have more: "res_wf (objs K s) (g_resource_index s) (g_resource_storage s) (Suc ?n)"
    by (rule res_wf_more [OF D(2)]) simp
  show ?thesis
  proof (cases "?n \<ge> RESOURCE_POOL_SIZE")
    case True
    then show ?thesis using wf more by (simp add: create_resource_object_def Let_def cluster_wf_def sizes_wf_def)
  next
    case False
    then have n: "?n < length (g_resource_storage s)" using D(1) by (simp add: sizes_wf_def)
    show ?thesis
    proof (cases "h = 0")
      case True
      note cf = create_failed [OF L c [unfolded True]]
      have "res_wf (objs K s) (g_resource_index s) ((g_resource_storage s)[?n := rd]) (Suc ?n)"
        by (rule res_wf_more [OF D(2)]) blast
      moreover have "job_wf (k_object K k') (g_jobs s)"
        "node_wf (k_object K k') (g_node_index s) (g_node_storage s) (g_node_storage_next s)"
        "mutex_wf (k_object K k') (g_mutex_handles s)"
        using D by (simp_all add: cf)
      ultimately show ?thesis
        using D False c cf True by (simp add: create_resource_object_def Let_def cluster_wf_def sizes_wf_def rd_def)
    next
      case h: False
      note cr = create_fresh [OF L c h] and fr = fresh_handle [OF L c h]
      have ot: "k_object K k' = (objs K s)(h \<mapsto> OResource ?n)" by (rule cr(2))
      have "k_object K k' x = Some (OJob j) \<longleftrightarrow> objs K s x = Some (OJob j)"
        "k_object K k' x = Some (OMutex j) \<longleftrightarrow> objs K s x = Some (OMutex j)"
        "k_object K k' x = Some (ONode j) \<longleftrightarrow> objs K s x = Some (ONode j)" for x j
        using fr by (auto simp: ot)
      note oth = wf_other(3) [OF D(3) this(1)] wf_other(4) [OF D(5) this(2)] wf_other(2) [OF D(4) this(3)]
      have mm: "k_object K k' (g_memory_manager s) = Some OMemoryManager"
        using D(6) fr ot by auto
      have rd: "kind rd = knd" by (simp add: rd_def)
      note add = res_wf_add [OF D(2) fr n rd, folded ot]
      show ?thesis
      proof (cases "first_slot (\<lambda>e. \<not> rx_used e) (g_resource_index s)")
        case None
        then show ?thesis
          using D False c h add(1) oth mm
          by (simp add: create_resource_object_def Let_def cluster_wf_def sizes_wf_def rd_def)
      next
        case (Some i)
        then show ?thesis
          using D False c h add(2) [OF first_slot_SomeD(1) [OF Some] first_slot_SomeD(2) [OF Some]] oth mm
          by (simp add: create_resource_object_def Let_def cluster_wf_def sizes_wf_def rd_def)
      qed
    qed
  qed
qed

lemma node_find_none:
  assumes L: "kernel_laws K" and wf: "cluster_wf K s"
  shows "node_find_by_id s nid = 0 \<longleftrightarrow> (\<forall>e \<in> set (g_node_index s). nx_used e \<longrightarrow> nx_node_id e \<noteq> nid)"
proof (cases "first_slot (\<lambda>e. nx_used e \<and> nx_node_id e = nid) (g_node_index s)")
  case None
  then have "\<forall>e \<in> set (g_node_index s). \<not> (nx_used e \<and> nx_node_id e = nid)"
    by (simp only: first_slot_None)
  then show ?thesis using None by (simp add: node_find_by_id_def)
next
  case (Some i)
  note D = first_slot_SomeD [OF Some]
  then have e: "g_node_index s ! i \<in> set (g_node_index s)" by simp
  then obtain j where "objs K s (nx_handle (g_node_index s ! i)) = Some (ONode j)"
    using node_wfD(1) [OF cluster_wfD(4) [OF wf] e] D(2) by blast
  then have "nx_handle (g_node_index s ! i) \<noteq> 0" by (rule live_handle(2) [OF L])
  moreover have "node_find_by_id s nid = nx_handle (g_node_index s ! i)"
    by (simp add: node_find_by_id_def Some)
  ultimately show ?thesis using D(2) e by auto
qed

lemma node_wf_more:
  assumes wf: "node_wf ot idx st n" and st: "st' = st \<or> (\<exists>r. st' = st[n := r])"
  shows "node_wf ot idx st' (Suc n)"
proof (rule node_wfI)
  fix e assume "e \<in> set idx" "nx_used e"
  then obtain j where j: "ot (nx_handle e) = Some (ONode j)" "nx_node_id e = nd_node_id (st ! j)"
    using node_wfD(1) [OF wf] by blast
  then have "j < n" using node_wfD(2) [OF wf] by blast
  then show "\<exists>j. ot (nx_handle e) = Some (ONode j) \<and> nx_node_id e = nd_node_id (st' ! j)"
    using j st by auto
next
  fix h j assume "ot h = Some (ONode j)"
  then show "j < Suc n \<and> j < length st'" using node_wfD(2) [OF wf, of h j] st by auto
qed (erule (4) node_wfD(3) [OF wf])

lemma wf_create_node:
  assumes L: "kernel_laws K" and wf: "cluster_wf K s" and new: "node_find_by_id s nid = 0"
  shows "cluster_wf K (fst (create_node_object K s nid arc sig))"
proof -
  note D = cluster_wfD [OF wf]
  let ?n = "g_node_storage_next s"
  obtain k' h where c: "k_create K (kst s) (ONode ?n) = (k', h)" by fastforce
  define nd where "nd = \<lparr>nd_node_id = nid, nd_arch = arc, nd_signal_target = sig\<rparr>"
  have fresh: "\<forall>e \<in> set (g_node_index s). nx_used e \<longrightarrow> nx_node_id e \<noteq> nid"
    using new node_find_none [OF L wf] by simp
  show ?thesis
  proof (cases "?n \<ge> MAX_NODES")
    case True
    have "node_wf (objs K s) (g_node_index s) (g_node_storage s) (Suc ?n)"
      by (rule node_wf_more [OF D(4)]) simp
    then show ?thesis using D True by (simp add: create_node_object_def Let_def cluster_wf_def sizes_wf_def)
  next
    case False
    then have n: "?n < length (g_node_storage s)" using D(1) by (simp add: sizes_wf_def)
    show ?thesis
    proof (cases "h = 0")
      case True
      note cf = create_failed [OF L c [unfolded True]]
      have "node_wf (objs K s) (g_node_index s) ((g_node_storage s)[?n := nd]) (Suc ?n)"
        by (rule node_wf_more [OF D(4)]) blast
      then show ?thesis
        using D False c cf True by (simp add: create_node_object_def Let_def cluster_wf_def sizes_wf_def nd_def)
    next
      case h: False
      note cr = create_fresh [OF L c h] and fr = fresh_handle [OF L c h]
      have ot: "k_object K k' = (objs K s)(h \<mapsto> ONode ?n)" by (rule cr(2))
      have "k_object K k' x = Some (OJob j) \<longleftrightarrow> objs K s x = Some (OJob j)"
        "k_object K k' x = Some (OMutex j) \<longleftrightarrow> objs K s x = Some (OMutex j)"
        "k_object K k' x = Some (OResource j) \<longleftrightarrow> objs K s x = Some (OResource j)" for x j
        using fr by (auto simp: ot)
      note oth = wf_other(3) [OF D(3) this(1)] wf_other(4) [OF D(5) this(2)] wf_other(1) [OF D(2) this(3)]
      have mm: "k_object K k' (g_memory_manager s) = Some OMemoryManager" using D(6) fr ot by auto
      have nd: "nd_node_id nd = nid" by (simp add: nd_def)
      note add = node_wf_add [OF D(4) fr n fresh nd, folded ot]
      show ?thesis
      proof (cases "first_slot (\<lambda>e. \<not> nx_used e) (g_node_index s)")
        case None
        then show ?thesis
          using D False c h add(1) oth mm
          by (simp add: create_node_object_def Let_def cluster_wf_def sizes_wf_def nd_def)
      next
        case (Some i)
        then show ?thesis
          using D False c h add(2) [OF first_slot_SomeD(1) [OF Some] first_slot_SomeD(2) [OF Some]] oth mm
          by (simp add: create_node_object_def Let_def cluster_wf_def sizes_wf_def nd_def)
      qed
    qed
  qed
qed

text \<open>Destroying one object leaves the tables of the other kinds alone.\<close>

lemma destroy_other:
  assumes L: "kernel_laws K" and wf: "cluster_wf K s" and ob: "objs K s h = Some ob"
  defines "ot \<equiv> k_object K (k_destroy K (kst s) h)"
  shows "ot = (objs K s)(h := None)"
    "(\<And>j. ob \<noteq> OResource j) \<Longrightarrow>
       res_wf ot (g_resource_index s) (g_resource_storage s) (g_resource_storage_next s)"
    "(\<And>j. ob \<noteq> OJob j) \<Longrightarrow> job_wf ot (g_jobs s)"
    "(\<And>j. ob \<noteq> ONode j) \<Longrightarrow>
       node_wf ot (g_node_index s) (g_node_storage s) (g_node_storage_next s)"
    "(\<And>j. ob \<noteq> OMutex j) \<Longrightarrow> mutex_wf ot (g_mutex_handles s)"
    "ob \<noteq> OMemoryManager \<Longrightarrow> ot (g_memory_manager s) = Some OMemoryManager"
proof -
  note D = cluster_wfD [OF wf]
  show e: "ot = (objs K s)(h := None)" using destroy_object(1) [OF L] by (simp add: ot_def)
  show "res_wf ot (g_resource_index s) (g_resource_storage s) (g_resource_storage_next s)"
    if "\<And>j. ob \<noteq> OResource j" by (rule wf_other(1) [OF D(2)]) (use that ob in \<open>auto simp: e\<close>)
  show "job_wf ot (g_jobs s)" if "\<And>j. ob \<noteq> OJob j"
    by (rule wf_other(3) [OF D(3)]) (use that ob in \<open>auto simp: e\<close>)
  show "node_wf ot (g_node_index s) (g_node_storage s) (g_node_storage_next s)" if "\<And>j. ob \<noteq> ONode j"
    by (rule wf_other(2) [OF D(4)]) (use that ob in \<open>auto simp: e\<close>)
  show "mutex_wf ot (g_mutex_handles s)" if "\<And>j. ob \<noteq> OMutex j"
    by (rule wf_other(4) [OF D(5)]) (use that ob in \<open>auto simp: e\<close>)
  show "ob \<noteq> OMemoryManager \<Longrightarrow> ot (g_memory_manager s) = Some OMemoryManager"
    using D(6) ob by (auto simp: e)
qed

lemma wf_node_destroy:
  assumes L: "kernel_laws K" and wf: "cluster_wf K s"
  shows "cluster_wf K (node_destroy K s nid)"
proof (cases "first_slot (\<lambda>e. nx_used e \<and> nx_node_id e = nid) (g_node_index s)")
  case (Some i)
  note D = cluster_wfD [OF wf] and F = first_slot_SomeD [OF Some]
  let ?h = "nx_handle (g_node_index s ! i)"
  have e: "g_node_index s ! i \<in> set (g_node_index s)" "nx_used (g_node_index s ! i)" using F by simp_all
  obtain j where ob: "objs K s ?h = Some (ONode j)" using node_wfD(1) [OF D(4) e] by blast
  note de = destroy_other [OF L wf ob]
  have "node_wf (k_object K (k_destroy K (kst s) ?h))
     ((g_node_index s)[i := (g_node_index s ! i)\<lparr>nx_used := False\<rparr>]) (g_node_storage s) (g_node_storage_next s)"
    unfolding de(1) by (rule node_wf_drop [OF D(4) F(1) e(2) refl])
  then show ?thesis
    using D Some de by (simp add: node_destroy_def cluster_wf_def sizes_wf_def)
qed (simp add: node_destroy_def wf)

lemma wf_create_job:
  assumes L: "kernel_laws K" and wf: "cluster_wf K s"
  shows "cluster_wf K (fst (create_job_object K s ty a b p aff ri rk rc))"
proof (cases "first_slot (\<lambda>j. \<not> js_used j) (g_jobs s)")
  case (Some i)
  note D = cluster_wfD [OF wf] and F = first_slot_SomeD [OF Some]
  obtain k' h where c: "k_create K (kst s) (OJob i) = (k', h)" by fastforce
  show ?thesis
  proof (cases "h = 0")
    case True
    note cf = create_failed [OF L c [unfolded True]]
    have "job_wf (objs K s) ((g_jobs s)[i := x])" if "\<not> js_used x" for x
      by (rule job_wf_same [OF D(3)]) (use F that in \<open>auto simp: nth_list_update\<close>)
    then show ?thesis using D Some c True cf
      by (simp add: create_job_object_def Let_def cluster_wf_def sizes_wf_def)
  next
    case h: False
    note cr = create_fresh [OF L c h] and fr = fresh_handle [OF L c h]
    have ot: "k_object K k' = (objs K s)(h \<mapsto> OJob i)" by (rule cr(2))
    have "k_object K k' x = Some (OResource j) \<longleftrightarrow> objs K s x = Some (OResource j)"
      "k_object K k' x = Some (ONode j) \<longleftrightarrow> objs K s x = Some (ONode j)"
      "k_object K k' x = Some (OMutex j) \<longleftrightarrow> objs K s x = Some (OMutex j)" for x j
      using fr by (auto simp: ot)
    note oth = wf_other(1) [OF D(2) this(1)] wf_other(2) [OF D(4) this(2)] wf_other(4) [OF D(5) this(3)]
    have mm: "k_object K k' (g_memory_manager s) = Some OMemoryManager" using D(6) fr ot by auto
    have "job_wf (k_object K k') ((g_jobs s)[i := \<lparr>js_used = True, js_handle = h, js_data = d\<rparr>])" for d
      unfolding ot by (rule job_wf_add [OF D(3) fr F(1,2)])
    then show ?thesis using D Some c h oth mm
      by (simp add: create_job_object_def Let_def cluster_wf_def sizes_wf_def)
  qed
qed (simp add: create_job_object_def wf)

lemma wf_destroy_job:
  assumes L: "kernel_laws K" and wf: "cluster_wf K s"
  shows "cluster_wf K (destroy_job_object K s job)"
proof (cases "first_slot (\<lambda>j. js_used j \<and> js_handle j = job) (g_jobs s)")
  case (Some i)
  note D = cluster_wfD [OF wf] and F = first_slot_SomeD [OF Some]
  have u: "js_used (g_jobs s ! i)" "js_handle (g_jobs s ! i) = job" using F by simp_all
  have ob: "objs K s job = Some (OJob i)" using D(3) F(1) u by (auto simp: job_wf_def)
  note de = destroy_other [OF L wf ob]
  have "job_wf (k_object K (k_destroy K (kst s) job)) ((g_jobs s)[i := (g_jobs s ! i)\<lparr>js_used := False\<rparr>])"
    unfolding de(1) by (rule job_wf_drop [OF D(3) F(1) u])
  then show ?thesis
    using D Some de by (simp add: destroy_job_object_def cluster_wf_def sizes_wf_def)
qed (simp add: destroy_job_object_def wf)

lemma wf_destroy_resource:
  assumes L: "kernel_laws K" and wf: "cluster_wf K s" and ob: "objs K s h = Some (OResource j)"
  shows "cluster_wf K (forget_resource (s\<lparr>kst := k_destroy K (kst s) h\<rparr>) h)"
proof -
  note D = cluster_wfD [OF wf] and de = destroy_other [OF L wf ob]
  show ?thesis
  proof (cases "first_slot (\<lambda>e. rx_used e \<and> rx_handle e = h) (g_resource_index s)")
    case None
    then have "\<forall>e \<in> set (g_resource_index s). \<not> (rx_used e \<and> rx_handle e = h)"
      by (simp only: first_slot_None)
    from res_wf_drop_unindexed [OF D(2) this] show ?thesis
      using D None de by (simp add: forget_resource_def cluster_wf_def sizes_wf_def)
  next
    case (Some i)
    note F = first_slot_SomeD [OF Some]
    have u: "rx_used (g_resource_index s ! i)" "rx_handle (g_resource_index s ! i) = h" using F by simp_all
    from res_wf_drop [OF D(2) F(1) u] show ?thesis
      using D Some de by (simp add: forget_resource_def cluster_wf_def sizes_wf_def)
  qed
qed

subsection \<open>Helpers that only call other objects\<close>

lemma mmu_scan_frame: "kernel_laws K \<Longrightarrow> call_frame s (fst (node_has_mmu_scan K nid s es))"
proof (induction es arbitrary: s)
  case (Cons e es)
  have "call_frame s (fst (resource_get_info K s (rx_handle e)))" by (rule get_info_frame [OF Cons.prems])
  then show ?case using Cons.IH [OF Cons.prems]
    by (auto intro: call_frame_trans split: prod.splits option.splits)
qed simp

lemma scan_any_frame: "kernel_laws K \<Longrightarrow> call_frame s (fst (resource_scan_any K j s es))"
proof (induction es arbitrary: s)
  case (Cons e es)
  have "call_frame s (fst (resource_get_info K s (rx_handle e)))" by (rule get_info_frame [OF Cons.prems])
  then show ?case using Cons.IH [OF Cons.prems]
    by (auto intro: call_frame_trans split: prod.splits option.splits)
qed simp

lemma scan_last_frame: "kernel_laws K \<Longrightarrow> call_frame s (fst (resource_scan_last K j s c es))"
proof (induction es arbitrary: s c)
  case (Cons e es)
  have "call_frame s (fst (resource_get_info K s (rx_handle e)))" by (rule get_info_frame [OF Cons.prems])
  then show ?case using Cons.IH [OF Cons.prems]
    by (auto intro: call_frame_trans split: prod.splits option.splits)
qed simp

lemma resource_ok_frame: "kernel_laws K \<Longrightarrow> call_frame s (fst (resource_ok_for K s h j))"
  using get_info_frame [of K s "bound_resource_id j"] get_info_frame [of K s "resource_id j"]
    scan_any_frame [of K s j "g_resource_index s"]
  by (auto simp: resource_ok_for_def split: prod.splits option.splits)

lemma release_job_frame: "kernel_laws K \<Longrightarrow> call_frame s (release_job_resource K s h b)"
  by (simp add: release_job_resource_def resource_release_reservation_def verdict_frame)
lemma wf_drop_resource:
  assumes L: "kernel_laws K" and wf: "cluster_wf K s" and i: "i < length (g_resource_index s)"
    and u: "rx_used (g_resource_index s ! i)"
  shows "cluster_wf K (s\<lparr>kst := k_destroy K (kst s) (rx_handle (g_resource_index s ! i)),
      g_resource_index := (g_resource_index s)[i := (g_resource_index s ! i)\<lparr>rx_used := False\<rparr>]\<rparr>)"
proof -
  note D = cluster_wfD [OF wf]
  obtain j where ob: "objs K s (rx_handle (g_resource_index s ! i)) = Some (OResource j)"
    using res_wfD(1) [OF D(2) nth_mem [OF i] u] by blast
  show ?thesis
    using D destroy_other [OF L wf ob] res_wf_drop [OF D(2) i u refl] by (simp add: cluster_wf_def sizes_wf_def)
qed

lemma invoke_memory_manager:
  assumes L: "kernel_laws K" and mm: "objs K s (g_memory_manager s) = Some OMemoryManager"
    and rq: "request_words OMemoryManager m = Some (length ws)"
  shows "fst (kernel_invoke K s (g_memory_manager s) m (flat_msg ws) cap) =
    s\<lparr>mm_ledger := fst (memory_manager_handler (p_arch K) (mm_ledger s) m (flat_msg ws) cap)\<rparr>"
  using request_ok [OF L rq] by (simp add: kernel_invoke_def mm run_handler_def split_beta)

lemma mm_requests [simp]:
  "request_words OMemoryManager MEM_METHOD_CLAIM = Some 3"
  "request_words OMemoryManager MEM_METHOD_ALLOC = Some 2"
  "request_words OMemoryManager MEM_METHOD_FREE = Some 1"
  by (simp_all add: request_words_def method_ids)

text \<open>Requests to the memory manager that keep its ledger legal are calls like any other.\<close>

lemma memory_manager_frame:
  assumes L: "kernel_laws K" and wf: "cluster_wf K s"
    and rq: "request_words OMemoryManager m = Some (length ws)"
    and ok: "request_in_range m (flat_msg ws)"
  shows "call_frame s (fst (kernel_invoke K s (g_memory_manager s) m (flat_msg ws) cap))"
  using handler_inv [OF cluster_wfD(7) [OF wf] ok] 
  by (simp add: invoke_memory_manager [OF L cluster_wfD(6) [OF wf] rq] call_frame_def list_all2_refl)

lemma mm_claim_frame:
  assumes "kernel_laws K" "cluster_wf K s" "b \<le> b + sz"
  shows "call_frame s (fst (kernel_invoke K s (g_memory_manager s) MEM_METHOD_CLAIM (reply 48 [b, sz, k]) cap))"
proof -
  have e: "reply 48 [b, sz, k] = flat_msg [b, sz, k]" by (rule build_flat_enough) simp_all
  show ?thesis unfolding e
    by (rule memory_manager_frame [OF assms(1,2)])
      (simp_all add: request_in_range_def capnp_read_build_flat assms(3))
qed

lemma mm_alloc_frame:
  assumes "kernel_laws K" "cluster_wf K s"
  shows "call_frame s (fst (kernel_invoke K s (g_memory_manager s) MEM_METHOD_ALLOC (reply 40 [sz, k]) cap))"
proof -
  have e: "reply 40 [sz, k] = flat_msg [sz, k]" by (rule build_flat_enough) simp_all
  show ?thesis unfolding e
    by (rule memory_manager_frame [OF assms(1,2)]) (simp_all add: request_in_range_def)
qed

lemma mmu_frame: "kernel_laws K \<Longrightarrow> call_frame s (fst (node_has_mmu K s n))"
  unfolding node_has_mmu_def by (rule mmu_scan_frame)

lemma job_lookupD:
  assumes "job_data_for_handle_locked s h = Some i"
  shows "i < length (g_jobs s)" "js_used (g_jobs s ! i)" "js_handle (g_jobs s ! i) = h"
  using assms first_slot_SomeD [of "\<lambda>j. js_used j \<and> js_handle j = h" "g_jobs s" i]
  by (simp_all add: job_data_for_handle_locked_def split: if_splits)

lemma fold_invariant:
  assumes "\<And>i s. i \<in> set is \<Longrightarrow> P s \<Longrightarrow> P (f i s)" "P s"
  shows "P (fold f is s)"
  using assms by (induction "is" arbitrary: s) auto

end
