(* ===== verification/Scheduler_Invariant.thy ===== *)
theory Scheduler_Invariant
  imports Cluster_Preserve
begin

text \<open>
  What every method of the scheduler keeps.  The methods are built from a dozen
  operations on the shared tables; \<open>scheduler_invariant\<close> is the contract of a state
  property that each of those operations keeps, and its lemmas lift the property to
  the whole handler.  The parameter \<open>may_requeue\<close> names the jobs a report may put back
  in the queue, so that properties of one job handed to a node fit the same contract.
  The first instance is \<open>cluster_wf\<close> itself.
\<close>

subsection \<open>Calls in range\<close>

text \<open>
  A call is in range when a fixed-address allocation request does not run past the
  top of the address space; nothing is asked of the other methods.
\<close>

definition call_in_range :: "u32 \<Rightarrow> bytes \<Rightarrow> bool" where
  "call_in_range m msg \<longleftrightarrow> (m = 2 \<longrightarrow>
     capnp_read_flat msg ! 1 \<le> capnp_read_flat msg ! 1 + capnp_read_flat msg ! 2)"

subsection \<open>The contract\<close>

locale scheduler_invariant =
  fixes K :: "('k, 'z) platform_scheme"
    and inv :: "'k cluster \<Rightarrow> bool"
    and may_requeue :: "u64 \<Rightarrow> bool"
  assumes laws: "inv s \<Longrightarrow> kernel_laws K"
    and wf: "inv s \<Longrightarrow> cluster_wf K s"
    and frame: "inv s \<Longrightarrow> call_frame s s' \<Longrightarrow> inv s'"
    and allocs: "inv s \<Longrightarrow> length al = length (g_allocs s) \<Longrightarrow> inv (s\<lparr>g_allocs := al\<rparr>)"
    and update: "inv s \<Longrightarrow> (\<And>j. dispatched j \<Longrightarrow> dispatched (f j)) \<Longrightarrow> inv (job_update i f s)"
    and requeue: "inv s \<Longrightarrow> i < length (g_jobs s) \<Longrightarrow> may_requeue (js_handle (g_jobs s ! i)) \<Longrightarrow>
      inv (job_update i (\<lambda>j. j\<lparr>dispatched := False\<rparr>) s)"
    and complete: "inv s \<Longrightarrow> inv (completion_record s h v)"
    and new_resource: "inv s \<Longrightarrow> inv (fst (create_resource_object K s own knd des cap syn rb))"
    and new_node: "inv s \<Longrightarrow> node_find_by_id s nid = 0 \<Longrightarrow> inv (fst (create_node_object K s nid arc sig))"
    and new_job: "inv s \<Longrightarrow> inv (fst (create_job_object K s ty a b p aff ri rk rc))"
    and drop_node: "inv s \<Longrightarrow> inv (node_destroy K s nid)"
    and drop_job: "inv s \<Longrightarrow> inv (destroy_job_object K s h)"
    and drop_resource: "inv s \<Longrightarrow> objs K s h = Some (OResource j) \<Longrightarrow>
      inv (forget_resource (s\<lparr>kst := k_destroy K (kst s) h\<rparr>) h)"
    and drop_indexed: "inv s \<Longrightarrow> i < length (g_resource_index s) \<Longrightarrow> rx_used (g_resource_index s ! i) \<Longrightarrow>
      inv (s\<lparr>kst := k_destroy K (kst s) (rx_handle (g_resource_index s ! i)),
             g_resource_index := (g_resource_index s)[i := (g_resource_index s ! i)\<lparr>rx_used := False\<rparr>]\<rparr>)"
begin

lemma get_info: "inv s \<Longrightarrow> inv (fst (resource_get_info K s h))"
  by (rule frame, assumption) (rule get_info_frame [OF laws])

lemma verdict: "inv s \<Longrightarrow> inv (fst (invoke_verdict K s h m w))"
  by (rule frame, assumption) (rule verdict_frame [OF laws])

lemma one_word: "inv s \<Longrightarrow> inv (fst (kernel_invoke K s h m (capnp_build_flat 24 [w] 1) cap))"
  by (rule frame, assumption) (rule one_word_call_frame [OF laws])

lemma bind:
  assumes s: "inv s"
  shows "inv (bind_resource_for K s h i)"
proof -
  have sc: "inv (fst (resource_scan_last K j s 0 (g_resource_index s)))" for j
    by (rule frame [OF s scan_last_frame [OF laws [OF s]]])
  have rs: "inv (fst (resource_reserve K t c h))" if "inv t" for t c
    unfolding resource_reserve_def by (rule verdict [OF that])
  have "inv (job_update i (\<lambda>j. j\<lparr>bound_resource_id := b\<rparr>) (fst (resource_reserve K t c h)))"
    if "inv t" for t c b by (rule update [OF rs [OF that]]) simp
  then show ?thesis
    using s rs sc by (simp add: bind_resource_for_def Let_def split_beta)
qed

lemma pick_step:
  assumes s: "inv (fst acc)"
  shows "inv (fst (pick_step K nid i acc))"
proof -
  obtain s a b where acc: "acc = (s, a, b)" by (cases acc) auto
  have "inv (fst (resource_ok_for K s h j))" for h j
    using s by (auto simp: acc intro: frame [OF _ resource_ok_frame [OF laws]])
  then show ?thesis
    using s by (simp add: acc pick_step_def Let_def split_beta update)
qed

lemma pick_scan:
  assumes s: "inv s"
  shows "inv (fst (pick_scan K nid s))"
  unfolding pick_scan_def
  by (rule fold_invariant [where P = "\<lambda>acc. inv (fst acc)"]) (simp_all add: s pick_step)

lemma pick_next:
  assumes s: "inv s"
  shows "inv (fst (pick_next_for_node K s nid))"
  using pick_scan [OF s, of nid]
  by (auto simp: pick_next_for_node_def Let_def split_beta update intro!: bind split: option.splits)

lemma leave_resource_step:
  assumes s: "inv s" and i: "i < RESOURCE_POOL_SIZE"
  shows "inv (leave_resource_step K nid i s)"
proof (cases "rx_used (g_resource_index s ! i)")
  case True
  note D = cluster_wfD [OF wf [OF s]]
  have len: "i < length (g_resource_index s)" using D(1) i by (simp add: sizes_wf_def)
  obtain j where ob: "objs K s (rx_handle (g_resource_index s ! i)) = Some (OResource j)"
    using res_wfD(1) [OF D(2) nth_mem [OF len] True] by blast
  show ?thesis
    using s True drop_indexed [OF s len True]
    by (simp add: leave_resource_step_def get_info_resource [OF laws [OF s] ob])
qed (simp add: leave_resource_step_def s)

lemma leave_job_step:
  assumes s: "inv s"
  shows "inv (leave_job_step K nid i s)"
  using drop_job [OF frame [OF s release_job_frame [OF laws [OF s]]]] update [OF s] s
  by (simp add: leave_job_step_def Let_def)

subsection \<open>The methods\<close>

lemma join: "inv s \<Longrightarrow> inv (fst (handle_join_node K s ws cap))"
  using new_node [of s "ws ! 0" "ws ! 1" "ws ! 2"]
  by (simp add: handle_join_node_def Let_def split_beta)

lemma leave:
  assumes s: "inv s"
  shows "inv (fst (handle_leave_node K s ws))"
proof -
  have "inv (fold (leave_resource_step K n) [0..<RESOURCE_POOL_SIZE] (node_destroy K s n))" for n
    by (rule fold_invariant [where P = inv]) (simp_all add: leave_resource_step drop_node [OF s])
  then have "inv (fold (leave_job_step K n) [0..<JOB_POOL_SIZE]
      (fold (leave_resource_step K n) [0..<RESOURCE_POOL_SIZE] (node_destroy K s n)))" for n
    by (rule fold_invariant [where P = inv, rotated]) (simp_all add: leave_job_step)
  then show ?thesis using s by (simp add: handle_leave_node_def Let_def)
qed

lemma preempt: "inv s \<Longrightarrow> inv (fst (handle_preempt_node K s ws cap))"
  by (simp add: handle_preempt_node_def Let_def one_word)

lemma request_allocation:
  assumes s: "inv s" and ok: "ws ! 1 \<le> ws ! 1 + ws ! 2"
  shows "inv (fst (handle_request_allocation K s ws cap))"
proof -
  obtain t r where e: "kernel_invoke K s (g_memory_manager s) MEM_METHOD_CLAIM
      (reply 48 [ws ! 1, ws ! 2, ws ! 3]) 24 = (t, r)" by fastforce
  have t: "inv t"
    using frame [OF s mm_claim_frame [OF laws [OF s] wf [OF s] ok, of "ws ! 3" 24]] unfolding e by simp
  then have "inv (case first_slot (\<lambda>e. \<not> al_used e) (g_allocs t) of None \<Rightarrow> t
      | Some i \<Rightarrow> t\<lparr>g_allocs := (g_allocs t)[i := e]\<rparr>)" for e
    by (simp add: allocs split: option.split)
  note this [THEN new_resource]
  then show ?thesis
    using t unfolding handle_request_allocation_def Let_def e prod.case by (simp add: split_beta)
qed

lemma allocate_slice:
  assumes s: "inv s"
  shows "inv (fst (handle_allocate_slice K s ws cap))"
proof -
  obtain t r where e: "kernel_invoke K s (g_memory_manager s) MEM_METHOD_ALLOC
      (reply 40 [ws ! 2, ws ! 3]) 40 = (t, r)" by fastforce
  have t: "inv t"
    using frame [OF s mm_alloc_frame [OF laws [OF s] wf [OF s], of "ws ! 2" "ws ! 3" 40]] unfolding e by simp
  then show ?thesis
    using new_resource [OF t] unfolding handle_allocate_slice_def Let_def e by (simp add: split_beta)
qed

lemma release_slice:
  assumes s: "inv s"
  shows "inv (fst (handle_release_slice K s ws cap))"
proof (cases "\<exists>i. objs K s (ws ! 0) = Some (OResource i)")
  case True
  then obtain i where ob: "objs K s (ws ! 0) = Some (OResource i)" by blast
  let ?t = "fst (kernel_invoke K s (g_memory_manager s) MEM_METHOD_FREE
      (capnp_build_flat 24 [descriptor (g_resource_storage s ! i)] 1) 24)"
  have t: "inv ?t" by (rule one_word [OF s])
  have "kst ?t = kst s" by (rule call_frame_simps(1) [OF one_word_call_frame [OF laws [OF s]]])
  then have "inv (forget_resource (?t\<lparr>kst := k_destroy K (kst ?t) (ws ! 0)\<rparr>) (ws ! 0))"
    using ob by (intro drop_resource [OF t]) simp
  then show ?thesis
    using t s by (simp add: handle_release_slice_def get_info_resource [OF laws [OF s] ob] Let_def split_beta)
next
  case False
  then show ?thesis
    using get_info_none [OF laws [OF s] False] get_info [OF s]
    by (simp add: handle_release_slice_def Let_def split_beta)
qed

lemma declare_resource:
  assumes s: "inv s"
  shows "inv (fst (handle_declare_resource K s ws cap))"
  using s new_resource frame [OF s mmu_frame [OF laws [OF s]]]
  by (simp add: handle_declare_resource_def Let_def split_beta)

lemma get_resource_info: "inv s \<Longrightarrow> inv (fst (handle_get_resource_info K s ws cap))"
  using get_info [of s "ws ! 0"]
  by (auto simp: handle_get_resource_info_def split: prod.splits option.splits)

lemma reassign:
  assumes s: "inv s"
  shows "inv (fst (handle_reassign_resource K s ws cap))"
proof -
  have "inv (fst (resource_reassign K t h n))" if "inv t" for t h n
    unfolding resource_reassign_def by (rule verdict [OF that])
  then show ?thesis
    using get_info [OF s, of "ws ! 0"]
    by (cases "resource_get_info K s (ws ! 0)")
      (auto simp: handle_reassign_resource_def Let_def split_beta split: option.split)
qed

lemma submit: "inv s \<Longrightarrow> inv (fst (handle_submit_job K s ws cap))"
  by (simp add: handle_submit_job_def split_beta new_job)

lemma get_next: "inv s \<Longrightarrow> inv (fst (handle_get_next_job K s ws cap))"
  using pick_next [of s "ws ! 0"]
  by (auto simp: handle_get_next_job_def split: prod.splits option.splits)

lemma report:
  assumes s: "inv s" and ok: "may_requeue (ws ! 0)"
  shows "inv (fst (handle_report_job_result K s ws))"
proof (cases "job_data_for_handle_locked s (ws ! 0)")
  case (Some i)
  note F = job_lookupD [OF Some]
  have rq: "inv (job_update i (\<lambda>j. j\<lparr>dispatched := False\<rparr>) s)"
    using F ok by (intro requeue [OF s]) simp_all
  then have "inv (job_update i (\<lambda>j. j\<lparr>blocked := 1, block_kind := b, block_id := v\<rparr>)
      (job_update i (\<lambda>j. j\<lparr>dispatched := False\<rparr>) s))" for b v
    by (rule update) simp
  then show ?thesis
    using Some rq drop_job [OF complete [OF frame [OF s release_job_frame [OF laws [OF s]]]]]
    by (simp add: handle_report_job_result_def Let_def)
qed (simp add: handle_report_job_result_def s)

lemma inherit: "inv s \<Longrightarrow> inv (inherit_priority s a b)"
  by (simp add: inherit_priority_def update split: option.split)

lemma try_lock:
  assumes s: "inv s"
  shows "inv (fst (handle_mutex_try_lock K s ws cap))"
proof -
  obtain t r where e: "kernel_invoke K s (mutex_object_for_id s (c_int (ws ! 0))) MUTEX_METHOD_TRY_LOCK
      (capnp_build_flat 24 [ws ! 1] (of_nat (length [ws ! 1]))) 40 = (t, r)" by fastforce
  have "inv t"
    using one_word [OF s, of "mutex_object_for_id s (c_int (ws ! 0))" MUTEX_METHOD_TRY_LOCK "ws ! 1" 40] e
    by simp
  then show ?thesis
    using s unfolding handle_mutex_try_lock_def Let_def e
    by (auto simp: inherit split: option.split)
qed

lemma unlock:
  assumes s: "inv s"
  shows "inv (fst (handle_mutex_unlock K s ws))"
  using s verdict [OF s]
  by (simp add: handle_mutex_unlock_def Let_def split_beta update split: option.split)

lemma handler:
  assumes s: "inv s" and ok: "call_in_range m msg"
    and rq: "m = 7 \<Longrightarrow> may_requeue (capnp_read_flat msg ! 0)"
  shows "inv (fst (cluster_scheduler_handler K s m msg cap))"
proof -
  note h = join leave declare_resource get_resource_info allocate_slice release_slice
    preempt reassign submit get_next try_lock unlock
  have "m = 2 \<Longrightarrow> inv (fst (handle_request_allocation K s (capnp_read_flat msg) cap))"
    using ok by (intro request_allocation [OF s]) (simp add: call_in_range_def)
  then show ?thesis
    using h [OF s] report [OF s rq] s by (simp add: cluster_scheduler_handler_def Let_def handle_get_job_result_def)
qed

end

subsection \<open>Well-formedness\<close>

lemma wf_allocs: "cluster_wf K s \<Longrightarrow> length al = length (g_allocs s) \<Longrightarrow> cluster_wf K (s\<lparr>g_allocs := al\<rparr>)"
  by (simp add: cluster_wf_def sizes_wf_def)

interpretation wfi: scheduler_invariant K "\<lambda>s. kernel_laws K \<and> cluster_wf K s" "\<lambda>_. True" for K
proof (unfold_locales, goal_cases)
  case (3 s s') then show ?case by (blast intro: cluster_wf_frame)
next
  case (4 s al) then show ?case by (blast intro: wf_allocs)
next
  case (5 s f i) then show ?case by (blast intro: wf_job_update)
next
  case (6 s i) then show ?case by (blast intro: wf_job_update)
next
  case (7 s h v) then show ?case by (blast intro: wf_completion_record)
next
  case 8 then show ?case by (blast intro: wf_create_resource)
next
  case 9 then show ?case by (blast intro: wf_create_node)
next
  case 10 then show ?case by (blast intro: wf_create_job)
next
  case 11 then show ?case by (blast intro: wf_node_destroy)
next
  case 12 then show ?case by (blast intro: wf_destroy_job)
next
  case 13 then show ?case by (blast intro: wf_destroy_resource)
next
  case 14 then show ?case by (blast intro: wf_drop_resource)
qed blast+

lemma wf_handler:
  "kernel_laws K \<Longrightarrow> cluster_wf K s \<Longrightarrow> call_in_range m msg \<Longrightarrow>
     cluster_wf K (fst (cluster_scheduler_handler K s m msg cap))"
  using wfi.handler by blast

subsection \<open>Start-up and reachable states\<close>

text \<open>
  The kernel's table at start-up: the memory manager's object, and none of the
  objects the scheduler creates.
\<close>

definition start_objects :: "objects \<Rightarrow> u64 \<Rightarrow> bool" where
  "start_objects ot mmh \<longleftrightarrow> ot mmh = Some OMemoryManager
     \<and> (\<forall>h i. ot h \<noteq> Some (OResource i) \<and> ot h \<noteq> Some (ONode i) \<and> ot h \<noteq> Some (OMutex i)
          \<and> ot h \<noteq> Some (OJob i))"

definition mutexes_upto :: "('k, 'z) platform_scheme \<Rightarrow> u64 \<Rightarrow> nat \<Rightarrow> 'k cluster \<Rightarrow> bool" where
  "mutexes_upto K mmh n s \<longleftrightarrow> sizes_wf s \<and> mutex_wf (objs K s) (g_mutex_handles s)
     \<and> (\<forall>h i. objs K s h = Some (OMutex i) \<longrightarrow> i < n)
     \<and> (\<forall>i. n \<le> i \<longrightarrow> i < MAX_MUTEXES \<longrightarrow> g_mutex_handles s ! i = 0)
     \<and> objs K s mmh = Some OMemoryManager
     \<and> (\<forall>h i. objs K s h \<noteq> Some (OResource i) \<and> objs K s h \<noteq> Some (ONode i)
          \<and> objs K s h \<noteq> Some (OJob i))"

lemma mutexes_upto_step:
  assumes L: "kernel_laws K" and n: "n < MAX_MUTEXES" and m: "mutexes_upto K mmh n s"
  shows "mutexes_upto K mmh (Suc n) (create_mutex_object K n s)"
proof -
  obtain k' h where c: "k_create K (kst s) (OMutex n) = (k', h)" by fastforce
  have len: "length (g_mutex_handles s) = MAX_MUTEXES" using m by (simp add: mutexes_upto_def sizes_wf_def)
  have old: "\<And>x i. objs K s x = Some (OMutex i) \<Longrightarrow> i < n \<and> g_mutex_handles s ! i = x"
    using m by (auto simp: mutexes_upto_def mutex_wf_def)
  have used: "\<And>i. i < MAX_MUTEXES \<Longrightarrow> g_mutex_handles s ! i \<noteq> 0 \<Longrightarrow>
      objs K s (g_mutex_handles s ! i) = Some (OMutex i)"
    using m len by (auto simp: mutexes_upto_def mutex_wf_def)
  show ?thesis
  proof (cases "h = 0")
    case True
    note cf = create_failed [OF L c [unfolded True]]
    have "mutex_wf (objs K s) ((g_mutex_handles s)[n := 0])"
      unfolding mutex_wf_def using old used len n by (fastforce simp: nth_list_update)
    then show ?thesis
      using m c True cf old len n
      by (auto simp: mutexes_upto_def create_mutex_object_def sizes_wf_def less_Suc_eq)
  next
    case h: False
    note cr = create_fresh(2) [OF L c h] and fr = fresh_handle [OF L c h]
    have "mutex_wf (k_object K k') ((g_mutex_handles s)[n := h])"
      unfolding mutex_wf_def cr
    proof (intro conjI allI impI)
      fix i assume "i < length ((g_mutex_handles s)[n := h])" "(g_mutex_handles s)[n := h] ! i \<noteq> 0"
      then show "((objs K s)(h \<mapsto> OMutex n)) ((g_mutex_handles s)[n := h] ! i) = Some (OMutex i)"
        using used [of i] fr len n by (cases "i = n") auto
    next
      fix x i assume "((objs K s)(h \<mapsto> OMutex n)) x = Some (OMutex i)"
      then show "i < length ((g_mutex_handles s)[n := h])" "(g_mutex_handles s)[n := h] ! i = x"
        using old [of x i] len n by (auto split: if_splits)
    qed
    then show ?thesis
      using m c h old fr len n
      by (auto simp: mutexes_upto_def create_mutex_object_def sizes_wf_def less_Suc_eq cr split: if_splits)
  qed
qed

lemma create_mutex_other [simp]:
  "g_jobs (create_mutex_object K n s) = g_jobs s"
  "g_resource_index (create_mutex_object K n s) = g_resource_index s"
  "g_node_index (create_mutex_object K n s) = g_node_index s"
  "g_memory_manager (create_mutex_object K n s) = g_memory_manager s"
  "mm_ledger (create_mutex_object K n s) = mm_ledger s"
  by (simp_all add: create_mutex_object_def split_beta)

lemma mutexes_all:
  assumes L: "kernel_laws K" and m: "mutexes_upto K mmh 0 s"
  shows "n \<le> MAX_MUTEXES \<Longrightarrow> mutexes_upto K mmh n (fold (create_mutex_object K) [0..<n] s)
    \<and> g_jobs (fold (create_mutex_object K) [0..<n] s) = g_jobs s
    \<and> g_resource_index (fold (create_mutex_object K) [0..<n] s) = g_resource_index s
    \<and> g_node_index (fold (create_mutex_object K) [0..<n] s) = g_node_index s
    \<and> g_memory_manager (fold (create_mutex_object K) [0..<n] s) = g_memory_manager s
    \<and> mm_ledger (fold (create_mutex_object K) [0..<n] s) = mm_ledger s"
  by (induction n) (use m in \<open>auto intro: mutexes_upto_step [OF L]\<close>)

lemma wf_init:
  assumes L: "kernel_laws K" and st: "start_objects (k_object K k) mmh" and g: "ledger_inv g"
  shows "cluster_wf K (cluster_scheduler_init K mmh (zero_cluster k g))"
proof -
  let ?s = "zero_cluster k g"
  define s1 where "s1 = ?s\<lparr>g_memory_manager := mmh,
               g_node_index := map (\<lambda>e. e\<lparr>nx_used := False\<rparr>) (g_node_index ?s),
               g_allocs := map (\<lambda>e. e\<lparr>al_used := False\<rparr>) (g_allocs ?s),
               g_resource_index := map (\<lambda>e. e\<lparr>rx_used := False\<rparr>) (g_resource_index ?s),
               g_jobs := map (\<lambda>j. j\<lparr>js_used := False\<rparr>) (g_jobs ?s),
               g_resource_storage_next := 0, g_node_storage_next := 0\<rparr>"
  define s2 where "s2 = create_all_mutex_objects K s1"
  have m0: "mutexes_upto K mmh 0 s1"
    using st by (auto simp: s1_def mutexes_upto_def zero_cluster_def sizes_wf_def start_objects_def mutex_wf_def)
  note m = mutexes_all [OF L m0 order.refl, folded create_all_mutex_objects_def, folded s2_def]
  have unused: "\<forall>e \<in> set (g_resource_index s1). \<not> rx_used e" "\<forall>e \<in> set (g_node_index s1). \<not> nx_used e"
    "\<forall>e \<in> set (g_jobs s1). \<not> js_used e" "g_memory_manager s1 = mmh" "mm_ledger s1 = g"
    by (auto simp: s1_def zero_cluster_def)
  have no: "\<And>h i. objs K s2 h \<noteq> Some (OResource i)" "\<And>h i. objs K s2 h \<noteq> Some (ONode i)"
    "\<And>h i. objs K s2 h \<noteq> Some (OJob i)"
    using m by (auto simp: mutexes_upto_def)
  have "cluster_wf K s2"
    unfolding cluster_wf_def
  proof (intro conjI)
    show "sizes_wf s2" "mutex_wf (objs K s2) (g_mutex_handles s2)"
      using m by (simp_all add: mutexes_upto_def)
    show "objs K s2 (g_memory_manager s2) = Some OMemoryManager" "ledger_inv (mm_ledger s2)"
      using m unused g by (simp_all add: mutexes_upto_def)
    show "res_wf (objs K s2) (g_resource_index s2) (g_resource_storage s2) (g_resource_storage_next s2)"
      using m unused(1) unused(1) [unfolded all_set_conv_all_nth] no by (intro res_wfI) auto
    show "node_wf (objs K s2) (g_node_index s2) (g_node_storage s2) (g_node_storage_next s2)"
      using m unused(2) unused(2) [unfolded all_set_conv_all_nth] no by (intro node_wfI) auto
    show "job_wf (objs K s2) (g_jobs s2)"
      using m unused(3) [unfolded all_set_conv_all_nth] no by (auto simp: job_wf_def)
  qed
  from wf_create_resource [OF L this] have "cluster_wf K (fst (create_resource_object K s2 0 RESOURCE_KIND_MEMORY
      (ALLOC_MIN (p_arch K)) (ALLOC_MAX (p_arch K) - ALLOC_MIN (p_arch K)) RESOURCE_SYNC_TRANSFER 0))" .
  then have "cluster_wf K ((fst (create_resource_object K s2 0 RESOURCE_KIND_MEMORY
      (ALLOC_MIN (p_arch K)) (ALLOC_MAX (p_arch K) - ALLOC_MIN (p_arch K)) RESOURCE_SYNC_TRANSFER 0))
        \<lparr>g_pool_resource := p\<rparr>)" for p
    by (simp add: cluster_wf_def sizes_wf_def)
  then show ?thesis
    unfolding cluster_scheduler_init_def Let_def s1_def [symmetric] s2_def [symmetric]
    by (simp add: split_beta)
qed

text \<open>The states the scheduler goes through under any sequence of calls in range.\<close>

inductive cs_reach :: "('k, 'z) platform_scheme \<Rightarrow> 'k cluster \<Rightarrow> 'k cluster \<Rightarrow> bool" for K s0 where
  start: "cs_reach K s0 s0"
| call: "cs_reach K s0 s \<Longrightarrow> call_in_range m msg \<Longrightarrow>
    cs_reach K s0 (fst (cluster_scheduler_handler K s m msg cap))"
lemma cs_reach_wf: "cs_reach K s0 s \<Longrightarrow> kernel_laws K \<Longrightarrow> cluster_wf K s0 \<Longrightarrow> cluster_wf K s"
  by (induction rule: cs_reach.induct) (auto intro: wf_handler)

end
