(* ===== verification/Cluster_Dispatch.thy ===== *)
theory Cluster_Dispatch
  imports Scheduler_Invariant
begin

text \<open>
  The choice of the next job for a node: which slots are candidates, in what sense
  the chosen one is the best of them, and what the choice does to the state.
\<close>

subsection \<open>Running maxima\<close>

text \<open>\<open>best_upto p P n b\<close>: \<open>b\<close> is the first slot below \<open>n\<close> with \<open>P\<close> whose value \<open>p\<close> is greatest.\<close>

definition best_upto :: "(nat \<Rightarrow> int) \<Rightarrow> (nat \<Rightarrow> bool) \<Rightarrow> nat \<Rightarrow> nat option \<Rightarrow> bool" where
  "best_upto p P n b \<longleftrightarrow>
    (case b of None \<Rightarrow> \<forall>i < n. \<not> P i
     | Some i \<Rightarrow> i < n \<and> P i \<and> (\<forall>j < n. P j \<longrightarrow> p j \<le> p i \<and> (p j = p i \<longrightarrow> i \<le> j)))"

lemma best_upto_0 [simp]: "best_upto p P 0 None"
  by (simp add: best_upto_def)

lemma best_upto_skip: "best_upto p P n b \<Longrightarrow> \<not> P n \<Longrightarrow> best_upto p P (Suc n) b"
  by (auto simp: best_upto_def less_Suc_eq split: option.splits)

lemma best_upto_take:
  assumes "best_upto p P n b" "P n"
  shows "best_upto p P (Suc n) (if (case b of None \<Rightarrow> True | Some i \<Rightarrow> p n > p i) then Some n else b)"
  using assms by (fastforce simp: best_upto_def less_Suc_eq split: option.splits)

subsection \<open>Candidates\<close>

text \<open>An entry of the index that a job's kind and capacity requirement can take.\<close>

definition entry_free :: "('k, 'z) platform_scheme \<Rightarrow> 'k cluster \<Rightarrow> job_data_t \<Rightarrow> resource_index_entry_t \<Rightarrow> bool" where
  "entry_free K s j e \<longleftrightarrow> rx_used e \<and> rx_kind e = resource_kind j
     \<and> (\<exists>i. objs K s (rx_handle e) = Some (OResource i) \<and> reserved_by (g_resource_storage s ! i) = 0
          \<and> resource_min_capacity j \<le> capacity (g_resource_storage s ! i))"

definition res_ok :: "('k, 'z) platform_scheme \<Rightarrow> 'k cluster \<Rightarrow> u64 \<Rightarrow> job_data_t \<Rightarrow> bool" where
  "res_ok K s h j =
    (if bound_resource_id j \<noteq> 0 then
       (\<exists>i. objs K s (bound_resource_id j) = Some (OResource i)
          \<and> (reserved_by (g_resource_storage s ! i) = 0 \<or> reserved_by (g_resource_storage s ! i) = h))
     else if resource_id j = 0 \<and> resource_kind j = RESOURCE_KIND_NONE then True
     else if resource_id j \<noteq> 0 then
       (\<exists>i. objs K s (resource_id j) = Some (OResource i) \<and> reserved_by (g_resource_storage s ! i) = 0)
     else (\<exists>e \<in> set (g_resource_index s). entry_free K s j e))"

definition candidate :: "('k, 'z) platform_scheme \<Rightarrow> u64 \<Rightarrow> 'k cluster \<Rightarrow> nat \<Rightarrow> bool" where
  "candidate K node_id s i \<longleftrightarrow> js_used (g_jobs s ! i) \<and> \<not> dispatched (job_at s i)
     \<and> eligible node_id (job_at s i) \<and> res_ok K s (js_handle (g_jobs s ! i)) (job_at s i)"

definition blocker_gone :: "'k cluster \<Rightarrow> nat \<Rightarrow> bool" where
  "blocker_gone s i \<longleftrightarrow> blocked (job_at s i) \<noteq> 0 \<and> block_kind (job_at s i) = BLOCK_JOB
     \<and> job_data_for_handle_locked s (block_id (job_at s i)) = None"

definition ready :: "('k, 'z) platform_scheme \<Rightarrow> u64 \<Rightarrow> 'k cluster \<Rightarrow> nat \<Rightarrow> bool" where
  "ready K node_id s i \<longleftrightarrow> candidate K node_id s i \<and> (blocked (job_at s i) = 0 \<or> blocker_gone s i)"

definition mutex_blocked :: "('k, 'z) platform_scheme \<Rightarrow> u64 \<Rightarrow> 'k cluster \<Rightarrow> nat \<Rightarrow> bool" where
  "mutex_blocked K node_id s i \<longleftrightarrow> candidate K node_id s i \<and> blocked (job_at s i) \<noteq> 0
     \<and> block_kind (job_at s i) = BLOCK_MUTEX"

definition prio :: "'k cluster \<Rightarrow> nat \<Rightarrow> int" where
  "prio s i = effective_priority (job_at s i)"

subsection \<open>The resource tests as predicates\<close>

lemma scan_any_pure:
  assumes L: "kernel_laws K"
    and es: "\<And>e. e \<in> set es \<Longrightarrow> rx_used e \<Longrightarrow> \<exists>i. objs K s (rx_handle e) = Some (OResource i)"
  shows "resource_scan_any K j s es = (s, \<exists>e \<in> set es. entry_free K s j e)"
  using es
proof (induction es)
  case (Cons e es)
  then have IH: "resource_scan_any K j s es = (s, \<exists>e \<in> set es. entry_free K s j e)" by simp
  show ?case
  proof (cases "rx_used e \<and> rx_kind e = resource_kind j")
    case True
    then obtain i where ob: "objs K s (rx_handle e) = Some (OResource i)" using Cons.prems by auto
    have ef: "entry_free K s j e \<longleftrightarrow> reserved_by (g_resource_storage s ! i) = 0
        \<and> resource_min_capacity j \<le> capacity (g_resource_storage s ! i)"
      using True ob by (simp add: entry_free_def)
    show ?thesis using True IH by (auto simp: get_info_resource [OF L ob] ef)
  next
    case False
    then show ?thesis using IH by (auto simp: entry_free_def)
  qed
qed simp

lemma index_objects:
  assumes "cluster_wf K s" "e \<in> set (g_resource_index s)" "rx_used e"
  shows "\<exists>i. objs K s (rx_handle e) = Some (OResource i)"
  using res_wfD(1) [OF cluster_wfD(2) [OF assms(1)] assms(2,3)] by blast

lemma resource_ok_result:
  assumes L: "kernel_laws K" and wf: "cluster_wf K s"
  shows "snd (resource_ok_for K s h j) = res_ok K s h j"
proof -
  have gi: "(\<exists>r. snd (resource_get_info K s x) = Some r \<and> P r) \<longleftrightarrow>
     (\<exists>i. objs K s x = Some (OResource i) \<and> P (g_resource_storage s ! i))" for x P
    by (auto simp: get_info_result [OF L] split: option.splits obj.splits)
  have sc: "resource_scan_any K j s (g_resource_index s) = (s, \<exists>e \<in> set (g_resource_index s). entry_free K s j e)"
    by (rule scan_any_pure [OF L index_objects [OF wf]])
  have c: "snd (case p of (s', None) \<Rightarrow> (s', False) | (s', Some r) \<Rightarrow> (s', P r)) \<longleftrightarrow>
      (\<exists>r. snd p = Some r \<and> P r)" for p :: "'a cluster \<times> resource_data_t option" and P
    by (auto split: prod.splits option.splits)
  show ?thesis
    unfolding resource_ok_for_def res_ok_def using gi sc by (simp add: c)
qed

lemma resource_ok_state:
  assumes L: "kernel_laws K" and wf: "cluster_wf K s"
  shows "fst (resource_ok_for K s h j) =
    s\<lparr>g_mutex_storage := g_mutex_storage (fst (resource_ok_for K s h j))\<rparr>"
proof -
  have sc: "resource_scan_any K j s (g_resource_index s) = (s, \<exists>e \<in> set (g_resource_index s). entry_free K s j e)"
    by (rule scan_any_pure [OF L index_objects [OF wf]])
  have c: "fst (case p of (s', None) \<Rightarrow> (s', False) | (s', Some r) \<Rightarrow> (s', P r)) = fst p"
    for p :: "'a cluster \<times> resource_data_t option" and P
    by (auto split: prod.splits option.splits)
  show ?thesis
    unfolding resource_ok_for_def using get_info_state [OF L] sc by (simp add: c)
qed

subsection \<open>The scan\<close>

text \<open>
  How the state looks after the slots below \<open>n\<close> have been scanned: only mutexes and
  the block marks of jobs whose blocker is gone have changed.
\<close>

definition jobs_mutexes_only :: "'k cluster \<Rightarrow> 'k cluster \<Rightarrow> bool" where
  "jobs_mutexes_only s t \<longleftrightarrow> (\<exists>ms js. t = s\<lparr>g_mutex_storage := ms, g_jobs := js\<rparr>)"

lemma jobs_mutexes_only_simps:
  assumes "jobs_mutexes_only s t"
  shows "jobs_mutexes_only s (t\<lparr>g_mutex_storage := ms\<rparr>)" "jobs_mutexes_only s (job_update i f t)"
    "kst t = kst s" "g_resource_storage t = g_resource_storage s"
    "g_resource_index t = g_resource_index s"
proof -
  obtain ms' js where t: "t = s\<lparr>g_mutex_storage := ms', g_jobs := js\<rparr>"
    using assms unfolding jobs_mutexes_only_def by blast
  have "t\<lparr>g_mutex_storage := ms\<rparr> = s\<lparr>g_mutex_storage := ms, g_jobs := js\<rparr>" unfolding t by simp
  then show "jobs_mutexes_only s (t\<lparr>g_mutex_storage := ms\<rparr>)" unfolding jobs_mutexes_only_def by blast
  have "job_update i f t = s\<lparr>g_mutex_storage := ms', g_jobs := g_jobs (job_update i f t)\<rparr>"
    unfolding job_update_def t by simp
  then show "jobs_mutexes_only s (job_update i f t)" unfolding jobs_mutexes_only_def by blast
qed (use assms in \<open>auto simp: jobs_mutexes_only_def\<close>)

definition scanned :: "('k, 'z) platform_scheme \<Rightarrow> u64 \<Rightarrow> 'k cluster \<Rightarrow> nat \<Rightarrow> 'k cluster \<Rightarrow> bool" where
  "scanned K node_id s n t \<longleftrightarrow> jobs_mutexes_only s t
     \<and> length (g_jobs t) = length (g_jobs s)
     \<and> (\<forall>i. js_used (g_jobs t ! i) = js_used (g_jobs s ! i) \<and> js_handle (g_jobs t ! i) = js_handle (g_jobs s ! i)
          \<and> job_at t i = (if i < n \<and> candidate K node_id s i \<and> blocker_gone s i
               then (job_at s i)\<lparr>blocked := 0, block_kind := BLOCK_NONE\<rparr> else job_at s i))"

lemma first_slot_cong:
  assumes "length xs = length ys" "\<And>i. i < length xs \<Longrightarrow> P (xs ! i) = Q (ys ! i)"
  shows "first_slot P xs = first_slot Q ys"
proof (cases "first_slot P xs")
  case None
  then have "first_slot Q ys = None"
    using assms unfolding first_slot_None by (simp add: all_set_conv_all_nth)
  then show ?thesis using None by simp
next
  case (Some i)
  note F = first_slot_SomeD [OF Some]
  have "first_slot Q ys = Some i"
    by (rule first_slot_eq_SomeI) (use F assms in auto)
  then show ?thesis using Some by simp
qed

lemma scanned_simps:
  assumes "scanned K nid s n t"
  shows "kst t = kst s" "g_resource_storage t = g_resource_storage s"
    "g_resource_index t = g_resource_index s" "length (g_jobs t) = length (g_jobs s)"
    "js_used (g_jobs t ! i) = js_used (g_jobs s ! i)"
    "js_handle (g_jobs t ! i) = js_handle (g_jobs s ! i)"
    "job_at t i = (if i < n \<and> candidate K nid s i \<and> blocker_gone s i
       then (job_at s i)\<lparr>blocked := 0, block_kind := BLOCK_NONE\<rparr> else job_at s i)"
    "prio t i = prio s i"
proof -
  show "kst t = kst s" "g_resource_storage t = g_resource_storage s"
    "g_resource_index t = g_resource_index s"
    using assms jobs_mutexes_only_simps(3-5) unfolding scanned_def by blast+
  show j: "length (g_jobs t) = length (g_jobs s)" "js_used (g_jobs t ! i) = js_used (g_jobs s ! i)"
    "js_handle (g_jobs t ! i) = js_handle (g_jobs s ! i)"
    "job_at t i = (if i < n \<and> candidate K nid s i \<and> blocker_gone s i
       then (job_at s i)\<lparr>blocked := 0, block_kind := BLOCK_NONE\<rparr> else job_at s i)"
    using assms unfolding scanned_def by blast+
  then show "prio t i = prio s i" by (simp add: prio_def)
qed

lemma scanned_lookup:
  assumes "scanned K nid s n t"
  shows "job_data_for_handle_locked t h = job_data_for_handle_locked s h"
  unfolding job_data_for_handle_locked_def
  by (simp add: first_slot_cong [of "g_jobs t" "g_jobs s"] scanned_simps [OF assms])

lemma scanned_res_ok:
  assumes "scanned K nid s n t"
  shows "res_ok K t h j = res_ok K s h j"
  by (simp add: res_ok_def entry_free_def scanned_simps [OF assms])

lemma scanned_mutexes:
  assumes "scanned K nid s n t"
  shows "scanned K nid s n (t\<lparr>g_mutex_storage := ms\<rparr>)"
  using assms jobs_mutexes_only_simps(1) [of s t ms] by (simp add: scanned_def job_at_def)

lemma scanned_skip:
  assumes "scanned K nid s n t" "\<not> (candidate K nid s n \<and> blocker_gone s n)"
  shows "scanned K nid s (Suc n) t"
proof -
  have "(i < Suc n \<and> candidate K nid s i \<and> blocker_gone s i) = (i < n \<and> candidate K nid s i \<and> blocker_gone s i)" for i
    using assms(2) by (auto simp only: less_Suc_eq)
  then show ?thesis using assms(1) by (simp only: scanned_def simp_thms)
qed

lemma scanned_wake:
  assumes sc: "scanned K nid s n t" and n: "n < length (g_jobs s)"
    and w: "candidate K nid s n" "blocker_gone s n"
  shows "scanned K nid s (Suc n) (job_update n (\<lambda>j. j\<lparr>blocked := 0, block_kind := BLOCK_NONE\<rparr>) t)"
proof -
  have jm: "jobs_mutexes_only s (job_update n (\<lambda>j. j\<lparr>blocked := 0, block_kind := BLOCK_NONE\<rparr>) t)"
    using sc jobs_mutexes_only_simps(2) unfolding scanned_def by blast
  have "n < length (g_jobs t)" using n sc by (simp add: scanned_def)
  then show ?thesis
    using w jm scanned_simps(4-7) [OF sc]
    by (simp add: scanned_def job_at_update less_Suc_eq)
qed

lemma better_prio: "better t n b \<longleftrightarrow> (case b of None \<Rightarrow> True | Some i \<Rightarrow> prio t n > prio t i)"
  by (simp add: better_def prio_def split: option.split)

lemma pick_step_spec:
  assumes L: "kernel_laws K" and wt: "cluster_wf K t" and n: "n < length (g_jobs s)"
    and sc: "scanned K nid s n t"
    and br: "best_upto (prio s) (ready K nid s) n br"
    and bb: "best_upto (prio s) (mutex_blocked K nid s) n bb"
  shows "case pick_step K nid n (t, br, bb) of (t', br', bb') \<Rightarrow>
      scanned K nid s (Suc n) t'
      \<and> best_upto (prio s) (ready K nid s) (Suc n) br'
      \<and> best_upto (prio s) (mutex_blocked K nid s) (Suc n) bb'"
proof -
  note S = scanned_simps [OF sc]
  define h where "h = js_handle (g_jobs t ! n)"
  define t1 where "t1 = fst (resource_ok_for K t h (job_at t n))"
  have t1: "scanned K nid s n t1"
    using scanned_mutexes [OF sc] resource_ok_state [OF L wt, of h "job_at t n"] by (metis t1_def)
  note S1 = scanned_simps [OF t1]
  have jn: "job_at t n = job_at s n" "job_at t1 n = job_at s n" using S(7) [of n] S1(7) [of n] by simp_all
  have ok: "snd (resource_ok_for K t h (job_at t n)) = res_ok K s (js_handle (g_jobs s ! n)) (job_at s n)"
    using resource_ok_result [OF L wt] scanned_res_ok [OF sc] jn S(6) [of n] by (simp add: h_def)
  have ro: "resource_ok_for K t h (job_at t n) = (t1, res_ok K s (js_handle (g_jobs s ! n)) (job_at s n))"
    using ok by (simp add: t1_def prod_eq_iff)
  show ?thesis
  proof (cases "candidate K nid s n")
    case False
    then have nr: "\<not> ready K nid s n" "\<not> mutex_blocked K nid s n"
      by (simp_all add: ready_def mutex_blocked_def)
    note skip = best_upto_skip [OF br nr(1)] best_upto_skip [OF bb nr(2)]
    have sk: "scanned K nid s (Suc n) t" "scanned K nid s (Suc n) t1"
      using scanned_skip [OF sc] scanned_skip [OF t1] False by blast+
    have "pick_step K nid n (t, br, bb) \<in> {(t, br, bb), (t1, br, bb)}"
      using False ro S(5) [of n] jn by (auto simp: pick_step_def candidate_def h_def)
    then show ?thesis using skip sk by auto
  next
    case c: True
    let ?j = "job_at s n"
    define u where "u = (if blocker_gone s n
        then job_update n (\<lambda>j. j\<lparr>blocked := 0, block_kind := BLOCK_NONE\<rparr>) t1 else t1)"
    have su: "scanned K nid s (Suc n) u"
      using scanned_wake [OF t1 n c] scanned_skip [OF t1] by (auto simp: u_def)
    have bg: "(blocked (job_at t1 n) \<noteq> 0 \<and> block_kind (job_at t1 n) = BLOCK_JOB
        \<and> job_data_for_handle_locked t1 (block_id (job_at t1 n)) = None) \<longleftrightarrow> blocker_gone s n"
      by (simp add: blocker_gone_def jn scanned_lookup [OF t1])
    have ju: "blocked (job_at u n) = 0 \<longleftrightarrow> blocked ?j = 0 \<or> blocker_gone s n"
      "block_kind (job_at u n) = (if blocker_gone s n then BLOCK_NONE else block_kind ?j)"
      using scanned_simps(7) [OF su, of n] c by (auto simp: blocker_gone_def)
    have bt: "better u n b \<longleftrightarrow> (case b of None \<Rightarrow> True | Some i \<Rightarrow> prio s n > prio s i)" for b
      by (simp add: better_prio scanned_simps(8) [OF su] split: option.split)
    have step: "pick_step K nid n (t, br, bb) =
       (if blocked (job_at u n) = 0 then (u, if better u n br then Some n else br, bb)
        else if block_kind (job_at u n) = BLOCK_MUTEX then (u, br, if better u n bb then Some n else bb)
        else (u, br, bb))"
    proof -
      have g: "js_used (g_jobs t ! n) = True" "dispatched (job_at t n) = False"
        "eligible nid (job_at t n) = True" "res_ok K s (js_handle (g_jobs s ! n)) (job_at s n) = True"
        using c S(5) [of n] jn(1) by (auto simp: candidate_def)
      show ?thesis
        by (simp only: pick_step_def prod.case g h_def [symmetric] ro Let_def bg u_def [symmetric]
            simp_thms if_True if_False)
    qed
    have distinct: "BLOCK_NONE \<noteq> BLOCK_MUTEX" "BLOCK_JOB \<noteq> BLOCK_MUTEX"
      by (simp_all add: BLOCK_NONE_def BLOCK_MUTEX_def BLOCK_JOB_def)
    show ?thesis
    proof (cases "blocked (job_at u n) = 0")
      case True
      then have r: "ready K nid s n" "\<not> mutex_blocked K nid s n"
        using c ju distinct by (auto simp: ready_def mutex_blocked_def blocker_gone_def)
      show ?thesis
        using True su best_upto_take [OF br r(1)] best_upto_skip [OF bb r(2)] by (simp add: step bt)
    next
      case b: False
      then have r: "\<not> ready K nid s n" "\<not> blocker_gone s n" "blocked ?j \<noteq> 0"
        using ju by (auto simp: ready_def)
      show ?thesis
      proof (cases "block_kind (job_at u n) = BLOCK_MUTEX")
        case True
        then have m: "mutex_blocked K nid s n" using c r ju by (simp add: mutex_blocked_def)
        show ?thesis
          using b True su best_upto_skip [OF br r(1)] best_upto_take [OF bb m] by (simp add: step bt)
      next
        case False
        then have m: "\<not> mutex_blocked K nid s n" using r ju by (simp add: mutex_blocked_def)
        show ?thesis
          using b False su best_upto_skip [OF br r(1)] best_upto_skip [OF bb m] by (simp add: step)
      qed
    qed
  qed
qed

lemma pick_scan_spec:
  assumes L: "kernel_laws K" and wf: "cluster_wf K s" and n: "n \<le> JOB_POOL_SIZE"
  shows "case fold (pick_step K nid) [0..<n] (s, None, None) of (t, br, bb) \<Rightarrow>
      cluster_wf K t \<and> scanned K nid s n t
      \<and> best_upto (prio s) (ready K nid s) n br \<and> best_upto (prio s) (mutex_blocked K nid s) n bb"
  using n
proof (induction n)
  case 0
  have "s = s\<lparr>g_mutex_storage := g_mutex_storage s, g_jobs := g_jobs s\<rparr>" by simp
  then have "jobs_mutexes_only s s" unfolding jobs_mutexes_only_def by blast
  then show ?case using wf by (simp add: scanned_def)
next
  case (Suc n)
  obtain t br bb where f: "fold (pick_step K nid) [0..<n] (s, None, None) = (t, br, bb)"
    by (metis prod_cases3)
  with Suc have IH: "cluster_wf K t" "scanned K nid s n t"
    "best_upto (prio s) (ready K nid s) n br" "best_upto (prio s) (mutex_blocked K nid s) n bb" by auto
  have len: "n < length (g_jobs s)"
    using Suc.prems cluster_wfD(1) [OF wf] by (simp add: sizes_wf_def)
  have "cluster_wf K (fst (pick_step K nid n (t, br, bb)))" using wfi.pick_step [of K "(t, br, bb)" nid n] L IH by simp
  then show ?case using pick_step_spec [OF L IH(1) len IH(2-4)] f by auto
qed

text \<open>
  The slot the scheduler chooses: the first of the ready slots with the greatest
  effective priority; if no slot is ready, the first with the greatest effective
  priority of those blocked on a mutex; nothing if there is neither.
\<close>

definition chosen_slot :: "('k, 'z) platform_scheme \<Rightarrow> u64 \<Rightarrow> 'k cluster \<Rightarrow> nat option \<Rightarrow> bool" where
  "chosen_slot K nid s c \<longleftrightarrow>
    (if \<exists>i < JOB_POOL_SIZE. ready K nid s i
     then c \<noteq> None \<and> best_upto (prio s) (ready K nid s) JOB_POOL_SIZE c
     else best_upto (prio s) (mutex_blocked K nid s) JOB_POOL_SIZE c)"

lemma pick_scan_chosen:
  assumes L: "kernel_laws K" and wf: "cluster_wf K s"
  obtains t br bb where "pick_scan K nid s = (t, br, bb)" "cluster_wf K t"
    "scanned K nid s JOB_POOL_SIZE t"
    "chosen_slot K nid s (case br of Some i \<Rightarrow> Some i | None \<Rightarrow> bb)"
proof -
  obtain t br bb where p: "pick_scan K nid s = (t, br, bb)" by (metis prod_cases3)
  with pick_scan_spec [OF L wf order.refl, of nid]
  have *: "cluster_wf K t" "scanned K nid s JOB_POOL_SIZE t"
    "best_upto (prio s) (ready K nid s) JOB_POOL_SIZE br"
    "best_upto (prio s) (mutex_blocked K nid s) JOB_POOL_SIZE bb"
    by (simp_all add: pick_scan_def)
  have "chosen_slot K nid s (case br of Some i \<Rightarrow> Some i | None \<Rightarrow> bb)"
    using *(3,4) by (cases br) (auto simp: chosen_slot_def best_upto_def)
  from that [OF p *(1,2) this] show thesis .
qed

subsection \<open>Binding a resource\<close>

definition last_free :: "('k, 'z) platform_scheme \<Rightarrow> 'k cluster \<Rightarrow> job_data_t \<Rightarrow> u64" where
  "last_free K s j = (case filter (entry_free K s j) (g_resource_index s) of
     [] \<Rightarrow> 0 | es \<Rightarrow> rx_handle (last es))"

lemma scan_last_pure:
  assumes L: "kernel_laws K"
    and es: "\<And>e. e \<in> set es \<Longrightarrow> rx_used e \<Longrightarrow> \<exists>i. objs K s (rx_handle e) = Some (OResource i)"
  shows "resource_scan_last K j s c es =
    (s, case filter (entry_free K s j) es of [] \<Rightarrow> c | fs \<Rightarrow> rx_handle (last fs))"
  using es
proof (induction es arbitrary: c)
  case (Cons e es)
  then have IH: "\<And>c. resource_scan_last K j s c es =
      (s, case filter (entry_free K s j) es of [] \<Rightarrow> c | fs \<Rightarrow> rx_handle (last fs))" by simp
  show ?case
  proof (cases "rx_used e \<and> rx_kind e = resource_kind j")
    case True
    then obtain i where ob: "objs K s (rx_handle e) = Some (OResource i)" using Cons.prems by auto
    have ef: "entry_free K s j e \<longleftrightarrow> reserved_by (g_resource_storage s ! i) = 0
        \<and> resource_min_capacity j \<le> capacity (g_resource_storage s ! i)"
      using True ob by (simp add: entry_free_def)
    show ?thesis using True
      by (auto simp: get_info_resource [OF L ob] ef IH split: list.splits)
  next
    case False
    then have "\<not> entry_free K s j e" by (auto simp: entry_free_def)
    then show ?thesis using IH False by auto
  qed
qed simp

text \<open>What a job that is about to run needs: the resource it will be bound to, if any.\<close>

definition wanted :: "('k, 'z) platform_scheme \<Rightarrow> 'k cluster \<Rightarrow> job_data_t \<Rightarrow> u64" where
  "wanted K s j =
    (if bound_resource_id j \<noteq> 0 then bound_resource_id j
     else if resource_id j \<noteq> 0 then resource_id j
     else if resource_kind j \<noteq> RESOURCE_KIND_NONE then last_free K s j
     else 0)"

lemma last_free_free:
  assumes "\<exists>e \<in> set (g_resource_index s). entry_free K s j e"
  shows "\<exists>i. objs K s (last_free K s j) = Some (OResource i) \<and> reserved_by (g_resource_storage s ! i) = 0
    \<and> resource_min_capacity j \<le> capacity (g_resource_storage s ! i)"
proof -
  let ?fs = "filter (entry_free K s j) (g_resource_index s)"
  have ne: "?fs \<noteq> []" using assms by (auto simp: filter_empty_conv)
  then have "entry_free K s j (last ?fs)" using last_in_set [OF ne] by simp
  moreover have "last_free K s j = rx_handle (last ?fs)"
    using ne by (cases ?fs) (simp_all add: last_free_def)
  ultimately show ?thesis by (auto simp: entry_free_def)
qed

text \<open>
  Binding reserves the wanted resource for the job, unless the job is bound already
  or wants nothing; no other resource is touched.
\<close>

lemma bind_spec:
  assumes L: "kernel_laws K" and wf: "cluster_wf K s" and h: "h \<noteq> 0"
    and ok: "res_ok K s h (job_at s i)"
  shows "bind_resource_for K s h i =
    (if bound_resource_id (job_at s i) \<noteq> 0 \<or> wanted K s (job_at s i) = 0 then s
     else case objs K s (wanted K s (job_at s i)) of Some (OResource k) \<Rightarrow>
       job_update i (\<lambda>j. j\<lparr>bound_resource_id := wanted K s (job_at s i)\<rparr>)
         (s\<lparr>g_resource_storage := (g_resource_storage s)
              [k := (g_resource_storage s ! k)\<lparr>reserved_by := h\<rparr>]\<rparr>) | _ \<Rightarrow> s)"
proof (cases "bound_resource_id (job_at s i) \<noteq> 0 \<or>
    (resource_id (job_at s i) = 0 \<and> resource_kind (job_at s i) = RESOURCE_KIND_NONE)")
  case True
  then show ?thesis by (auto simp: bind_resource_for_def Let_def wanted_def)
next
  case False
  let ?j = "job_at s i"
  have w: "\<exists>k. objs K s (wanted K s ?j) = Some (OResource k) \<and> reserved_by (g_resource_storage s ! k) = 0"
    using False ok last_free_free [of s K ?j] by (auto simp: res_ok_def wanted_def)
  then obtain k where k: "objs K s (wanted K s ?j) = Some (OResource k)"
    "reserved_by (g_resource_storage s ! k) = 0" by blast
  have nz: "wanted K s ?j \<noteq> 0" by (rule live_handle(2) [OF L k(1)])
  have sl: "resource_scan_last K ?j s 0 (g_resource_index s) = (s, last_free K s ?j)"
    unfolding last_free_def by (rule scan_last_pure [OF L index_objects [OF wf]])
  have ch: "(if resource_id ?j \<noteq> 0 then (s, resource_id ?j)
        else if resource_kind ?j \<noteq> RESOURCE_KIND_NONE then resource_scan_last K ?j s 0 (g_resource_index s)
        else (s, 0)) = (s, wanted K s ?j)"
    using False by (simp add: wanted_def sl)
  have "resource_reserve K s (wanted K s ?j) h =
      (s\<lparr>g_resource_storage := (g_resource_storage s)
            [k := (g_resource_storage s ! k)\<lparr>reserved_by := h\<rparr>]\<rparr>, True)"
    using reserve_resource [OF L k(1), of h] k(2) h by simp
  then show ?thesis
    using False nz k(1) unfolding bind_resource_for_def Let_def ch by simp
qed

subsection \<open>The whole choice\<close>

text \<open>The parts of a job's data that decide what resource it may and will use.\<close>

definition same_needs :: "job_data_t \<Rightarrow> job_data_t \<Rightarrow> bool" where
  "same_needs j j' \<longleftrightarrow> bound_resource_id j' = bound_resource_id j \<and> resource_id j' = resource_id j
     \<and> resource_kind j' = resource_kind j \<and> resource_min_capacity j' = resource_min_capacity j"

lemma needs_cong:
  assumes "same_needs j j'" "kst t = kst s" "g_resource_storage t = g_resource_storage s"
    "g_resource_index t = g_resource_index s"
  shows "res_ok K t h j' = res_ok K s h j" "wanted K t j' = wanted K s j"
proof -
  have "entry_free K t j' = entry_free K s j"
    using assms by (auto simp: entry_free_def same_needs_def fun_eq_iff)
  then show "res_ok K t h j' = res_ok K s h j" "wanted K t j' = wanted K s j"
    using assms by (simp_all add: res_ok_def wanted_def last_free_def same_needs_def)
qed

lemma candidate_used: "candidate K nid s i \<Longrightarrow> js_used (g_jobs s ! i)"
  by (simp add: candidate_def)

lemma chosen_candidate:
  assumes "chosen_slot K nid s (Some i)"
  shows "i < JOB_POOL_SIZE" "candidate K nid s i"
  using assms by (auto simp: chosen_slot_def best_upto_def ready_def mutex_blocked_def split: if_splits)

lemma job_handle_nonzero:
  assumes "kernel_laws K" "cluster_wf K s" "i < length (g_jobs s)" "js_used (g_jobs s ! i)"
  shows "js_handle (g_jobs s ! i) \<noteq> 0" "objs K s (js_handle (g_jobs s ! i)) = Some (OJob i)"
proof -
  show "objs K s (js_handle (g_jobs s ! i)) = Some (OJob i)"
    using cluster_wfD(3) [OF assms(2)] assms(3,4) by (simp add: job_wf_def)
  from live_handle(2) [OF assms(1) this] show "js_handle (g_jobs s ! i) \<noteq> 0" .
qed

text \<open>The state once slot \<open>i\<close> has been handed to a node after the scan that ended in \<open>t\<close>.\<close>

definition handed_out :: "('k, 'z) platform_scheme \<Rightarrow> u64 \<Rightarrow> 'k cluster \<Rightarrow> 'k cluster \<Rightarrow> nat \<Rightarrow> 'k cluster" where
  "handed_out K nid s t i =
    (let h = js_handle (g_jobs s ! i); w = wanted K s (job_at s i);
         t' = job_update i (\<lambda>j. j\<lparr>dispatched := True, assigned_node := nid\<rparr>) t
     in if bound_resource_id (job_at s i) \<noteq> 0 \<or> w = 0 then t'
        else case objs K s w of Some (OResource k) \<Rightarrow>
          job_update i (\<lambda>j. j\<lparr>bound_resource_id := w\<rparr>)
            (t'\<lparr>g_resource_storage := (g_resource_storage s)
                 [k := (g_resource_storage s ! k)\<lparr>reserved_by := h\<rparr>]\<rparr>) | _ \<Rightarrow> t')"

lemma bind_handed_out:
  assumes L: "kernel_laws K" and wf: "cluster_wf K s" and wt: "cluster_wf K t"
    and sc: "scanned K nid s JOB_POOL_SIZE t" and ci: "chosen_slot K nid s (Some i)"
  shows "bind_resource_for K (job_update i (\<lambda>j. j\<lparr>dispatched := True, assigned_node := nid\<rparr>) t)
    (js_handle (g_jobs s ! i)) i = handed_out K nid s t i"
proof -
  note S = scanned_simps [OF sc] and cd = chosen_candidate [OF ci]
  define t' where "t' = job_update i (\<lambda>j. j\<lparr>dispatched := True, assigned_node := nid\<rparr>) t"
  have len: "i < length (g_jobs s)" using cd(1) cluster_wfD(1) [OF wf] by (simp add: sizes_wf_def)
  then have "job_at t' i = (job_at t i)\<lparr>dispatched := True, assigned_node := nid\<rparr>"
    using S(4) by (simp add: t'_def job_at_update)
  then have needs: "same_needs (job_at s i) (job_at t' i)" using S(7) [of i] by (simp add: same_needs_def)
  have tabs: "kst t' = kst s" "g_resource_storage t' = g_resource_storage s"
    "g_resource_index t' = g_resource_index s" by (simp_all add: t'_def S)
  note nc = needs_cong [OF needs tabs, of K]
  have ok: "res_ok K t' (js_handle (g_jobs s ! i)) (job_at t' i)" using cd(2) nc(1) by (simp add: candidate_def)
  have h: "js_handle (g_jobs s ! i) \<noteq> 0" by (rule job_handle_nonzero [OF L wf len candidate_used [OF cd(2)]])
  have wt': "cluster_wf K t'" unfolding t'_def by (rule wf_job_update [OF wt])
  show ?thesis
    using needs by (simp add: handed_out_def bind_spec [OF L wt' h ok] nc tabs Let_def same_needs_def
        flip: t'_def split: option.split obj.split)
qed

lemma pick_next_spec:
  assumes L: "kernel_laws K" and wf: "cluster_wf K s"
  obtains (none) t where "scanned K nid s JOB_POOL_SIZE t" "chosen_slot K nid s None"
      "pick_next_for_node K s nid = (t, None)"
  | (some) t i where "scanned K nid s JOB_POOL_SIZE t" "chosen_slot K nid s (Some i)"
      "pick_next_for_node K s nid = (handed_out K nid s t i, Some i)"
proof -
  obtain t br bb where p: "pick_scan K nid s = (t, br, bb)" and wt: "cluster_wf K t"
    and sc: "scanned K nid s JOB_POOL_SIZE t"
    and ch: "chosen_slot K nid s (case br of Some i \<Rightarrow> Some i | None \<Rightarrow> bb)"
    using pick_scan_chosen [OF L wf] by metis
  define c where "c = (case br of Some i \<Rightarrow> Some i | None \<Rightarrow> bb)"
  note S = scanned_simps [OF sc]
  show thesis
  proof (cases c)
    case None
    then have "pick_next_for_node K s nid = (t, None)"
      unfolding pick_next_for_node_def Let_def p prod.case c_def [symmetric] by simp
    with none [OF sc] ch None show thesis by (simp add: c_def)
  next
    case (Some i)
    have ci: "chosen_slot K nid s (Some i)" using ch Some by (simp add: c_def)
    note cd = chosen_candidate [OF ci]
    have lt: "i < length (g_jobs t)" using cd(1) cluster_wfD(1) [OF wf] S(4) by (simp add: sizes_wf_def)
    have nd: "\<not> dispatched (job_at t i)" and el: "eligible nid (job_at t i)"
      using cd(2) S(7) [of i] by (auto simp: candidate_def eligible_def)
    have "(let s2 = job_update i (\<lambda>j. j\<lparr>dispatched := True\<rparr>) t
       in if assigned_node (job_at s2 i) = NODE_AFFINITY_ANY
          then job_update i (\<lambda>j. j\<lparr>assigned_node := nid\<rparr>) s2 else s2) =
        job_update i (\<lambda>j. j\<lparr>dispatched := True, assigned_node := nid\<rparr>) t"
      using el lt unfolding Let_def by (auto simp: job_at_update eligible_def job_update_def job_at_def)
    then have "pick_next_for_node K s nid = (handed_out K nid s t i, Some i)"
      using nd Some bind_handed_out [OF L wf wt sc ci] S(6) [of i]
      unfolding pick_next_for_node_def Let_def p prod.case c_def [symmetric] by simp
    from some [OF sc ci this] show thesis .
  qed
qed

end
