(* ===== verification/Demo_Kernel.thy ===== *)
theory Demo_Kernel
  imports Cluster_Scheduler
begin

text \<open>
  A concrete kernel that satisfies \<open>kernel_laws\<close>: a table of live handles and the
  next handle to give out.  It shows that the laws can hold, and the witnesses
  evaluate the scheduler on it.
\<close>

type_synonym demo = "u64 \<times> (u64 \<times> obj) list"

definition demo_issued :: "demo \<Rightarrow> u64 \<Rightarrow> bool" where
  "demo_issued k h \<longleftrightarrow> h \<noteq> 0 \<and> (fst k = 0 \<or> h < fst k)"

definition demo_create :: "demo \<Rightarrow> obj \<Rightarrow> demo \<times> u64" where
  "demo_create k ob = (if fst k = 0 then (k, 0) else ((fst k + 1, (fst k, ob) # snd k), fst k))"

definition demo_shape :: "nat option \<Rightarrow> bytes \<Rightarrow> bool" where
  "demo_shape n msg = (case n of None \<Rightarrow> False | Some k \<Rightarrow> length msg = 16 + 8 * k)"

definition demo_kernel :: "arch \<Rightarrow> demo platform" where
  "demo_kernel a = \<lparr>p_arch = a, k_create = demo_create,
     k_destroy = (\<lambda>k h. (fst k, filter (\<lambda>e. fst e \<noteq> h) (snd k))),
     k_object = (\<lambda>k h. if demo_issued k h then map_of (snd k) h else None),
     k_issued = demo_issued,
     k_request_ok = (\<lambda>ob m msg. demo_shape (request_words ob m) msg),
     k_result_ok = (\<lambda>ob m msg. result_words ob m = Some 0 \<or> demo_shape (result_words ob m) msg)\<rparr>"

definition demo_start :: "arch \<Rightarrow> demo cluster" where
  "demo_start a = cluster_scheduler_init (demo_kernel a) 7
     (zero_cluster (8, [(7, OMemoryManager)]) (memory_manager_init a (\<lambda>_. []) None))"

definition demo_call :: "u32 \<Rightarrow> u64 list \<Rightarrow> demo cluster \<Rightarrow> demo cluster \<times> u64 list" where
  "demo_call m ws s = (let (s', r) = cluster_scheduler_handler (demo_kernel X86_64) s m (flat_msg ws) 128
     in (s', capnp_read_flat r))"

lemma map_of_filter_neq: "map_of (filter (\<lambda>e. fst e \<noteq> h) t) = (map_of t)(h := None)"
  by (induction t) (auto simp: fun_eq_iff)

lemma request_words_le: "request_words ob m = Some n \<Longrightarrow> n \<le> 6"
  by (auto simp: request_words_def split: obj.splits if_splits)

lemma result_words_le: "result_words ob m = Some n \<Longrightarrow> n \<le> 14"
  by (auto simp: result_words_def split: obj.splits if_splits)

lemma demo_kernel_laws: "kernel_laws (demo_kernel a)"
  unfolding kernel_law_defs
proof (intro conjI allI impI)
  fix k :: demo and ob k' and h :: u64
  assume c: "k_create (demo_kernel a) k ob = (k', h)" and h: "h \<noteq> 0"
  then have k': "h = fst k" "k' = (fst k + 1, (fst k, ob) # snd k)"
    by (auto simp: demo_kernel_def demo_create_def split: if_splits)
  show "\<not> k_issued (demo_kernel a) k h"
    using k' h by (simp add: demo_kernel_def demo_issued_def)
  have iss: "demo_issued k' x \<longleftrightarrow> demo_issued k x \<or> x = h" for x
  proof (cases "1 + fst k = 0")
    case True
    then have "fst k = - 1" by (simp add: eq_neg_iff_add_eq_0 add.commute)
    then have "x \<noteq> fst k \<Longrightarrow> x < fst k" by (simp add: word_order.not_eq_extremum)
    then show ?thesis using k' h True by (auto simp: demo_issued_def add.commute)
  next
    case False
    then have "unat (fst k + 1) = Suc (unat (fst k))" using unatSuc [of "fst k"] by (simp add: add.commute)
    then show ?thesis using k' h False
      by (auto simp: demo_issued_def word_less_nat_alt word_unat_eq_iff add.commute)
  qed
  show "k_issued (demo_kernel a) k' = (k_issued (demo_kernel a) k)(h := True)"
    using iss by (auto simp: demo_kernel_def fun_eq_iff)
  show "k_object (demo_kernel a) k' = (k_object (demo_kernel a) k)(h \<mapsto> ob)"
    using iss k' by (auto simp: demo_kernel_def fun_eq_iff)
next
  fix ob m and ws :: "u64 list"
  assume "request_words ob m = Some (length ws)"
  then show "k_request_ok (demo_kernel a) ob m (flat_msg ws)"
    using request_words_le [of ob m "length ws"]
    by (simp add: demo_kernel_def demo_shape_def length_flat_msg)
next
  fix ob m and ws :: "u64 list"
  assume "result_words ob m = Some (length ws)"
  then show "k_result_ok (demo_kernel a) ob m (flat_msg ws)"
    using result_words_le [of ob m "length ws"]
    by (simp add: demo_kernel_def demo_shape_def length_flat_msg)
qed (auto simp: demo_kernel_def demo_create_def demo_issued_def demo_shape_def fun_eq_iff
       map_of_filter_neq capnp_read_flat_def split: if_splits option.splits)

end
