(* ===== verification/Demo_Runs.thy ===== *)
theory Demo_Runs
  imports Demo_Kernel Scheduler_Invariant
begin

text \<open>
  Runs of the scheduler on the concrete kernel, used by the witnesses: a machine with
  two nodes, and the states after the first jobs have been submitted.
\<close>

abbreviation "DK \<equiv> demo_kernel X86_64"

definition demo_run :: "(u32 \<times> u64 list) list \<Rightarrow> demo cluster" where
  "demo_run cs = fold (\<lambda>(m, ws) s. fst (demo_call m ws s)) cs (demo_start X86_64)"

definition demo_calls_ok :: "(u32 \<times> u64 list) list \<Rightarrow> bool" where
  "demo_calls_ok cs \<longleftrightarrow> list_all (\<lambda>(m, ws). length ws \<le> 16 \<and> (m = 2 \<longrightarrow> ws ! 1 \<le> ws ! 1 + ws ! 2)) cs"

text \<open>The states, written out: the tables hold the given entries and are empty after them.\<close>

definition pad :: "nat \<Rightarrow> 'a \<Rightarrow> 'a list \<Rightarrow> 'a list" where
  "pad n z xs = xs @ replicate (n - length xs) z"

definition demo_state :: "demo \<Rightarrow> resource_data_t list \<Rightarrow> resource_index_entry_t list \<Rightarrow>
    node_data_t list \<Rightarrow> node_index_entry_t list \<Rightarrow> job_slot list \<Rightarrow> demo cluster" where
  "demo_state k res idx nds nix js = (zero_cluster k
       (map (\<lambda>(b, sz, c). \<lparr>cl_base = b, cl_size = sz, cl_kind = c, cl_used = True\<rparr>)
         [(0xFEE00000, 0x1000, 0), (0xFEC00000, 0x1000, 0), (0x1000000, 0x400000, 1), (0x8000, 0x1000, 1),
          (0x1800000, 0x400000, 1)]))
     \<lparr>g_memory_manager := 7, g_pool_resource := 16,
      g_resource_storage := pad RESOURCE_POOL_SIZE \<lparr>owner_node = 0, kind = 0, descriptor = 0,
        capacity = 0, reserved_by = 0, sync_kind = 0\<rparr> res,
      g_resource_storage_next := length res,
      g_resource_index := pad RESOURCE_POOL_SIZE \<lparr>rx_handle = 0, rx_kind = 0, rx_used = False\<rparr> idx,
      g_node_storage := pad MAX_NODES \<lparr>nd_node_id = 0, nd_arch = 0, nd_signal_target = 0\<rparr> nds,
      g_node_storage_next := length nds,
      g_node_index := pad MAX_NODES \<lparr>nx_handle = 0, nx_node_id = 0, nx_used = False\<rparr> nix,
      g_mutex_handles := map of_nat [8..<16],
      g_jobs := pad JOB_POOL_SIZE \<lparr>js_used = False, js_handle = 0, js_data = zero_job\<rparr> js\<rparr>"

definition demo_objects :: "(u64 \<times> obj) list" where
  "demo_objects = (16, OResource 0) # map (\<lambda>i. (of_nat i + 8, OMutex i)) (rev [0..<8]) @ [(7, OMemoryManager)]"

definition demo_boot :: "demo cluster" where
  "demo_boot = demo_state (17, demo_objects)
     [\<lparr>owner_node = 0, kind = 0, descriptor = 0x1C00000, capacity = 0x2400000, reserved_by = 0, sync_kind = 0\<rparr>]
     [\<lparr>rx_handle = 16, rx_kind = 0, rx_used = True\<rparr>] [] [] []"

text \<open>
  Two nodes, a peripheral (handle 19) owned by node 1, a job (20) of priority 3 that runs
  anywhere and needs a peripheral, and a job (21) of priority 9 for node 1.
\<close>

definition demo_jobs_calls :: "(u32 \<times> u64 list) list" where
  "demo_jobs_calls = [(0, [1, 0, 5]), (0, [2, 1, 6]), (3, [1, 2, 0x60, 1, 0]),
     (5, [0xFFFFFFFFFFFFFFFF, 0, 1, 2, 3, 0, 2, 1]), (5, [1, 1, 5, 6, 9, 0, 0xFFFFFFFFFFFFFFFF, 0])]"

definition demo_jobs :: "demo cluster" where
  "demo_jobs = demo_state (22, [(21, OJob 1), (20, OJob 0), (19, OResource 1), (18, ONode 1), (17, ONode 0)]
       @ demo_objects)
     [\<lparr>owner_node = 0, kind = 0, descriptor = 0x1C00000, capacity = 0x2400000, reserved_by = 0, sync_kind = 0\<rparr>,
      \<lparr>owner_node = 1, kind = 2, descriptor = 0x60, capacity = 1, reserved_by = 0, sync_kind = 0\<rparr>]
     [\<lparr>rx_handle = 16, rx_kind = 0, rx_used = True\<rparr>, \<lparr>rx_handle = 19, rx_kind = 2, rx_used = True\<rparr>]
     [\<lparr>nd_node_id = 1, nd_arch = 0, nd_signal_target = 5\<rparr>, \<lparr>nd_node_id = 2, nd_arch = 1, nd_signal_target = 6\<rparr>]
     [\<lparr>nx_handle = 17, nx_node_id = 1, nx_used = True\<rparr>, \<lparr>nx_handle = 18, nx_node_id = 2, nx_used = True\<rparr>]
     [\<lparr>js_used = True, js_handle = 20, js_data = zero_job\<lparr>arg0 := 1, arg1 := 2, base_priority := 3,
         effective_priority := 3, node_affinity := 0xFFFFFFFFFFFFFFFF, assigned_node := 0xFFFFFFFFFFFFFFFF,
         resource_kind := 2, resource_min_capacity := 1\<rparr>\<rparr>,
      \<lparr>js_used = True, js_handle = 21, js_data = zero_job\<lparr>jb_type := 1, arg0 := 5, arg1 := 6,
         base_priority := 9, effective_priority := 9, node_affinity := 1,
         assigned_node := 0xFFFFFFFFFFFFFFFF, resource_kind := 0xFFFFFFFFFFFFFFFF\<rparr>\<rparr>]"

lemma demo_start_code [code]: "demo_start X86_64 = demo_boot"
  by code_simp

lemma demo_call_code [code]:
  "demo_call m ws s = (if length ws \<le> 16 then
     (let (s', r) = (if m = 0 then handle_join_node DK s ws 128
       else if m = 1 then handle_leave_node DK s ws
       else if m = 2 then handle_request_allocation DK s ws 128
       else if m = 3 then handle_declare_resource DK s ws 128
       else if m = 10 then handle_get_resource_info DK s ws 128
       else if m = 11 then handle_allocate_slice DK s ws 128
       else if m = 12 then handle_release_slice DK s ws 128
       else if m = 13 then handle_preempt_node DK s ws 128
       else if m = 4 then handle_reassign_resource DK s ws 128
       else if m = 5 then handle_submit_job DK s ws 128
       else if m = 6 then handle_get_next_job DK s ws 128
       else if m = 7 then handle_report_job_result DK s ws
       else if m = 14 then handle_get_job_result s ws 128
       else if m = 8 then handle_mutex_try_lock DK s ws 128
       else if m = 9 then handle_mutex_unlock DK s ws
       else (s, []))
      in (s', capnp_read_flat r))
    else (let (s', r) = cluster_scheduler_handler DK s m (flat_msg ws) 128 in (s', capnp_read_flat r)))"
  by (simp add: demo_call_def cluster_scheduler_handler_def capnp_read_flat_msg)

lemma demo_jobs_run: "demo_jobs = demo_run demo_jobs_calls"
  by code_simp

lemma demo_ledger: "ledger_inv (memory_manager_init a (\<lambda>_. []) None)"
  by (rule init_inv) (simp add: boot_allocator_region_def)

lemma demo_start_wf: "cluster_wf (demo_kernel a) (demo_start a)"
  unfolding demo_start_def
  by (rule wf_init [OF demo_kernel_laws _ demo_ledger])
    (simp add: start_objects_def demo_kernel_def demo_issued_def)

lemma demo_call_reach:
  assumes "cs_reach DK s0 s" "length ws \<le> 16" "m = 2 \<longrightarrow> ws ! 1 \<le> ws ! 1 + ws ! 2"
  shows "cs_reach DK s0 (fst (demo_call m ws s))"
proof -
  have "call_in_range m (flat_msg ws)" using assms(2,3) by (simp add: call_in_range_def capnp_read_flat_msg)
  from cs_reach.call [OF assms(1) this, of 128] show ?thesis by (simp add: demo_call_def split_beta)
qed

lemma demo_fold_reach:
  "cs_reach DK s0 s \<Longrightarrow> demo_calls_ok cs \<Longrightarrow>
     cs_reach DK s0 (fold (\<lambda>(m, ws) s. fst (demo_call m ws s)) cs s)"
proof (induction cs arbitrary: s)
  case (Cons c cs)
  then have "cs_reach DK s0 (fst (demo_call (fst c) (snd c) s))" "demo_calls_ok cs"
    by (auto simp: demo_calls_ok_def split_beta intro!: demo_call_reach)
  then show ?case using Cons.IH by (simp add: split_beta)
qed simp

lemma demo_run_reach: "demo_calls_ok cs \<Longrightarrow> cs_reach DK (demo_start X86_64) (demo_run cs)"
  unfolding demo_run_def by (rule demo_fold_reach [OF cs_reach.start])

lemma demo_run_wf: "demo_calls_ok cs \<Longrightarrow> cluster_wf DK (demo_run cs)"
  by (rule cs_reach_wf [OF demo_run_reach demo_kernel_laws demo_start_wf])

lemma demo_jobs_wf: "cluster_wf DK demo_jobs"
  unfolding demo_jobs_run by (rule demo_run_wf) (simp add: demo_calls_ok_def demo_jobs_calls_def)

end
