(* ===== verification/Dispatch_Props.thy ===== *)
theory Dispatch_Props
  imports Cluster_Dispatch Demo_Runs
begin

text \<open>
  What handing out a job guarantees: the answer to one request, and what holds of a
  job over any sequence of calls once a node has it.
\<close>

subsection \<open>The state after a choice\<close>

lemma wanted_free:
  assumes "res_ok K s h j" "bound_resource_id j = 0" "wanted K s j \<noteq> 0"
  shows "\<exists>r. objs K s (wanted K s j) = Some (OResource r) \<and> reserved_by (g_resource_storage s ! r) = 0"
  using assms last_free_free [of s K j] by (auto simp: res_ok_def wanted_def split: if_splits)

lemma handed_out_cases:
  assumes sc: "scanned K nid s JOB_POOL_SIZE t" and ci: "chosen_slot K nid s (Some i)"
  defines "t' \<equiv> job_update i (\<lambda>j. j\<lparr>dispatched := True, assigned_node := nid\<rparr>) t"
  obtains (keep) "bound_resource_id (job_at s i) \<noteq> 0 \<or> wanted K s (job_at s i) = 0"
      "handed_out K nid s t i = t'" "bound_resource_id (job_at t i) = wanted K s (job_at s i)"
  | (bind) r where "bound_resource_id (job_at s i) = 0" "wanted K s (job_at s i) \<noteq> 0"
      "objs K s (wanted K s (job_at s i)) = Some (OResource r)" "reserved_by (g_resource_storage s ! r) = 0"
      "handed_out K nid s t i = job_update i (\<lambda>j. j\<lparr>bound_resource_id := wanted K s (job_at s i)\<rparr>)
         (t'\<lparr>g_resource_storage := (g_resource_storage s)
            [r := (g_resource_storage s ! r)\<lparr>reserved_by := js_handle (g_jobs s ! i)\<rparr>]\<rparr>)"
proof (cases "bound_resource_id (job_at s i) \<noteq> 0 \<or> wanted K s (job_at s i) = 0")
  case True
  then have "bound_resource_id (job_at t i) = wanted K s (job_at s i)"
    using scanned_simps(7) [OF sc, of i] by (auto simp: wanted_def)
  moreover have "handed_out K nid s t i = t'" using True unfolding handed_out_def Let_def t'_def by simp
  ultimately show thesis using True keep by blast
next
  case False
  then obtain r where r: "objs K s (wanted K s (job_at s i)) = Some (OResource r)"
      "reserved_by (g_resource_storage s ! r) = 0"
    using wanted_free chosen_candidate(2) [OF ci] unfolding candidate_def by blast
  show thesis
    by (rule bind [of r]) (use False r in \<open>simp_all add: handed_out_def t'_def\<close>)
qed

lemma job_at_storage [simp]: "job_at (x\<lparr>g_resource_storage := y\<rparr>) m = job_at x m"
  by (simp add: job_at_def)

lemma handed_out_facts:
  assumes wf: "cluster_wf K s" and sc: "scanned K nid s JOB_POOL_SIZE t" and ci: "chosen_slot K nid s (Some i)"
  defines "s' \<equiv> handed_out K nid s t i"
  shows "job_at s' k = (if k = i then (job_at t i)\<lparr>dispatched := True, assigned_node := nid,
      bound_resource_id := wanted K s (job_at s i)\<rparr> else job_at t k)" (is ?jobs)
    "js_handle (g_jobs s' ! k) = js_handle (g_jobs s ! k)" (is ?handles)
    "js_used (g_jobs s' ! k) = js_used (g_jobs s ! k)" (is ?used)
    "length (g_jobs s') = length (g_jobs s)" (is ?len) "kst s' = kst s" (is ?kst)
    "(if bound_resource_id (job_at s i) \<noteq> 0 \<or> wanted K s (job_at s i) = 0
      then g_resource_storage s' = g_resource_storage s
      else \<exists>r. objs K s (wanted K s (job_at s i)) = Some (OResource r)
         \<and> reserved_by (g_resource_storage s ! r) = 0
         \<and> g_resource_storage s' = (g_resource_storage s)
              [r := (g_resource_storage s ! r)\<lparr>reserved_by := js_handle (g_jobs s ! i)\<rparr>])" (is ?res)
proof -
  note S = scanned_simps [OF sc] and cd = chosen_candidate [OF ci]
  have lt: "i < length (g_jobs t)" using cd(1) cluster_wfD(1) [OF wf] S(4) by (simp add: sizes_wf_def)
  have "?jobs \<and> ?handles \<and> ?used \<and> ?len \<and> ?kst \<and> ?res"
    using sc ci
  proof (cases rule: handed_out_cases)
    case keep
    then show ?thesis using lt by (simp add: s'_def job_at_update S(1-6))
  next
    case (bind r)
    then show ?thesis using lt by (simp add: s'_def job_at_update S(1-6))
  qed
  then show ?jobs ?handles ?used ?len ?kst ?res by blast+
qed

subsection \<open>One request for work\<close>

text \<open>What node \<open>nid\<close> may rely on when a request for work handed it slot \<open>i\<close>.\<close>

definition owns_job :: "('k, 'z) platform_scheme \<Rightarrow> u64 \<Rightarrow> 'k cluster \<Rightarrow> 'k cluster \<Rightarrow> nat \<Rightarrow> bool" where
  "owns_job K nid s s' i \<longleftrightarrow>
     dispatched (job_at s' i) \<and> assigned_node (job_at s' i) = nid
     \<and> bound_resource_id (job_at s' i) = wanted K s (job_at s i)
     \<and> (bound_resource_id (job_at s i) = 0 \<and> wanted K s (job_at s i) \<noteq> 0 \<longrightarrow>
          (\<exists>r. objs K s (wanted K s (job_at s i)) = Some (OResource r)
             \<and> reserved_by (g_resource_storage s ! r) = 0
             \<and> reserved_by (g_resource_storage s' ! r) = js_handle (g_jobs s ! i)))
     \<and> (\<forall>k. k \<noteq> i \<longrightarrow> dispatched (job_at s' k) = dispatched (job_at s k)
             \<and> bound_resource_id (job_at s' k) = bound_resource_id (job_at s k))"

lemma handed_out_owns:
  assumes L: "kernel_laws K" and wf: "cluster_wf K s" and sc: "scanned K nid s JOB_POOL_SIZE t"
    and ci: "chosen_slot K nid s (Some i)"
  shows "owns_job K nid s (handed_out K nid s t i) i"
proof -
  note H = handed_out_facts [OF wf sc ci]
  have "r < length (g_resource_storage s)" if "objs K s w = Some (OResource r)" for w r
    using res_wfD(2) [OF cluster_wfD(2) [OF wf] that] by blast
  then show ?thesis
    using H(6) scanned_simps(7) [OF sc] by (auto simp: owns_job_def H(1) split: if_splits)
qed

text \<open>
  C1: A request for work is answered with the best job the node may run, and with \<open>none\<close>
  only if there is no such job.  Best means: a job that is ready to run comes before one
  that waits for a mutex, among those the greatest effective priority wins, and of equal
  ones the lowest slot.  The job returned is marked as dispatched and assigned to the
  asking node; if it names or describes a resource, that resource was free and is now
  reserved by the job; no other job changes its dispatch mark or its resource.
\<close>

theorem get_next_job_hands_out_best:
  assumes "kernel_laws K" and "cluster_wf K s"
  shows "\<exists>c. chosen_slot K (ws ! 0) s c
    \<and> (case c of
         None \<Rightarrow> snd (handle_get_next_job K s ws cap) = reply cap [0, 0, 0, 0, 0]
       | Some i \<Rightarrow>
           snd (handle_get_next_job K s ws cap) = reply cap [1, js_handle (g_jobs s ! i),
             ucast (jb_type (job_at s i)), arg0 (job_at s i), arg1 (job_at s i)]
           \<and> owns_job K (ws ! 0) s (fst (handle_get_next_job K s ws cap)) i)"
  using assms
proof (cases rule: pick_next_spec [where nid = "ws ! 0"])
  case (none t)
  then show ?thesis by (intro exI [of _ None]) (simp add: handle_get_next_job_def)
next
  case (some t i)
  note H = handed_out_facts [OF assms(2) some(1,2)] and cd = chosen_candidate [OF some(2)]
  have len: "i < length (g_jobs s)" using cd(1) cluster_wfD(1) [OF assms(2)] by (simp add: sizes_wf_def)
  have "js_handle (g_jobs s ! i) \<noteq> 0"
    by (rule job_handle_nonzero [OF assms len candidate_used [OF cd(2)]])
  then show ?thesis
    using some handed_out_owns [OF assms some(1,2)] scanned_simps(7) [OF some(1), of i]
    by (intro exI [of _ "Some i"]) (simp add: handle_get_next_job_def H)
qed

theorem get_next_job_hands_out_best_witness:
  "(\<exists>c. chosen_slot DK 1 demo_jobs c
    \<and> (case c of
         None \<Rightarrow> snd (handle_get_next_job DK demo_jobs [1] 128) = reply 128 [0, 0, 0, 0, 0]
       | Some i \<Rightarrow>
           snd (handle_get_next_job DK demo_jobs [1] 128) = reply 128 [1, js_handle (g_jobs demo_jobs ! i),
             ucast (jb_type (job_at demo_jobs i)), arg0 (job_at demo_jobs i), arg1 (job_at demo_jobs i)]
           \<and> owns_job DK 1 demo_jobs (fst (handle_get_next_job DK demo_jobs [1] 128)) i))
   \<and> snd (handle_get_next_job DK demo_jobs [1] 128) = reply 128 [1, 21, 1, 5, 6]
   \<and> snd (handle_get_next_job DK demo_jobs [2] 128) = reply 128 [1, 20, 0, 1, 2]"
  by (intro conjI get_next_job_hands_out_best [OF demo_kernel_laws demo_jobs_wf, of "[1]" 128, unfolded nth_Cons_0])
    code_simp+

subsection \<open>Jobs in the hands of a node\<close>

text \<open>
  Handle \<open>h\<close> has been given out by the kernel, and a job that carries it is in the
  hands of a node.  The first half keeps a later job from getting the same handle.
\<close>

definition held :: "('k, 'z) platform_scheme \<Rightarrow> u64 \<Rightarrow> 'k cluster \<Rightarrow> bool" where
  "held K h s \<longleftrightarrow> k_issued K (kst s) h
     \<and> (\<forall>i < length (g_jobs s). js_used (g_jobs s ! i) \<and> js_handle (g_jobs s ! i) = h \<longrightarrow> dispatched (job_at s i))"

lemma held_same:
  assumes "held K h s" "k_issued K (kst s') h" "g_jobs s' = g_jobs s"
  shows "held K h s'"
  using assms by (simp add: held_def job_at_def)

lemma issued_create:
  assumes "kernel_laws K" "k_issued K k h"
  shows "k_issued K (fst (k_create K k ob)) h"
proof -
  obtain k' h' where c: "k_create K k ob = (k', h')" by fastforce
  then show ?thesis
    using assms(2) create_fresh(3) [OF assms(1) c] create_failed(2) [OF assms(1), of k ob k']
    by (cases "h' = 0") simp_all
qed

lemma held_create_resource:
  assumes "kernel_laws K" "held K h s"
  shows "held K h (fst (create_resource_object K s own knd des cap syn rb))"
  using assms(2) issued_create [OF assms(1), of "kst s" h "OResource (g_resource_storage_next s)"]
  by (auto simp: held_def job_at_def create_resource_object_def Let_def split_beta split: option.split)

lemma held_create_node:
  assumes "kernel_laws K" "held K h s"
  shows "held K h (fst (create_node_object K s nid arc sig))"
  using assms(2) issued_create [OF assms(1), of "kst s" h "ONode (g_node_storage_next s)"]
  by (auto simp: held_def job_at_def create_node_object_def Let_def split_beta split: option.split)

lemma held_set_slot:
  assumes s: "held K h s" and k: "k_issued K k h"
    and x: "js_used x \<Longrightarrow> js_handle x = h \<Longrightarrow> dispatched (js_data x)"
  shows "held K h (s\<lparr>kst := k, g_jobs := (g_jobs s)[i := x]\<rparr>)"
proof -
  have "js_used ((g_jobs s)[i := x] ! j) \<and> js_handle ((g_jobs s)[i := x] ! j) = h \<longrightarrow>
      dispatched (js_data ((g_jobs s)[i := x] ! j))" if "j < length (g_jobs s)" for j
    using s x that by (cases "i = j") (auto simp: held_def job_at_def)
  then show ?thesis using k by (simp add: held_def job_at_def)
qed

lemma held_create_job:
  assumes L: "kernel_laws K" and s: "held K h s"
  shows "held K h (fst (create_job_object K s ty a b p aff ri rk rc))"
proof (cases "first_slot (\<lambda>j. \<not> js_used j) (g_jobs s)")
  case (Some i)
  obtain k' h' where c: "k_create K (kst s) (OJob i) = (k', h')" by fastforce
  have "h' \<noteq> 0 \<Longrightarrow> h' \<noteq> h" using create_fresh(1) [OF L c] s by (auto simp: held_def)
  moreover have "k_issued K k' h" using issued_create [OF L, of "kst s" h "OJob i"] s c by (simp add: held_def)
  ultimately show ?thesis
    using Some c by (auto simp: create_job_object_def Let_def intro!: held_set_slot [OF s])
qed (simp add: create_job_object_def s)

lemma held_destroy_job:
  assumes L: "kernel_laws K" and s: "held K h s"
  shows "held K h (destroy_job_object K s x)"
proof (cases "first_slot (\<lambda>j. js_used j \<and> js_handle j = x) (g_jobs s)")
  case (Some i)
  have "k_issued K (k_destroy K (kst s) x) h" using s destroy_object(2) [OF L] by (simp add: held_def)
  from held_set_slot [OF s this, of "(g_jobs s ! i)\<lparr>js_used := False\<rparr>" i]
  show ?thesis using Some by (simp add: destroy_job_object_def held_def job_at_def)
qed (simp add: destroy_job_object_def s)

lemma held_job_update:
  assumes "held K h s" "\<And>j. js_handle (g_jobs s ! i) = h \<Longrightarrow> dispatched j \<Longrightarrow> dispatched (f j)"
  shows "held K h (job_update i f s)"
proof (cases "i < length (g_jobs s)")
  case True
  then show ?thesis using assms by (auto simp: held_def job_at_update)
next
  case False
  then have "g_jobs (job_update i f s) = g_jobs s" by (simp add: job_update_def list_update_beyond)
  moreover have "k_issued K (kst (job_update i f s)) h" using assms(1) by (simp add: held_def)
  ultimately show ?thesis by (intro held_same [OF assms(1)])
qed

interpretation held: scheduler_invariant K "\<lambda>s. kernel_laws K \<and> cluster_wf K s \<and> held K h s" "\<lambda>x. x \<noteq> h" for K h
proof (unfold_locales, goal_cases)
  case (3 s s')
  then have "kst s' = kst s" "g_jobs s' = g_jobs s" by (simp_all add: call_frame_simps)
  then show ?case using 3 by (auto intro: cluster_wf_frame simp: held_def job_at_def)
next
  case (4 s al) then show ?case by (auto intro: wf_allocs simp: held_def job_at_def)
next
  case (5 s f i) then show ?case by (blast intro: wf_job_update held_job_update)
next
  case (6 s i) then show ?case by (blast intro: wf_job_update held_job_update)
next
  case (7 s x v)
  have "held K h (completion_record s x v) = held K h s"
    by (simp add: held_def job_at_def completion_record_def Let_def)
  then show ?case using 7 wf_completion_record by blast
next
  case 8 then show ?case by (blast intro: wf_create_resource held_create_resource)
next
  case 9 then show ?case by (blast intro: wf_create_node held_create_node)
next
  case 10 then show ?case by (blast intro: wf_create_job held_create_job)
next
  case (11 s nid) then show ?case
    using wf_node_destroy [of K s nid] destroy_object(2) [of K]
    by (auto simp: node_destroy_def held_def job_at_def split: option.split)
next
  case 12 then show ?case by (blast intro: wf_destroy_job held_destroy_job)
next
  case (13 s x j)
  then show ?case using wf_destroy_resource [of K s x j] destroy_object(2) [of K]
    by (auto simp: forget_resource_def held_def job_at_def split: option.split)
next
  case (14 s i)
  then show ?case using wf_drop_resource [of K s i] destroy_object(2) [of K]
    by (auto simp: held_def job_at_def)
qed blast+

text \<open>A sequence of calls.\<close>

fun cs_run :: "('k, 'z) platform_scheme \<Rightarrow> 'k cluster \<Rightarrow> (u32 \<times> bytes \<times> nat) list \<Rightarrow> 'k cluster" where
  "cs_run K s [] = s"
| "cs_run K s ((m, msg, cap) # cs) = cs_run K (fst (cluster_scheduler_handler K s m msg cap)) cs"

definition no_report :: "u64 \<Rightarrow> u32 \<times> bytes \<times> nat \<Rightarrow> bool" where
  "no_report h c \<longleftrightarrow> (case c of (m, msg, cap) \<Rightarrow>
     call_in_range m msg \<and> (m = 7 \<longrightarrow> capnp_read_flat msg ! 0 \<noteq> h))"

lemma held_run:
  assumes "kernel_laws K" "cluster_wf K s" "held K h s" "list_all (no_report h) cs"
  shows "cluster_wf K (cs_run K s cs) \<and> held K h (cs_run K s cs)"
  using assms
proof (induction K s cs rule: cs_run.induct)
  case (2 K s m msg cap cs)
  then have "kernel_laws K \<and> cluster_wf K (fst (cluster_scheduler_handler K s m msg cap))
      \<and> held K h (fst (cluster_scheduler_handler K s m msg cap))"
    by (intro held.handler) (auto simp: no_report_def)
  then show ?case using 2 by simp
qed simp

lemma reply_inj:
  assumes "reply cap ws = reply cap vs" "length ws = length vs" "16 + 8 * length vs \<le> cap" "length vs < 65536"
  shows "ws = vs"
proof -
  have r: "capnp_read_flat (reply cap xs) = xs" if "length xs = length vs" for xs
    using assms(3,4) that by (simp add: capnp_read_build_flat unsigned_of_nat take_bit_nat_eq_self)
  have "ws = capnp_read_flat (reply cap ws)" by (rule r [OF assms(2), symmetric])
  also have "\<dots> = capnp_read_flat (reply cap vs)" by (rule arg_cong [OF assms(1)])
  also have "\<dots> = vs" by (rule r [OF refl])
  finally show ?thesis .
qed

lemma held_not_returned:
  assumes L: "kernel_laws K" and wf: "cluster_wf K s" and h: "held K h s" and cap: "56 \<le> cap"
  shows "snd (handle_get_next_job K s ws cap) \<noteq> reply cap [1, h, ty, a, b]"
proof
  assume e: "snd (handle_get_next_job K s ws cap) = reply cap [1, h, ty, a, b]"
  from L wf show False
  proof (cases rule: pick_next_spec [where nid = "ws ! 0"])
    case (none t)
    then have "reply cap [0, 0, 0, 0, 0] = reply cap [1, h, ty, a, b]"
      using e by (simp add: handle_get_next_job_def)
    from reply_inj [OF this] cap show False by simp
  next
    case (some t i)
    note H = handed_out_facts [OF wf some(1,2)] and cd = chosen_candidate [OF some(2)]
    have len: "i < length (g_jobs s)" using cd(1) cluster_wfD(1) [OF wf] by (simp add: sizes_wf_def)
    have nz: "js_handle (g_jobs s ! i) \<noteq> 0"
      by (rule job_handle_nonzero [OF L wf len candidate_used [OF cd(2)]])
    let ?j = "job_at (handed_out K (ws ! 0) s t i) i"
    have "reply cap [1, js_handle (g_jobs s ! i), ucast (jb_type ?j), arg0 ?j, arg1 ?j] = reply cap [1, h, ty, a, b]"
      using e nz unfolding handle_get_next_job_def some(3) prod.case option.case H(2) by (simp only: if_True snd_conv simp_thms)
    from reply_inj [OF this] cap have "js_handle (g_jobs s ! i) = h" by simp
    then show False using h len cd(2) by (auto simp: held_def candidate_def)
  qed
qed

lemma handler_get_next:
  "cluster_scheduler_handler K s 6 msg cap = handle_get_next_job K s (capnp_read_flat msg) cap"
  by (simp add: cluster_scheduler_handler_def)

lemma dispatched_held:
  assumes L: "kernel_laws K" and wf: "cluster_wf K s" and i: "i < JOB_POOL_SIZE" "js_used (g_jobs s ! i)"
    and d: "dispatched (job_at s i)"
  shows "held K (js_handle (g_jobs s ! i)) s"
  unfolding held_def
proof (intro conjI allI impI)
  let ?h = "js_handle (g_jobs s ! i)"
  have len: "i < length (g_jobs s)" using cluster_wfD(1) [OF wf] i by (simp add: sizes_wf_def)
  note ob = job_handle_nonzero(2) [OF L wf len i(2)]
  show "k_issued K (kst s) ?h" by (rule live_handle(1) [OF L ob])
  fix j assume "j < length (g_jobs s)" "js_used (g_jobs s ! j) \<and> js_handle (g_jobs s ! j) = ?h"
  then have "objs K s ?h = Some (OJob j)" using job_handle_nonzero(2) [OF L wf, of j] by metis
  then have "j = i" using ob by simp
  then show "dispatched (job_at s j)" using d by simp
qed

lemma held_never_returned:
  assumes "kernel_laws K" "cluster_wf K s" "held K h s" "list_all (no_report h) cs" "56 \<le> cap"
  shows "snd (cluster_scheduler_handler K (cs_run K s cs) 6 msg cap) \<noteq> reply cap [1, h, ty, a, b]"
  using held_run [OF assms(1-4)] held_not_returned [OF assms(1) _ _ assms(5)]
  unfolding handler_get_next by blast

text \<open>
  C2: Between the answer that hands a job to a node and the report about that job, no
  other request for work is answered with it, whatever calls are made in between and
  from wherever: not while the job is queued, and not after it has been cancelled,
  since its handle is not given to another job.
\<close>

theorem dispatched_job_not_handed_out_again:
  assumes "kernel_laws K" and "cluster_wf K s"
    and "i < JOB_POOL_SIZE" and "js_used (g_jobs s ! i)" and "dispatched (job_at s i)"
    and "list_all (no_report (js_handle (g_jobs s ! i))) cs" and "56 \<le> cap"
  shows "snd (cluster_scheduler_handler K (cs_run K s cs) 6 msg cap)
    \<noteq> reply cap [1, js_handle (g_jobs s ! i), ty, a, b]"
  by (rule held_never_returned [OF assms(1,2) dispatched_held [OF assms(1-5)] assms(6,7)])

definition demo_busy :: "demo cluster" where
  "demo_busy = fst (handle_get_next_job DK demo_jobs [1] 128)"

lemma demo_busy_wf: "cluster_wf DK demo_busy"
  unfolding demo_busy_def using wfi.get_next [of DK demo_jobs "[1]" 128] demo_kernel_laws demo_jobs_wf by blast

lemma demo_busy_job: "js_used (g_jobs demo_busy ! 1) \<and> js_handle (g_jobs demo_busy ! 1) = 21 \<and> dispatched (job_at demo_busy 1)"
proof -
  have "let s = demo_busy in js_used (g_jobs s ! 1) \<and> js_handle (g_jobs s ! 1) = 21 \<and> dispatched (job_at s 1)" by code_simp
  then show ?thesis by (simp only: Let_def)
qed

theorem dispatched_job_not_handed_out_again_witness:
  "js_handle (g_jobs demo_busy ! 1) = 21
   \<and> snd (cluster_scheduler_handler DK (cs_run DK demo_busy [(6, flat_msg [1], 128), (1, flat_msg [2], 0)])
        6 (flat_msg [1]) 128) \<noteq> reply 128 [1, 21, 1, 5, 6]"
proof -
  have "list_all (no_report 21) [(6, flat_msg [1], 128), (1, flat_msg [2], 0)]"
    by (simp add: no_report_def call_in_range_def)
  with demo_busy_job
    dispatched_job_not_handed_out_again [OF demo_kernel_laws demo_busy_wf, of 1
      "[(6, flat_msg [1], 128), (1, flat_msg [2], 0)]" 128 "flat_msg [1]" 1 5 6]
  show ?thesis by (simp only: JOB_POOL_SIZE_def) simp
qed

end
