(* ===== verification/Slice_Props.thy ===== *)
theory Slice_Props
  imports Dispatch_Props
begin

text \<open>
  Memory slices: what a job gets from an allocation, who may release a slice, and how
  the two fit together with the ledger of the memory manager.
\<close>

subsection \<open>The memory manager behind the scheduler\<close>

lemma read_reply [simp]:
  "32 \<le> c \<Longrightarrow> capnp_read_flat (capnp_build_flat c [v, w] 2) = [v, w]"
  "32 \<le> c \<Longrightarrow> length (capnp_build_flat c [v, w] 2) = 32"
  "24 \<le> c \<Longrightarrow> length (capnp_build_flat c [w] 1) = 24"
  by (simp_all add: capnp_read_build_flat length_capnp_build_flat)

lemma mm_call:
  assumes L: "kernel_laws K" and wf: "cluster_wf K s"
    and rq: "request_words OMemoryManager m = Some (length ws)"
    and h: "memory_manager_handler (p_arch K) (mm_ledger s) m (flat_msg ws) cap = (g, resp)"
    and rs: "k_result_ok K OMemoryManager m resp"
  shows "kernel_invoke K s (g_memory_manager s) m (flat_msg ws) cap = (s\<lparr>mm_ledger := g\<rparr>, Some resp)"
  using request_ok [OF L rq] cluster_wfD(6) [OF wf] rs
  by (simp add: kernel_invoke_def run_handler_def h)

lemma mm_alloc_call:
  assumes L: "kernel_laws K" and wf: "cluster_wf K s"
  shows "kernel_invoke K s (g_memory_manager s) MEM_METHOD_ALLOC (reply 40 [sz, k]) 40 =
    (s\<lparr>mm_ledger := fst (alloc_locked (p_arch K) (mm_ledger s) sz k)\<rparr>,
     Some (case snd (alloc_locked (p_arch K) (mm_ledger s) sz k) of
             Some b \<Rightarrow> reply 40 [1, b] | None \<Rightarrow> reply 40 [0, 0]))"
proof -
  have e: "reply 40 [x, y] = flat_msg [x, y]" for x y :: u64 by (rule build_flat_enough) simp_all
  have rs: "k_result_ok K OMemoryManager MEM_METHOD_ALLOC (reply 40 [x, y])" for x y
    unfolding e by (rule result_ok(1) [OF L]) (simp add: result_words_def method_ids)
  show ?thesis
    unfolding e [of sz k]
    by (rule mm_call [OF L wf]) (use rs in \<open>auto simp: handler_alloc split: option.split\<close>)
qed

lemma mm_free_call:
  assumes L: "kernel_laws K" and wf: "cluster_wf K s"
  shows "kernel_invoke K s (g_memory_manager s) MEM_METHOD_FREE (reply 24 [b]) 24 =
    (s\<lparr>mm_ledger := fst (free_locked (mm_ledger s) b)\<rparr>,
     Some (reply 24 [if snd (free_locked (mm_ledger s) b) then 1 else 0]))"
proof -
  have e: "reply 24 [x] = flat_msg [x]" for x :: u64 by (rule build_flat_enough) simp_all
  have rs: "k_result_ok K OMemoryManager MEM_METHOD_FREE (reply 24 [x])" for x
    unfolding e by (rule result_ok(1) [OF L]) (simp add: result_words_def method_ids)
  show ?thesis
    unfolding e [of b]
    by (rule mm_call [OF L wf]) (use rs in \<open>auto simp: handler_free\<close>)
qed

subsection \<open>Allocating a slice\<close>

lemma allocate_slice_spec:
  assumes L: "kernel_laws K" and wf: "cluster_wf K s"
  shows "handle_allocate_slice K s ws cap =
    (case alloc_locked (p_arch K) (mm_ledger s) (ws ! 2) (ws ! 3) of
       (g, None) \<Rightarrow> (s\<lparr>mm_ledger := g\<rparr>, reply cap [0, 0, 0])
     | (g, Some b) \<Rightarrow>
         (case create_resource_object K (s\<lparr>mm_ledger := g\<rparr>) (ws ! 0) RESOURCE_KIND_MEMORY b (ws ! 2) (ws ! 4) (ws ! 1) of
            (s', h) \<Rightarrow> (s', reply cap [1, h, b])))"
proof (cases "alloc_locked (p_arch K) (mm_ledger s) (ws ! 2) (ws ! 3)")
  case (Pair g r)
  note c = mm_alloc_call [OF L wf, of "ws ! 2" "ws ! 3", unfolded Pair fst_conv snd_conv]
  show ?thesis
    unfolding handle_allocate_slice_def Let_def c
    by (cases r) (simp_all add: Pair)
qed

lemma create_resource_new:
  assumes L: "kernel_laws K" and wf: "cluster_wf K s"
    and c: "create_resource_object K s own knd des cap syn rb = (s', h)" and h: "h \<noteq> 0"
  shows "objs K s h = None"
    "\<exists>k. objs K s' h = Some (OResource k) \<and> g_resource_storage s' ! k =
       \<lparr>owner_node = own, kind = knd, descriptor = des, capacity = cap, reserved_by = rb, sync_kind = syn\<rparr>"
proof -
  let ?n = "g_resource_storage_next s"
  obtain k' h' where kc: "k_create K (kst s) (OResource ?n) = (k', h')" by fastforce
  have n: "?n < RESOURCE_POOL_SIZE" and e: "h' = h" and s': "kst s' = k'"
    "g_resource_storage s' = (g_resource_storage s)[?n :=
       \<lparr>owner_node = own, kind = knd, descriptor = des, capacity = cap, reserved_by = rb, sync_kind = syn\<rparr>]"
    using c h kc by (auto simp: create_resource_object_def Let_def split: if_splits option.splits)
  have "length (g_resource_storage s) = RESOURCE_POOL_SIZE" using cluster_wfD(1) [OF wf] by (simp add: sizes_wf_def)
  moreover note create_fresh(2) [OF L kc] fresh_handle [OF L kc]
  ultimately show "objs K s h = None" "\<exists>k. objs K s' h = Some (OResource k) \<and> g_resource_storage s' ! k =
       \<lparr>owner_node = own, kind = knd, descriptor = des, capacity = cap, reserved_by = rb, sync_kind = syn\<rparr>"
    using n e s' h by auto
qed

lemma create_resource_ledger [simp]:
  "mm_ledger (fst (create_resource_object K s own knd des cap syn rb)) = mm_ledger s"
  by (simp add: create_resource_object_def Let_def split_beta split: option.split)

text \<open>
  Allocating a slice either gives the job memory nobody else has, or changes nothing.
  On success the range lies in the allocatable window, shares no address with any claim
  that is live at the time, and is recorded as live; the resource that stands for it is
  new and is reserved for the asking job from the start.  It fails only if the ledger is
  full or the range fits nowhere.
\<close>

theorem allocate_slice_is_private:
  assumes "kernel_laws K" and "cluster_wf K s"
  shows "(\<exists>b h. snd (handle_allocate_slice K s ws cap) = reply cap [1, h, b]
      \<and> ALLOC_MIN (p_arch K) \<le> b \<and> b \<le> b + ws ! 2 \<and> b + ws ! 2 \<le> ALLOC_MAX (p_arch K)
      \<and> list_all (\<lambda>r. {unat b..<unat b + unat (ws ! 2)} \<inter> {fst r..<fst r + snd r} = {}) (live_regions (mm_ledger s))
      \<and> live_regions (mm_ledger (fst (handle_allocate_slice K s ws cap)))
          = live_regions (mm_ledger s) @ [(unat b, unat (ws ! 2))]
      \<and> (h = 0 \<or> (objs K s h = None
           \<and> (\<exists>k. objs K (fst (handle_allocate_slice K s ws cap)) h = Some (OResource k)
                \<and> g_resource_storage (fst (handle_allocate_slice K s ws cap)) ! k =
                   \<lparr>owner_node = ws ! 0, kind = RESOURCE_KIND_MEMORY, descriptor = b, capacity = ws ! 2,
                    reserved_by = ws ! 1, sync_kind = ws ! 4\<rparr>))))
    \<or> (handle_allocate_slice K s ws cap = (s, reply cap [0, 0, 0])
      \<and> (MAX_CLAIMS \<le> length (mm_ledger s) \<or> (\<nexists>b. fits (p_arch K) (mm_ledger s) (ws ! 2) b)))"
proof (cases "alloc_locked (p_arch K) (mm_ledger s) (ws ! 2) (ws ! 3)")
  case (Pair g r)
  note sp = allocate_slice_spec [OF assms, of ws cap, unfolded Pair prod.case]
  note ac = alloc_locked_cases [OF Pair]
  show ?thesis
  proof (cases r)
    case None
    then have "g = s_ledger \<Longrightarrow> s\<lparr>mm_ledger := g\<rparr> = s" if "s_ledger = mm_ledger s" for s_ledger
      using that by simp
    then show ?thesis using sp ac None by auto
  next
    case (Some b)
    obtain s' h where c: "create_resource_object K (s\<lparr>mm_ledger := g\<rparr>) (ws ! 0) RESOURCE_KIND_MEMORY b
        (ws ! 2) (ws ! 4) (ws ! 1) = (s', h)" by fastforce
    have wf': "cluster_wf K (s\<lparr>mm_ledger := g\<rparr>)"
      using assms(2) mm.alloc_inv [OF cluster_wfD(7) [OF assms(2)], of "p_arch K" "ws ! 2" "ws ! 3"] Pair
      by (simp add: cluster_wf_def sizes_wf_def)
    note new = create_resource_new [OF assms(1) wf' c]
    have g: "mm_ledger s' = g" using create_resource_ledger [of K "s\<lparr>mm_ledger := g\<rparr>"] c
      by (metis cluster.select_convs(2) cluster.surjective cluster.update_convs(2) fst_conv)
    have "list_all (\<lambda>r. {unat b..<unat b + unat (ws ! 2)} \<inter> {fst r..<fst r + snd r} = {}) (live_regions (mm_ledger s))"
      unfolding list_all_iff
      using mm.alloc_fresh [OF cluster_wfD(7) [OF assms(2)] Pair [unfolded Some]] by blast
    then show ?thesis
      using sp ac Some c new g mm.alloc_live [OF Pair [unfolded Some]] by (auto simp: fits_def)
  qed
qed

definition demo_slice_words :: "u64 list" where
  "demo_slice_words = [1, 20, 0x10000, 3, 0]"

theorem allocate_slice_is_private_witness:
  "(\<exists>b h. snd (handle_allocate_slice DK demo_jobs demo_slice_words 128) = reply 128 [1, h, b]
      \<and> ALLOC_MIN (p_arch DK) \<le> b \<and> b \<le> b + demo_slice_words ! 2
      \<and> b + demo_slice_words ! 2 \<le> ALLOC_MAX (p_arch DK)
      \<and> list_all (\<lambda>r. {unat b..<unat b + unat (demo_slice_words ! 2)} \<inter> {fst r..<fst r + snd r} = {})
          (live_regions (mm_ledger demo_jobs))
      \<and> live_regions (mm_ledger (fst (handle_allocate_slice DK demo_jobs demo_slice_words 128)))
          = live_regions (mm_ledger demo_jobs) @ [(unat b, unat (demo_slice_words ! 2))]
      \<and> (h = 0 \<or> (objs DK demo_jobs h = None
           \<and> (\<exists>k. objs DK (fst (handle_allocate_slice DK demo_jobs demo_slice_words 128)) h = Some (OResource k)
                \<and> g_resource_storage (fst (handle_allocate_slice DK demo_jobs demo_slice_words 128)) ! k =
                   \<lparr>owner_node = demo_slice_words ! 0, kind = RESOURCE_KIND_MEMORY, descriptor = b,
                    capacity = demo_slice_words ! 2, reserved_by = demo_slice_words ! 1,
                    sync_kind = demo_slice_words ! 4\<rparr>))))
   \<and> snd (handle_allocate_slice DK demo_jobs demo_slice_words 128) = reply 128 [1, 22, 0x1C00000]"
proof -
  have e: "snd (handle_allocate_slice DK demo_jobs demo_slice_words 128) = reply 128 [1, 22, 0x1C00000]"
    by code_simp
  have n: "reply 128 [1, 22, 0x1C00000] \<noteq> reply 128 [0, 0, 0]" by code_simp
  from allocate_slice_is_private [OF demo_kernel_laws demo_jobs_wf, of demo_slice_words 128]
  show ?thesis
  proof (rule disjE)
    assume "handle_allocate_slice DK demo_jobs demo_slice_words 128 = (demo_jobs, reply 128 [0, 0, 0]) \<and>
      (MAX_CLAIMS \<le> length (mm_ledger demo_jobs)
        \<or> (\<nexists>b. fits (p_arch DK) (mm_ledger demo_jobs) (demo_slice_words ! 2) b))"
    then have "snd (handle_allocate_slice DK demo_jobs demo_slice_words 128) = reply 128 [0, 0, 0]"
      by (simp only: snd_conv)
    from notE [OF n trans [OF e [symmetric] this]] show ?thesis .
  qed (rule conjI [OF _ e])
qed

subsection \<open>Releasing a slice\<close>

text \<open>Who may release: the resource is memory reserved by the caller and the ledger knows its base.\<close>

definition releasable :: "('k, 'z) platform_scheme \<Rightarrow> 'k cluster \<Rightarrow> u64 \<Rightarrow> u64 \<Rightarrow> nat \<Rightarrow> bool" where
  "releasable K s h job k \<longleftrightarrow> objs K s h = Some (OResource k)
     \<and> kind (g_resource_storage s ! k) = RESOURCE_KIND_MEMORY
     \<and> reserved_by (g_resource_storage s ! k) = job
     \<and> snd (free_locked (mm_ledger s) (descriptor (g_resource_storage s ! k)))"

lemma release_slice_spec:
  assumes L: "kernel_laws K" and wf: "cluster_wf K s"
  shows "handle_release_slice K s ws cap =
    (case objs K s (ws ! 0) of
       Some (OResource k) \<Rightarrow>
         (if releasable K s (ws ! 0) (ws ! 1) k
          then (forget_resource (s\<lparr>mm_ledger := fst (free_locked (mm_ledger s) (descriptor (g_resource_storage s ! k))),
                  kst := k_destroy K (kst s) (ws ! 0)\<rparr>) (ws ! 0), reply cap [1])
          else (s, reply cap [0]))
     | _ \<Rightarrow> (fst (resource_get_info K s (ws ! 0)), reply cap [0]))"
proof (cases "\<exists>k. objs K s (ws ! 0) = Some (OResource k)")
  case True
  then obtain k where ob: "objs K s (ws ! 0) = Some (OResource k)" by blast
  let ?d = "descriptor (g_resource_storage s ! k)"
  have same: "s\<lparr>mm_ledger := fst (free_locked (mm_ledger s) ?d)\<rparr> = s" if "\<not> snd (free_locked (mm_ledger s) ?d)"
    using that mm.free_refused [of "mm_ledger s" ?d "fst (free_locked (mm_ledger s) ?d)"] by (simp add: prod_eq_iff)
  show ?thesis
    using same unfolding handle_release_slice_def Let_def get_info_resource [OF L ob] prod.case option.case
      mm_free_call [OF L wf]
    by (simp add: ob releasable_def)
next
  case False
  then have "snd (resource_get_info K s (ws ! 0)) = None" by (rule get_info_none [OF L])
  then obtain t where "resource_get_info K s (ws ! 0) = (t, None)" by (cases "resource_get_info K s (ws ! 0)") simp
  then show ?thesis using False by (auto simp: handle_release_slice_def split: option.split obj.split)
qed

lemma forget_resource_simps [simp]:
  "kst (forget_resource s h) = kst s" "mm_ledger (forget_resource s h) = mm_ledger s"
  "g_resource_storage (forget_resource s h) = g_resource_storage s" "g_jobs (forget_resource s h) = g_jobs s"
  by (simp_all add: forget_resource_def split: option.split)


definition demo_slice :: "demo cluster" where
  "demo_slice = fst (handle_allocate_slice DK demo_jobs demo_slice_words 128)"

lemma demo_slice_wf: "cluster_wf DK demo_slice"
  unfolding demo_slice_def using wfi.allocate_slice demo_kernel_laws demo_jobs_wf by blast


text \<open>
  Releasing a slice undoes its allocation.  If no live claim is empty and a non-empty
  slice was allocated for a job, the same job can release it, and the live regions of the
  ledger are then those from before the allocation.
\<close>

theorem release_undoes_allocate:
  assumes "kernel_laws K" and "cluster_wf K s" and "handle_allocate_slice K s [node, job, sz, knd, sync] cap = (s', reply cap [1, h, b])"
    and "40 \<le> cap" and "h \<noteq> 0" and "0 < sz" and "list_all (\<lambda>c. cl_used c \<longrightarrow> cl_size c \<noteq> 0) (mm_ledger s)"
  shows "snd (handle_release_slice K s' [h, job] cap') = reply cap' [1]
    \<and> live_regions (mm_ledger (fst (handle_release_slice K s' [h, job] cap'))) = live_regions (mm_ledger s)"
proof -
  obtain g r where al: "alloc_locked (p_arch K) (mm_ledger s) sz knd = (g, r)" by fastforce
  note sp = allocate_slice_spec [OF assms(1,2), of "[node, job, sz, knd, sync]" cap]
  have wf': "cluster_wf K s'" using wfi.allocate_slice assms(1-3) by (metis fst_conv)
  have e: "(case r of None \<Rightarrow> (s\<lparr>mm_ledger := g\<rparr>, reply cap [0, 0, 0])
     | Some b' \<Rightarrow> (case create_resource_object K (s\<lparr>mm_ledger := g\<rparr>) node RESOURCE_KIND_MEMORY b' sz sync job of
            (s2, h') \<Rightarrow> (s2, reply cap [1, h', b']))) = (s', reply cap [1, h, b])"
    using sp al assms(3) by (simp split: option.splits)
  obtain b' where r: "r = Some b'"
  proof (cases r)
    case None
    then have "reply cap [0, 0, 0] = reply cap [1, h, b]" using e by simp
    from reply_inj [OF this] assms(4) show thesis by simp
  qed
  obtain s2 h' where c: "create_resource_object K (s\<lparr>mm_ledger := g\<rparr>) node RESOURCE_KIND_MEMORY b' sz sync job = (s2, h')"
    by fastforce
  have "reply cap [1, h', b'] = reply cap [1, h, b]" using e unfolding r option.case c prod.case by (rule conjunct2 [OF iffD1 [OF prod.inject]])
  from reply_inj [OF this] assms(4) have eq: "h' = h" "b' = b" by simp_all
  have s2: "s2 = s'" using e unfolding r option.case c prod.case by (rule conjunct1 [OF iffD1 [OF prod.inject]])
  have wfg: "cluster_wf K (s\<lparr>mm_ledger := g\<rparr>)"
    using assms(2) mm.alloc_inv [OF cluster_wfD(7) [OF assms(2)], of "p_arch K" sz knd] al
    by (simp add: cluster_wf_def sizes_wf_def)
  obtain k where k: "objs K s' h = Some (OResource k)" "g_resource_storage s' ! k =
      \<lparr>owner_node = node, kind = RESOURCE_KIND_MEMORY, descriptor = b, capacity = sz, reserved_by = job, sync_kind = sync\<rparr>"
    using create_resource_new(2) [OF assms(1) wfg c] assms(5) unfolding eq s2 by blast
  have g: "mm_ledger s' = g" using create_resource_ledger [of K "s\<lparr>mm_ledger := g\<rparr>" node RESOURCE_KIND_MEMORY b' sz sync job]
    unfolding c s2 by simp
  obtain g' where f: "free_locked g b = (g', True)" "live_regions g' = live_regions (mm_ledger s)"
    using mm.alloc_free [OF cluster_wfD(7) [OF assms(2)] al [unfolded r eq]] assms(6,7)
    by (auto simp: list_all_iff word_less_nat_alt live_regions_def claim_region_def unat_gt_0)
  have "releasable K s' h job k" using k f g by (simp add: releasable_def)
  then show ?thesis using k f g by (simp add: release_slice_spec [OF assms(1) wf'])
qed

lemma demo_slice_reply: "snd (handle_allocate_slice DK demo_jobs demo_slice_words 128) = reply 128 [1, 22, 0x1C00000]"
  by code_simp

theorem release_undoes_allocate_witness:
  "snd (handle_release_slice DK demo_slice [22, 20] 24) = reply 24 [1]
   \<and> live_regions (mm_ledger (fst (handle_release_slice DK demo_slice [22, 20] 24))) = live_regions (mm_ledger demo_jobs)"
proof -
  have e: "handle_allocate_slice DK demo_jobs [1, 20, 0x10000, 3, 0] 128 = (demo_slice, reply 128 [1, 22, 0x1C00000])"
    using demo_slice_reply by (simp add: demo_slice_def demo_slice_words_def prod_eq_iff)
  have p: "list_all (\<lambda>c. cl_used c \<longrightarrow> cl_size c \<noteq> 0) (mm_ledger demo_jobs)" by code_simp
  show ?thesis
    by (rule release_undoes_allocate [OF demo_kernel_laws demo_jobs_wf e _ _ _ p]) simp_all
qed

text \<open>
  The pool resource can be released like a slice although nobody allocated it.  A call
  that names the pool and job 0 frees the claim at the bottom of the window, which is the
  slice of job 20; the next allocation gives the same addresses to job 21, while the slice
  of job 20 is still a live resource reserved by that job.
\<close>

theorem pool_release_frees_foreign_slice:
  "snd (handle_allocate_slice DK demo_jobs [1, 20, 0x10000, 3, 0] 128) = reply 128 [1, 22, 0x1C00000]
   \<and> snd (handle_release_slice DK demo_slice [16, 0] 128) = reply 128 [1]
   \<and> (case handle_allocate_slice DK (fst (handle_release_slice DK demo_slice [16, 0] 128))
            [2, 21, 0x10000, 3, 0] 128 of (s, resp) \<Rightarrow>
        resp = reply 128 [1, 23, 0x1C00000]
        \<and> objs DK s 22 = Some (OResource 2) \<and> objs DK s 23 = Some (OResource 3)
        \<and> g_resource_storage s ! 2 = \<lparr>owner_node = 1, kind = 0, descriptor = 0x1C00000, capacity = 0x10000,
             reserved_by = 20, sync_kind = 0\<rparr>
        \<and> g_resource_storage s ! 3 = \<lparr>owner_node = 2, kind = 0, descriptor = 0x1C00000, capacity = 0x10000,
             reserved_by = 21, sync_kind = 0\<rparr>)"
proof -
  have "let s = demo_jobs; a = handle_allocate_slice DK s [1, 20, 0x10000, 3, 0] 128;
      r = handle_release_slice DK demo_slice [16, 0] 128; b = handle_allocate_slice DK (fst r) [2, 21, 0x10000, 3, 0] 128
    in snd a = reply 128 [1, 22, 0x1C00000] \<and> snd r = reply 128 [1] \<and> snd b = reply 128 [1, 23, 0x1C00000]
     \<and> objs DK (fst b) 22 = Some (OResource 2) \<and> objs DK (fst b) 23 = Some (OResource 3)
     \<and> g_resource_storage (fst b) ! 2 = \<lparr>owner_node = 1, kind = 0, descriptor = 0x1C00000, capacity = 0x10000,
          reserved_by = 20, sync_kind = 0\<rparr>
     \<and> g_resource_storage (fst b) ! 3 = \<lparr>owner_node = 2, kind = 0, descriptor = 0x1C00000, capacity = 0x10000,
          reserved_by = 21, sync_kind = 0\<rparr>"
    by code_simp
  then show ?thesis by (simp only: Let_def case_prod_beta simp_thms)
qed

end
