(* ===== verification/Job_Props.thy ===== *)
theory Job_Props
  imports Slice_Props
begin

text \<open>
  The life of a job: submission, the report that ends it, how long its result can be
  fetched, and what becomes of it when its node leaves.
\<close>

subsection \<open>Retained results\<close>

text \<open>The ring of completions holds the last \<open>JOB_POOL_SIZE\<close> results in the order they came.\<close>

definition record_all :: "(u64 \<times> u64) list \<Rightarrow> 'k cluster \<Rightarrow> 'k cluster" where
  "record_all rs s = fold (\<lambda>(h, v) s. completion_record s h v) rs s"

lemma record_all_snoc: "record_all (rs @ [(h, v)]) s = completion_record (record_all rs s) h v"
  by (simp add: record_all_def)

lemma completion_record_simps:
  "g_completion_next (completion_record s h v) = Suc (g_completion_next s)"
  "g_completions (completion_record s h v) = (g_completions s)
     [g_completion_next s mod JOB_POOL_SIZE := \<lparr>cp_job_handle = h, cp_value = v, cp_used = True\<rparr>]"
  by (simp_all add: completion_record_def Let_def)

lemma record_all_next: "g_completion_next (record_all rs s) = g_completion_next s + length rs"
  by (induction rs rule: rev_induct) (auto simp: record_all_snoc completion_record_simps record_all_def)

lemma record_all_length: "length (g_completions (record_all rs s)) = length (g_completions s)"
  by (induction rs rule: rev_induct) (auto simp: record_all_snoc completion_record_simps record_all_def)

text \<open>Fewer than \<open>n\<close> steps around a ring of \<open>n\<close> slots do not come back to the start.\<close>

lemma ring_apart: "0 < i \<Longrightarrow> i < n \<Longrightarrow> (k + i) mod n \<noteq> k mod (n::nat)"
  by (metis add_diff_cancel_left' less_imp_le_nat mod_add_self2 mod_eq_dvd_iff_nat nat_dvd_not_less
      le_add1)

lemma record_all_keeps:
  assumes "length (g_completions s) = JOB_POOL_SIZE" "length rs < JOB_POOL_SIZE"
  shows "g_completions (record_all rs (completion_record s h v)) ! (g_completion_next s mod JOB_POOL_SIZE)
    = \<lparr>cp_job_handle = h, cp_value = v, cp_used = True\<rparr>"
  using assms(2)
proof (induction rs rule: rev_induct)
  case Nil
  then show ?case using assms(1)
    by (simp add: record_all_def completion_record_simps JOB_POOL_SIZE_def)
next
  case (snoc r rs)
  obtain h' v' where r: "r = (h', v')" by fastforce
  have "(g_completion_next s + Suc (length rs)) mod JOB_POOL_SIZE \<noteq> g_completion_next s mod JOB_POOL_SIZE"
    by (rule ring_apart) (use snoc.prems in simp_all)
  then show ?case using snoc
    by (simp add: r record_all_snoc completion_record_simps record_all_next)
qed

definition result_of :: "u64 \<Rightarrow> completion_t \<Rightarrow> bool" where
  "result_of h c \<longleftrightarrow> cp_used c \<and> cp_job_handle c = h"

lemma completion_find_alt:
  "completion_find s h = (case first_slot (result_of h) (g_completions s) of
     Some i \<Rightarrow> Some (cp_value (g_completions s ! i)) | None \<Rightarrow> None)"
  by (simp add: completion_find_def result_of_def [abs_def])

lemma completion_find_None: "completion_find s h = None \<longleftrightarrow> (\<forall>c \<in> set (g_completions s). \<not> result_of h c)"
proof -
  have "completion_find s h = None \<longleftrightarrow> first_slot (result_of h) (g_completions s) = None"
    by (auto simp: completion_find_alt split: option.splits)
  then show ?thesis by (simp only: first_slot_None)
qed

text \<open>Results of other jobs never match.\<close>

lemma record_all_others:
  assumes "\<And>j. j < length (g_completions s) \<Longrightarrow> j \<noteq> p \<Longrightarrow> \<not> result_of h (g_completions s ! j)"
    and "list_all (\<lambda>r. fst r \<noteq> h) rs" and "j < length (g_completions s)" and "j \<noteq> p"
  shows "\<not> result_of h (g_completions (record_all rs s) ! j)"
  using assms(2)
proof (induction rs rule: rev_induct)
  case Nil
  then show ?case using assms by (simp add: record_all_def)
next
  case (snoc r rs)
  obtain h' v' where r: "r = (h', v')" by fastforce
  show ?case
  proof (cases "j = (g_completion_next s + length rs) mod JOB_POOL_SIZE")
    case True
    then show ?thesis using snoc.prems assms(3)
      by (simp add: r record_all_snoc completion_record_simps record_all_next record_all_length result_of_def)
  qed (use snoc in \<open>simp add: r record_all_snoc completion_record_simps record_all_next\<close>)
qed

lemma record_all_none:
  assumes "completion_find s h = None" "list_all (\<lambda>r. fst r \<noteq> h) rs"
  shows "completion_find (record_all rs s) h = None"
proof -
  have "\<not> result_of h (g_completions (record_all rs s) ! j)" if "j < length (g_completions s)" for j
    by (rule record_all_others [where p = "length (g_completions s)"])
      (use assms that in \<open>auto simp: completion_find_None\<close>)
  then show ?thesis unfolding completion_find_None by (simp add: all_set_conv_all_nth record_all_length)
qed

lemma record_all_append: "record_all (rs @ rs') s = record_all rs' (record_all rs s)"
  by (simp add: record_all_def)

lemma result_find_recorded:
  assumes "length (g_completions s) = JOB_POOL_SIZE" and "completion_find s h = None"
  shows "completion_find (completion_record s h v) h = Some v"
proof -
  have "first_slot (result_of h) (g_completions (completion_record s h v)) = Some (g_completion_next s mod JOB_POOL_SIZE)"
    using assms unfolding completion_find_None
    by (intro first_slot_eq_SomeI) (auto simp: completion_record_simps result_of_def JOB_POOL_SIZE_def)
  then show ?thesis using assms(1) by (simp add: completion_find_alt completion_record_simps JOB_POOL_SIZE_def)
qed

text \<open>The record one full turn later overwrites the slot of the result.\<close>

lemma record_all_turn:
  assumes "length (g_completions s) = JOB_POOL_SIZE" "completion_find s h = None"
    and "list_all (\<lambda>r. fst r \<noteq> h) (rs @ [r])" and "Suc (length rs) = JOB_POOL_SIZE"
  shows "completion_find (record_all (rs @ [r]) (completion_record s h v)) h = None"
proof -
  let ?s = "completion_record s h v" and ?p = "g_completion_next s mod JOB_POOL_SIZE"
  obtain h' v' where r: "r = (h', v')" by fastforce
  have old: "\<not> result_of h (g_completions ?s ! j)" if "j < length (g_completions ?s)" "j \<noteq> ?p" for j
    using assms(2) that unfolding completion_find_None by (simp add: completion_record_simps)
  have slot: "(Suc (g_completion_next s) + length rs) mod JOB_POOL_SIZE = ?p"
    by (simp add: assms(4) [symmetric] flip: add_Suc_right)
  have "\<not> result_of h (g_completions (record_all (rs @ [r]) ?s) ! j)" if "j < JOB_POOL_SIZE" for j
  proof (cases "j = ?p")
    case True
    then show ?thesis using assms(1,3) slot that
      by (simp add: r record_all_snoc completion_record_simps record_all_next record_all_length result_of_def)
  next
    case False
    then show ?thesis
      using record_all_others [OF old assms(3)] that assms(1) by (simp add: completion_record_simps)
  qed
  then show ?thesis unfolding completion_find_None
    using assms(1) by (simp add: all_set_conv_all_nth record_all_length completion_record_simps)
qed

text \<open>
  C37: The result of a finished job can be fetched until as many other jobs have finished
  as the ring has slots, and not longer: it is found after fewer than 32 further
  completions and gone after 32.
\<close>

theorem result_retained_for_a_full_ring:
  assumes "length (g_completions s) = JOB_POOL_SIZE" and "completion_find s h = None"
    and "list_all (\<lambda>r. fst r \<noteq> h) rs"
  shows "completion_find (record_all rs (completion_record s h v)) h
    = (if length rs < JOB_POOL_SIZE then Some v else None)"
proof (cases "length rs < JOB_POOL_SIZE")
  case True
  let ?s = "completion_record s h v" and ?p = "g_completion_next s mod JOB_POOL_SIZE"
  have len: "length (g_completions (record_all rs ?s)) = JOB_POOL_SIZE"
    using assms(1) by (simp add: record_all_length completion_record_simps)
  have old: "\<not> result_of h (g_completions ?s ! j)" if "j < length (g_completions ?s)" "j \<noteq> ?p" for j
    using assms(2) that unfolding completion_find_None by (simp add: completion_record_simps)
  note kp = record_all_keeps [OF assms(1) True, of h v] and others = record_all_others [OF old assms(3)]
  have "first_slot (result_of h) (g_completions (record_all rs ?s)) = Some ?p"
    by (rule first_slot_eq_SomeI)
      (use kp others len assms(1) in \<open>auto simp: result_of_def completion_record_simps JOB_POOL_SIZE_def\<close>)
  then show ?thesis using True kp by (simp add: completion_find_alt)
next
  case False
  let ?n = "JOB_POOL_SIZE - 1"
  have n: "?n < length rs" "Suc (length (take ?n rs)) = JOB_POOL_SIZE" using False by (simp_all add: JOB_POOL_SIZE_def)
  have rs: "rs = (take ?n rs @ [rs ! ?n]) @ drop (Suc ?n) rs" using id_take_nth_drop [OF n(1)] by simp
  have "list_all (\<lambda>r. fst r \<noteq> h) (take ?n rs @ [rs ! ?n])" "list_all (\<lambda>r. fst r \<noteq> h) (drop (Suc ?n) rs)"
    using assms(3) by (subst (asm) rs, simp)+
  from record_all_none [OF record_all_turn [OF assms(1,2) this(1) n(2)] this(2)]
  have "completion_find (record_all rs (completion_record s h v)) h = None"
    unfolding record_all_append [symmetric] rs [symmetric] .
  then show ?thesis using False by simp
qed

theorem result_retained_for_a_full_ring_witness:
  "completion_find (record_all (replicate 31 (21, 7)) (completion_record demo_jobs 20 5)) 20 = Some 5
   \<and> completion_find (record_all (replicate 32 (21, 7)) (completion_record demo_jobs 20 5)) 20 = None"
proof -
  have l: "length (g_completions demo_jobs) = JOB_POOL_SIZE"
    using cluster_wfD(1) [OF demo_jobs_wf] by (simp add: sizes_wf_def)
  have n: "completion_find demo_jobs 20 = None" by code_simp
  have a: "list_all (\<lambda>r. fst r \<noteq> 20) (replicate k (21 :: u64, 7 :: u64))" for k :: nat by (simp add: list_all_iff)
  show ?thesis
    using result_retained_for_a_full_ring [OF l n a, of 31 5] result_retained_for_a_full_ring [OF l n a, of 32 5]
    by (simp only: JOB_POOL_SIZE_def length_replicate) simp
qed

subsection \<open>Reporting a job as finished\<close>

lemma destroy_job_simps [simp]:
  "g_completions (destroy_job_object K s h) = g_completions s"
  "g_resource_storage (destroy_job_object K s h) = g_resource_storage s"
  "g_completions (release_job_resource K s h b) = g_completions (fst (resource_release_reservation K s b h))"
  by (simp_all add: destroy_job_object_def release_job_resource_def split: option.split)

lemma completion_find_cong: "g_completions s' = g_completions s \<Longrightarrow> completion_find s' h = completion_find s h"
  by (simp add: completion_find_def split: option.split)

lemma job_lookup_slot:
  assumes L: "kernel_laws K" and wf: "cluster_wf K s" and i: "i < length (g_jobs s)" "js_used (g_jobs s ! i)"
  shows "job_data_for_handle_locked s (js_handle (g_jobs s ! i)) = Some i"
proof -
  let ?h = "js_handle (g_jobs s ! i)"
  note ob = job_handle_nonzero [OF L wf i]
  have "first_slot (\<lambda>j. js_used j \<and> js_handle j = ?h) (g_jobs s) = Some i"
  proof (rule first_slot_eq_SomeI)
    fix j assume j: "j < i"
    show "\<not> (js_used (g_jobs s ! j) \<and> js_handle (g_jobs s ! j) = ?h)"
    proof
      assume "js_used (g_jobs s ! j) \<and> js_handle (g_jobs s ! j) = ?h"
      then have "objs K s ?h = Some (OJob j)" using job_handle_nonzero(2) [OF L wf, of j] i j by simp
      then show False using ob j by simp
    qed
  qed (use i in auto)
  then show ?thesis using ob by (simp add: job_data_for_handle_locked_def)
qed

lemma destroy_job_gone:
  assumes L: "kernel_laws K" and wf: "cluster_wf K s" and i: "i < length (g_jobs s)" "js_used (g_jobs s ! i)"
  shows "job_data_for_handle_locked (destroy_job_object K s (js_handle (g_jobs s ! i))) (js_handle (g_jobs s ! i)) = None"
    "objs K (destroy_job_object K s (js_handle (g_jobs s ! i))) (js_handle (g_jobs s ! i)) = None"
proof -
  let ?h = "js_handle (g_jobs s ! i)" and ?s = "destroy_job_object K s (js_handle (g_jobs s ! i))"
  have f: "first_slot (\<lambda>j. js_used j \<and> js_handle j = ?h) (g_jobs s) = Some i"
    using job_lookup_slot [OF assms] job_handle_nonzero [OF assms] by (simp add: job_data_for_handle_locked_def)
  show o: "objs K ?s ?h = None" using f destroy_object(1) [OF L] by (simp add: destroy_job_object_def)
  show "job_data_for_handle_locked ?s ?h = None"
  proof (rule ccontr)
    assume "job_data_for_handle_locked ?s ?h \<noteq> None"
    then obtain j where "job_data_for_handle_locked ?s ?h = Some j" by blast
    note D = job_lookupD [OF this]
    from job_handle_nonzero(2) [OF L wf_destroy_job [OF L wf] D(1,2)] D(3) o show False by simp
  qed
qed

lemma finished_report:
  assumes "kernel_laws K" and "cluster_wf K s" and "i < JOB_POOL_SIZE" and "js_used (g_jobs s ! i)"
    and "h = js_handle (g_jobs s ! i)" and "completion_find s h = None"
    and "s' = fst (handle_report_job_result K s [h, 1, blk, v])"
  shows "completion_find s' h = Some v
    \<and> job_data_for_handle_locked s' h = None \<and> objs K s' h = None
    \<and> (\<forall>k. objs K s (bound_resource_id (job_at s i)) = Some (OResource k)
         \<and> reserved_by (g_resource_storage s ! k) = h \<longrightarrow> reserved_by (g_resource_storage s' ! k) = 0)"
proof -
  have len: "i < length (g_jobs s)" "length (g_completions s) = JOB_POOL_SIZE"
    using cluster_wfD(1) [OF assms(2)] assms(3) by (simp_all add: sizes_wf_def)
  note lk = job_lookup_slot [OF assms(1,2) len(1) assms(4), folded assms(5)]
  define t where "t = release_job_resource K s h (bound_resource_id (job_at s i))"
  define u where "u = completion_record t h v"
  have s': "s' = destroy_job_object K u h"
    using lk by (simp add: assms(7) handle_report_job_result_def JOB_FINISHED_def u_def t_def)
  have fr: "call_frame s t" unfolding t_def by (rule release_job_frame [OF assms(1)])
  note F = call_frame_simps [OF fr]
  have wu: "cluster_wf K u" unfolding u_def by (rule wf_completion_record [OF cluster_wf_frame [OF assms(2) fr]])
  have ju: "g_jobs u = g_jobs s" "g_resource_storage u = g_resource_storage t"
    by (simp_all add: u_def completion_record_def Let_def F)
  have gone: "job_data_for_handle_locked s' h = None" "objs K s' h = None"
    using destroy_job_gone [OF assms(1) wu, of i] len(1) assms(4,5) by (simp_all add: s' ju)
  have "completion_find t h = None" using assms(6) completion_find_cong [of t s h] F(11) by simp
  then have "completion_find u h = Some v"
    using result_find_recorded [of t h] len(2) F(11) by (simp add: u_def)
  then have cf: "completion_find s' h = Some v" using completion_find_cong [of s' u h] by (simp add: s')
  have "reserved_by (g_resource_storage s' ! k) = 0"
    if "objs K s (bound_resource_id (job_at s i)) = Some (OResource k)" "reserved_by (g_resource_storage s ! k) = h" for k
    using that release_resource [OF assms(1) that(1), of h] res_wfD(2) [OF cluster_wfD(2) [OF assms(2)] that(1)]
    by (simp add: s' ju t_def release_job_resource_def)
  then show ?thesis using gone cf by simp
qed

text \<open>
  Reporting a job as finished ends it and publishes its result.  From then on a
  request for the result of that job is answered with the reported value, the job's
  handle reaches nothing and no slot carries it, and the resource the job had reserved
  is free again.
\<close>

theorem finished_report_publishes_result:
  assumes "kernel_laws K" and "cluster_wf K s" and "i < JOB_POOL_SIZE" and "js_used (g_jobs s ! i)"
    and "h = js_handle (g_jobs s ! i)" and "completion_find s h = None"
    and "s' = fst (handle_report_job_result K s [h, 1, blk, v])"
  shows "snd (handle_get_job_result s' [h] cap) = reply cap [1, v]
    \<and> job_data_for_handle_locked s' h = None \<and> objs K s' h = None
    \<and> (\<forall>k. objs K s (bound_resource_id (job_at s i)) = Some (OResource k)
         \<and> reserved_by (g_resource_storage s ! k) = h \<longrightarrow> reserved_by (g_resource_storage s' ! k) = 0)"
  using finished_report [OF assms] by (simp add: handle_get_job_result_def)

text \<open>Node 2 has job 20, which holds the peripheral.\<close>

definition demo_holding :: "demo cluster" where
  "demo_holding = fst (handle_get_next_job DK demo_jobs [2] 128)"

lemma demo_holding_wf: "cluster_wf DK demo_holding"
  unfolding demo_holding_def using wfi.get_next demo_kernel_laws demo_jobs_wf by blast

lemma demo_holding_facts:
  "js_used (g_jobs demo_holding ! 0) \<and> js_handle (g_jobs demo_holding ! 0) = 20
   \<and> completion_find demo_holding 20 = None \<and> bound_resource_id (job_at demo_holding 0) = 19
   \<and> objs DK demo_holding 19 = Some (OResource 1) \<and> reserved_by (g_resource_storage demo_holding ! 1) = 20"
proof -
  have "let s = demo_holding in js_used (g_jobs s ! 0) \<and> js_handle (g_jobs s ! 0) = 20
     \<and> completion_find s 20 = None \<and> bound_resource_id (job_at s 0) = 19
     \<and> objs DK s 19 = Some (OResource 1) \<and> reserved_by (g_resource_storage s ! 1) = 20"
    by code_simp
  then show ?thesis by (simp only: Let_def)
qed

theorem finished_report_publishes_result_witness:
  "snd (handle_get_job_result (fst (handle_report_job_result DK demo_holding [20, 1, 0, 42])) [20] 128) = reply 128 [1, 42]
   \<and> objs DK (fst (handle_report_job_result DK demo_holding [20, 1, 0, 42])) 20 = None
   \<and> reserved_by (g_resource_storage (fst (handle_report_job_result DK demo_holding [20, 1, 0, 42])) ! 1) = 0"
proof -
  note f = demo_holding_facts
  have z: "0 < JOB_POOL_SIZE" by (simp add: JOB_POOL_SIZE_def)
  from f have u: "js_used (g_jobs demo_holding ! 0)" "20 = js_handle (g_jobs demo_holding ! 0)"
    "completion_find demo_holding 20 = None" by simp_all
  note th = finished_report_publishes_result [OF demo_kernel_laws demo_holding_wf z u refl, of 0 42 128]
  from this [THEN conjunct2, THEN conjunct2, THEN conjunct2, THEN spec, of 1] f
  have "reserved_by (g_resource_storage (fst (handle_report_job_result DK demo_holding [20, 1, 0, 42])) ! 1) = 0"
    by (simp only: simp_thms)
  with th show ?thesis by blast
qed

end
