(* ===== verification/Node_Props.thy ===== *)
theory Node_Props
  imports Job_Props
begin

text \<open>
  Membership: a node that leaves takes its resources and its own jobs with it, and the
  jobs it was running for others are released.
\<close>

subsection \<open>The sweep over the jobs\<close>

text \<open>What the sweeps keep: the node table, the owners of resources, and no object appears.\<close>

definition sweep_frame :: "('k, 'z) platform_scheme \<Rightarrow> 'k cluster \<Rightarrow> 'k cluster \<Rightarrow> bool" where
  "sweep_frame K s s' \<longleftrightarrow> g_node_index s' = g_node_index s
     \<and> (\<forall>h ob. objs K s' h = Some ob \<longrightarrow> objs K s h = Some ob)
     \<and> (\<forall>k < length (g_resource_storage s). owner_node (g_resource_storage s' ! k) = owner_node (g_resource_storage s ! k))
     \<and> length (g_resource_storage s') = length (g_resource_storage s)"

lemma sweep_frame_refl [simp]: "sweep_frame K s s"
  by (simp add: sweep_frame_def)

lemma sweep_frame_trans: "sweep_frame K s t \<Longrightarrow> sweep_frame K t u \<Longrightarrow> sweep_frame K s u"
  by (simp add: sweep_frame_def)

lemma release_storage:
  assumes L: "kernel_laws K" and ob: "\<nexists>k. objs K s b = Some (OResource k)"
  shows "g_resource_storage (release_job_resource K s h b) = g_resource_storage s"
  using ob
  by (cases "objs K s b")
    (auto simp: release_job_resource_def resource_release_reservation_def invoke_verdict_def kernel_invoke_def
      run_handler_def split_beta split: obj.splits)

lemma release_owner:
  assumes L: "kernel_laws K"
  shows "owner_node (g_resource_storage (release_job_resource K s h b) ! k) = owner_node (g_resource_storage s ! k)"
proof (cases "\<exists>i. objs K s b = Some (OResource i)")
  case True
  then obtain i where ob: "objs K s b = Some (OResource i)" by blast
  show ?thesis
    by (cases "i < length (g_resource_storage s)"; cases "k = i")
      (auto simp: release_job_resource_def release_resource [OF L ob] list_update_beyond)
qed (simp add: release_storage [OF L])

lemma release_sweep:
  assumes L: "kernel_laws K"
  shows "sweep_frame K s (release_job_resource K s h b)"
  using call_frame_simps [OF release_job_frame [OF L, of s h b]] by (simp add: sweep_frame_def release_owner [OF L])

lemma destroy_job_sweep:
  assumes L: "kernel_laws K"
  shows "sweep_frame K s (destroy_job_object K s h)"
  using destroy_object(1) [OF L]
  by (auto simp: sweep_frame_def destroy_job_object_def split: option.split if_splits)

lemma job_update_sweep: "sweep_frame K s (job_update i f s)"
  by (simp add: sweep_frame_def)

lemma leave_job_sweep:
  assumes "kernel_laws K"
  shows "sweep_frame K s (leave_job_step K n i s)"
  using sweep_frame_trans [OF release_sweep [OF assms] destroy_job_sweep [OF assms]]
  by (simp add: leave_job_step_def Let_def job_update_sweep)

lemma leave_job_cases:
  assumes L: "kernel_laws K" and wf: "cluster_wf K s" and i: "i < length (g_jobs s)"
  obtains (keep) "leave_job_step K n i s = s" "js_used (g_jobs s ! i) \<longrightarrow> \<not> touches_node n (job_at s i)"
  | (own) "node_affinity (job_at s i) = n"
      "g_jobs (leave_job_step K n i s) = (g_jobs s)[i := (g_jobs s ! i)\<lparr>js_used := False\<rparr>]"
  | (lent) "node_affinity (job_at s i) \<noteq> n"
      "leave_job_step K n i s = job_update i (\<lambda>j. j\<lparr>assigned_node := NODE_AFFINITY_ANY\<rparr>) s"
proof (cases "js_used (g_jobs s ! i) \<and> touches_node n (job_at s i)")
  case False
  then have "leave_job_step K n i s = s" by (auto simp: leave_job_step_def Let_def)
  with False keep show thesis by blast
next
  case True
  show thesis
  proof (cases "node_affinity (job_at s i) = n")
    case aff: True
    define t where "t = release_job_resource K s (js_handle (g_jobs s ! i)) (bound_resource_id (job_at s i))"
    have "g_jobs t = g_jobs s"
      using call_frame_simps(10) [OF release_job_frame [OF L, of s]] by (simp add: t_def)
    moreover have "first_slot (\<lambda>j. js_used j \<and> js_handle j = js_handle (g_jobs s ! i)) (g_jobs s) = Some i"
      using job_lookup_slot [OF L wf i] job_handle_nonzero [OF L wf i] True
      by (simp add: job_data_for_handle_locked_def)
    moreover have "leave_job_step K n i s = destroy_job_object K t (js_handle (g_jobs s ! i))"
      using True aff by (simp add: leave_job_step_def t_def Let_def)
    ultimately have "g_jobs (leave_job_step K n i s) = (g_jobs s)[i := (g_jobs s ! i)\<lparr>js_used := False\<rparr>]"
      by (simp add: destroy_job_object_def)
    with aff own show thesis by blast
  next
    case False
    then have "leave_job_step K n i s = job_update i (\<lambda>j. j\<lparr>assigned_node := NODE_AFFINITY_ANY\<rparr>) s"
      using True by (simp add: leave_job_step_def)
    with False lent show thesis by blast
  qed
qed

text \<open>One round of the sweep settles its slot and leaves the others alone.\<close>

definition settled :: "u64 \<Rightarrow> 'k cluster \<Rightarrow> 'k cluster \<Rightarrow> nat \<Rightarrow> bool" where
  "settled n s s' i \<longleftrightarrow> (js_used (g_jobs s' ! i) \<longrightarrow> \<not> touches_node n (job_at s' i))
     \<and> (js_used (g_jobs s ! i) \<and> node_affinity (job_at s i) \<noteq> n \<longrightarrow>
          js_used (g_jobs s' ! i) \<and> js_handle (g_jobs s' ! i) = js_handle (g_jobs s ! i)
          \<and> dispatched (job_at s' i) = dispatched (job_at s i))"

lemma leave_job_slot:
  assumes L: "kernel_laws K" and wf: "cluster_wf K s" and i: "i < length (g_jobs s)" and n: "n \<noteq> NODE_AFFINITY_ANY"
  shows "j \<noteq> i \<longrightarrow> g_jobs (leave_job_step K n i s) ! j = g_jobs s ! j"
    "length (g_jobs (leave_job_step K n i s)) = length (g_jobs s)"
    "settled n s (leave_job_step K n i s) i"
  using L wf i
proof (atomize (full), cases rule: leave_job_cases [where n = n])
  case lent
  then show "(j \<noteq> i \<longrightarrow> g_jobs (leave_job_step K n i s) ! j = g_jobs s ! j)
      \<and> length (g_jobs (leave_job_step K n i s)) = length (g_jobs s) \<and> settled n s (leave_job_step K n i s) i"
    using i n by (simp add: settled_def job_at_update touches_node_def) (simp add: job_update_def)
qed (use i in \<open>auto simp: settled_def\<close>)

lemma leave_job_index:
  assumes "kernel_laws K"
  shows "g_resource_index (leave_job_step K n i s) = g_resource_index s"
  using call_frame_simps(5) [OF release_job_frame [OF assms]]
  by (simp add: leave_job_step_def Let_def destroy_job_object_def split: option.split)

lemma settled_cong:
  "g_jobs t ! i = g_jobs s ! i \<Longrightarrow> g_jobs t' ! i = g_jobs s' ! i \<Longrightarrow> settled n t t' i = settled n s s' i"
  by (simp add: settled_def job_at_def)

lemma leave_jobs:
  assumes L: "kernel_laws K" and wf: "cluster_wf K s" and n: "n \<noteq> NODE_AFFINITY_ANY" and m: "m \<le> length (g_jobs s)"
  defines "s' \<equiv> fold (leave_job_step K n) [0..<m] s"
  shows "cluster_wf K s' \<and> length (g_jobs s') = length (g_jobs s) \<and> sweep_frame K s s'
    \<and> g_resource_index s' = g_resource_index s
    \<and> (\<forall>j \<ge> m. g_jobs s' ! j = g_jobs s ! j) \<and> (\<forall>j < m. settled n s s' j)"
  using m unfolding s'_def
proof (induction m)
  case (Suc m)
  let ?t = "fold (leave_job_step K n) [0..<m] s" and ?u = "fold (leave_job_step K n) [0..<Suc m] s"
  have u: "?u = leave_job_step K n m ?t" by simp
  have IH: "cluster_wf K ?t" "length (g_jobs ?t) = length (g_jobs s)" "sweep_frame K s ?t"
    "g_resource_index ?t = g_resource_index s"
    "\<And>j. m \<le> j \<Longrightarrow> g_jobs ?t ! j = g_jobs s ! j" "\<And>j. j < m \<Longrightarrow> settled n s ?t j"
    using Suc by auto
  have lt: "m < length (g_jobs ?t)" using Suc.prems IH(2) by simp
  note sl = leave_job_slot [OF L IH(1) lt n, folded u]
  have "cluster_wf K ?u" unfolding u using wfi.leave_job_step [of K ?t n m] L IH(1) by blast
  moreover have "settled n s ?u j" if "j < Suc m" for j
  proof (cases "j = m")
    case True
    then show ?thesis using sl(3) settled_cong [of ?t m s ?u ?u n] IH(5) by simp
  next
    case False
    then show ?thesis using that sl(1) [of j] settled_cong [of s j s ?t ?u n] IH(6) [of j] by simp
  qed
  moreover have "g_resource_index ?u = g_resource_index s"
    unfolding u leave_job_index [OF L] by (rule IH(4))
  ultimately show ?case
    using sl(1,2) IH sweep_frame_trans [OF IH(3) leave_job_sweep [OF L, of ?t n m]] u by simp
qed (use wf in simp)

subsection \<open>The sweep over the resources\<close>

definition not_owned :: "('k, 'z) platform_scheme \<Rightarrow> u64 \<Rightarrow> 'k cluster \<Rightarrow> resource_index_entry_t \<Rightarrow> bool" where
  "not_owned K n s e \<longleftrightarrow> (rx_used e \<longrightarrow>
     (\<forall>k. objs K s (rx_handle e) = Some (OResource k) \<longrightarrow> owner_node (g_resource_storage s ! k) \<noteq> n))"

lemma not_owned_sweep:
  assumes wf: "cluster_wf K s" and s: "not_owned K n s e" and f: "sweep_frame K s s'"
  shows "not_owned K n s' e"
  unfolding not_owned_def
proof (intro impI allI)
  fix k assume "rx_used e" "objs K s' (rx_handle e) = Some (OResource k)"
  then have "rx_used e" "objs K s (rx_handle e) = Some (OResource k)" using f by (simp_all add: sweep_frame_def)
  moreover from this(2) have "k < length (g_resource_storage s)"
    using res_wfD(2) [OF cluster_wfD(2) [OF wf]] by blast
  ultimately show "owner_node (g_resource_storage s' ! k) \<noteq> n" using s f by (simp add: sweep_frame_def not_owned_def)
qed

lemma leave_resource_slot:
  fixes n :: u64
  assumes L: "kernel_laws K" and wf: "cluster_wf K s" and i: "i < length (g_resource_index s)"
  defines "s' \<equiv> leave_resource_step K n i s"
  shows "sweep_frame K s s' \<and> g_jobs s' = g_jobs s \<and> length (g_resource_index s') = length (g_resource_index s)
    \<and> (\<forall>j. j \<noteq> i \<longrightarrow> g_resource_index s' ! j = g_resource_index s ! j)
    \<and> not_owned K n s' (g_resource_index s' ! i)"
proof (cases "rx_used (g_resource_index s ! i)")
  case True
  obtain k where ob: "objs K s (rx_handle (g_resource_index s ! i)) = Some (OResource k)"
    using res_wfD(1) [OF cluster_wfD(2) [OF wf] nth_mem [OF i] True] by blast
  have s': "s' = (if owner_node (g_resource_storage s ! k) = n
      then s\<lparr>kst := k_destroy K (kst s) (rx_handle (g_resource_index s ! i)),
             g_resource_index := (g_resource_index s)[i := (g_resource_index s ! i)\<lparr>rx_used := False\<rparr>]\<rparr> else s)"
    using True by (simp add: s'_def leave_resource_step_def get_info_resource [OF L ob])
  show ?thesis
    using i ob destroy_object(1) [OF L] by (auto simp: s' sweep_frame_def not_owned_def split: if_splits)
qed (use i in \<open>simp add: s'_def leave_resource_step_def not_owned_def\<close>)

lemma leave_resources:
  fixes n :: u64
  assumes L: "kernel_laws K" and wf: "cluster_wf K s" and m: "m \<le> length (g_resource_index s)"
  defines "s' \<equiv> fold (leave_resource_step K n) [0..<m] s"
  shows "cluster_wf K s' \<and> sweep_frame K s s' \<and> g_jobs s' = g_jobs s
    \<and> length (g_resource_index s') = length (g_resource_index s)
    \<and> (\<forall>j < m. not_owned K n s' (g_resource_index s' ! j))"
  using m unfolding s'_def
proof (induction m)
  case (Suc m)
  let ?t = "fold (leave_resource_step K n) [0..<m] s" and ?u = "fold (leave_resource_step K n) [0..<Suc m] s"
  have u: "?u = leave_resource_step K n m ?t" by simp
  have IH: "cluster_wf K ?t" "sweep_frame K s ?t" "g_jobs ?t = g_jobs s"
    "length (g_resource_index ?t) = length (g_resource_index s)"
    "\<And>j. j < m \<Longrightarrow> not_owned K n ?t (g_resource_index ?t ! j)"
    using Suc by auto
  have lt: "m < length (g_resource_index ?t)" using Suc.prems IH(4) by simp
  note sl = leave_resource_slot [OF L IH(1) lt, of n, folded u]
  have "m < RESOURCE_POOL_SIZE" using lt cluster_wfD(1) [OF IH(1)] by (simp add: sizes_wf_def)
  then have "cluster_wf K ?u" unfolding u using wfi.leave_resource_step [of K ?t m n] L IH(1) by blast
  moreover have "not_owned K n ?u (g_resource_index ?u ! j)" if "j < Suc m" for j
    using that sl not_owned_sweep [OF IH(1), of n "g_resource_index ?t ! j" ?u] IH(5) [of j]
    by (cases "j = m") auto
  ultimately show ?case
    using sl IH sweep_frame_trans [OF IH(2), of ?u] by simp
qed (use wf in simp)

subsection \<open>Leaving\<close>

lemma node_destroy_facts:
  assumes L: "kernel_laws K" and wf: "cluster_wf K s"
  shows "node_find_by_id (node_destroy K s n) n = 0" "g_jobs (node_destroy K s n) = g_jobs s"
    "g_resource_index (node_destroy K s n) = g_resource_index s"
proof -
  let ?s = "node_destroy K s n"
  show "node_find_by_id ?s n = 0"
  proof (cases "first_slot (\<lambda>e. nx_used e \<and> nx_node_id e = n) (g_node_index s)")
    case None
    then show ?thesis by (simp add: node_destroy_def node_find_by_id_def)
  next
    case (Some i)
    note F = first_slot_SomeD [OF Some]
    have "\<not> (nx_used (g_node_index ?s ! j) \<and> nx_node_id (g_node_index ?s ! j) = n)"
      if "j < length (g_node_index s)" for j
    proof (cases "j = i")
      case False
      have "nx_used (g_node_index s ! j) \<Longrightarrow> nx_node_id (g_node_index s ! j) = n \<Longrightarrow> False"
        using node_wfD(3) [OF cluster_wfD(4) [OF wf], of i j] F that False by auto
      then show ?thesis using False Some by (auto simp: node_destroy_def)
    qed (use that Some in \<open>simp add: node_destroy_def\<close>)
    then have "\<forall>e \<in> set (g_node_index ?s). nx_used e \<longrightarrow> nx_node_id e \<noteq> n"
      using Some by (simp add: all_set_conv_all_nth) (auto simp: node_destroy_def)
    then show ?thesis using node_find_none [OF L wf_node_destroy [OF L wf]] by blast
  qed
qed (simp_all add: node_destroy_def split: option.split)

lemma leave_node_sweeps:
  assumes "kernel_laws K" and "cluster_wf K s" and "n \<noteq> NODE_AFFINITY_ANY" and "node_find_by_id s n \<noteq> 0"
    and "s' = fst (handle_leave_node K s [n])"
  shows "node_find_by_id s' n = 0
    \<and> list_all (not_owned K n s') (g_resource_index s')
    \<and> (\<forall>i < JOB_POOL_SIZE. settled n s s' i)"
proof -
  let ?d = "node_destroy K s n"
  define t where "t = fold (leave_resource_step K n) [0..<RESOURCE_POOL_SIZE] ?d"
  have s': "s' = fold (leave_job_step K n) [0..<JOB_POOL_SIZE] t"
    using assms(4) by (simp add: assms(5) handle_leave_node_def t_def Let_def)
  note nd = node_destroy_facts [OF assms(1,2), of n] and wd = wf_node_destroy [OF assms(1,2), of n]
  have sz: "length (g_resource_index ?d) = RESOURCE_POOL_SIZE" "length (g_jobs s) = JOB_POOL_SIZE"
    using cluster_wfD(1) [OF wd] cluster_wfD(1) [OF assms(2)] by (simp_all add: sizes_wf_def)
  have T: "cluster_wf K t" "sweep_frame K ?d t" "g_jobs t = g_jobs s"
    "length (g_resource_index t) = RESOURCE_POOL_SIZE"
    "\<And>j. j < RESOURCE_POOL_SIZE \<Longrightarrow> not_owned K n t (g_resource_index t ! j)"
    using leave_resources [OF assms(1) wd, of RESOURCE_POOL_SIZE n] sz nd by (simp_all add: t_def)
  have S: "sweep_frame K t s'" "g_resource_index s' = g_resource_index t" "\<And>j. j < JOB_POOL_SIZE \<Longrightarrow> settled n t s' j"
    using leave_jobs [OF assms(1) T(1) assms(3), of JOB_POOL_SIZE] sz T(3) by (simp_all add: s')
  have "g_node_index s' = g_node_index ?d" using S(1) T(2) by (simp add: sweep_frame_def)
  then have "node_find_by_id s' n = node_find_by_id ?d n" by (simp add: node_find_by_id_def split: option.split)
  then have "node_find_by_id s' n = 0" using nd(1) by simp
  moreover have "not_owned K n s' (g_resource_index s' ! j)" if "j < RESOURCE_POOL_SIZE" for j
    unfolding S(2) by (rule not_owned_sweep [OF T(1) T(5) [OF that] S(1)])
  then have "list_all (not_owned K n s') (g_resource_index s')" using T(4) S(2) by (simp add: list_all_length)
  moreover have "settled n s s' i" if "i < JOB_POOL_SIZE" for i
    using S(3) [OF that] settled_cong [of t i s s' s' n] T(3) by simp
  ultimately show ?thesis by blast
qed

text \<open>
  C38: After a node has left, nothing refers to it.  It is no longer a member, no resource
  in the index is owned by it, and no queued job is assigned to it or waits for it.  Every
  job that was not bound to that node survives with its handle, and keeps its dispatch
  mark whether or not the departed node was running it.
\<close>

theorem leave_node_leaves_nothing_behind:
  assumes "kernel_laws K" and "cluster_wf K s" and "n \<noteq> NODE_AFFINITY_ANY" and "node_find_by_id s n \<noteq> 0"
    and "s' = fst (handle_leave_node K s [n])"
  shows "node_find_by_id s' n = 0
    \<and> list_all (not_owned K n s') (g_resource_index s')
    \<and> (\<forall>i < JOB_POOL_SIZE. settled n s s' i)"
  by (rule leave_node_sweeps [OF assms])

theorem leave_node_leaves_nothing_behind_witness:
  "node_find_by_id (fst (handle_leave_node DK demo_holding [2])) 2 = 0
   \<and> list_all (not_owned DK 2 (fst (handle_leave_node DK demo_holding [2])))
        (g_resource_index (fst (handle_leave_node DK demo_holding [2])))
   \<and> settled 2 demo_holding (fst (handle_leave_node DK demo_holding [2])) 0"
proof -
  have "node_find_by_id demo_holding 2 \<noteq> 0" by code_simp
  moreover have "2 \<noteq> NODE_AFFINITY_ANY" "0 < JOB_POOL_SIZE"
    by (simp_all add: NODE_AFFINITY_ANY_def JOB_POOL_SIZE_def)
  ultimately show ?thesis
    using leave_node_leaves_nothing_behind [OF demo_kernel_laws demo_holding_wf _ _ refl, of 2] by blast
qed

text \<open>
  C39: A job that a departing node was running for the cluster is stranded.  The sweep
  clears its node but not its dispatch mark, so no later request for work is ever
  answered with it, whatever calls are made, unless somebody reports on it.
\<close>

theorem released_job_is_stranded:
  assumes "kernel_laws K" and "cluster_wf K s" and "n \<noteq> NODE_AFFINITY_ANY" and "node_find_by_id s n \<noteq> 0"
    and "i < JOB_POOL_SIZE" and "js_used (g_jobs s ! i)" and "dispatched (job_at s i)"
    and "assigned_node (job_at s i) = n" and "node_affinity (job_at s i) \<noteq> n"
    and "s' = fst (handle_leave_node K s [n])" and "h = js_handle (g_jobs s ! i)"
    and "list_all (no_report h) cs" and "56 \<le> cap"
  shows "js_used (g_jobs s' ! i) \<and> js_handle (g_jobs s' ! i) = h \<and> assigned_node (job_at s' i) \<noteq> n
    \<and> snd (cluster_scheduler_handler K (cs_run K s' cs) 6 msg cap) \<noteq> reply cap [1, h, ty, a, b]"
proof -
  have wf': "cluster_wf K s'" unfolding assms(10) using wfi.leave assms(1,2) by blast
  have "settled n s s' i" using leave_node_sweeps [OF assms(1-4,10)] assms(5) by blast
  then have st: "js_used (g_jobs s' ! i)" "js_handle (g_jobs s' ! i) = h" "dispatched (job_at s' i)"
    "assigned_node (job_at s' i) \<noteq> n"
    using assms(6,7,9,11) by (auto simp: settled_def touches_node_def)
  from held_never_returned [OF assms(1) wf' dispatched_held [OF assms(1) wf' assms(5) st(1,3)], unfolded st(2), OF assms(12,13)]
  show ?thesis using st by blast
qed

theorem released_job_is_stranded_witness:
  "js_handle (g_jobs (fst (handle_leave_node DK demo_holding [2])) ! 0) = 20
   \<and> snd (cluster_scheduler_handler DK (cs_run DK (fst (handle_leave_node DK demo_holding [2]))
        [(6, flat_msg [1], 128)]) 6 (flat_msg [1]) 128) \<noteq> reply 128 [1, 20, 0, 1, 2]"
proof -
  have "let s = demo_holding in node_find_by_id s 2 \<noteq> 0 \<and> dispatched (job_at s 0)
      \<and> assigned_node (job_at s 0) = 2 \<and> node_affinity (job_at s 0) \<noteq> 2"
    by code_simp
  note this [unfolded Let_def]
  moreover have "2 \<noteq> NODE_AFFINITY_ANY" "0 < JOB_POOL_SIZE"
    by (simp_all add: NODE_AFFINITY_ANY_def JOB_POOL_SIZE_def)
  moreover have "list_all (no_report 20) [(6, flat_msg [1], 128)]" by (simp add: no_report_def call_in_range_def)
  moreover have "js_used (g_jobs demo_holding ! 0)" "20 = js_handle (g_jobs demo_holding ! 0)"
    using demo_holding_facts by simp_all
  ultimately show ?thesis
    using released_job_is_stranded [OF demo_kernel_laws demo_holding_wf _ _ _ _ _ _ _ refl, of 2 0 20
        "[(6, flat_msg [1], 128)]" 128 "flat_msg [1]" 0 1 2] by simp
qed

end
