(* ===== verification/Mutex_Props.thy ===== *)
theory Mutex_Props
  imports Job_Props
begin

text \<open>
  The scheduler's mutexes: a lock is given to one job at a time, only its holder gives it
  back, and a waiting job lends its priority to the holder.
\<close>

subsection \<open>One call\<close>

lemma read_two [simp]: "32 \<le> c \<Longrightarrow> \<not> length (capnp_build_flat c [v, w] 2) < 32"
  by simp

text \<open>The object behind a mutex id.\<close>

lemma mutex_object:
  assumes "cluster_wf K s" "c_int w = int m" "m < MAX_MUTEXES" "g_mutex_handles s ! m \<noteq> 0"
  shows "mutex_object_for_id s (c_int w) = g_mutex_handles s ! m" "objs K s (g_mutex_handles s ! m) = Some (OMutex m)"
proof -
  show "mutex_object_for_id s (c_int w) = g_mutex_handles s ! m"
    using assms(2,3) by (simp add: mutex_object_for_id_def)
  show "objs K s (g_mutex_handles s ! m) = Some (OMutex m)"
    using cluster_wfD(1,5) [OF assms(1)] assms(3,4) by (simp add: mutex_wf_def sizes_wf_def)
qed

lemma try_lock_spec:
  assumes L: "kernel_laws K" and wf: "cluster_wf K s"
    and m: "c_int mid = int m" "m < MAX_MUTEXES" "g_mutex_handles s ! m \<noteq> 0"
  shows "handle_mutex_try_lock K s [mid, job] cap =
    (if mx_locked (g_mutex_storage s ! m)
     then (inherit_priority s job (mx_holder (g_mutex_storage s ! m)), reply cap [0])
     else (s\<lparr>g_mutex_storage := (g_mutex_storage s)[m := \<lparr>mx_locked = True, mx_holder = job\<rparr>]\<rparr>, reply cap [1]))"
proof -
  note ob = mutex_object [OF wf m]
  have rq: "k_request_ok K (OMutex m) MUTEX_METHOD_TRY_LOCK (capnp_build_flat 24 [job] 1)"
    by (rule request_ok_one [OF L]) (simp add: request_words_def method_ids)
  have rs: "k_result_ok K (OMutex m) MUTEX_METHOD_TRY_LOCK (capnp_build_flat 40 [x, y] 2)" for x y
    using result_ok(1) [OF L, of "OMutex m" MUTEX_METHOD_TRY_LOCK "[x, y]"]
      build_flat_enough [of "[x, y]" 40] by (simp add: result_words_def method_ids)
  show ?thesis
    using rq rs m(3)
    by (simp add: handle_mutex_try_lock_def Let_def ob kernel_invoke_def run_handler_def mutex_handler_def)
qed

lemma unlock_spec:
  assumes L: "kernel_laws K" and wf: "cluster_wf K s"
    and m: "c_int mid = int m" "m < MAX_MUTEXES" "g_mutex_handles s ! m \<noteq> 0"
  shows "fst (handle_mutex_unlock K s [mid, job]) =
    (if mx_locked (g_mutex_storage s ! m) \<and> mx_holder (g_mutex_storage s ! m) = job
     then let t = s\<lparr>g_mutex_storage := (g_mutex_storage s)[m := (g_mutex_storage s ! m)\<lparr>mx_locked := False\<rparr>]\<rparr> in
       (case job_data_for_handle_locked s job of None \<Rightarrow> t
        | Some i \<Rightarrow> job_update i (\<lambda>j. j\<lparr>effective_priority := base_priority j\<rparr>) t)
     else s)"
proof -
  note ob = mutex_object [OF wf m]
  have rq: "k_request_ok K (OMutex m) MUTEX_METHOD_UNLOCK (capnp_build_flat 24 [job] 1)"
    by (rule request_ok_one [OF L]) (simp add: request_words_def method_ids)
  have rs: "k_result_ok K (OMutex m) MUTEX_METHOD_UNLOCK (capnp_build_flat 24 [x] 1)" for x
    by (rule result_ok_one [OF L]) (simp add: result_words_def method_ids)
  have lk: "job_data_for_handle_locked (s\<lparr>g_mutex_storage := ms\<rparr>) job = job_data_for_handle_locked s job" for ms
    by (simp add: job_data_for_handle_locked_def)
  have ne: "MUTEX_METHOD_UNLOCK \<noteq> MUTEX_METHOD_TRY_LOCK" by (simp add: method_ids)
  show ?thesis
    using rq rs m(3) ne
    by (simp add: handle_mutex_unlock_def Let_def ob invoke_verdict_def kernel_invoke_def run_handler_def
        mutex_handler_def lk split: option.split)
qed

lemma mutex_call_invalid:
  assumes "mutex_object_for_id s (c_int mid) = 0"
  shows "handle_mutex_try_lock K s [mid, job] cap = (s, reply cap [0])" "fst (handle_mutex_unlock K s [mid, job]) = s"
  using assms by (simp_all add: handle_mutex_try_lock_def handle_mutex_unlock_def)

lemma mutex_id_cases:
  assumes "cluster_wf K s"
  obtains "mutex_object_for_id s (c_int mid) = 0"
  | m where "c_int mid = int m" "m < MAX_MUTEXES" "g_mutex_handles s ! m \<noteq> 0"
proof (cases "mutex_object_for_id s (c_int mid) = 0")
  case False
  then have "c_int mid = int (nat (c_int mid))" "nat (c_int mid) < MAX_MUTEXES" "g_mutex_handles s ! nat (c_int mid) \<noteq> 0"
    by (auto simp: mutex_object_for_id_def split: if_splits)
  then show thesis by (rule that(2))
qed (rule that(1))

subsection \<open>Sequences of calls\<close>

datatype mutex_call = TryLock u64 u64 | Unlock u64 u64

fun mutex_step :: "('k, 'z) platform_scheme \<Rightarrow> mutex_call \<Rightarrow> 'k cluster \<Rightarrow> 'k cluster" where
  "mutex_step K (TryLock mid job) s = fst (handle_mutex_try_lock K s [mid, job] 24)"
| "mutex_step K (Unlock mid job) s = fst (handle_mutex_unlock K s [mid, job])"

definition gives_back :: "nat \<Rightarrow> u64 \<Rightarrow> mutex_call \<Rightarrow> bool" where
  "gives_back m job c \<longleftrightarrow> (\<exists>mid. c = Unlock mid job \<and> c_int mid = int m)"

definition locked_by :: "nat \<Rightarrow> u64 \<Rightarrow> 'k cluster \<Rightarrow> bool" where
  "locked_by m job s \<longleftrightarrow> g_mutex_handles s ! m \<noteq> 0 \<and> mx_locked (g_mutex_storage s ! m) \<and> mx_holder (g_mutex_storage s ! m) = job"

lemma inherit_simps [simp]:
  "g_mutex_storage (inherit_priority s a b) = g_mutex_storage s"
  "g_mutex_handles (inherit_priority s a b) = g_mutex_handles s"
  by (simp_all add: inherit_priority_def split: option.split)

lemma mutex_step_locked:
  assumes L: "kernel_laws K" and wf: "cluster_wf K s" and lb: "locked_by m job s" and m: "m < MAX_MUTEXES"
    and nb: "\<not> gives_back m job c"
  shows "cluster_wf K (mutex_step K c s) \<and> locked_by m job (mutex_step K c s)"
proof (cases c)
  case (TryLock mid j)
  have "cluster_wf K (mutex_step K c s)" unfolding TryLock mutex_step.simps using wfi.try_lock L wf by blast
  moreover have "locked_by m job (mutex_step K c s)"
    using wf
  proof (cases rule: mutex_id_cases [where mid = mid])
    case 1
    then show ?thesis using lb by (simp add: TryLock mutex_call_invalid)
  next
    case (2 n)
    have "length (g_mutex_storage s) = MAX_MUTEXES" using cluster_wfD(1) [OF wf] by (simp add: sizes_wf_def)
    then show ?thesis using lb m
      by (cases "n = m") (simp_all add: TryLock try_lock_spec [OF L wf 2] locked_by_def)
  qed
  ultimately show ?thesis ..
next
  case (Unlock mid j)
  have "cluster_wf K (mutex_step K c s)" unfolding Unlock mutex_step.simps using wfi.unlock L wf by blast
  moreover have "locked_by m job (mutex_step K c s)"
    using wf
  proof (cases rule: mutex_id_cases [where mid = mid])
    case 1
    then show ?thesis using lb by (simp add: Unlock mutex_call_invalid)
  next
    case (2 n)
    have "n = m \<Longrightarrow> j \<noteq> job" using nb 2(1) by (auto simp: gives_back_def Unlock)
    moreover have "length (g_mutex_storage s) = MAX_MUTEXES" using cluster_wfD(1) [OF wf] by (simp add: sizes_wf_def)
    ultimately show ?thesis using lb m
      by (cases "n = m") (simp_all add: Unlock unlock_spec [OF L wf 2] locked_by_def Let_def split: option.split)
  qed
  ultimately show ?thesis ..
qed

lemma mutex_run_locked:
  assumes "kernel_laws K" "cluster_wf K s" "locked_by m job s" "m < MAX_MUTEXES"
    "list_all (\<lambda>c. \<not> gives_back m job c) cs"
  shows "cluster_wf K (fold (mutex_step K) cs s) \<and> locked_by m job (fold (mutex_step K) cs s)"
  using assms
proof (induction cs arbitrary: s)
  case (Cons c cs)
  then show ?case using mutex_step_locked [OF Cons.prems(1-4), of c] by simp
qed simp



text \<open>
  C36: A job that has to wait lends its priority to the holder of the mutex: after the
  refused attempt the holder's effective priority is the greater of the two, and no other
  job changes.  When the holder unlocks, its priority is its own again.
\<close>

theorem waiting_job_lends_priority:
  assumes "kernel_laws K" and "cluster_wf K s" and "c_int mid = int m" and "m < MAX_MUTEXES"
    and "g_mutex_handles s ! m \<noteq> 0" and "mx_locked (g_mutex_storage s ! m)"
    and "job_data_for_handle_locked s (mx_holder (g_mutex_storage s ! m)) = Some i"
    and "job_data_for_handle_locked s job = Some j"
    and "s' = fst (handle_mutex_try_lock K s [mid, job] cap)"
    and "u = fst (handle_mutex_unlock K s' [mid, mx_holder (g_mutex_storage s ! m)])"
  shows "effective_priority (job_at s' i) = max (effective_priority (job_at s i)) (effective_priority (job_at s j))
    \<and> (\<forall>k. k \<noteq> i \<longrightarrow> job_at s' k = job_at s k)
    \<and> effective_priority (job_at u i) = base_priority (job_at s i)"
proof -
  let ?q = "mx_holder (g_mutex_storage s ! m)"
  have i: "i < length (g_jobs s)" by (rule job_lookupD(1) [OF assms(7)])
  have s': "s' = inherit_priority s job ?q" using assms(6) by (simp add: assms(9) try_lock_spec [OF assms(1-5)])
  have ih: "s' = (if effective_priority (job_at s j) > effective_priority (job_at s i)
      then job_update i (\<lambda>x. x\<lparr>effective_priority := effective_priority (job_at s j)\<rparr>) s else s)"
    using assms(7,8) by (simp add: s' inherit_priority_def)
  have wf': "cluster_wf K s'" unfolding assms(9) using wfi.try_lock assms(1,2) by blast
  have h': "g_mutex_handles s' ! m \<noteq> 0" using assms(5) by (simp add: s')
  have lk: "job_data_for_handle_locked s' ?q = Some i"
  proof -
    have "js_used (g_jobs s' ! i)" "js_handle (g_jobs s' ! i) = ?q" "i < length (g_jobs s')"
      using job_lookupD [OF assms(7)] by (simp_all add: ih)
    then show ?thesis using job_lookup_slot [OF assms(1) wf', of i] by simp
  qed
  have ms: "g_mutex_storage s' = g_mutex_storage s" and li: "i < length (g_jobs s')"
    using i by (simp_all add: ih)
  have ja: "job_at (x\<lparr>g_mutex_storage := ms\<rparr>) k = job_at x k" for x :: "'a cluster" and ms k by (simp add: job_at_def)
  have "effective_priority (job_at u i) = base_priority (job_at s' i)"
    using lk li assms(6) unfolding assms(10) unlock_spec [OF assms(1) wf' assms(3,4) h']
    by (simp add: ms job_at_update Let_def ja)
  moreover have "base_priority (job_at s' i) = base_priority (job_at s i)" using i by (simp add: ih job_at_update)
  ultimately show ?thesis using i by (simp add: ih job_at_update)
qed

definition demo_locked :: "demo cluster" where
  "demo_locked = fst (handle_mutex_try_lock DK demo_jobs [3, 20] 128)"

lemma demo_locked_wf: "cluster_wf DK demo_locked"
  unfolding demo_locked_def using wfi.try_lock demo_kernel_laws demo_jobs_wf by blast

theorem waiting_job_lends_priority_witness:
  "effective_priority (job_at (fst (handle_mutex_try_lock DK demo_locked [3, 21] 128)) 0) = 9
   \<and> effective_priority (job_at (fst (handle_mutex_unlock DK
        (fst (handle_mutex_try_lock DK demo_locked [3, 21] 128)) [3, 20])) 0) = 3"
proof -
  have "let s = demo_locked in g_mutex_handles s ! 3 \<noteq> 0 \<and> mx_locked (g_mutex_storage s ! 3)
      \<and> mx_holder (g_mutex_storage s ! 3) = 20
      \<and> job_data_for_handle_locked s 20 = Some 0 \<and> job_data_for_handle_locked s 21 = Some 1
      \<and> effective_priority (job_at s 0) = 3 \<and> effective_priority (job_at s 1) = 9
      \<and> base_priority (job_at s 0) = 3" by code_simp
  note f = this [unfolded Let_def]
  have c: "c_int 3 = int 3" "3 < MAX_MUTEXES" by (simp_all add: c_int_def MAX_MUTEXES_def)
  show ?thesis
    using waiting_job_lends_priority [OF demo_kernel_laws demo_locked_wf c _ _ _ _ refl refl, of 0 21 1 128] f by simp
qed

text \<open>
  Asking for the description of a resource takes a lock when the handle is that of a
  mutex: the method id is the same, so an unlocked mutex ends up locked in the name of
  job 0, while the caller is told that there is no such resource.
\<close>

theorem get_resource_info_locks_mutex:
  assumes "kernel_laws K" and "cluster_wf K s" and "m < MAX_MUTEXES" and "g_mutex_handles s ! m \<noteq> 0"
    and "\<not> mx_locked (g_mutex_storage s ! m)"
  shows "handle_get_resource_info K s [g_mutex_handles s ! m] cap =
    (s\<lparr>g_mutex_storage := (g_mutex_storage s)[m := \<lparr>mx_locked = True, mx_holder = 0\<rparr>]\<rparr>,
     reply cap [0, 0, 0, 0, 0, 0])"
proof -
  have ob: "objs K s (g_mutex_handles s ! m) = Some (OMutex m)"
    using cluster_wfD(1,5) [OF assms(2)] assms(3,4) by (simp add: mutex_wf_def sizes_wf_def)
  have rq: "k_request_ok K (OMutex m) RESOURCE_METHOD_GET_INFO (capnp_build_flat 24 [0] 1)"
    by (rule request_ok_one [OF assms(1)]) (simp add: request_words_def method_ids)
  have "resource_get_info K s (g_mutex_handles s ! m) =
      (s\<lparr>g_mutex_storage := (g_mutex_storage s)[m := \<lparr>mx_locked = True, mx_holder = 0\<rparr>]\<rparr>, None)"
    using assms(4,5) rq
    by (simp add: resource_get_info_def kernel_invoke_def ob run_handler_def mutex_handler_def method_ids)
  then show ?thesis by (simp add: handle_get_resource_info_def)
qed

theorem get_resource_info_locks_mutex_witness:
  "fst (handle_get_resource_info DK demo_jobs [11] 128)
    = demo_jobs\<lparr>g_mutex_storage := (g_mutex_storage demo_jobs)[3 := \<lparr>mx_locked = True, mx_holder = 0\<rparr>]\<rparr>"
proof -
  have "g_mutex_handles demo_jobs ! 3 = 11 \<and> \<not> mx_locked (g_mutex_storage demo_jobs ! 3)" by code_simp
  then show ?thesis
    using get_resource_info_locks_mutex [OF demo_kernel_laws demo_jobs_wf, of 3 128] by (simp add: MAX_MUTEXES_def)
qed

end
