(* ===== verification/Resource_Props.thy ===== *)
theory Resource_Props
  imports Job_Props
begin

text \<open>
  Declaring and reassigning resources.
\<close>

text \<open>
  Ownership of a resource moves only while no job has it reserved, and only to a node
  that has joined.  In that case the owner is the only thing that changes; in every other
  case the call is refused and no resource changes.
\<close>

theorem reassign_moves_only_free_resources:
  assumes "kernel_laws K" and "cluster_wf K s"
  shows "if \<exists>k. objs K s h = Some (OResource k) \<and> reserved_by (g_resource_storage s ! k) = 0 \<and> node_find_by_id s n \<noteq> 0
    then \<exists>k. objs K s h = Some (OResource k) \<and> handle_reassign_resource K s [h, n] cap =
      (s\<lparr>g_resource_storage := (g_resource_storage s)[k := (g_resource_storage s ! k)\<lparr>owner_node := n\<rparr>]\<rparr>, reply cap [1])
    else snd (handle_reassign_resource K s [h, n] cap) = reply cap [0]
      \<and> g_resource_storage (fst (handle_reassign_resource K s [h, n] cap)) = g_resource_storage s"
proof (cases "\<exists>k. objs K s h = Some (OResource k)")
  case True
  then obtain k where ob: "objs K s h = Some (OResource k)" by blast
  show ?thesis
    by (simp add: handle_reassign_resource_def get_info_resource [OF assms(1) ob] reassign_resource [OF assms(1) ob] ob)
next
  case False
  then have "snd (resource_get_info K s h) = None" by (rule get_info_none [OF assms(1)])
  then obtain t where t: "resource_get_info K s h = (t, None)" by (cases "resource_get_info K s h") simp
  have "g_resource_storage (fst (resource_get_info K s h)) = g_resource_storage s"
    by (subst get_info_state [OF assms(1)]) simp
  then show ?thesis using False t by (simp add: handle_reassign_resource_def)
qed

theorem reassign_moves_only_free_resources_witness:
  "handle_reassign_resource DK demo_jobs [19, 2] 128 =
      (demo_jobs\<lparr>g_resource_storage := (g_resource_storage demo_jobs)
          [1 := (g_resource_storage demo_jobs ! 1)\<lparr>owner_node := 2\<rparr>]\<rparr>, reply 128 [1])
   \<and> snd (handle_reassign_resource DK demo_holding [19, 2] 128) = reply 128 [0]"
proof -
  have f: "objs DK demo_jobs 19 = Some (OResource 1) \<and> reserved_by (g_resource_storage demo_jobs ! 1) = 0
      \<and> node_find_by_id demo_jobs 2 \<noteq> 0" by code_simp
  have g: "objs DK demo_holding 19 = Some (OResource 1) \<and> reserved_by (g_resource_storage demo_holding ! 1) \<noteq> 0"
    using demo_holding_facts by simp
  show ?thesis
    using f g reassign_moves_only_free_resources [OF demo_kernel_laws demo_jobs_wf, of 19 2 128]
      reassign_moves_only_free_resources [OF demo_kernel_laws demo_holding_wf, of 19 2 128] by auto
qed

text \<open>A node has a memory-management unit when the index has one that it owns.\<close>

definition owns_mmu :: "('k, 'z) platform_scheme \<Rightarrow> 'k cluster \<Rightarrow> u64 \<Rightarrow> resource_index_entry_t \<Rightarrow> bool" where
  "owns_mmu K s n e \<longleftrightarrow> rx_used e \<and> rx_kind e = RESOURCE_KIND_MMU
     \<and> (\<exists>k. objs K s (rx_handle e) = Some (OResource k) \<and> owner_node (g_resource_storage s ! k) = n)"

lemma mmu_scan_pure:
  assumes L: "kernel_laws K"
    and es: "\<And>e. e \<in> set es \<Longrightarrow> rx_used e \<Longrightarrow> \<exists>i. objs K s (rx_handle e) = Some (OResource i)"
  shows "node_has_mmu_scan K n s es = (s, list_ex (owns_mmu K s n) es)"
  using es
proof (induction es)
  case (Cons e es)
  then have IH: "node_has_mmu_scan K n s es = (s, list_ex (owns_mmu K s n) es)" by simp
  show ?case
  proof (cases "rx_used e \<and> rx_kind e = RESOURCE_KIND_MMU")
    case True
    then obtain i where ob: "objs K s (rx_handle e) = Some (OResource i)" using Cons.prems by auto
    then have "owns_mmu K s n e \<longleftrightarrow> owner_node (g_resource_storage s ! i) = n" using True by (simp add: owns_mmu_def)
    then show ?thesis using True IH by (simp add: get_info_resource [OF L ob])
  next
    case False
    then have "\<not> owns_mmu K s n e" by (auto simp: owns_mmu_def)
    then show ?thesis using False IH by auto
  qed
qed simp

text \<open>
  A resource that is to be shared by streaming or copy-on-write is accepted only from
  a node that owns a memory-management unit; otherwise the call is refused and changes
  nothing.  A resource that is handed over needs none.
\<close>

theorem shared_resources_need_an_mmu:
  assumes "kernel_laws K" and "cluster_wf K s"
  shows "handle_declare_resource K s [n, knd, descr, capa, sync] cap =
    (if (sync = RESOURCE_SYNC_STREAM \<or> sync = RESOURCE_SYNC_COW) \<and> \<not> list_ex (owns_mmu K s n) (g_resource_index s)
     then (s, reply cap [0])
     else (case create_resource_object K s n knd descr capa sync 0 of (s', h) \<Rightarrow> (s', reply cap [h])))"
proof -
  have "node_has_mmu K s n = (s, list_ex (owns_mmu K s n) (g_resource_index s))"
    unfolding node_has_mmu_def by (rule mmu_scan_pure [OF assms(1) index_objects [OF assms(2)]])
  then show ?thesis by (auto simp: handle_declare_resource_def Let_def)
qed

theorem shared_resources_need_an_mmu_witness:
  "handle_declare_resource DK demo_jobs [1, 2, 0x60, 1, 1] 128 = (demo_jobs, reply 128 [0])"
proof -
  have "list_all (\<lambda>e. rx_used e \<longrightarrow> rx_kind e \<noteq> 3) (g_resource_index demo_jobs)" by code_simp
  then have "\<not> list_ex (owns_mmu DK demo_jobs 1) (g_resource_index demo_jobs)"
    by (auto simp: list_all_iff list_ex_iff owns_mmu_def RESOURCE_KIND_MMU_def)
  then show ?thesis
    using shared_resources_need_an_mmu [OF demo_kernel_laws demo_jobs_wf, where n = 1 and knd = 2 and descr = "0x60" and capa = 1 and sync = 1 and cap = 128]
    by (simp add: RESOURCE_SYNC_STREAM_def)
qed

end
