(* ===== verification/Fdt.thy ===== *)
theory Fdt
  imports Coreinit_Prelude
begin

text \<open>
  The device tree reader of \<open>lib/fdt.c\<close>.  A blob is the memory seen from its first
  byte, a function from byte offsets to bytes, or None for the NULL pointer;
  pointers into it are offsets.  Nothing bounds the memory, so that a read outside the
  blob shows as a result that depends on bytes outside of it.  Every function of the
  file is here, under its own name; the C strings passed in are HOL strings.
\<close>

subsection \<open>Reading big-endian values\<close>

type_synonym memory = "int \<Rightarrow> u8"
type_synonym blob = "memory option"

definition FDT_MAGIC :: u32 where "FDT_MAGIC = 0xd00dfeed"
definition FDT_BEGIN_NODE :: u32 where "FDT_BEGIN_NODE = 1"
definition FDT_END_NODE :: u32 where "FDT_END_NODE = 2"
definition FDT_PROP :: u32 where "FDT_PROP = 3"
definition FDT_NOP :: u32 where "FDT_NOP = 4"
definition FDT_END :: u32 where "FDT_END = 9"
definition FDT_MAX_DEPTH :: int where "FDT_MAX_DEPTH = 16"
definition FDT_ERR_NODE :: int where "FDT_ERR_NODE = -1"

lemmas fdt_tokens = FDT_BEGIN_NODE_def FDT_END_NODE_def FDT_PROP_def FDT_NOP_def FDT_END_def

definition rd_be32 :: "memory \<Rightarrow> int \<Rightarrow> u32" where
  "rd_be32 m p = push_bit 24 (ucast (m p)) OR push_bit 16 (ucast (m (p + 1)))
     OR push_bit 8 (ucast (m (p + 2))) OR ucast (m (p + 3))"

definition rd_be64 :: "memory \<Rightarrow> int \<Rightarrow> u64" where
  "rd_be64 m p = push_bit 32 (ucast (rd_be32 m p)) OR ucast (rd_be32 m (p + 4))"

definition rd_cells :: "memory \<Rightarrow> int \<Rightarrow> u32 \<Rightarrow> u64" where
  "rd_cells m p cells = (if cells = 1 then ucast (rd_be32 m p) else rd_be64 m p)"

text \<open>The same values through integers, for evaluation.\<close>

lemma or_byte:
  fixes w :: "'a :: len word"
  shows "push_bit 8 w OR ucast (b :: u8) = 256 * w + word_of_int (uint b)"
proof -
  have "push_bit 8 w AND ucast b = 0"
    by (rule bit_word_eqI) (auto simp: bit_simps dest: bit_imp_le_length)
  from disjunctive_add_eq_or [OF this]
  have "push_bit 8 w OR ucast b = push_bit 8 w + ucast b" by (rule sym)
  then show ?thesis by (simp add: push_bit_eq_mult mult.commute)
qed

definition be_int :: "memory \<Rightarrow> int \<Rightarrow> int" where
  "be_int m p = ((uint (m p) * 256 + uint (m (p + 1))) * 256 + uint (m (p + 2))) * 256 + uint (m (p + 3))"

lemma be_int_bound: "0 \<le> be_int m p" "be_int m p < 2 ^ 32"
proof -
  have "uint b < 256" for b :: u8 using uint_bounded [of b] by simp
  from this [of "m p"] this [of "m (p + 1)"] this [of "m (p + 2)"] this [of "m (p + 3)"]
  show "be_int m p < 2 ^ 32" by (simp add: be_int_def)
qed (simp add: be_int_def)

lemma rd_be32_code [code]: "rd_be32 m p = word_of_int (be_int m p)"
proof -
  have "rd_be32 m p = push_bit 8 (push_bit 8 (push_bit 8 (ucast (m p)) OR ucast (m (p + 1)))
      OR ucast (m (p + 2))) OR ucast (m (p + 3))"
    by (simp add: rd_be32_def push_bit_or or.assoc)
  also have "\<dots> = word_of_int (be_int m p)"
    unfolding or_byte be_int_def by (simp add: of_int_add of_int_mult algebra_simps)
  finally show ?thesis .
qed

lemma uint_rd_be32: "uint (rd_be32 m p) = be_int m p"
  using be_int_bound [of m p] by (simp add: rd_be32_code unsigned_of_int take_bit_int_eq_self)

lemma rd_be64_code [code]: "rd_be64 m p = word_of_int (be_int m p * 4294967296 + be_int m (p + 4))"
proof -
  let ?h = "ucast (rd_be32 m p) :: u64" and ?l = "ucast (rd_be32 m (p + 4)) :: u64"
  have "push_bit 32 ?h AND ?l = 0"
    by (rule bit_word_eqI) (auto simp: bit_simps dest: bit_imp_le_length)
  from disjunctive_add_eq_or [OF this]
  have "rd_be64 m p = push_bit 32 ?h + ?l" by (simp add: rd_be64_def)
  then show ?thesis
    by (simp add: push_bit_eq_mult ucast_eq uint_rd_be32 of_int_add of_int_mult)
qed

subsection \<open>The context of a walk\<close>

record ctx_t =
  base :: memory
  s_at :: int
  send :: int
  str :: int
  strend :: int

definition ok :: "ctx_t \<Rightarrow> int \<Rightarrow> int \<Rightarrow> bool" where
  "ok c p n \<longleftrightarrow> s_at c \<le> p \<and> p \<le> send c \<and> n \<le> send c - p"

definition ctx_init :: "blob \<Rightarrow> ctx_t option" where
  "ctx_init blob = (case blob of None \<Rightarrow> None
   | Some b \<Rightarrow>
      if rd_be32 b 0 \<noteq> FDT_MAGIC then None
      else let totalsize = rd_be32 b 4; off_struct = rd_be32 b 8; off_strings = rd_be32 b 12;
               size_strings = rd_be32 b 32; size_struct = rd_be32 b 36
        in if off_struct > totalsize \<or> size_struct > totalsize - off_struct then None
           else if off_strings > totalsize \<or> size_strings > totalsize - off_strings then None
           else Some \<lparr>base = b, s_at = uint off_struct, send = uint off_struct + uint size_struct,
                      str = uint off_strings, strend = uint off_strings + uint size_strings\<rparr>)"

definition str_at :: "ctx_t \<Rightarrow> u32 \<Rightarrow> int option" where
  "str_at c off = (if uint off \<ge> strend c - str c then None else Some (str c + uint off))"

text \<open>The left string lies in the blob, the right one is the caller's, followed by its NUL.\<close>

fun str_eq :: "memory \<Rightarrow> int \<Rightarrow> string \<Rightarrow> bool" where
  "str_eq m p [] = (m p = 0)"
| "str_eq m p (x # xs) =
    (if m p \<noteq> 0 \<and> m p = of_char x then str_eq m (p + 1) xs else m p = of_char x)"

definition align4 :: "u32 \<Rightarrow> u32" where
  "align4 v = (v + 3) AND NOT 3"

text \<open>
  The length of the name at \<open>p\<close>, None when no terminator is found; \<open>n\<close> stays below the
  size of the structure block, a 32-bit value.
\<close>

function name_scan :: "ctx_t \<Rightarrow> int \<Rightarrow> nat \<Rightarrow> nat option" where
  "name_scan c p n =
    (if \<not> ok c (p + int n) 1 then None
     else if base c (p + int n) = 0 then Some n
     else name_scan c p (Suc n))"
  by pat_completeness auto
termination by (relation "measure (\<lambda>(c, p, n). nat (send c - (p + int n)))") (auto simp: ok_def)

declare name_scan.simps [simp del]

definition node_name :: "ctx_t \<Rightarrow> int \<Rightarrow> nat option" where
  "node_name c p = name_scan c p 0"

text \<open>The conversion of a pointer difference to \<open>int\<close>.\<close>

definition off_of :: "ctx_t \<Rightarrow> int \<Rightarrow> int" where
  "off_of c p = signed_take_bit 31 p"

text \<open>Past a name of \<open>n\<close> characters and its terminator.\<close>

abbreviation name_room :: "nat \<Rightarrow> int" where
  "name_room n \<equiv> uint (align4 (of_nat n + 1))"

text \<open>Every walk advances.\<close>

lemma uint_above [simp]: "- numeral k < uint w" "- uint w < numeral k" "0 < numeral k + uint w"
proof -
  have "- numeral k < (0 :: int)" "(0 :: int) \<le> uint w" by simp_all
  then show "- numeral k < uint w" by (rule less_le_trans)
  have "- uint w \<le> 0" "0 < (numeral k :: int)" by simp_all
  then show "- uint w < numeral k" by (rule le_less_trans)
  show "0 < numeral k + uint w" by (simp add: add_pos_nonneg)
qed

subsection \<open>Walking the structure block\<close>

function skip_loop :: "ctx_t \<Rightarrow> int \<Rightarrow> int \<Rightarrow> int" where
  "skip_loop c p depth =
    (if \<not> ok c p 4 then -1
     else let token = rd_be32 (base c) p; p = p + 4 in
       if token = FDT_BEGIN_NODE then
         (case node_name c p of None \<Rightarrow> -1
          | Some namelen \<Rightarrow> skip_loop c (p + name_room namelen) (depth + 1))
       else if token = FDT_END_NODE then
         (if depth - 1 \<le> 0 then off_of c p else skip_loop c p (depth - 1))
       else if token = FDT_PROP then
         (if \<not> ok c p 8 then -1
          else let len = rd_be32 (base c) p in
            if \<not> ok c (p + 8) (uint len) then -1
            else skip_loop c (p + 8 + uint (align4 len)) depth)
       else if token = FDT_NOP then skip_loop c p depth
       else -1)"
  by pat_completeness auto
termination by (relation "measure (\<lambda>(c, p, d). nat (send c - p))") (auto simp: ok_def)

declare skip_loop.simps [simp del]

definition skip_node :: "ctx_t \<Rightarrow> int \<Rightarrow> int" where
  "skip_node c off = skip_loop c off 0"

definition after_name :: "ctx_t \<Rightarrow> int \<Rightarrow> int option" where
  "after_name c node_off =
    (if \<not> ok c node_off 4 \<or> rd_be32 (base c) node_off \<noteq> FDT_BEGIN_NODE then None
     else case node_name c (node_off + 4) of None \<Rightarrow> None
       | Some namelen \<Rightarrow> Some (node_off + 4 + name_room namelen))"

definition fdt_valid :: "blob \<Rightarrow> u64 \<Rightarrow> bool" where
  "fdt_valid blob blob_size = (case blob of None \<Rightarrow> False
   | Some b \<Rightarrow>
      if blob_size < 40 then False
      else if rd_be32 b 0 \<noteq> FDT_MAGIC then False
      else if ucast (rd_be32 b 4) > blob_size then False
      else ctx_init blob \<noteq> None)"

function first_child_loop :: "ctx_t \<Rightarrow> int \<Rightarrow> int" where
  "first_child_loop c p =
    (if \<not> ok c p 4 then FDT_ERR_NODE
     else let token = rd_be32 (base c) p in
       if token = FDT_BEGIN_NODE then off_of c p
       else if token = FDT_END_NODE then FDT_ERR_NODE
       else if token = FDT_PROP then
         (let len = rd_be32 (base c) (p + 4) in
          if \<not> ok c (p + 12) (uint len) then FDT_ERR_NODE
          else first_child_loop c (p + (12 + uint (align4 len))))
       else if token = FDT_NOP then first_child_loop c (p + 4)
       else FDT_ERR_NODE)"
  by pat_completeness auto
termination by (relation "measure (\<lambda>(c, p). nat (send c - p))") (auto simp: ok_def)

declare first_child_loop.simps [simp del]

definition fdt_first_child :: "blob \<Rightarrow> int \<Rightarrow> int" where
  "fdt_first_child blob parent_offset = (case ctx_init blob of None \<Rightarrow> FDT_ERR_NODE
   | Some c \<Rightarrow> (case after_name c parent_offset of None \<Rightarrow> FDT_ERR_NODE
      | Some p \<Rightarrow> first_child_loop c p))"

text \<open>
  The array \<open>stack\<close> of \<open>fdt_parent_offset\<close> is a list of its 16 cells; none is read
  before it is written.
\<close>

function parent_loop :: "ctx_t \<Rightarrow> int \<Rightarrow> int \<Rightarrow> int \<Rightarrow> int list \<Rightarrow> int" where
  "parent_loop c node_offset p depth stack =
    (if \<not> ok c p 4 then FDT_ERR_NODE
     else let here = off_of c p; token = rd_be32 (base c) p; p = p + 4 in
       if token = FDT_BEGIN_NODE then
         (case node_name c p of None \<Rightarrow> FDT_ERR_NODE
          | Some namelen \<Rightarrow>
             let p = p + name_room namelen; depth = depth + 1;
                 stack = (if depth < FDT_MAX_DEPTH then stack[nat depth := here] else stack)
             in if here = node_offset then
                  (if depth \<le> 0 \<or> depth - 1 \<ge> FDT_MAX_DEPTH then FDT_ERR_NODE
                   else stack ! nat (depth - 1))
                else parent_loop c node_offset p depth stack)
       else if token = FDT_END_NODE then
         (if depth - 1 < 0 then FDT_ERR_NODE
          else parent_loop c node_offset p (depth - 1) stack)
       else if token = FDT_PROP then
         (let len = rd_be32 (base c) p in
          if \<not> ok c (p + 8) (uint len) then FDT_ERR_NODE
          else parent_loop c node_offset (p + (8 + uint (align4 len))) depth stack)
       else if token = FDT_NOP then parent_loop c node_offset p depth stack
       else FDT_ERR_NODE)"
  by pat_completeness auto
termination by (relation "measure (\<lambda>(c, off, p, depth, stack). nat (send c - p))") (auto simp: ok_def)

declare parent_loop.simps [simp del]

definition fdt_parent_offset :: "blob \<Rightarrow> int \<Rightarrow> int" where
  "fdt_parent_offset blob node_offset = (case ctx_init blob of None \<Rightarrow> FDT_ERR_NODE
   | Some c \<Rightarrow> parent_loop c node_offset (s_at c) (-1) (replicate (nat FDT_MAX_DEPTH) 0))"

function sibling_loop :: "ctx_t \<Rightarrow> int \<Rightarrow> int" where
  "sibling_loop c p =
    (if \<not> ok c p 4 then FDT_ERR_NODE
     else let token = rd_be32 (base c) p in
       if token = FDT_BEGIN_NODE then off_of c p
       else if token = FDT_END_NODE then FDT_ERR_NODE
       else if token = FDT_NOP then sibling_loop c (p + 4)
       else FDT_ERR_NODE)"
  by pat_completeness auto
termination by (relation "measure (\<lambda>(c, p). nat (send c - p))") (auto simp: ok_def)

declare sibling_loop.simps [simp del]

definition fdt_next_sibling :: "blob \<Rightarrow> int \<Rightarrow> int \<Rightarrow> int" where
  "fdt_next_sibling blob parent_offset prev_sibling = (case ctx_init blob of None \<Rightarrow> FDT_ERR_NODE
   | Some c \<Rightarrow>
      if fdt_parent_offset blob prev_sibling \<noteq> parent_offset then FDT_ERR_NODE
      else let nxt = skip_node c prev_sibling in
        if nxt < 0 then FDT_ERR_NODE else sibling_loop c nxt)"

text \<open>The offset of the value of a property and its length.\<close>

function getprop_loop :: "ctx_t \<Rightarrow> string \<Rightarrow> int \<Rightarrow> (int \<times> u32) option" where
  "getprop_loop c name p =
    (if \<not> ok c p 4 then None
     else let token = rd_be32 (base c) p in
       if token = FDT_BEGIN_NODE \<or> token = FDT_END_NODE then None
       else if token = FDT_NOP then getprop_loop c name (p + 4)
       else if token \<noteq> FDT_PROP \<or> \<not> ok c p 8 then None
       else let len = rd_be32 (base c) (p + 4); nameoff = rd_be32 (base c) (p + 8) in
         if \<not> ok c (p + 12) (uint len) then None
         else (case str_at c nameoff of None \<Rightarrow> None
           | Some pn \<Rightarrow>
              if str_eq (base c) pn name then Some (p + 12, len)
              else getprop_loop c name (p + (12 + uint (align4 len)))))"
  by pat_completeness auto
termination by (relation "measure (\<lambda>(c, name, p). nat (send c - p))") (auto simp: ok_def)

declare getprop_loop.simps [simp del]

definition fdt_getprop :: "blob \<Rightarrow> int \<Rightarrow> string \<Rightarrow> (int \<times> u32) option" where
  "fdt_getprop blob node_offset name = (case ctx_init blob of None \<Rightarrow> None
   | Some c \<Rightarrow> (case after_name c node_offset of None \<Rightarrow> None
      | Some p \<Rightarrow> getprop_loop c name p))"

subsection \<open>Where the walks end up\<close>

definition ctx_wf :: "ctx_t \<Rightarrow> bool" where
  "ctx_wf c \<longleftrightarrow> 0 \<le> s_at c \<and> s_at c \<le> send c \<and> 0 \<le> str c \<and> str c \<le> strend c \<and>
     send c \<le> uint (rd_be32 (base c) 4) \<and> strend c \<le> uint (rd_be32 (base c) 4)"

lemma in_totalsize:
  assumes "\<not> off > (ts :: u32)" "\<not> sz > ts - off"
  shows "uint off + uint sz \<le> uint ts"
proof -
  have o: "off \<le> ts" and z: "sz \<le> ts - off" using assms by auto
  from o have "uint (ts - off) = uint ts - uint off" by (simp add: uint_sub_if' word_le_def)
  with z show ?thesis by (simp add: word_le_def)
qed

lemma ctx_initD:
  assumes "ctx_init blob = Some c"
  shows "blob = Some (base c)" "ctx_wf c"
proof -
  from assms obtain b where b: "blob = Some b" by (auto simp: ctx_init_def split: option.splits)
  from assms b show "blob = Some (base c)" "ctx_wf c"
    by (auto simp: ctx_init_def ctx_wf_def Let_def in_totalsize split: if_splits)
qed

lemma ctx_small: "ctx_wf c \<Longrightarrow> send c < 4294967296"
proof -
  assume "ctx_wf c"
  then have "send c \<le> uint (rd_be32 (base c) 4)" by (simp add: ctx_wf_def)
  also have "\<dots> < 2 ^ 32" using uint_bounded [of "rd_be32 (base c) 4"] by simp
  finally show ?thesis by simp
qed

lemma off_of_eq:
  assumes "0 \<le> p" "p < 4294967296"
  shows "off_of c p = (if p < 2147483648 then p else p - 4294967296)"
proof (cases "p < 2147483648")
  case True
  then show ?thesis using assms by (simp add: off_of_def signed_take_bit_int_eq_self)
next
  case False
  have "signed_take_bit 31 p = signed_take_bit 31 (p - 4294967296)"
    by (simp add: signed_take_bit_eq_iff_take_bit_eq take_bit_eq_mod mod_diff_right_eq [symmetric])
  also have "\<dots> = p - 4294967296"
    by (rule signed_take_bit_int_eq_self) (use False assms in simp_all)
  finally show ?thesis using False by (simp add: off_of_def)
qed

lemma off_of_small [simp]: "0 \<le> p \<Longrightarrow> p < 2147483648 \<Longrightarrow> off_of c p = p"
  by (simp add: off_of_eq)

lemma okD: "ok c p n \<Longrightarrow> s_at c \<le> p \<and> p + n \<le> send c"
  by (simp add: ok_def)

text \<open>A node offset is the offset of a token in the structure block.\<close>

definition at_node :: "ctx_t \<Rightarrow> int \<Rightarrow> int \<Rightarrow> bool" where
  "at_node c q r \<longleftrightarrow> ok c q 4 \<and> rd_be32 (base c) q = FDT_BEGIN_NODE \<and> r = off_of c q"

text \<open>One step of each walk, by the token it meets.\<close>

named_theorems walk \<open>steps of the walks through the structure block\<close>

lemma skip_stop [walk]:
  "\<not> ok c p 4 \<Longrightarrow> skip_loop c p d = -1"
  "rd_be32 (base c) p = FDT_BEGIN_NODE \<Longrightarrow> node_name c (p + 4) = None \<Longrightarrow> skip_loop c p d = -1"
  "rd_be32 (base c) p = FDT_PROP \<Longrightarrow> \<not> (ok c (p + 4) 8 \<and> ok c (p + 4 + 8) (uint (rd_be32 (base c) (p + 4)))) \<Longrightarrow>
    skip_loop c p d = -1"
  "rd_be32 (base c) p \<notin> {FDT_BEGIN_NODE, FDT_END_NODE, FDT_PROP, FDT_NOP} \<Longrightarrow> skip_loop c p d = -1"
  by (auto simp: skip_loop.simps [of c p d] fdt_tokens Let_def)

lemma skip_step [walk]:
  assumes "ok c p 4"
  shows
  "rd_be32 (base c) p = FDT_BEGIN_NODE \<Longrightarrow> node_name c (p + 4) = Some n \<Longrightarrow>
    skip_loop c p d = skip_loop c (p + 4 + name_room n) (d + 1)"
  "rd_be32 (base c) p = FDT_END_NODE \<Longrightarrow> d \<le> 1 \<Longrightarrow> skip_loop c p d = off_of c (p + 4)"
  "rd_be32 (base c) p = FDT_END_NODE \<Longrightarrow> 1 < d \<Longrightarrow> skip_loop c p d = skip_loop c (p + 4) (d - 1)"
  "rd_be32 (base c) p = FDT_PROP \<Longrightarrow> ok c (p + 4) 8 \<Longrightarrow> ok c (p + 4 + 8) (uint (rd_be32 (base c) (p + 4))) \<Longrightarrow>
    skip_loop c p d = skip_loop c (p + 4 + 8 + uint (align4 (rd_be32 (base c) (p + 4)))) d"
  "rd_be32 (base c) p = FDT_NOP \<Longrightarrow> skip_loop c p d = skip_loop c (p + 4) d"
  by (simp_all add: skip_loop.simps [of c p d] assms fdt_tokens Let_def)

lemma skip_loop_result:
  "skip_loop c p d = -1 \<or> (\<exists>q. p < q \<and> q \<le> send c \<and> s_at c \<le> p \<and> skip_loop c p d = off_of c q)"
proof (induction "nat (send c - p)" arbitrary: p d rule: less_induct)
  case less
  have IH: "skip_loop c p' d' = -1 \<or> (\<exists>q. p < q \<and> q \<le> send c \<and> s_at c \<le> p \<and> skip_loop c p' d' = off_of c q)"
    if "p < p'" "ok c p 4" for p' d'
    using less [of p' d'] that by (fastforce simp: ok_def)
  show ?case
  proof (cases "ok c p 4")
    case ok: True
    let ?t = "rd_be32 (base c) p" and ?l = "rd_be32 (base c) (p + 4)"
    consider "?t = FDT_BEGIN_NODE" | "?t = FDT_END_NODE" | "?t = FDT_PROP" | "?t = FDT_NOP"
      | "?t \<notin> {FDT_BEGIN_NODE, FDT_END_NODE, FDT_PROP, FDT_NOP}" by blast
    then show ?thesis
    proof cases
      case t: 1
      show ?thesis
      proof (cases "node_name c (p + 4)")
        case (Some n)
        then show ?thesis using IH [OF _ ok, of "p + 4 + name_room n" "d + 1"] by (simp add: skip_step [OF ok] t)
      qed (simp add: t skip_stop)
    next
      case t: 2
      show ?thesis
      proof (cases "d \<le> 1")
        case True
        then show ?thesis using ok by (auto simp: skip_step [OF ok] t ok_def intro: exI [of _ "p + 4"])
      qed (use IH [OF _ ok, of "p + 4" "d - 1"] in \<open>simp add: skip_step [OF ok] t\<close>)
    next
      case t: 3
      show ?thesis
      proof (cases "ok c (p + 4) 8 \<and> ok c (p + 4 + 8) (uint ?l)")
        case True
        then show ?thesis using IH [OF _ ok, of "p + 4 + 8 + uint (align4 ?l)" d] by (simp add: skip_step [OF ok] t)
      qed (simp add: t skip_stop)
    next
      case t: 4
      then show ?thesis using IH [OF _ ok, of "p + 4" d] by (simp add: skip_step [OF ok])
    qed (simp add: skip_stop)
  qed (simp add: skip_stop)
qed

lemma child_stop [walk]:
  "\<not> ok c p 4 \<Longrightarrow> first_child_loop c p = FDT_ERR_NODE"
  "rd_be32 (base c) p = FDT_END_NODE \<Longrightarrow> first_child_loop c p = FDT_ERR_NODE"
  "rd_be32 (base c) p = FDT_PROP \<Longrightarrow> \<not> ok c (p + 12) (uint (rd_be32 (base c) (p + 4))) \<Longrightarrow>
    first_child_loop c p = FDT_ERR_NODE"
  "rd_be32 (base c) p \<notin> {FDT_BEGIN_NODE, FDT_END_NODE, FDT_PROP, FDT_NOP} \<Longrightarrow>
    first_child_loop c p = FDT_ERR_NODE"
  by (auto simp: first_child_loop.simps [of c p] fdt_tokens Let_def)

lemma child_step [walk]:
  assumes "ok c p 4"
  shows
  "rd_be32 (base c) p = FDT_BEGIN_NODE \<Longrightarrow> first_child_loop c p = off_of c p"
  "rd_be32 (base c) p = FDT_PROP \<Longrightarrow> ok c (p + 12) (uint (rd_be32 (base c) (p + 4))) \<Longrightarrow>
    first_child_loop c p = first_child_loop c (p + (12 + uint (align4 (rd_be32 (base c) (p + 4)))))"
  "rd_be32 (base c) p = FDT_NOP \<Longrightarrow> first_child_loop c p = first_child_loop c (p + 4)"
  by (simp_all add: first_child_loop.simps [of c p] assms fdt_tokens Let_def)

lemma first_child_loop_result:
  "first_child_loop c p = FDT_ERR_NODE \<or> (\<exists>q \<ge> p. at_node c q (first_child_loop c p))"
proof (induction "nat (send c - p)" arbitrary: p rule: less_induct)
  case less
  have IH: "first_child_loop c p' = FDT_ERR_NODE \<or> (\<exists>q \<ge> p. at_node c q (first_child_loop c p'))"
    if "p < p'" "ok c p 4" for p'
    using less [of p'] that by (fastforce simp: ok_def)
  show ?case
  proof (cases "ok c p 4")
    case ok: True
    let ?t = "rd_be32 (base c) p" and ?l = "rd_be32 (base c) (p + 4)"
    consider "?t = FDT_BEGIN_NODE" | "?t = FDT_END_NODE" | "?t = FDT_PROP" | "?t = FDT_NOP"
      | "?t \<notin> {FDT_BEGIN_NODE, FDT_END_NODE, FDT_PROP, FDT_NOP}" by blast
    then show ?thesis
    proof cases
      case t: 3
      show ?thesis
      proof (cases "ok c (p + 12) (uint ?l)")
        case True
        then show ?thesis using IH [OF _ ok, of "p + (12 + uint (align4 ?l))"] by (simp add: child_step [OF ok] t)
      qed (simp add: t child_stop)
    next
      case t: 4
      then show ?thesis using IH [OF _ ok, of "p + 4"] by (simp add: child_step [OF ok])
    qed (auto simp: child_stop child_step [OF ok] at_node_def ok)
  qed (simp add: child_stop)
qed

lemma sibling_step [walk]:
  "\<not> ok c p 4 \<Longrightarrow> sibling_loop c p = FDT_ERR_NODE"
  "rd_be32 (base c) p \<notin> {FDT_BEGIN_NODE, FDT_NOP} \<Longrightarrow> sibling_loop c p = FDT_ERR_NODE"
  "ok c p 4 \<Longrightarrow> rd_be32 (base c) p = FDT_BEGIN_NODE \<Longrightarrow> sibling_loop c p = off_of c p"
  "ok c p 4 \<Longrightarrow> rd_be32 (base c) p = FDT_NOP \<Longrightarrow> sibling_loop c p = sibling_loop c (p + 4)"
  by (simp_all add: sibling_loop.simps [of c p] fdt_tokens Let_def)

lemma sibling_loop_result:
  "sibling_loop c p = FDT_ERR_NODE \<or> (\<exists>q \<ge> p. at_node c q (sibling_loop c p))"
proof (induction "nat (send c - p)" arbitrary: p rule: less_induct)
  case less
  have IH: "sibling_loop c (p + 4) = FDT_ERR_NODE \<or> (\<exists>q \<ge> p. at_node c q (sibling_loop c (p + 4)))"
    if "ok c p 4"
    using less [of "p + 4"] that by (fastforce simp: ok_def)
  show ?case
  proof (cases "ok c p 4")
    case ok: True
    let ?t = "rd_be32 (base c) p"
    consider "?t = FDT_BEGIN_NODE" | "?t = FDT_NOP" | "?t \<notin> {FDT_BEGIN_NODE, FDT_NOP}" by blast
    then show ?thesis by cases (use IH ok in \<open>auto simp: sibling_step at_node_def\<close>)
  qed (simp add: sibling_step)
qed

lemma parent_stop [walk]:
  "\<not> ok c p 4 \<Longrightarrow> parent_loop c t p d st = FDT_ERR_NODE"
  "rd_be32 (base c) p = FDT_BEGIN_NODE \<Longrightarrow> node_name c (p + 4) = None \<Longrightarrow> parent_loop c t p d st = FDT_ERR_NODE"
  "rd_be32 (base c) p = FDT_END_NODE \<Longrightarrow> d < 1 \<Longrightarrow> parent_loop c t p d st = FDT_ERR_NODE"
  "rd_be32 (base c) p = FDT_PROP \<Longrightarrow> \<not> ok c (p + 4 + 8) (uint (rd_be32 (base c) (p + 4))) \<Longrightarrow>
    parent_loop c t p d st = FDT_ERR_NODE"
  "rd_be32 (base c) p \<notin> {FDT_BEGIN_NODE, FDT_END_NODE, FDT_PROP, FDT_NOP} \<Longrightarrow>
    parent_loop c t p d st = FDT_ERR_NODE"
  by (auto simp: parent_loop.simps [of c t p d st] fdt_tokens Let_def)

abbreviation push :: "int list \<Rightarrow> int \<Rightarrow> int \<Rightarrow> int list" where
  "push st d here \<equiv> (if d < FDT_MAX_DEPTH then st[nat d := here] else st)"

lemma parent_step [walk]:
  assumes "ok c p 4"
  shows
  "rd_be32 (base c) p = FDT_BEGIN_NODE \<Longrightarrow> node_name c (p + 4) = Some n \<Longrightarrow> off_of c p \<noteq> t \<Longrightarrow>
    parent_loop c t p d st = parent_loop c t (p + 4 + name_room n) (d + 1) (push st (d + 1) (off_of c p))"
  "rd_be32 (base c) p = FDT_BEGIN_NODE \<Longrightarrow> node_name c (p + 4) = Some n \<Longrightarrow> off_of c p = t \<Longrightarrow>
    parent_loop c t p d st = (if d < 0 \<or> d \<ge> FDT_MAX_DEPTH then FDT_ERR_NODE
      else push st (d + 1) t ! nat d)"
  "rd_be32 (base c) p = FDT_END_NODE \<Longrightarrow> 1 \<le> d \<Longrightarrow> parent_loop c t p d st = parent_loop c t (p + 4) (d - 1) st"
  "rd_be32 (base c) p = FDT_PROP \<Longrightarrow> ok c (p + 4 + 8) (uint (rd_be32 (base c) (p + 4))) \<Longrightarrow>
    parent_loop c t p d st = parent_loop c t (p + 4 + (8 + uint (align4 (rd_be32 (base c) (p + 4))))) d st"
  "rd_be32 (base c) p = FDT_NOP \<Longrightarrow> parent_loop c t p d st = parent_loop c t (p + 4) d st"
  by (simp_all add: parent_loop.simps [of c t p d st] assms fdt_tokens Let_def)

text \<open>The cells of the stack up to the current depth hold offsets already passed.\<close>

definition stack_ok :: "ctx_t \<Rightarrow> int \<Rightarrow> int \<Rightarrow> int list \<Rightarrow> bool" where
  "stack_ok c p d st \<longleftrightarrow> length st = 16 \<and>
     (\<forall>i. 0 \<le> i \<and> i \<le> d \<and> i < FDT_MAX_DEPTH \<longrightarrow> (\<exists>q. s_at c \<le> q \<and> q < p \<and> st ! nat i = off_of c q))"

lemma stack_okD:
  "stack_ok c p d st \<Longrightarrow> 0 \<le> i \<Longrightarrow> i \<le> d \<Longrightarrow> i < FDT_MAX_DEPTH \<Longrightarrow>
    \<exists>q. s_at c \<le> q \<and> q < p \<and> st ! nat i = off_of c q"
  by (simp add: stack_ok_def)

lemma stack_ok_mono: "stack_ok c p d st \<Longrightarrow> p \<le> p' \<Longrightarrow> d' \<le> d \<Longrightarrow> stack_ok c p' d' st"
  unfolding stack_ok_def by (meson order.trans order_less_le_trans)

lemma stack_ok_push:
  assumes "stack_ok c p d st" "s_at c \<le> p" "p < p'"
  shows "stack_ok c p' (d + 1) (push st (d + 1) (off_of c p))"
  unfolding stack_ok_def
proof (intro conjI allI impI)
  show "length (push st (d + 1) (off_of c p)) = 16" using assms(1) by (simp add: stack_ok_def)
  fix i assume i: "0 \<le> i \<and> i \<le> d + 1 \<and> i < FDT_MAX_DEPTH"
  show "\<exists>q. s_at c \<le> q \<and> q < p' \<and> push st (d + 1) (off_of c p) ! nat i = off_of c q"
  proof (cases "i = d + 1")
    case True
    then show ?thesis using i assms by (auto simp: stack_ok_def FDT_MAX_DEPTH_def)
  next
    case False
    with i assms(1) obtain q where "s_at c \<le> q" "q < p" "st ! nat i = off_of c q"
      by (auto simp: stack_ok_def)
    moreover have "nat i \<noteq> nat (d + 1)" using i False by arith
    ultimately show ?thesis using assms(3) by auto
  qed
qed

lemma parent_loop_result:
  assumes "stack_ok c p d st"
  shows "parent_loop c t p d st = FDT_ERR_NODE \<or>
    (\<exists>q p'. s_at c \<le> q \<and> q < p' \<and> ok c p' 4 \<and> off_of c p' = t \<and> parent_loop c t p d st = off_of c q)"
  using assms
proof (induction "nat (send c - p)" arbitrary: p d st rule: less_induct)
  case less
  let ?R = "\<lambda>r. r = FDT_ERR_NODE \<or> (\<exists>q p'. s_at c \<le> q \<and> q < p' \<and> ok c p' 4 \<and> off_of c p' = t \<and> r = off_of c q)"
  have IH: "?R (parent_loop c t p' d' st')" if "p < p'" "ok c p 4" "stack_ok c p' d' st'" for p' d' st'
    using less(1) [OF _ that(3)] that(1,2) by (fastforce simp: ok_def)
  show ?case
  proof (cases "ok c p 4")
    case ok: True
    then have sp: "s_at c \<le> p" by (simp add: ok_def)
    let ?t = "rd_be32 (base c) p" and ?l = "rd_be32 (base c) (p + 4)"
    consider "?t = FDT_BEGIN_NODE" | "?t = FDT_END_NODE" | "?t = FDT_PROP" | "?t = FDT_NOP"
      | "?t \<notin> {FDT_BEGIN_NODE, FDT_END_NODE, FDT_PROP, FDT_NOP}" by blast
    then show ?thesis
    proof cases
      case t: 1
      show ?thesis
      proof (cases "node_name c (p + 4)")
        case (Some n)
        have lt: "p < p + 4 + name_room n" by simp
        show ?thesis
        proof (cases "off_of c p = t")
          case hit: True
          show ?thesis
          proof (cases "d < 0 \<or> d \<ge> FDT_MAX_DEPTH")
            case False
            then obtain q where q: "s_at c \<le> q" "q < p" "st ! nat d = off_of c q"
              using stack_okD [OF less(2), of d] by (auto simp: not_less not_le)
            moreover have "nat (d + 1) \<noteq> nat d" using False by arith
            ultimately have "push st (d + 1) t ! nat d = off_of c q" by simp
            then show ?thesis using q ok hit False by (auto simp: parent_step(2) [OF ok t Some])
          qed (simp add: parent_step(2) [OF ok t Some hit])
        next
          case False
          show ?thesis unfolding parent_step(1) [OF ok t Some False]
            by (rule IH [OF lt ok stack_ok_push [OF less(2) sp lt]])
        qed
      qed (simp add: t parent_stop)
    next
      case t: 2
      then show ?thesis
        using IH [OF _ ok, of "p + 4" "d - 1" st] stack_ok_mono [OF less(2), of "p + 4" "d - 1"]
        by (cases "d < 1") (simp_all add: parent_stop parent_step [OF ok])
    next
      case t: 3
      then show ?thesis
        using IH [OF _ ok, of "p + 4 + (8 + uint (align4 ?l))" d st]
          stack_ok_mono [OF less(2), of "p + 4 + (8 + uint (align4 ?l))" d]
        by (cases "ok c (p + 4 + 8) (uint ?l)") (simp_all add: parent_stop parent_step [OF ok])
    next
      case t: 4
      then show ?thesis
        using IH [OF _ ok, of "p + 4" d st] stack_ok_mono [OF less(2), of "p + 4" d]
        by (simp add: parent_step [OF ok])
    qed (simp add: parent_stop)
  qed (simp add: parent_stop)
qed

text \<open>Parents lie before their children, siblings after one another.\<close>

lemma fdt_parent_offset_before:
  assumes "0 \<le> off" "0 \<le> fdt_parent_offset blob off"
  shows "fdt_parent_offset blob off < off"
proof (cases "ctx_init blob")
  case None
  then show ?thesis using assms by (simp add: fdt_parent_offset_def FDT_ERR_NODE_def)
next
  case (Some c)
  note wf = ctx_initD(2) [OF Some]
  have "stack_ok c (s_at c) (-1) (replicate (nat FDT_MAX_DEPTH) 0)"
    by (simp add: stack_ok_def FDT_MAX_DEPTH_def)
  from parent_loop_result [OF this, of off] assms(2)
  obtain q p where q: "s_at c \<le> q" "q < p" "ok c p 4" "off_of c p = off" "fdt_parent_offset blob off = off_of c q"
    by (auto simp: fdt_parent_offset_def Some FDT_ERR_NODE_def)
  moreover have "0 \<le> q" "p < 4294967296" using q wf ctx_small [OF wf] by (auto simp: ctx_wf_def ok_def)
  ultimately show ?thesis using assms(1) by (auto simp: off_of_eq split: if_splits)
qed

lemma fdt_parent_offset_range: "fdt_parent_offset blob off < 2147483648"
proof (cases "ctx_init blob")
  case (Some c)
  have "stack_ok c (s_at c) (-1) (replicate (nat FDT_MAX_DEPTH) 0)"
    by (simp add: stack_ok_def FDT_MAX_DEPTH_def)
  from parent_loop_result [OF this, of off] show ?thesis
    using signed_take_bit_int_less_exp [of 31]
    by (auto simp: fdt_parent_offset_def Some FDT_ERR_NODE_def off_of_def)
qed (simp add: fdt_parent_offset_def FDT_ERR_NODE_def)

lemma fdt_next_sibling_after:
  assumes "fdt_next_sibling blob par off \<noteq> FDT_ERR_NODE"
  shows "0 \<le> off" "off < 2147483648" "fdt_next_sibling blob par off < 0 \<or> off < fdt_next_sibling blob par off"
    "fdt_next_sibling blob par off < 2147483648"
proof -
  from assms obtain c where c: "ctx_init blob = Some c"
    by (auto simp: fdt_next_sibling_def split: option.splits)
  note wf = ctx_initD(2) [OF c] and sm = ctx_small [OF ctx_initD(2) [OF c]]
  let ?n = "skip_node c off"
  from assms have n: "0 \<le> ?n" and r: "fdt_next_sibling blob par off = sibling_loop c ?n"
    by (auto simp: fdt_next_sibling_def c Let_def split: if_splits)
  from n skip_loop_result [of c off 0]
  obtain q where q: "off < q" "q \<le> send c" "s_at c \<le> off" "?n = off_of c q"
    by (auto simp: skip_node_def)
  then show "0 \<le> off" using wf by (simp add: ctx_wf_def)
  with q n sm have nq: "off < ?n" by (auto simp: off_of_eq split: if_splits)
  then show "off < 2147483648" using q signed_take_bit_int_less_exp [of 31 q] by (simp add: off_of_def)
  from assms r sibling_loop_result [of c ?n]
  obtain q' where q': "?n \<le> q'" "at_node c q' (fdt_next_sibling blob par off)" by auto
  then have "0 \<le> q'" "q' < 4294967296" using n sm by (auto simp: at_node_def ok_def)
  then show "fdt_next_sibling blob par off < 0 \<or> off < fdt_next_sibling blob par off"
    "fdt_next_sibling blob par off < 2147483648"
    using q' nq by (auto simp: at_node_def off_of_eq)
qed

subsection \<open>Paths and compatible strings\<close>

text \<open>The children of \<open>cur\<close> from \<open>ch\<close> on, in search of one with the given name.\<close>

fun name_is :: "memory \<Rightarrow> int \<Rightarrow> string \<Rightarrow> bool" where
  "name_is m p [] = True"
| "name_is m p (x # xs) = (m p = of_char x \<and> name_is m (p + 1) xs)"

definition sibling_measure :: "int \<Rightarrow> nat" where
  "sibling_measure ch = (if ch < 0 then 0 else nat (2147483648 - ch))"

lemma sibling_measure_less:
  assumes "fdt_next_sibling blob par ch \<noteq> FDT_ERR_NODE"
  shows "sibling_measure (fdt_next_sibling blob par ch) < sibling_measure ch"
  using fdt_next_sibling_after [OF assms] by (auto simp: sibling_measure_def)

function find_child :: "blob \<Rightarrow> ctx_t \<Rightarrow> int \<Rightarrow> string \<Rightarrow> int \<Rightarrow> int" where
  "find_child blob c cur name ch =
    (if ch = FDT_ERR_NODE then FDT_ERR_NODE
     else case node_name c (ch + 4) of None \<Rightarrow> FDT_ERR_NODE
       | Some namelen \<Rightarrow>
          if namelen = length name \<and> name_is (base c) (ch + 4) name then ch
          else let next = fdt_next_sibling blob cur ch in
            if next = FDT_ERR_NODE then FDT_ERR_NODE else find_child blob c cur name next)"
  by pat_completeness auto
termination
  by (relation "measure (\<lambda>(blob, c, cur, name, ch). sibling_measure ch)") (auto simp: sibling_measure_less)

declare find_child.simps [simp del]

text \<open>The components of a path are separated by any number of slashes.\<close>

abbreviation slash :: "char \<Rightarrow> bool" where "slash x \<equiv> x = CHR ''/''"

lemma next_component_shorter:
  "p \<noteq> [] \<Longrightarrow> length (dropWhile slash (dropWhile (\<lambda>x. \<not> slash x) p)) < length p"
proof (cases p)
  case (Cons x xs)
  show ?thesis
  proof (cases "slash x")
    case True
    then show ?thesis using length_dropWhile_le [of slash xs] by (simp add: Cons le_imp_less_Suc)
  next
    case False
    have "length (dropWhile slash (dropWhile (\<lambda>x. \<not> slash x) xs)) \<le> length (dropWhile (\<lambda>x. \<not> slash x) xs)"
      by (rule length_dropWhile_le)
    also have "\<dots> \<le> length xs" by (rule length_dropWhile_le)
    finally show ?thesis using False by (simp add: Cons)
  qed
qed simp

function path_walk :: "blob \<Rightarrow> ctx_t \<Rightarrow> int \<Rightarrow> string \<Rightarrow> int" where
  "path_walk blob c cur p =
    (if p = [] then cur
     else let name = takeWhile (\<lambda>x. \<not> slash x) p;
              found = find_child blob c cur name (fdt_first_child blob cur)
          in if found = FDT_ERR_NODE then FDT_ERR_NODE
             else path_walk blob c found (dropWhile slash (dropWhile (\<lambda>x. \<not> slash x) p)))"
  by pat_completeness auto
termination by (relation "measure (\<lambda>(blob, c, cur, p). length p)") (auto simp: next_component_shorter)

declare path_walk.simps [simp del]

definition fdt_path_offset :: "blob \<Rightarrow> string \<Rightarrow> int" where
  "fdt_path_offset blob path = (case ctx_init blob of None \<Rightarrow> FDT_ERR_NODE
   | Some c \<Rightarrow>
      if path = [] \<or> \<not> slash (hd path) then FDT_ERR_NODE
      else if \<not> ok c (s_at c) 4 \<or> rd_be32 (base c) (s_at c) \<noteq> FDT_BEGIN_NODE then FDT_ERR_NODE
      else path_walk blob c (off_of c (s_at c)) (dropWhile slash path))"

text \<open>The end of the entry that starts at index \<open>i\<close> of a list of strings.\<close>

function entry_end :: "memory \<Rightarrow> int \<Rightarrow> int \<Rightarrow> int \<Rightarrow> int" where
  "entry_end m list len i = (if i < len \<and> m (list + i) \<noteq> 0 then entry_end m list len (i + 1) else i)"
  by pat_completeness auto
termination by (relation "measure (\<lambda>(m, list, len, i). nat (len - i))") auto

declare entry_end.simps [simp del]

lemma entry_end_ge: "i \<le> entry_end m list len i"
proof (induction m list len i rule: entry_end.induct)
  case (1 m list len i)
  then show ?case by (cases "i < len \<and> m (list + i) \<noteq> 0") (subst entry_end.simps, simp)+
qed

function match_loop :: "memory \<Rightarrow> int \<Rightarrow> int \<Rightarrow> string \<Rightarrow> int \<Rightarrow> bool" where
  "match_loop m list len want i =
    (if i < len then
       let e = entry_end m list len i in
       if e < len \<and> str_eq m (list + i) want then True
       else match_loop m list len want (e + 1)
     else False)"
  by pat_completeness auto
termination
proof (relation "measure (\<lambda>(m, list, len, want, i). nat (len - i))", goal_cases)
  case (2 m list len want i e)
  then show ?case using entry_end_ge [of i m list len] by auto
qed simp

declare match_loop.simps [simp del]

definition compatible_match :: "memory \<Rightarrow> int \<Rightarrow> u32 \<Rightarrow> string \<Rightarrow> bool" where
  "compatible_match m list len want = match_loop m list (uint len) want 0"

text \<open>
  The search keeps the nodes from the current one up to the root; the head of the
  list is \<open>stack[depth]\<close>.  The inner loop of the C code that steps over the siblings of
  a child that is too deep only changes a local variable, and is left out.
\<close>

fun climb :: "blob \<Rightarrow> int list \<Rightarrow> int list option" where
  "climb blob (cur # up # rest) =
    (let sib = fdt_next_sibling blob up cur in
     if sib \<noteq> FDT_ERR_NODE then Some (sib # up # rest) else climb blob (up # rest))"
| "climb blob st = None"

definition is_match :: "blob \<Rightarrow> ctx_t \<Rightarrow> string \<Rightarrow> int \<Rightarrow> int \<Rightarrow> bool" where
  "is_match blob c compatible previous_offset cur \<longleftrightarrow> cur > previous_offset \<and>
    (case fdt_getprop blob cur ''compatible'' of None \<Rightarrow> False
     | Some (cp, len) \<Rightarrow> compatible_match (base c) cp len compatible)"

partial_function (option) compatible_search :: "blob \<Rightarrow> ctx_t \<Rightarrow> string \<Rightarrow> int \<Rightarrow> int list \<Rightarrow> int option" where
  "compatible_search blob c compatible previous_offset stack =
    (let cur = hd stack in
     if is_match blob c compatible previous_offset cur then Some cur
     else let ch = fdt_first_child blob cur in
       if ch \<noteq> FDT_ERR_NODE then
         if int (length stack) \<ge> FDT_MAX_DEPTH then
           (if length stack = 1 then Some FDT_ERR_NODE
            else compatible_search blob c compatible previous_offset (tl stack))
         else compatible_search blob c compatible previous_offset (ch # stack)
       else (case climb blob stack of None \<Rightarrow> Some FDT_ERR_NODE
         | Some stack' \<Rightarrow> compatible_search blob c compatible previous_offset stack'))"

definition fdt_next_node_by_compatible_offset :: "blob \<Rightarrow> string \<Rightarrow> int \<Rightarrow> int option" where
  "fdt_next_node_by_compatible_offset blob compatible previous_offset =
    (case ctx_init blob of None \<Rightarrow> Some FDT_ERR_NODE
     | Some c \<Rightarrow>
        if \<not> ok c (s_at c) 4 \<or> rd_be32 (base c) (s_at c) \<noteq> FDT_BEGIN_NODE then Some FDT_ERR_NODE
        else compatible_search blob c compatible previous_offset [off_of c (s_at c)])"

definition fdt_node_by_compatible_offset :: "blob \<Rightarrow> string \<Rightarrow> int option" where
  "fdt_node_by_compatible_offset blob compatible =
    fdt_next_node_by_compatible_offset blob compatible FDT_ERR_NODE"

definition fdt_node_by_compatible :: "blob \<Rightarrow> string \<Rightarrow> int option option" where
  "fdt_node_by_compatible blob compatible =
    map_option (\<lambda>off. if off = FDT_ERR_NODE then None else Some off)
      (fdt_node_by_compatible_offset blob compatible)"

subsection \<open>Cell counts\<close>

definition own_cells :: "ctx_t \<Rightarrow> blob \<Rightarrow> int \<Rightarrow> string \<Rightarrow> u32 option" where
  "own_cells c blob node_off name = (case fdt_getprop blob node_off name of None \<Rightarrow> None
   | Some (v, len) \<Rightarrow> if len < 4 then None else Some (rd_be32 (base c) v))"

text \<open>A count found on the way up is kept; the first hit wins.\<close>

definition found_first :: "'a option \<Rightarrow> 'a option \<Rightarrow> 'a option" where
  "found_first found own = (case found of None \<Rightarrow> own | Some v \<Rightarrow> Some v)"

lemma parent_less: "0 \<le> cur \<Longrightarrow> fdt_parent_offset blob cur < cur"
  using fdt_parent_offset_before [of cur blob] by (cases "0 \<le> fdt_parent_offset blob cur") auto

function cells_up :: "blob \<Rightarrow> ctx_t \<Rightarrow> int \<Rightarrow> u32 option \<Rightarrow> u32 option \<Rightarrow> u32 option \<times> u32 option" where
  "cells_up blob c cur ac sc =
    (if 0 \<le> cur then
       let ac' = found_first ac (own_cells c blob cur ''#address-cells'');
           sc' = found_first sc (own_cells c blob cur ''#size-cells'');
           up = fdt_parent_offset blob cur
       in if ac' \<noteq> None \<and> sc' \<noteq> None then (ac', sc')
          else cells_up blob c up ac' sc'
     else (ac, sc))"
  by pat_completeness auto
termination
  by (relation "measure (\<lambda>(blob, c, cur, ac, sc). nat (cur + 1))") (auto simp: zless_imp_add1_zle parent_less)

declare cells_up.simps [simp del]

definition fdt_parent_cells :: "blob \<Rightarrow> int \<Rightarrow> (u32 \<times> u32) option" where
  "fdt_parent_cells blob node_offset = (case ctx_init blob of None \<Rightarrow> None
   | Some c \<Rightarrow>
      let (ac, sc) = cells_up blob c (fdt_parent_offset blob node_offset) None None
      in Some (case ac of None \<Rightarrow> 2 | Some v \<Rightarrow> v, case sc of None \<Rightarrow> 2 | Some v \<Rightarrow> v))"

definition fdt_cell_counts :: "blob \<Rightarrow> int \<Rightarrow> (int \<times> int) option" where
  "fdt_cell_counts blob node_offset =
    map_option (\<lambda>(ac, sc). (sint ac, sint sc)) (fdt_parent_cells blob node_offset)"

text \<open>The counts a node declares itself; the first component is the return value.\<close>

definition fdt_own_cell_counts :: "blob \<Rightarrow> int \<Rightarrow> bool \<times> int option \<times> int option" where
  "fdt_own_cell_counts blob node_offset = (case ctx_init blob of None \<Rightarrow> (False, None, None)
   | Some c \<Rightarrow>
      let ac = own_cells c blob node_offset ''#address-cells'';
          sc = own_cells c blob node_offset ''#size-cells''
      in (ac \<noteq> None \<or> sc \<noteq> None, map_option sint ac, map_option sint sc))"

subsection \<open>Ranges\<close>

record fdt_range_t =
  r_base :: u64
  r_size :: u64

fun reserved_loop :: "memory \<Rightarrow> u32 \<Rightarrow> u32 \<Rightarrow> nat \<Rightarrow> fdt_range_t list" where
  "reserved_loop m totalsize off 0 = []"
| "reserved_loop m totalsize off (Suc room) =
    (if off > totalsize \<or> totalsize - off < 16 then []
     else let addr = rd_be64 m (uint off); sz = rd_be64 m (uint off + 8) in
       if addr = 0 \<and> sz = 0 then []
       else \<lparr>r_base = addr, r_size = sz\<rparr> # reserved_loop m totalsize (off + 16) room)"

definition fdt_reserved_ranges :: "blob \<Rightarrow> nat \<Rightarrow> fdt_range_t list" where
  "fdt_reserved_ranges blob max_n = (case ctx_init blob of None \<Rightarrow> []
   | Some c \<Rightarrow> reserved_loop (base c) (rd_be32 (base c) 4) (rd_be32 (base c) 16) max_n)"

text \<open>
  The translation of an address by the windows of one bus: the first window that
  contains it, None when none does.
\<close>

fun window_loop :: "memory \<Rightarrow> int \<Rightarrow> u32 \<Rightarrow> u32 \<Rightarrow> u32 \<Rightarrow> u32 \<Rightarrow> u64 \<Rightarrow> nat \<Rightarrow> nat \<Rightarrow> u64 option" where
  "window_loop m ranges rentry own_ac ra rs a i 0 = None"
| "window_loop m ranges rentry own_ac ra rs a i (Suc left) =
    (let e = ranges + int i * uint rentry;
         cbase = rd_cells m e own_ac;
         pbase = rd_cells m (e + uint (own_ac * 4)) ra;
         rsize = rd_cells m (e + uint ((own_ac + ra) * 4)) rs
     in if a \<ge> cbase \<and> a < cbase + rsize then Some (pbase + (a - cbase))
        else window_loop m ranges rentry own_ac ra rs a (Suc i) left)"

definition or_two :: "u32 \<Rightarrow> u32" where
  "or_two v = (if v = 0 then 2 else v)"

definition through_bus :: "blob \<Rightarrow> ctx_t \<Rightarrow> int \<Rightarrow> int \<Rightarrow> u32 \<Rightarrow> u64 \<Rightarrow> u64 option" where
  "through_bus blob c cur ranges rlen a = (case fdt_parent_cells blob cur of None \<Rightarrow> None
   | Some (bus_ac, bus_sc) \<Rightarrow>
      let own_ac = or_two (case own_cells c blob cur ''#address-cells'' of None \<Rightarrow> 2 | Some v \<Rightarrow> v);
          own_sc = (case own_cells c blob cur ''#size-cells'' of None \<Rightarrow> 2 | Some v \<Rightarrow> v);
          ra = or_two bus_ac; rs = or_two own_sc;
          rentry = (own_ac + ra + rs) * 4
      in if rentry = 0 then None
         else window_loop (base c) ranges rentry own_ac ra rs a 0 (unat (rlen div rentry)))"

lemma up_measure_any:
  assumes "0 \<le> fdt_parent_offset blob cur"
  shows "nat (fdt_parent_offset blob cur) < (if cur < 0 then 2147483648 else nat cur)"
  using fdt_parent_offset_before [of cur blob] fdt_parent_offset_range [of blob cur] assms by auto

function translate_loop :: "blob \<Rightarrow> ctx_t \<Rightarrow> int \<Rightarrow> u64 \<Rightarrow> u64 option" where
  "translate_loop blob c cur a =
    (let parent = fdt_parent_offset blob cur in
     if parent < 0 then Some a
     else (case fdt_getprop blob cur ''ranges'' of None \<Rightarrow> translate_loop blob c parent a
       | Some (ranges, rlen) \<Rightarrow>
          if rlen = 0 then translate_loop blob c parent a
          else (case through_bus blob c cur ranges rlen a of None \<Rightarrow> None
            | Some a' \<Rightarrow> if parent = 0 then Some a' else translate_loop blob c parent a')))"
  by pat_completeness auto
termination
  by (relation "measure (\<lambda>(blob, c, cur, a). if cur < 0 then 2147483648 else nat cur)")
    (simp_all add: up_measure_any not_less del: if_split)

declare translate_loop.simps [simp del]

definition fdt_reg_to_cpu_addr :: "blob \<Rightarrow> int \<Rightarrow> u32 \<Rightarrow> fdt_range_t option" where
  "fdt_reg_to_cpu_addr blob node_offset index = (case ctx_init blob of None \<Rightarrow> None
   | Some c \<Rightarrow> (case fdt_parent_cells blob node_offset of None \<Rightarrow> None
      | Some (ac, sc) \<Rightarrow> (case fdt_getprop blob node_offset ''reg'' of None \<Rightarrow> None
         | Some (reg, len) \<Rightarrow>
            if ac = 0 then None
            else let entry = (ac + sc) * 4 in
              if entry = 0 \<or> (ucast (index + 1) * ucast entry :: u64) > ucast len then None
              else let at = reg + uint index * uint entry;
                       a = rd_cells (base c) at ac;
                       sz = (if sc \<noteq> 0 then rd_cells (base c) (at + uint (ac * 4)) sc else 0)
                in map_option (\<lambda>a'. \<lparr>r_base = a', r_size = sz\<rparr>) (translate_loop blob c node_offset a))))"

definition fdt_reg_to_addr :: "blob \<Rightarrow> int \<Rightarrow> (u64 \<times> u64) option" where
  "fdt_reg_to_addr blob node_offset =
    map_option (\<lambda>r. (r_base r, r_size r)) (fdt_reg_to_cpu_addr blob node_offset 0)"

subsection \<open>Memory banks and iteration\<close>

definition is_memory_name :: "memory \<Rightarrow> int \<Rightarrow> nat \<Rightarrow> bool" where
  "is_memory_name m p namelen \<longleftrightarrow> name_is m p ''memory'' \<and> (namelen = 6 \<or> m (p + 6) = of_char CHR ''@'')"

fun bank_loop :: "memory \<Rightarrow> int \<Rightarrow> u32 \<Rightarrow> u32 \<Rightarrow> u32 \<Rightarrow> nat \<Rightarrow> nat \<Rightarrow> nat \<Rightarrow> fdt_range_t list" where
  "bank_loop m reg entry ac sc i 0 room = []"
| "bank_loop m reg entry ac sc i left 0 = []"
| "bank_loop m reg entry ac sc i (Suc left) (Suc room) =
    (let e = reg + int i * uint entry in
     \<lparr>r_base = rd_cells m e ac, r_size = if sc \<noteq> 0 then rd_cells m (e + uint (ac * 4)) sc else 0\<rparr>
       # bank_loop m reg entry ac sc (Suc i) left room)"

text \<open>The ranges of one child of the root, with room for \<open>room\<close> of them.\<close>

definition child_banks :: "blob \<Rightarrow> ctx_t \<Rightarrow> int \<Rightarrow> nat \<Rightarrow> fdt_range_t list" where
  "child_banks blob c ch room = (case node_name c (ch + 4) of None \<Rightarrow> []
   | Some namelen \<Rightarrow>
      if namelen < 6 \<or> \<not> is_memory_name (base c) (ch + 4) namelen then []
      else (case fdt_parent_cells blob ch of None \<Rightarrow> []
        | Some (ac, sc) \<Rightarrow> (case fdt_getprop blob ch ''reg'' of None \<Rightarrow> []
           | Some (reg, len) \<Rightarrow>
              let entry = (ac + sc) * 4 in
              if ac = 0 \<or> entry = 0 then []
              else bank_loop (base c) reg entry ac sc 0 (unat (len div entry)) room)))"

function banks_loop :: "blob \<Rightarrow> ctx_t \<Rightarrow> int \<Rightarrow> int \<Rightarrow> nat \<Rightarrow> fdt_range_t list" where
  "banks_loop blob c root ch room =
    (if ch = FDT_ERR_NODE then []
     else let here = child_banks blob c ch room; next = fdt_next_sibling blob root ch in
       if next = FDT_ERR_NODE then here
       else here @ banks_loop blob c root next (room - length here))"
  by pat_completeness auto
termination
  by (relation "measure (\<lambda>(blob, c, root, ch, room). sibling_measure ch)") (auto simp: sibling_measure_less)

declare banks_loop.simps [simp del]

definition fdt_memory_ranges :: "blob \<Rightarrow> nat \<Rightarrow> fdt_range_t list" where
  "fdt_memory_ranges blob max_n = (case ctx_init blob of None \<Rightarrow> []
   | Some c \<Rightarrow>
      if \<not> ok c (s_at c) 4 \<or> rd_be32 (base c) (s_at c) \<noteq> FDT_BEGIN_NODE then []
      else let root = off_of c (s_at c) in banks_loop blob c root (fdt_first_child blob root) max_n)"

text \<open>The child found, 0 for none, and the cursor left behind.\<close>

definition fdt_next_child :: "blob \<Rightarrow> int \<Rightarrow> int \<Rightarrow> int \<times> int" where
  "fdt_next_child blob parent_offset cursor =
    (let c = (if cursor = 0 then fdt_first_child blob parent_offset
              else fdt_next_sibling blob parent_offset cursor)
     in if c = FDT_ERR_NODE then (0, 0) else (c, c))"

definition fdt_is_enabled :: "blob \<Rightarrow> int \<Rightarrow> bool" where
  "fdt_is_enabled blob node_offset = (case fdt_getprop blob node_offset ''status'' of None \<Rightarrow> True
   | Some (st, len) \<Rightarrow>
      if len = 0 then True
      else let m = the blob in
        if len \<ge> 5 \<and> name_is m st ''okay'' then True
        else len \<ge> 3 \<and> name_is m st ''ok'' \<and> (m (st + 2) = 0 \<or> len = 3))"

end
