(* ===== verification/Fdt_Tree.thy ===== *)
theory Fdt_Tree
  imports Fdt
begin

text \<open>
  Device trees as a datatype, their flattened form as the Devicetree Specification lays
  it out, and what the walks of \<open>lib/fdt.c\<close> find in it: each walk is related to the tree
  by one lemma on the bytes of a subtree.
\<close>

subsection \<open>The flattened form of a tree\<close>

datatype dt_node = DtNode (dt_name: string) (dt_props: "(string \<times> bytes) list") (dt_children: "dt_node list")

definition be32 :: "u32 \<Rightarrow> bytes" where
  "be32 w = [ucast (drop_bit 24 w), ucast (drop_bit 16 w), ucast (drop_bit 8 w), ucast w]"

definition pad4 :: "bytes \<Rightarrow> bytes" where
  "pad4 bs = bs @ replicate ((length bs + 3) div 4 * 4 - length bs) 0"

definition c_string :: "string \<Rightarrow> bytes" where
  "c_string nm = map of_char nm @ [0]"

text \<open>The argument \<open>tab\<close> is the offset of a property name in the strings block.\<close>

fun enc_prop :: "(string \<Rightarrow> u32) \<Rightarrow> string \<times> bytes \<Rightarrow> bytes" where
  "enc_prop tab (nm, v) = be32 FDT_PROP @ be32 (of_nat (length v)) @ be32 (tab nm) @ pad4 v"

definition enc_props :: "(string \<Rightarrow> u32) \<Rightarrow> (string \<times> bytes) list \<Rightarrow> bytes" where
  "enc_props tab ps = concat (map (enc_prop tab) ps)"

fun enc_node :: "(string \<Rightarrow> u32) \<Rightarrow> dt_node \<Rightarrow> bytes" where
  "enc_node tab (DtNode nm ps cs) =
    be32 FDT_BEGIN_NODE @ pad4 (c_string nm) @ enc_props tab ps
      @ concat (map (enc_node tab) cs) @ be32 FDT_END_NODE"

abbreviation enc_forest :: "(string \<Rightarrow> u32) \<Rightarrow> dt_node list \<Rightarrow> bytes" where
  "enc_forest tab cs \<equiv> concat (map (enc_node tab) cs)"

fun names_ok :: "dt_node \<Rightarrow> bool" where
  "names_ok (DtNode nm ps cs) \<longleftrightarrow> CHR 0x00 \<notin> set nm \<and> (\<forall>t \<in> set cs. names_ok t)"

fun height :: "dt_node \<Rightarrow> nat" where
  "height (DtNode nm ps cs) = Suc (foldr max (map height cs) 0)"

subsection \<open>Bytes in memory\<close>

fun holds :: "memory \<Rightarrow> int \<Rightarrow> bytes \<Rightarrow> bool" where
  "holds m p [] = True"
| "holds m p (b # bs) \<longleftrightarrow> m p = b \<and> holds m (p + 1) bs"

lemma holds_append [simp]:
  "holds m p (xs @ ys) \<longleftrightarrow> holds m p xs \<and> holds m (p + int (length xs)) ys"
  by (induction xs arbitrary: p) (auto simp: algebra_simps)

lemma length_be32 [simp]: "length (be32 w) = 4"
  by (simp add: be32_def)

lemma rd_be32_holds [simp]:
  assumes "holds m p (be32 w)"
  shows "rd_be32 m p = w"
proof (rule bit_word_eqI)
  fix n assume n: "n < LENGTH(32)"
  from assms have b: "m p = ucast (drop_bit 24 w)" "m (p + 1) = ucast (drop_bit 16 w)"
    "m (p + 2) = ucast (drop_bit 8 w)" "m (p + 3) = ucast w"
    by (simp_all add: be32_def add.commute)
  show "bit (rd_be32 m p) n = bit w n"
  proof -
    consider "n < 8" | "8 \<le> n" "n < 16" | "16 \<le> n" "n < 24" | "24 \<le> n" by linarith
    then show ?thesis using n unfolding rd_be32_def b by cases (auto simp: bit_simps less_diff_conv2)
  qed
qed

lemma uint_align4: "uint (v + 3) = uint v + 3 \<Longrightarrow> uint (align4 v) = (uint v + 3) div 4 * 4"
proof -
  assume nw: "uint (v + 3) = uint v + 3"
  have m: "(3 :: u32) = mask 2" by (simp add: mask_eq_exp_minus_1)
  have tk: "take_bit LENGTH(32) (uint w) = uint w" for w :: u32 using bintr_uint [of 32 w] by simp
  have "align4 v = push_bit 2 (drop_bit 2 (v + 3))"
    unfolding align4_def m by (rule bit_word_eqI) (auto simp: bit_simps not_less simp flip: add_2_eq_Suc)
  moreover have "take_bit 32 (uint v + 3) = uint v + 3" using bintr_uint [of 32 "v + 3"] nw by simp
  ultimately have "uint (align4 v) = take_bit 32 ((uint v + 3) div 4 * 4)"
    by (simp only: unsigned_push_bit_eq unsigned_drop_bit_eq tk nw)
      (simp add: push_bit_eq_mult drop_bit_eq_div)
  moreover have "(uint v + 3) div 4 * 4 \<le> uint (v + 3)" unfolding nw by (simp add: minus_mod_eq_div_mult [symmetric])
  moreover have "uint (v + 3) < 2 ^ 32" using uint_bounded [of "v + 3"] by simp
  moreover have "0 \<le> (uint v + 3) div 4" by (rule pos_imp_zdiv_nonneg_iff [THEN iffD2]) simp_all
  ultimately show ?thesis using take_bit_int_eq_self [of "(uint v + 3) div 4 * 4" 32] by simp
qed

lemma align4_length:
  assumes "n + 3 < 4294967296"
  shows "uint (align4 (of_nat n)) = int ((n + 3) div 4 * 4)"
proof -
  have n: "uint (of_nat k :: u32) = int k" if "k < 4294967296" for k :: nat
    using that by (simp add: unsigned_of_nat take_bit_nat_eq_self)
  have "of_nat n + 3 = (of_nat (n + 3) :: u32)" by simp
  then have e: "uint (of_nat n + 3 :: u32) = int (n + 3)" using assms n [of "n + 3"] by (simp only:)
  moreover have k: "uint (of_nat n :: u32) = int n" using assms n [of n] by linarith
  ultimately have "uint (align4 (of_nat n)) = (int n + 3) div 4 * 4"
    using uint_align4 [of "of_nat n"] by simp
  also have "\<dots> = int ((n + 3) div 4 * 4)" by (simp add: zdiv_int)
  finally show ?thesis .
qed

lemma round_up: "n \<le> (n + 3) div 4 * (4 :: nat)"
  by linarith

lemma length_pad4: "length bs + 3 < 4294967296 \<Longrightarrow> int (length (pad4 bs)) = uint (align4 (of_nat (length bs)))"
  by (simp add: align4_length pad4_def round_up)

lemma pad4_ge: "length bs \<le> length (pad4 bs)"
  by (simp add: pad4_def)

lemma length_c_string [simp]: "length (c_string nm) = Suc (length nm)"
  by (simp add: c_string_def)

text \<open>Characters and bytes.\<close>

lemma of_char_u8_inj [simp]: "of_char x = (of_char y :: u8) \<longleftrightarrow> x = y"
proof
  assume e: "of_char x = (of_char y :: u8)"
  have "(of_char x :: nat) = unat (of_char x :: u8)" by (rule unat_of_char [symmetric])
  also have "\<dots> = unat (of_char y :: u8)" by (simp only: e)
  also have "\<dots> = of_char y" by (rule unat_of_char)
  finally show "x = y" by (simp only: of_char_eq_iff)
qed simp

lemma of_char_u8_0 [simp]: "of_char x = (0 :: u8) \<longleftrightarrow> x = CHR 0x00"
proof -
  have "of_char (CHR 0x00) = (0 :: u8)" by (simp only: of_char_Char horner_sum_simps of_bool_eq mult_zero_right add_0_right)
  then show ?thesis using of_char_u8_inj [of x "CHR 0x00"] by (simp only:)
qed

subsection \<open>The pieces of a flattened node\<close>

definition stored :: "ctx_t \<Rightarrow> int \<Rightarrow> bytes \<Rightarrow> bool" where
  "stored c p bs \<longleftrightarrow> s_at c \<le> p \<and> p + int (length bs) \<le> send c \<and> holds (base c) p bs"

lemma stored_append:
  "stored c p (xs @ ys) \<longleftrightarrow> stored c p xs \<and> stored c (p + int (length xs)) ys"
  by (auto simp: stored_def)

text \<open>The structure block is well formed and below the sign bit of an offset.\<close>

definition small_ctx :: "ctx_t \<Rightarrow> bool" where
  "small_ctx c \<longleftrightarrow> ctx_wf c \<and> send c < 2147483648"

lemma stored_be32:
  assumes "stored c p (be32 w)"
  shows "ok c p 4" "rd_be32 (base c) p = w"
  using assms by (auto simp: stored_def ok_def)

lemma stored_offset: "small_ctx c \<Longrightarrow> stored c p (be32 w) \<Longrightarrow> off_of c p = p"
  by (auto simp: stored_def small_ctx_def ctx_wf_def)

lemma stored_length:
  assumes "small_ctx c" "stored c p bs"
  shows "length bs < 2147483648"
  using assms by (auto simp: stored_def small_ctx_def ctx_wf_def)

lemma name_scan_stored:
  assumes "stored c (p + int n) (map of_char nm @ [0])" "CHR 0x00 \<notin> set nm"
  shows "name_scan c p n = Some (n + length nm)"
  using assms
proof (induction nm arbitrary: n)
  case Nil
  then show ?case by (subst name_scan.simps) (simp add: stored_def ok_def)
next
  case (Cons x nm)
  then have "name_scan c p (Suc n) = Some (Suc n + length nm)"
    by (intro Cons.IH) (auto simp: stored_def algebra_simps)
  then show ?case using Cons.prems by (subst name_scan.simps) (auto simp: stored_def ok_def)
qed

lemma stored_name:
  assumes "small_ctx c" "stored c p (pad4 (c_string nm))" "CHR 0x00 \<notin> set nm"
  shows "node_name c p = Some (length nm)" "name_room (length nm) = int (length (pad4 (c_string nm)))"
proof -
  have "stored c p (c_string nm)" using assms(2) unfolding pad4_def stored_append by simp
  then show "node_name c p = Some (length nm)"
    using name_scan_stored [of c p 0 nm] assms(3) by (simp add: node_name_def c_string_def)
  have "length (c_string nm) + 3 < 4294967296"
    using stored_length [OF assms(1,2)] pad4_ge [of "c_string nm"] by simp
  from length_pad4 [OF this] show "name_room (length nm) = int (length (pad4 (c_string nm)))"
    by (simp add: add.commute)
qed

lemma stored_prop:
  assumes "small_ctx c" "stored c p (enc_prop tab (nm, v))"
  shows "ok c p 4" "rd_be32 (base c) p = FDT_PROP" "ok c (p + 4) 8" "ok c p 8"
    "rd_be32 (base c) (p + 4) = of_nat (length v)" "rd_be32 (base c) (p + 8) = tab nm"
    "ok c (p + 12) (uint (of_nat (length v) :: u32))" "uint (of_nat (length v) :: u32) = int (length v)"
    "holds (base c) (p + 12) v"
    "12 + uint (align4 (of_nat (length v))) = int (length (enc_prop tab (nm, v)))"
proof -
  from assms(2) have t: "stored c p (be32 FDT_PROP)" "stored c (p + 4) (be32 (of_nat (length v)))"
    "stored c (p + 8) (be32 (tab nm))" "stored c (p + 12) (pad4 v)"
    by (simp_all add: stored_append algebra_simps)
  note l = stored_length [OF assms(1) t(4)]
  show "ok c p 4" "rd_be32 (base c) p = FDT_PROP" "rd_be32 (base c) (p + 4) = of_nat (length v)"
    "rd_be32 (base c) (p + 8) = tab nm"
    using stored_be32 t by blast+
  show "ok c (p + 4) 8" "ok c p 8" using t by (auto simp: stored_def ok_def)
  have lv: "length v < 2147483648" using l pad4_ge [of v] by linarith
  then show u: "uint (of_nat (length v) :: u32) = int (length v)"
    by (simp add: unsigned_of_nat take_bit_nat_eq_self)
  show "holds (base c) (p + 12) v" using t(4) by (simp add: stored_def pad4_def)
  show "ok c (p + 12) (uint (of_nat (length v) :: u32))"
    unfolding u using t(4) pad4_ge [of v] by (auto simp: stored_def ok_def)
  show "12 + uint (align4 (of_nat (length v))) = int (length (enc_prop tab (nm, v)))"
    using length_pad4 [of v] lv by simp
qed

lemma stored_node:
  assumes "small_ctx c" "stored c p (enc_node tab (DtNode nm ps cs))" "names_ok (DtNode nm ps cs)"
  obtains q r where "ok c p 4" "rd_be32 (base c) p = FDT_BEGIN_NODE" "off_of c p = p"
    "node_name c (p + 4) = Some (length nm)" "p + 4 + name_room (length nm) = q"
    "stored c q (enc_props tab ps)" "q + int (length (enc_props tab ps)) = r"
    "stored c r (enc_forest tab cs)" "stored c (r + int (length (enc_forest tab cs))) (be32 FDT_END_NODE)"
    "p + int (length (enc_node tab (DtNode nm ps cs))) = r + int (length (enc_forest tab cs)) + 4"
proof -
  from assms(2) have t: "stored c p (be32 FDT_BEGIN_NODE)" "stored c (p + 4) (pad4 (c_string nm))"
    by (simp_all add: stored_append)
  let ?q = "p + 4 + int (length (pad4 (c_string nm)))"
  have n: "CHR 0x00 \<notin> set nm" using assms(3) by simp
  note nn = stored_name [OF assms(1) t(2) n]
  show thesis
    by (rule that [OF stored_be32 [OF t(1)] stored_offset [OF assms(1) t(1)] nn(1), of ?q
          "?q + int (length (enc_props tab ps))"])
      (use assms(2) nn(2) in \<open>simp_all add: stored_append algebra_simps\<close>)
qed

subsection \<open>Walking over properties and subtrees\<close>

lemma over_props:
  assumes "\<And>p nm v. stored c p (enc_prop tab (nm, v)) \<Longrightarrow> f p = f (p + int (length (enc_prop tab (nm, v))))"
    and "stored c p (enc_props tab ps)"
  shows "f p = f (p + int (length (enc_props tab ps)))"
  using assms(2)
proof (induction ps arbitrary: p)
  case (Cons x ps)
  obtain nm v where x: "x = (nm, v)" by (cases x)
  have st: "stored c p (enc_prop tab x)" "stored c (p + int (length (enc_prop tab x))) (enc_props tab ps)"
    using Cons.prems by (simp_all add: enc_props_def stored_append)
  have "f p = f (p + int (length (enc_prop tab x)))" using assms(1) st(1) x by simp
  also have "\<dots> = f (p + int (length (enc_prop tab x)) + int (length (enc_props tab ps)))"
    by (rule Cons.IH [OF st(2)])
  finally show ?case by (simp add: enc_props_def algebra_simps)
qed (simp add: enc_props_def)

lemma skip_props:
  assumes "small_ctx c" "stored c p (enc_props tab ps)"
  shows "skip_loop c p d = skip_loop c (p + int (length (enc_props tab ps))) d"
proof (rule over_props [OF _ assms(2)])
  fix p nm v assume st: "stored c p (enc_prop tab (nm, v))"
  note P = stored_prop [OF assms(1) st]
  have e: "p + 4 + 8 = p + 12" by simp
  have "skip_loop c p d = skip_loop c (p + 12 + uint (align4 (of_nat (length v)))) d"
    using skip_step(4) [OF P(1,2), unfolded e, of d] P(3,5,7) by simp
  then show "skip_loop c p d = skip_loop c (p + int (length (enc_prop tab (nm, v)))) d"
    by (simp only: P(10) [symmetric] add.assoc)
qed

lemma child_props:
  assumes "small_ctx c" "stored c p (enc_props tab ps)"
  shows "first_child_loop c p = first_child_loop c (p + int (length (enc_props tab ps)))"
proof (rule over_props [OF _ assms(2)])
  fix p nm v assume st: "stored c p (enc_prop tab (nm, v))"
  note P = stored_prop [OF assms(1) st]
  show "first_child_loop c p = first_child_loop c (p + int (length (enc_prop tab (nm, v))))"
    using child_step(2) [OF P(1,2)] P(5,7) by (simp only: P(10) [symmetric])
qed

lemma parent_props:
  assumes "small_ctx c" "stored c p (enc_props tab ps)"
  shows "parent_loop c t p d st = parent_loop c t (p + int (length (enc_props tab ps))) d st"
proof (rule over_props [where f = "\<lambda>p. parent_loop c t p d st", OF _ assms(2)])
  fix p nm v assume st: "stored c p (enc_prop tab (nm, v))"
  note P = stored_prop [OF assms(1) st]
  have e: "p + 4 + 8 = p + 12" "p + 4 + (8 + k) = p + (12 + k)" for k by simp_all
  show "parent_loop c t p d st' = parent_loop c t (p + int (length (enc_prop tab (nm, v)))) d st'" for st'
    using parent_step(4) [OF P(1,2), unfolded e, of t d st'] P(5,7) by (simp only: P(10) [symmetric])
qed

text \<open>\<open>skip_node\<close> lands behind the node it is given.\<close>

lemma skip_forest:
  assumes "small_ctx c" "\<And>t p d. t \<in> set ts \<Longrightarrow> stored c p (enc_node tab t) \<Longrightarrow> 1 \<le> d \<Longrightarrow>
      skip_loop c p d = skip_loop c (p + int (length (enc_node tab t))) d"
    and "stored c p (enc_forest tab ts)" "1 \<le> d"
  shows "skip_loop c p d = skip_loop c (p + int (length (enc_forest tab ts))) d"
  using assms(2,3)
proof (induction ts arbitrary: p)
  case (Cons t ts)
  have st: "stored c p (enc_node tab t)" "stored c (p + int (length (enc_node tab t))) (enc_forest tab ts)"
    using Cons.prems by (simp_all add: stored_append)
  have "skip_loop c p d = skip_loop c (p + int (length (enc_node tab t))) d"
    using Cons.prems(1) st(1) assms(4) by simp
  also have "\<dots> = skip_loop c (p + int (length (enc_node tab t)) + int (length (enc_forest tab ts))) d"
    by (rule Cons.IH [OF _ st(2)]) (use Cons.prems(1) in simp)
  finally show ?case by (simp add: algebra_simps)
qed simp

lemma skip_tree:
  assumes "small_ctx c" "stored c p (enc_node tab t)" "names_ok t" "0 \<le> d"
  shows "skip_loop c p d =
    (if d = 0 then p + int (length (enc_node tab t)) else skip_loop c (p + int (length (enc_node tab t))) d)"
  using assms(2-)
proof (induction t arbitrary: p d)
  case (DtNode nm ps cs)
  obtain q r where n: "ok c p 4" "rd_be32 (base c) p = FDT_BEGIN_NODE" "off_of c p = p"
    "node_name c (p + 4) = Some (length nm)" "p + 4 + name_room (length nm) = q"
    "stored c q (enc_props tab ps)" "q + int (length (enc_props tab ps)) = r"
    "stored c r (enc_forest tab cs)" "stored c (r + int (length (enc_forest tab cs))) (be32 FDT_END_NODE)"
    "p + int (length (enc_node tab (DtNode nm ps cs))) = r + int (length (enc_forest tab cs)) + 4"
    by (rule stored_node [OF assms(1) DtNode.prems(1,2)])
  let ?e = "r + int (length (enc_forest tab cs))"
  note e = stored_be32 [OF n(9)]
  have "skip_loop c p d = skip_loop c r (d + 1)"
    unfolding skip_step(1) [OF n(1,2,4)] n(5) using skip_props [OF assms(1) n(6)] n(7) by simp
  also have "\<dots> = skip_loop c ?e (d + 1)"
    by (rule skip_forest [OF assms(1) _ n(8)])
      (use DtNode.IH DtNode.prems(2,3) in \<open>auto\<close>)
  also have "\<dots> = (if d = 0 then ?e + 4 else skip_loop c (?e + 4) d)"
  proof (cases "d = 0")
    case True
    have "off_of c (?e + 4) = ?e + 4"
      using n(9) assms(1) by (auto simp: stored_def small_ctx_def ctx_wf_def)
    then show ?thesis using skip_step(2) [OF e, of "d + 1"] True by simp
  qed (use skip_step(3) [OF e, of "d + 1"] DtNode.prems(3) in simp)
  finally show ?case unfolding n(10) .
qed

text \<open>A subtree without the node looked for leaves the stack up to the current depth alone.\<close>

definition keeps :: "int \<Rightarrow> int list \<Rightarrow> int list \<Rightarrow> bool" where
  "keeps d st st' \<longleftrightarrow> length st' = length st \<and> (\<forall>i. i \<le> nat d \<longrightarrow> st' ! i = st ! i)"

lemma keeps_refl [simp]: "keeps d st st"
  by (simp add: keeps_def)

lemma keeps_trans: "keeps d st st' \<Longrightarrow> keeps d st' st'' \<Longrightarrow> keeps d st st''"
  by (simp add: keeps_def)

lemma keeps_push: "0 \<le> d \<Longrightarrow> keeps d st (push st (d + 1) x)"
  by (auto simp: keeps_def nth_list_update)

lemma keeps_mono: "keeps d' st st' \<Longrightarrow> d \<le> d' \<Longrightarrow> keeps d st st'"
  unfolding keeps_def using nat_mono order_trans by blast

definition outside :: "int \<Rightarrow> int \<Rightarrow> nat \<Rightarrow> bool" where
  "outside tg p n \<longleftrightarrow> tg < p \<or> p + int n \<le> tg"

lemma parent_forest:
  assumes "\<And>t p st. t \<in> set ts \<Longrightarrow> stored c p (enc_node tab t) \<Longrightarrow> outside tg p (length (enc_node tab t)) \<Longrightarrow>
      \<exists>st'. keeps d st st' \<and> parent_loop c tg p d st = parent_loop c tg (p + int (length (enc_node tab t))) d st'"
    and "stored c p (enc_forest tab ts)" "outside tg p (length (enc_forest tab ts))"
  shows "\<exists>st'. keeps d st st' \<and> parent_loop c tg p d st = parent_loop c tg (p + int (length (enc_forest tab ts))) d st'"
  using assms
proof (induction ts arbitrary: p st)
  case (Cons t ts)
  let ?q = "p + int (length (enc_node tab t))"
  have st: "stored c p (enc_node tab t)" "stored c ?q (enc_forest tab ts)"
    using Cons.prems by (simp_all add: stored_append)
  have o: "outside tg p (length (enc_node tab t))" "outside tg ?q (length (enc_forest tab ts))"
    using Cons.prems(3) by (auto simp: outside_def)
  obtain st' where s1: "keeps d st st'" "parent_loop c tg p d st = parent_loop c tg ?q d st'"
    using Cons.prems(1) [OF _ st(1) o(1)] by auto
  obtain st'' where s2: "keeps d st' st''"
    "parent_loop c tg ?q d st' = parent_loop c tg (?q + int (length (enc_forest tab ts))) d st''"
    using Cons.IH [OF _ st(2) o(2), of st'] Cons.prems(1) by auto
  show ?case using keeps_trans [OF s1(1) s2(1)] s1(2) s2(2) by (auto simp: algebra_simps)
next
  case Nil
  show ?case by (rule exI [of _ st]) simp
qed

lemma parent_tree:
  assumes "small_ctx c" "stored c p (enc_node tab t)" "names_ok t" "0 \<le> d"
    and "outside tg p (length (enc_node tab t))"
  shows "\<exists>st'. keeps d st st' \<and>
    parent_loop c tg p d st = parent_loop c tg (p + int (length (enc_node tab t))) d st'"
  using assms(2-)
proof (induction t arbitrary: p d st)
  case (DtNode nm ps cs)
  obtain q r where n: "ok c p 4" "rd_be32 (base c) p = FDT_BEGIN_NODE" "off_of c p = p"
    "node_name c (p + 4) = Some (length nm)" "p + 4 + name_room (length nm) = q"
    "stored c q (enc_props tab ps)" "q + int (length (enc_props tab ps)) = r"
    "stored c r (enc_forest tab cs)" "stored c (r + int (length (enc_forest tab cs))) (be32 FDT_END_NODE)"
    "p + int (length (enc_node tab (DtNode nm ps cs))) = r + int (length (enc_forest tab cs)) + 4"
    by (rule stored_node [OF assms(1) DtNode.prems(1,2)])
  let ?e = "r + int (length (enc_forest tab cs))" and ?st = "push st (d + 1) p"
  note e = stored_be32 [OF n(9)]
  have ne: "off_of c p \<noteq> tg" and o: "outside tg r (length (enc_forest tab cs))"
    using DtNode.prems(4) n(3,5,7,10) by (auto simp: outside_def)
  have "parent_loop c tg p d st = parent_loop c tg r (d + 1) ?st"
    using parent_step(1) [OF n(1,2,4) ne, of d st] parent_props [OF assms(1) n(6), of tg "d + 1" ?st] n(3,5,7)
    by (simp only:)
  moreover obtain st' where s: "keeps (d + 1) ?st st'"
    "parent_loop c tg r (d + 1) ?st = parent_loop c tg ?e (d + 1) st'"
    using parent_forest [OF _ n(8) o, of "d + 1" ?st] DtNode.IH DtNode.prems(2,3) by fastforce
  moreover have "parent_loop c tg ?e (d + 1) st' = parent_loop c tg (?e + 4) d st'"
    using parent_step(3) [OF e, of "d + 1"] DtNode.prems(3) by simp
  ultimately have "parent_loop c tg p d st = parent_loop c tg (?e + 4) d st'" by simp
  moreover have "keeps d st st'"
    using keeps_trans [OF keeps_push [OF DtNode.prems(3)] keeps_mono [OF s(1)]] by simp
  ultimately show ?case unfolding n(10) by blast
qed

subsection \<open>Nodes by their path\<close>

definition header_len :: "(string \<Rightarrow> u32) \<Rightarrow> dt_node \<Rightarrow> nat" where
  "header_len tab t = 4 + length (pad4 (c_string (dt_name t))) + length (enc_props tab (dt_props t))"

definition child_at :: "(string \<Rightarrow> u32) \<Rightarrow> dt_node \<Rightarrow> int \<Rightarrow> nat \<Rightarrow> int" where
  "child_at tab t p i = p + int (header_len tab t) + int (length (enc_forest tab (take i (dt_children t))))"

text \<open>The node at a path of child indices, with its offset.\<close>

fun subnode :: "(string \<Rightarrow> u32) \<Rightarrow> dt_node \<Rightarrow> int \<Rightarrow> nat list \<Rightarrow> (dt_node \<times> int) option" where
  "subnode tab t p [] = Some (t, p)"
| "subnode tab t p (i # is) =
    (if i < length (dt_children t) then subnode tab (dt_children t ! i) (child_at tab t p i) is else None)"

lemma subnode_append:
  "subnode tab t p (is @ js) = (case subnode tab t p is of None \<Rightarrow> None | Some (u, q) \<Rightarrow> subnode tab u q js)"
  by (induction "is" arbitrary: t p) auto

lemma stored_child:
  assumes "stored c p (enc_node tab t)" "i < length (dt_children t)"
  shows "stored c (child_at tab t p i) (enc_node tab (dt_children t ! i))"
    "child_at tab t p i + int (length (enc_node tab (dt_children t ! i))) = child_at tab t p (Suc i)"
    "child_at tab t p (Suc i) + 4 \<le> p + int (length (enc_node tab t))"
proof -
  obtain nm ps cs where t: "t = DtNode nm ps cs" by (cases t)
  have cs: "cs = take i cs @ cs ! i # drop (Suc i) cs" using assms(2) t by (simp add: id_take_nth_drop)
  have f: "enc_forest tab cs = enc_forest tab (take i cs) @ enc_node tab (cs ! i) @ enc_forest tab (drop (Suc i) cs)"
    by (subst cs) simp
  show "stored c (child_at tab t p i) (enc_node tab (dt_children t ! i))"
    using assms(1) by (simp add: t f stored_append child_at_def header_len_def algebra_simps)
  show "child_at tab t p i + int (length (enc_node tab (dt_children t ! i))) = child_at tab t p (Suc i)"
    using assms(2) by (simp add: child_at_def t take_Suc_conv_app_nth)
  moreover have "length (enc_forest tab cs) =
      length (enc_forest tab (take (Suc i) cs)) + length (enc_forest tab (drop (Suc i) cs))"
    using f assms(2) by (simp add: t take_Suc_conv_app_nth)
  ultimately show "child_at tab t p (Suc i) + 4 \<le> p + int (length (enc_node tab t))"
    by (simp add: t child_at_def header_len_def)
qed

lemma child_at_inside: "p < child_at tab t p i"
  by (simp add: child_at_def header_len_def)

lemma names_ok_child: "names_ok t \<Longrightarrow> i < length (dt_children t) \<Longrightarrow> names_ok (dt_children t ! i)"
  by (cases t) simp

lemma subnode_stored:
  assumes "subnode tab t p is = Some (u, q)" "stored c p (enc_node tab t)" "names_ok t"
  shows "stored c q (enc_node tab u)" "names_ok u" "p \<le> q"
    "q + int (length (enc_node tab u)) \<le> p + int (length (enc_node tab t))"
proof -
  have "stored c q (enc_node tab u) \<and> names_ok u \<and> p \<le> q \<and>
    q + int (length (enc_node tab u)) \<le> p + int (length (enc_node tab t))"
    using assms
  proof (induction "is" arbitrary: t p)
    case (Cons i js)
    then have i: "i < length (dt_children t)" "subnode tab (dt_children t ! i) (child_at tab t p i) js = Some (u, q)"
      by (auto split: if_splits)
    note ch = stored_child [OF Cons.prems(2) i(1)]
    note IH = Cons.IH [OF i(2) ch(1) names_ok_child [OF Cons.prems(3) i(1)]]
    show ?case using IH ch child_at_inside [of p tab t i] by auto
  qed auto
  then show "stored c q (enc_node tab u)" "names_ok u" "p \<le> q"
    "q + int (length (enc_node tab u)) \<le> p + int (length (enc_node tab t))" by auto
qed

text \<open>From the start of a node to its child \<open>i\<close>.\<close>

lemma parent_to_child:
  assumes "small_ctx c" "stored c p (enc_node tab t)" "names_ok t" "-1 \<le> d"
    and i: "i < length (dt_children t)" and tg: "child_at tab t p i \<le> tg"
  shows "\<exists>st'. keeps (d + 1) (push st (d + 1) p) st' \<and>
    parent_loop c tg p d st = parent_loop c tg (child_at tab t p i) (d + 1) st'"
proof -
  obtain nm ps cs where t: "t = DtNode nm ps cs" by (cases t)
  obtain q r where n: "ok c p 4" "rd_be32 (base c) p = FDT_BEGIN_NODE" "off_of c p = p"
    "node_name c (p + 4) = Some (length nm)" "p + 4 + name_room (length nm) = q"
    "stored c q (enc_props tab ps)" "q + int (length (enc_props tab ps)) = r"
    "stored c r (enc_forest tab cs)" "stored c (r + int (length (enc_forest tab cs))) (be32 FDT_END_NODE)"
    "p + int (length (enc_node tab (DtNode nm ps cs))) = r + int (length (enc_forest tab cs)) + 4"
    using stored_node [OF assms(1) assms(2) [unfolded t] assms(3) [unfolded t]] by metis
  let ?st = "push st (d + 1) p" and ?f = "enc_forest tab (take i cs)"
  have r: "child_at tab t p i = r + int (length ?f)"
  proof -
    have "stored c (p + 4) (pad4 (c_string nm))" using assms(2) by (simp add: t stored_append)
    from stored_name(2) [OF assms(1) this] assms(3)
    show ?thesis using n(5,7) by (simp add: t child_at_def header_len_def)
  qed
  have ne: "off_of c p \<noteq> tg" using n(3) tg child_at_inside [of p tab t i] by simp
  have "enc_forest tab cs = ?f @ enc_forest tab (drop i cs)"
    by (metis append_take_drop_id concat_append map_append)
  then have f: "stored c r ?f" using n(8) by (simp add: stored_append)
  have o: "outside tg r (length ?f)" using tg r by (simp add: outside_def)
  have sub: "names_ok u" if "u \<in> set (take i cs)" for u
    using that assms(3) in_set_takeD [of u i cs] by (simp add: t)
  have d: "0 \<le> d + 1" using assms(4) by simp
  have "\<exists>st'. keeps (d + 1) ?st st' \<and>
      parent_loop c tg r (d + 1) ?st = parent_loop c tg (r + int (length ?f)) (d + 1) st'"
    by (rule parent_forest [OF _ f o]) (rule parent_tree [OF assms(1) _ sub d])
  then obtain st' where s: "keeps (d + 1) ?st st'"
    "parent_loop c tg r (d + 1) ?st = parent_loop c tg (r + int (length ?f)) (d + 1) st'" by blast
  have "parent_loop c tg p d st = parent_loop c tg r (d + 1) ?st"
    using parent_step(1) [OF n(1,2,4) ne, of d st] parent_props [OF assms(1) n(6), of tg "d + 1" ?st] n(3,5,7)
    by (simp only:)
  then show ?thesis using s r by auto
qed

lemma parent_descent:
  assumes "small_ctx c" "stored c p (enc_node tab t)" "names_ok t" "-1 \<le> d" "length st = 16"
    and "subnode tab t p js = Some (u, q)" "i < length (dt_children u)"
    and "d + 1 + int (length js) < FDT_MAX_DEPTH"
  shows "parent_loop c (child_at tab u q i) p d st = q"
  using assms(2-)
proof (induction js arbitrary: t p d st)
  case Nil
  let ?ch = "child_at tab t p i"
  from Nil have u: "u = t" "q = p" and i: "i < length (dt_children t)" by simp_all
  obtain st' where s: "keeps (d + 1) (push st (d + 1) p) st'"
    "parent_loop c ?ch p d st = parent_loop c ?ch ?ch (d + 1) st'"
    using parent_to_child [OF assms(1) Nil.prems(1,2,3) i, of ?ch st] by auto
  obtain nm ps cs where k: "dt_children t ! i = DtNode nm ps cs" by (cases "dt_children t ! i")
  note ch = stored_child(1) [OF Nil.prems(1) i, unfolded k]
  obtain n: "ok c ?ch 4" "rd_be32 (base c) ?ch = FDT_BEGIN_NODE" "off_of c ?ch = ?ch"
    "node_name c (?ch + 4) = Some (length nm)"
    using stored_node [OF assms(1) ch names_ok_child [OF Nil.prems(2) i, unfolded k]] by metis
  have d: "0 \<le> d + 1" "d + 1 < FDT_MAX_DEPTH" using Nil.prems(3,7) by simp_all
  then have nd: "nat (d + 1) < 16" "nat (d + 2) \<noteq> nat (d + 1)"
    by (simp_all add: FDT_MAX_DEPTH_def nat_less_iff)
  have "st' ! nat (d + 1) = push st (d + 1) p ! nat (d + 1)" using s(1) by (simp add: keeps_def)
  also have "\<dots> = p" using d nd Nil.prems(4) by simp
  finally have "push st' (d + 1 + 1) ?ch ! nat (d + 1) = p" using nd by (simp add: add.assoc)
  then show ?case
    using parent_step(2) [OF n(1,2,4,3), of "d + 1" st'] d s(2) unfolding u by simp
next
  case (Cons j js)
  let ?tg = "child_at tab u q i" and ?ch = "child_at tab t p j"
  from Cons.prems(5) have j: "j < length (dt_children t)" "subnode tab (dt_children t ! j) ?ch js = Some (u, q)"
    by (auto split: if_splits)
  note ch = stored_child [OF Cons.prems(1) j(1)] and nk = names_ok_child [OF Cons.prems(2) j(1)]
  note sub = subnode_stored [OF j(2) ch(1) nk]
  have "?ch \<le> ?tg" using sub(3) child_at_inside [of q tab u i] by simp
  then obtain st' where s: "keeps (d + 1) (push st (d + 1) p) st'"
    "parent_loop c ?tg p d st = parent_loop c ?tg ?ch (d + 1) st'"
    using parent_to_child [OF assms(1) Cons.prems(1,2,3) j(1), of ?tg st] by auto
  have "length st' = 16" using s(1) Cons.prems(4) by (simp add: keeps_def split: if_splits)
  then have "parent_loop c ?tg ?ch (d + 1) st' = q"
    using Cons.IH [OF ch(1) nk, of "d + 1" st'] Cons.prems(3,6,7) j(2) by simp
  then show ?case using s(2) by simp
qed

subsection \<open>A blob that holds a tree\<close>

definition blob_tree :: "blob \<Rightarrow> ctx_t \<Rightarrow> (string \<Rightarrow> u32) \<Rightarrow> dt_node \<Rightarrow> bool" where
  "blob_tree blob c tab t \<longleftrightarrow> ctx_init blob = Some c \<and> send c < 2147483648 \<and>
     holds (base c) (s_at c) (enc_node tab t) \<and> s_at c + int (length (enc_node tab t)) \<le> send c \<and> names_ok t"

lemma blob_treeD:
  assumes "blob_tree blob c tab t"
  shows "ctx_init blob = Some c" "small_ctx c" "stored c (s_at c) (enc_node tab t)" "names_ok t"
  using assms ctx_initD [of blob c] by (auto simp: blob_tree_def small_ctx_def stored_def)

text \<open>The node at path \<open>js\<close> of the tree in the blob.\<close>

definition tree_node :: "ctx_t \<Rightarrow> (string \<Rightarrow> u32) \<Rightarrow> dt_node \<Rightarrow> nat list \<Rightarrow> dt_node \<Rightarrow> int \<Rightarrow> bool" where
  "tree_node c tab t js u q \<longleftrightarrow> subnode tab t (s_at c) js = Some (u, q)"

lemma tree_nodeD:
  assumes "blob_tree blob c tab t" "tree_node c tab t js u q"
  shows "stored c q (enc_node tab u)" "names_ok u" "s_at c \<le> q"
  using subnode_stored [OF assms(2) [unfolded tree_node_def]] blob_treeD [OF assms(1)] by blast+

lemma tree_node_child:
  "tree_node c tab t js u q \<Longrightarrow> i < length (dt_children u) \<Longrightarrow>
    tree_node c tab t (js @ [i]) (dt_children u ! i) (child_at tab u q i)"
  by (simp add: tree_node_def subnode_append)

lemma tree_node_root: "tree_node c tab t [] t (s_at c)"
  by (simp add: tree_node_def)

lemma begin_node:
  assumes "small_ctx c" "stored c p (enc_node tab t)" "names_ok t"
  shows "ok c p 4" "rd_be32 (base c) p = FDT_BEGIN_NODE" "off_of c p = p"
    "node_name c (p + 4) = Some (length (dt_name t))"
    "after_name c p = Some (p + 4 + int (length (pad4 (c_string (dt_name t)))))"
    "holds (base c) (p + 4) (c_string (dt_name t))"
proof -
  obtain nm ps cs where t: "t = DtNode nm ps cs" by (cases t)
  have st: "stored c p (be32 FDT_BEGIN_NODE)" "stored c (p + 4) (pad4 (c_string nm))"
    using assms(2) by (simp_all add: t stored_append)
  note nn = stored_name [OF assms(1) st(2)] and b = stored_be32 [OF st(1)]
  show "ok c p 4" "rd_be32 (base c) p = FDT_BEGIN_NODE" "off_of c p = p"
    using b stored_offset [OF assms(1) st(1)] by blast+
  show "node_name c (p + 4) = Some (length (dt_name t))" using nn assms(3) by (simp add: t)
  show "after_name c p = Some (p + 4 + int (length (pad4 (c_string (dt_name t)))))"
    using nn assms(3) b by (simp add: t after_name_def)
  show "holds (base c) (p + 4) (c_string (dt_name t))" using st(2) by (simp add: t stored_def pad4_def)
qed

text \<open>The bytes behind the properties: the children, then the end of the node.\<close>

lemma behind_props:
  assumes "stored c p (enc_node tab t)"
  shows "stored c (p + 4 + int (length (pad4 (c_string (dt_name t))))) (enc_props tab (dt_props t))"
    "p + 4 + int (length (pad4 (c_string (dt_name t)))) + int (length (enc_props tab (dt_props t))) = child_at tab t p 0"
    "stored c (child_at tab t p (length (dt_children t))) (be32 FDT_END_NODE)"
  using assms by (cases t; simp add: stored_append child_at_def header_len_def algebra_simps)+

lemma first_child_tree:
  assumes B: "blob_tree blob c tab t" and u: "tree_node c tab t js u q"
  shows "fdt_first_child blob q = (if dt_children u = [] then FDT_ERR_NODE else child_at tab u q 0)"
proof -
  note b = blob_treeD [OF B] and n = tree_nodeD [OF B u]
  note p = behind_props [OF n(1)] and bn = begin_node [OF b(2) n(1,2)]
  have "fdt_first_child blob q = first_child_loop c (child_at tab u q 0)"
    using child_props [OF b(2) p(1)] p(2) by (simp add: fdt_first_child_def b(1) bn(5))
  also have "\<dots> = (if dt_children u = [] then FDT_ERR_NODE else child_at tab u q 0)"
  proof (cases "dt_children u = []")
    case True
    then show ?thesis using stored_be32 [OF p(3)] by (simp add: child_stop)
  next
    case False
    then have i: "0 < length (dt_children u)" by simp
    note k = begin_node [OF b(2) stored_child(1) [OF n(1) i] names_ok_child [OF n(2) i]]
    show ?thesis using False child_step(1) [OF k(1,2)] k(3) by simp
  qed
  finally show ?thesis .
qed

lemma parent_of_child:
  assumes B: "blob_tree blob c tab t" and u: "tree_node c tab t js u q"
    and i: "i < length (dt_children u)" and d: "length js < 16"
  shows "fdt_parent_offset blob (child_at tab u q i) = q"
proof -
  note b = blob_treeD [OF B]
  have "parent_loop c (child_at tab u q i) (s_at c) (-1) (replicate (nat FDT_MAX_DEPTH) 0) = q"
    by (rule parent_descent [OF b(2,3,4) _ _ u [unfolded tree_node_def] i])
      (use d in \<open>simp_all add: FDT_MAX_DEPTH_def\<close>)
  then show ?thesis by (simp add: fdt_parent_offset_def b(1))
qed

lemma next_sibling_tree:
  assumes B: "blob_tree blob c tab t" and u: "tree_node c tab t js u q"
    and i: "i < length (dt_children u)" and d: "length js < 16"
  shows "fdt_next_sibling blob q (child_at tab u q i) =
    (if Suc i < length (dt_children u) then child_at tab u q (Suc i) else FDT_ERR_NODE)"
proof -
  note b = blob_treeD [OF B] and n = tree_nodeD [OF B u]
  note ch = stored_child [OF n(1) i]
  have "skip_node c (child_at tab u q i) = child_at tab u q (Suc i)"
    using skip_tree [OF b(2) ch(1) names_ok_child [OF n(2) i], of 0] ch(2) by (simp add: skip_node_def)
  moreover have "0 \<le> child_at tab u q (Suc i)"
    using child_at_inside [of q tab u "Suc i"] n(3) b(2) by (simp add: small_ctx_def ctx_wf_def)
  ultimately have "fdt_next_sibling blob q (child_at tab u q i) = sibling_loop c (child_at tab u q (Suc i))"
    by (simp add: fdt_next_sibling_def b(1) parent_of_child [OF B u i d])
  also have "\<dots> = (if Suc i < length (dt_children u) then child_at tab u q (Suc i) else FDT_ERR_NODE)"
  proof (cases "Suc i < length (dt_children u)")
    case True
    note k = begin_node [OF b(2) stored_child(1) [OF n(1) True] names_ok_child [OF n(2) True]]
    show ?thesis using True sibling_step(3) [OF k(1,2)] k(3) by simp
  next
    case False
    then have "Suc i = length (dt_children u)" using i by simp
    then show ?thesis using stored_be32 [OF behind_props(3) [OF n(1)]]
      by (simp add: sibling_step fdt_tokens)
  qed
  finally show ?thesis .
qed

end
