(* ===== verification/Fdt_Refine.thy ===== *)
theory Fdt_Refine
  imports Fdt_Tree
begin

text \<open>
  What the functions of the device tree reader find in a blob that holds a tree, one lemma
  per function: the search for a compatible node, the look-up of a property and of a path,
  the trees too deep for the search, and the bytes the walks depend on.
\<close>

subsection \<open>The search for a compatible node\<close>

fun nodes_at :: "(string \<Rightarrow> u32) \<Rightarrow> dt_node \<Rightarrow> int \<Rightarrow> int list"
  and forest_at :: "(string \<Rightarrow> u32) \<Rightarrow> dt_node list \<Rightarrow> int \<Rightarrow> int list" where
  "nodes_at tab (DtNode nm ps cs) p = p # forest_at tab cs (p + int (header_len tab (DtNode nm ps cs)))"
| "forest_at tab [] p = []"
| "forest_at tab (t # ts) p = nodes_at tab t p @ forest_at tab ts (p + int (length (enc_node tab t)))"

lemma nodes_at_unfold: "nodes_at tab t p = p # forest_at tab (dt_children t) (child_at tab t p 0)"
  by (cases t) (simp add: child_at_def)

lemma height_child: "i < length (dt_children t) \<Longrightarrow> height (dt_children t ! i) < height t"
proof (cases t)
  case (DtNode nm ps cs)
  have "k \<in> set ks \<Longrightarrow> k \<le> foldr max ks 0" for k :: nat and ks
    by (induction ks) (auto simp: max_def)
  then show "i < length (dt_children t) \<Longrightarrow> ?thesis" using DtNode by (simp add: le_imp_less_Suc)
qed

lemma find_append: "find P (xs @ ys) = (case find P xs of None \<Rightarrow> find P ys | Some x \<Rightarrow> Some x)"
  by (induction xs) auto

text \<open>What is left to search once the subtree at the head of the stack is done.\<close>

definition resume :: "blob \<Rightarrow> ctx_t \<Rightarrow> string \<Rightarrow> int \<Rightarrow> int list \<Rightarrow> int option" where
  "resume blob c want prev st = (case climb blob st of None \<Rightarrow> Some FDT_ERR_NODE
     | Some st' \<Rightarrow> compatible_search blob c want prev st')"

lemma search_forest:
  assumes B: "blob_tree blob c tab t" and u: "tree_node c tab t js u q" and d: "length js < 16"
    and IH: "\<And>i up'. i < length (dt_children u) \<Longrightarrow> length up' = Suc (length js) \<Longrightarrow>
      compatible_search blob c want prev (child_at tab u q i # up') =
        (case find P (nodes_at tab (dt_children u ! i) (child_at tab u q i)) of Some r \<Rightarrow> Some r
         | None \<Rightarrow> resume blob c want prev (child_at tab u q i # up'))"
    and up: "length up = length js" and i: "i < length (dt_children u)"
  shows "compatible_search blob c want prev (child_at tab u q i # q # up) =
    (case find P (forest_at tab (drop i (dt_children u)) (child_at tab u q i)) of Some r \<Rightarrow> Some r
     | None \<Rightarrow> resume blob c want prev (q # up))"
  using i
proof (induction "length (dt_children u) - i" arbitrary: i)
  case (Suc k)
  let ?ch = "child_at tab u q i"
  have dr: "drop i (dt_children u) = dt_children u ! i # drop (Suc i) (dt_children u)"
    using Suc.prems by (simp add: Cons_nth_drop_Suc)
  have nx: "?ch + int (length (enc_node tab (dt_children u ! i))) = child_at tab u q (Suc i)"
    by (rule stored_child(2) [OF tree_nodeD(1) [OF B u] Suc.prems])
  have here: "compatible_search blob c want prev (?ch # q # up) =
      (case find P (nodes_at tab (dt_children u ! i) ?ch) of Some r \<Rightarrow> Some r
       | None \<Rightarrow> resume blob c want prev (?ch # q # up))"
    using IH [OF Suc.prems] up by simp
  note sib = next_sibling_tree [OF B u Suc.prems d]
  show ?case
  proof (cases "Suc i < length (dt_children u)")
    case True
    have "child_at tab u q (Suc i) \<noteq> FDT_ERR_NODE"
      using child_at_inside [of q tab u "Suc i"] tree_nodeD(3) [OF B u] blob_treeD(2) [OF B]
      by (simp add: FDT_ERR_NODE_def small_ctx_def ctx_wf_def)
    then have "resume blob c want prev (?ch # q # up) = compatible_search blob c want prev (child_at tab u q (Suc i) # q # up)"
      using True by (simp add: resume_def sib)
    then show ?thesis using here Suc.hyps(1) [of "Suc i"] Suc.hyps(2) True dr nx
      by (simp add: find_append split: option.split)
  next
    case False
    then have "resume blob c want prev (?ch # q # up) = resume blob c want prev (q # up)"
      by (simp add: resume_def sib)
    then show ?thesis using here dr nx False by (simp add: find_append split: option.split)
  qed
qed simp

lemma search_tree:
  assumes B: "blob_tree blob c tab t" and u: "tree_node c tab t js u q"
    and h: "length js + height u \<le> 16" and up: "length up = length js"
  shows "compatible_search blob c want prev (q # up) =
    (case find (is_match blob c want prev) (nodes_at tab u q) of Some r \<Rightarrow> Some r
     | None \<Rightarrow> resume blob c want prev (q # up))"
  using u h up
proof (induction "height u" arbitrary: u q js up rule: less_induct)
  case less
  note u = less.prems(1)
  let ?P = "is_match blob c want prev"
  have js: "length js < 16" using less.prems(2) by (cases u) simp
  have e: "compatible_search blob c want prev (q # up) =
    (if ?P q then Some q else if fdt_first_child blob q \<noteq> FDT_ERR_NODE then
       if int (length (q # up)) \<ge> FDT_MAX_DEPTH then
         (if length (q # up) = 1 then Some FDT_ERR_NODE else compatible_search blob c want prev up)
       else compatible_search blob c want prev (fdt_first_child blob q # q # up)
     else resume blob c want prev (q # up))"
    by (subst compatible_search.simps) (simp add: Let_def resume_def)
  show ?case
  proof (cases "?P q \<or> dt_children u = []")
    case True
    then show ?thesis using e first_child_tree [OF B u] by (auto simp: nodes_at_unfold)
  next
    case False
    then have n: "0 < length (dt_children u)" and nP: "\<not> ?P q" by auto
    from height_child [OF n] less.prems(2) have "length js + 1 < 16"
      by (cases "dt_children u ! 0") simp
    then have deep: "\<not> int (length (q # up)) \<ge> FDT_MAX_DEPTH"
      using less.prems(3) by (simp add: FDT_MAX_DEPTH_def)
    have fc: "fdt_first_child blob q = child_at tab u q 0" using first_child_tree [OF B u] n by auto
    have ne: "child_at tab u q 0 \<noteq> FDT_ERR_NODE"
      using child_at_inside [of q tab u 0] tree_nodeD(3) [OF B u] blob_treeD(2) [OF B]
      by (simp add: FDT_ERR_NODE_def small_ctx_def ctx_wf_def)
    have "compatible_search blob c want prev (q # up) = compatible_search blob c want prev (child_at tab u q 0 # q # up)"
      unfolding e fc using nP deep ne by simp
    also have "\<dots> = (case find ?P (forest_at tab (drop 0 (dt_children u)) (child_at tab u q 0)) of Some r \<Rightarrow> Some r
       | None \<Rightarrow> resume blob c want prev (q # up))"
    proof (rule search_forest [OF B u js _ less.prems(3) n])
      fix i and up' :: "int list" assume i: "i < length (dt_children u)" "length up' = Suc (length js)"
      show "compatible_search blob c want prev (child_at tab u q i # up') =
        (case find ?P (nodes_at tab (dt_children u ! i) (child_at tab u q i)) of Some r \<Rightarrow> Some r
         | None \<Rightarrow> resume blob c want prev (child_at tab u q i # up'))"
        by (rule less.hyps [OF height_child [OF i(1)] tree_node_child [OF u i(1)]])
          (use height_child [OF i(1)] less.prems(2) i(2) in simp_all)
    qed
    finally show ?thesis using nP by (simp add: nodes_at_unfold)
  qed
qed

lemma next_node_tree:
  assumes B: "blob_tree blob c tab t" and h: "height t \<le> 16"
  shows "fdt_next_node_by_compatible_offset blob want prev =
    Some (case find (is_match blob c want prev) (nodes_at tab t (s_at c)) of None \<Rightarrow> FDT_ERR_NODE | Some q \<Rightarrow> q)"
proof -
  note b = blob_treeD [OF B]
  note r = begin_node [OF b(2,3,4)]
  have "fdt_next_node_by_compatible_offset blob want prev = compatible_search blob c want prev [s_at c]"
    by (simp add: fdt_next_node_by_compatible_offset_def b(1) r)
  also have "\<dots> = (case find (is_match blob c want prev) (nodes_at tab t (s_at c)) of Some r \<Rightarrow> Some r
     | None \<Rightarrow> resume blob c want prev [s_at c])"
    by (rule search_tree [OF B tree_node_root]) (use h in simp_all)
  finally show ?thesis by (simp add: resume_def split: option.split)
qed

subsection \<open>Properties\<close>

lemma str_eq_holds:
  assumes "holds m p (c_string nm)" "CHR 0x00 \<notin> set nm" "CHR 0x00 \<notin> set name"
  shows "str_eq m p name \<longleftrightarrow> nm = name"
  using assms
proof (induction name arbitrary: nm p)
  case Nil
  then show ?case by (cases nm) (auto simp: c_string_def)
next
  case (Cons x name)
  show ?case
  proof (cases nm)
    case Nil
    then show ?thesis using Cons.prems by (auto simp: c_string_def dest: sym)
  next
    case (Cons y nm')
    then show ?thesis using Cons.prems Cons.IH [of "p + 1" nm'] by (auto simp: c_string_def)
  qed
qed

text \<open>The strings block holds a property name where the table says.\<close>

definition name_stored :: "ctx_t \<Rightarrow> (string \<Rightarrow> u32) \<Rightarrow> string \<Rightarrow> bool" where
  "name_stored c tab nm \<longleftrightarrow> CHR 0x00 \<notin> set nm \<and> uint (tab nm) < strend c - str c \<and>
     holds (base c) (str c + uint (tab nm)) (c_string nm)"

text \<open>A pointer and a length that delimit a value, or neither.\<close>

fun value_at :: "memory \<Rightarrow> bytes option \<Rightarrow> (int \<times> u32) option \<Rightarrow> bool" where
  "value_at m None r \<longleftrightarrow> r = None"
| "value_at m (Some v) None \<longleftrightarrow> False"
| "value_at m (Some v) (Some (at, len)) \<longleftrightarrow> len = of_nat (length v) \<and> holds m at v"

lemma getprop_step:
  assumes S: "small_ctx c" and st: "stored c p (enc_prop tab (nm, v))" and k: "name_stored c tab nm"
    and z: "CHR 0x00 \<notin> set name"
  shows "getprop_loop c name p =
    (if nm = name then Some (p + 12, of_nat (length v))
     else getprop_loop c name (p + int (length (enc_prop tab (nm, v)))))"
proof -
  note P = stored_prop [OF S st]
  have "str_at c (tab nm) = Some (str c + uint (tab nm))" using k by (simp add: str_at_def name_stored_def)
  moreover have "str_eq (base c) (str c + uint (tab nm)) name \<longleftrightarrow> nm = name"
    using str_eq_holds k z by (simp add: name_stored_def)
  ultimately show ?thesis
    unfolding getprop_loop.simps [of c name p] Let_def P(2,5,6) P(10) [symmetric]
    using P(1,4,7) by (simp add: fdt_tokens)
qed

lemma getprop_props:
  assumes S: "small_ctx c" and z: "CHR 0x00 \<notin> set name"
    and "stored c p (enc_props tab ps)" "\<forall>(nm, v) \<in> set ps. name_stored c tab nm"
    and "stored c (p + int (length (enc_props tab ps))) (be32 w)" "w = FDT_BEGIN_NODE \<or> w = FDT_END_NODE"
  shows "value_at (base c) (map_of ps name) (getprop_loop c name p)"
  using assms(3-)
proof (induction ps arbitrary: p)
  case Nil
  then show ?case using stored_be32 [of c p w] by (auto simp: enc_props_def getprop_loop.simps [of c name p] Let_def)
next
  case (Cons x ps)
  obtain nm v where x: "x = (nm, v)" by (cases x)
  let ?q = "p + int (length (enc_prop tab x))"
  have st: "stored c p (enc_prop tab (nm, v))" "stored c ?q (enc_props tab ps)"
    "stored c (?q + int (length (enc_props tab ps))) (be32 w)"
    using Cons.prems by (simp_all add: enc_props_def stored_append x algebra_simps)
  have k: "name_stored c tab nm" "\<forall>(nm, v) \<in> set ps. name_stored c tab nm" using Cons.prems(2) x by auto
  note g = getprop_step [OF S st(1) k(1) z]
  show ?case
  proof (cases "nm = name")
    case True
    then show ?thesis using g stored_prop(9) [OF S st(1)] by (auto simp: x)
  next
    case False
    then have "getprop_loop c name p = getprop_loop c name ?q" "map_of (x # ps) name = map_of ps name"
      using g by (simp_all add: x)
    then show ?thesis using Cons.IH [OF st(2) k(2) st(3) Cons.prems(4)] by (simp only:)
  qed
qed

lemma token_behind_props:
  assumes "blob_tree blob c tab t" "tree_node c tab t js u q"
  obtains w where "stored c (child_at tab u q 0) (be32 w)" "w = FDT_BEGIN_NODE \<or> w = FDT_END_NODE"
proof (cases "dt_children u = []")
  case True
  then show thesis using behind_props(3) [OF tree_nodeD(1) [OF assms]] that [of FDT_END_NODE] by simp
next
  case False
  then have "stored c (child_at tab u q 0) (enc_node tab (dt_children u ! 0))"
    using stored_child(1) [OF tree_nodeD(1) [OF assms]] by simp
  then show thesis using that [of FDT_BEGIN_NODE]
    by (cases "dt_children u ! 0") (simp add: stored_append)
qed

lemma getprop_tree:
  assumes B: "blob_tree blob c tab t" and u: "tree_node c tab t js u q"
    and k: "\<forall>(nm, v) \<in> set (dt_props u). name_stored c tab nm" and z: "CHR 0x00 \<notin> set name"
  shows "value_at (base c) (map_of (dt_props u) name) (fdt_getprop blob q name)"
proof -
  note b = blob_treeD [OF B] and n = tree_nodeD [OF B u]
  note p = behind_props [OF n(1)] and bn = begin_node [OF b(2) n(1,2)]
  obtain w where w: "stored c (child_at tab u q 0) (be32 w)" "w = FDT_BEGIN_NODE \<or> w = FDT_END_NODE"
    by (rule token_behind_props [OF B u])
  have "fdt_getprop blob q name = getprop_loop c name (q + 4 + int (length (pad4 (c_string (dt_name u)))))"
    by (simp add: fdt_getprop_def b(1) bn(5))
  then show ?thesis using getprop_props [OF b(2) z p(1) k w [folded p(2)]] by (simp only:)
qed

subsection \<open>Children and paths\<close>

lemma child_at_nonneg: "blob_tree blob c tab t \<Longrightarrow> tree_node c tab t js u q \<Longrightarrow> 0 < child_at tab u q i"
  using child_at_inside [of q tab u i] tree_nodeD(3) blob_treeD(2)
  by (fastforce simp: small_ctx_def ctx_wf_def)

lemma child_at_node: "blob_tree blob c tab t \<Longrightarrow> tree_node c tab t js u q \<Longrightarrow> child_at tab u q i \<noteq> FDT_ERR_NODE"
  using child_at_nonneg [of blob c tab t js u q i] by (simp add: FDT_ERR_NODE_def)

lemma name_is_holds:
  "holds m p (c_string x) \<Longrightarrow> length x = length nm \<Longrightarrow> name_is m p nm \<longleftrightarrow> x = nm"
proof (induction nm arbitrary: x p)
  case (Cons y nm)
  then obtain z x' where "x = z # x'" by (cases x) auto
  then show ?case using Cons.prems Cons.IH [of "p + 1" x'] by (auto simp: c_string_def)
qed simp

lemma find_child_tree:
  assumes B: "blob_tree blob c tab t" and u: "tree_node c tab t js u q" and d: "length js < 16"
    and i: "i < length (dt_children u)"
  shows "find_child blob c q nm (child_at tab u q i) =
    (case first_slot_from i (\<lambda>k. dt_name k = nm) (drop i (dt_children u)) of
       None \<Rightarrow> FDT_ERR_NODE | Some k \<Rightarrow> child_at tab u q k)"
  using i
proof (induction "length (dt_children u) - i" arbitrary: i)
  case (Suc k)
  let ?ch = "child_at tab u q i" and ?k = "dt_children u ! i"
  note n = tree_nodeD [OF B u]
  note bn = begin_node [OF blob_treeD(2) [OF B] stored_child(1) [OF n(1) Suc.prems] names_ok_child [OF n(2) Suc.prems]]
  have ne: "child_at tab u q j \<noteq> FDT_ERR_NODE" for j
    by (rule child_at_node [OF B u])
  have here: "length (dt_name ?k) = length nm \<and> name_is (base c) (?ch + 4) nm \<longleftrightarrow> dt_name ?k = nm"
    using name_is_holds [OF bn(6)] by auto
  have dr: "drop i (dt_children u) = ?k # drop (Suc i) (dt_children u)"
    using Suc.prems by (simp add: Cons_nth_drop_Suc)
  have e: "find_child blob c q nm ?ch = (if dt_name ?k = nm then ?ch
      else if fdt_next_sibling blob q ?ch = FDT_ERR_NODE then FDT_ERR_NODE
      else find_child blob c q nm (fdt_next_sibling blob q ?ch))"
    by (subst find_child.simps) (simp add: ne bn(4) Let_def here)
  show ?case
  proof (cases "Suc i < length (dt_children u)")
    case True
    then show ?thesis using e Suc.hyps(1) [of "Suc i"] Suc.hyps(2) dr ne
      by (simp add: next_sibling_tree [OF B u Suc.prems d])
  next
    case False
    then show ?thesis using e dr by (simp add: next_sibling_tree [OF B u Suc.prems d])
  qed
qed simp

lemma find_child_first:
  assumes B: "blob_tree blob c tab t" and u: "tree_node c tab t js u q" and d: "length js < 16"
  shows "find_child blob c q nm (fdt_first_child blob q) =
    (case first_slot (\<lambda>k. dt_name k = nm) (dt_children u) of
       None \<Rightarrow> FDT_ERR_NODE | Some k \<Rightarrow> child_at tab u q k)"
proof (cases "dt_children u = []")
  case True
  then show ?thesis by (subst find_child.simps) (simp add: first_child_tree [OF B u] first_slot_Nil)
next
  case False
  then show ?thesis using find_child_tree [OF B u d, of 0]
    by (simp add: first_child_tree [OF B u] first_slot_def)
qed

text \<open>The path of a list of node names, and the node it names: the first child of each name.\<close>

definition path_of :: "string list \<Rightarrow> string" where
  "path_of names = (if names = [] then ''/'' else concat (map (\<lambda>nm. CHR ''/'' # nm) names))"

fun resolve :: "(string \<Rightarrow> u32) \<Rightarrow> dt_node \<Rightarrow> int \<Rightarrow> string list \<Rightarrow> int option" where
  "resolve tab u q [] = Some q"
| "resolve tab u q (nm # names) = (case first_slot (\<lambda>k. dt_name k = nm) (dt_children u) of None \<Rightarrow> None
     | Some i \<Rightarrow> resolve tab (dt_children u ! i) (child_at tab u q i) names)"

definition component_ok :: "string \<Rightarrow> bool" where
  "component_ok nm \<longleftrightarrow> nm \<noteq> [] \<and> CHR ''/'' \<notin> set nm"

lemma take_component:
  assumes "component_ok nm" "rest = [] \<or> slash (hd rest)"
  shows "takeWhile (\<lambda>x. \<not> slash x) (nm @ rest) = nm" "dropWhile (\<lambda>x. \<not> slash x) (nm @ rest) = rest"
proof -
  have "\<forall>x \<in> set nm. \<not> slash x" using assms(1) by (auto simp: component_ok_def)
  then show "takeWhile (\<lambda>x. \<not> slash x) (nm @ rest) = nm" "dropWhile (\<lambda>x. \<not> slash x) (nm @ rest) = rest"
    using assms(2) by (cases rest; simp)+
qed

lemma drop_slashes: "component_ok nm \<Longrightarrow> dropWhile slash (nm @ rest) = nm @ rest"
  by (cases nm) (auto simp: component_ok_def)

lemma path_walk_tree:
  assumes B: "blob_tree blob c tab t" and ok: "\<forall>nm \<in> set names. component_ok nm"
    and "tree_node c tab t js u q" "length js + length names \<le> 16"
  shows "path_walk blob c q (dropWhile slash (concat (map (\<lambda>nm. CHR ''/'' # nm) names))) =
    (case resolve tab u q names of None \<Rightarrow> FDT_ERR_NODE | Some r \<Rightarrow> r)"
  using ok assms(3-)
proof (induction names arbitrary: js u q)
  case Nil
  then show ?case by (subst path_walk.simps) simp
next
  case (Cons nm names)
  let ?rest = "concat (map (\<lambda>nm. CHR ''/'' # nm) names)"
  have k: "component_ok nm" using Cons.prems(1) by simp
  have r: "?rest = [] \<or> slash (hd ?rest)" by (cases names) auto
  note d = drop_slashes [OF k, of ?rest] and t = take_component [OF k r]
  have p: "dropWhile slash (concat (map (\<lambda>nm. CHR ''/'' # nm) (nm # names))) = nm @ ?rest"
    using d by simp
  have ne: "nm @ ?rest \<noteq> []" using k by (simp add: component_ok_def)
  have e: "path_walk blob c q (nm @ ?rest) =
      (case first_slot (\<lambda>k. dt_name k = nm) (dt_children u) of None \<Rightarrow> FDT_ERR_NODE
       | Some i \<Rightarrow> path_walk blob c (child_at tab u q i) (dropWhile slash ?rest))"
    unfolding path_walk.simps [of blob c q "nm @ ?rest"] t Let_def if_not_P [OF ne]
    using find_child_first [OF B Cons.prems(2), of nm] Cons.prems(3) child_at_node [OF B Cons.prems(2)]
    by (simp split: option.split)
  show ?case
  proof (cases "first_slot (\<lambda>k. dt_name k = nm) (dt_children u)")
    case None
    then show ?thesis unfolding p e by simp
  next
    case (Some i)
    then have "i < length (dt_children u)" by (rule first_slot_SomeD)
    from tree_node_child [OF Cons.prems(2) this] Cons.IH Cons.prems(1,3)
    show ?thesis unfolding p e by (simp add: Some)
  qed
qed

lemma path_offset_tree:
  assumes B: "blob_tree blob c tab t" and "\<forall>nm \<in> set names. component_ok nm" "length names \<le> 16"
  shows "fdt_path_offset blob (path_of names) =
    (case resolve tab t (s_at c) names of None \<Rightarrow> FDT_ERR_NODE | Some r \<Rightarrow> r)"
proof -
  note b = blob_treeD [OF B] and r = begin_node [OF blob_treeD(2-4) [OF B]]
  have h: "path_of names \<noteq> []" "slash (hd (path_of names))"
    by (cases names; simp add: path_of_def)+
  have "dropWhile slash (path_of names) = dropWhile slash (concat (map (\<lambda>nm. CHR ''/'' # nm) names))"
    by (simp add: path_of_def)
  then show ?thesis using path_walk_tree [OF B assms(2) tree_node_root] assms(3) h
    by (simp add: fdt_path_offset_def b(1) r)
qed

subsection \<open>Trees that are too deep\<close>

text \<open>The offsets of the leftmost nodes down to depth \<open>k\<close>, deepest first.\<close>

definition left_off :: "ctx_t \<Rightarrow> (string \<Rightarrow> u32) \<Rightarrow> dt_node \<Rightarrow> nat \<Rightarrow> int" where
  "left_off c tab t k = (case subnode tab t (s_at c) (replicate k 0) of None \<Rightarrow> FDT_ERR_NODE | Some (u, q) \<Rightarrow> q)"

definition left_stack :: "ctx_t \<Rightarrow> (string \<Rightarrow> u32) \<Rightarrow> dt_node \<Rightarrow> nat \<Rightarrow> int list" where
  "left_stack c tab t k = rev (map (left_off c tab t) [0..<Suc k])"

lemma left_stack_simps:
  "hd (left_stack c tab t k) = left_off c tab t k" "length (left_stack c tab t k) = Suc k"
  "left_stack c tab t (Suc k) = left_off c tab t (Suc k) # left_stack c tab t k"
  by (simp_all add: left_stack_def)

definition has_left :: "(string \<Rightarrow> u32) \<Rightarrow> ctx_t \<Rightarrow> dt_node \<Rightarrow> nat \<Rightarrow> bool" where
  "has_left tab c t k \<longleftrightarrow> subnode tab t (s_at c) (replicate k 0) \<noteq> None"

lemma left_child:
  assumes B: "blob_tree blob c tab t" and h: "has_left tab c t (Suc k)"
  shows "fdt_first_child blob (left_off c tab t k) = left_off c tab t (Suc k)"
    "left_off c tab t (Suc k) \<noteq> FDT_ERR_NODE" "has_left tab c t k"
proof -
  have r: "replicate (Suc k) 0 = replicate k 0 @ [0 :: nat]" by (simp add: replicate_append_same)
  from h obtain u q where u: "subnode tab t (s_at c) (replicate k 0) = Some (u, q)" "0 < length (dt_children u)"
    unfolding has_left_def r subnode_append by (fastforce split: option.splits if_splits)
  then have n: "tree_node c tab t (replicate k 0) u q" by (simp add: tree_node_def)
  have o: "left_off c tab t k = q" "left_off c tab t (Suc k) = child_at tab u q 0"
    using u unfolding left_off_def r subnode_append by simp_all
  show "fdt_first_child blob (left_off c tab t k) = left_off c tab t (Suc k)"
    using first_child_tree [OF B n] u(2) by (simp add: o)
  show "left_off c tab t (Suc k) \<noteq> FDT_ERR_NODE" unfolding o by (rule child_at_node [OF B n])
  show "has_left tab c t k" using u by (simp add: has_left_def)
qed

lemma has_left_le:
  assumes "blob_tree blob c tab t" "has_left tab c t n" "k \<le> n"
  shows "has_left tab c t k"
  using assms(3,2) by (rule inc_induct) (rule left_child(3) [OF assms(1)])

text \<open>The search goes down to depth 15, back to depth 14, and down again.\<close>

lemma left_search_stuck:
  assumes "compatible_search blob c want prev st = Some y"
  shows "\<not> (blob_tree blob c tab t \<and> has_left tab c t 16 \<and>
    (\<forall>k < 16. \<not> is_match blob c want prev (left_off c tab t k)) \<and> (\<exists>k < 16. st = left_stack c tab t k))"
proof (rule compatible_search.raw_induct [where P = "\<lambda>blob c want prev st y.
    \<not> (blob_tree blob c tab t \<and> has_left tab c t 16 \<and>
      (\<forall>k < 16. \<not> is_match blob c want prev (left_off c tab t k)) \<and> (\<exists>k < 16. st = left_stack c tab t k))",
    OF _ assms], goal_cases)
  case (1 srch blob c want prev st y)
  show ?case
  proof
    assume A: "blob_tree blob c tab t \<and> has_left tab c t 16 \<and>
      (\<forall>k < 16. \<not> is_match blob c want prev (left_off c tab t k)) \<and> (\<exists>k < 16. st = left_stack c tab t k)"
    then obtain k where k: "k < 16" "st = left_stack c tab t k" by blast
    from A have B: "blob_tree blob c tab t" and H: "has_left tab c t 16"
      and M: "\<forall>k < 16. \<not> is_match blob c want prev (left_off c tab t k)" by auto
    have lc: "fdt_first_child blob (left_off c tab t k) = left_off c tab t (Suc k)"
      "left_off c tab t (Suc k) \<noteq> FDT_ERR_NODE"
      using left_child(1,2) [OF B has_left_le [OF B H]] k(1) by simp_all
    let ?k = "if k = 15 then 14 else Suc k"
    have "srch blob c want prev (left_stack c tab t ?k) = Some y"
    proof (cases "k = 15")
      case True
      have "tl st = left_stack c tab t 14" using left_stack_simps(3) [of c tab t 14] by (simp add: k True)
      then show ?thesis
        using 1(2) M [rule_format, OF k(1)] lc unfolding k(2) left_stack_simps(1,2) Let_def FDT_MAX_DEPTH_def True
        by simp
    next
      case False
      then show ?thesis
        using 1(2) M [rule_format, OF k(1)] lc k(1)
        unfolding k(2) left_stack_simps(1,2) Let_def FDT_MAX_DEPTH_def
        by (simp add: left_stack_simps(3))
    qed
    note N = 1(1) [OF this]
    have "?k < 16" using k(1) by simp
    then have ex: "\<exists>j < 16. left_stack c tab t ?k = left_stack c tab t j" by (intro exI [of _ ?k] conjI refl)
    show False by (rule notE [OF N]) (intro conjI B H M ex)
  qed
qed

subsection \<open>Blobs from trees\<close>

definition mem_of :: "bytes \<Rightarrow> memory" where
  "mem_of bs i = (if 0 \<le> i \<and> i < int (length bs) then bs ! nat i else 0)"

definition mk_header :: "nat \<Rightarrow> nat \<Rightarrow> bytes" where
  "mk_header n_struct n_strings =
    be32 FDT_MAGIC @ be32 (of_nat (40 + n_struct + n_strings)) @ be32 40 @ be32 (of_nat (40 + n_struct))
    @ be32 (of_nat (40 + n_struct + n_strings)) @ be32 17 @ be32 16 @ be32 0
    @ be32 (of_nat n_strings) @ be32 (of_nat n_struct)"

definition mk_blob :: "(string \<Rightarrow> u32) \<Rightarrow> bytes \<Rightarrow> dt_node \<Rightarrow> bytes" where
  "mk_blob tab strings t = mk_header (length (enc_node tab t)) (length strings) @ enc_node tab t @ strings"

definition mk_ctx :: "(string \<Rightarrow> u32) \<Rightarrow> bytes \<Rightarrow> dt_node \<Rightarrow> ctx_t" where
  "mk_ctx tab strings t = \<lparr>base = mem_of (mk_blob tab strings t), s_at = 40,
     send = 40 + int (length (enc_node tab t)), str = 40 + int (length (enc_node tab t)),
     strend = 40 + int (length (enc_node tab t)) + int (length strings)\<rparr>"

lemma holds_mem_of: "p = int (length pre) \<Longrightarrow> holds (mem_of (pre @ sub @ post)) p sub"
proof (induction sub arbitrary: pre p)
  case (Cons b sub)
  have "mem_of (pre @ (b # sub) @ post) p = b" using Cons.prems by (simp add: mem_of_def)
  moreover have "holds (mem_of ((pre @ [b]) @ sub @ post)) (p + 1) sub"
    by (rule Cons.IH) (simp add: Cons.prems)
  ultimately show ?case by simp
qed simp

lemma length_mk_header [simp]: "length (mk_header a b) = 40"
  by (simp add: mk_header_def)

text \<open>Any memory that starts with such a blob holds its tree.\<close>

lemma held_blob_ctx:
  assumes "40 + length (enc_node tab t) + length strings < 2147483648" and H: "holds m 0 (mk_blob tab strings t)"
  shows "ctx_init (Some m) = Some ((mk_ctx tab strings t)\<lparr>base := m\<rparr>)"
proof -
  let ?n = "length (enc_node tab t)" and ?k = "length strings"
  have u: "uint (of_nat j :: u32) = int j" if "j < 2147483648" for j
    using that by (simp add: unsigned_of_nat take_bit_nat_eq_self)
  have "holds m 0 (mk_header ?n ?k)" using H by (simp add: mk_blob_def)
  then have r: "rd_be32 m 0 = FDT_MAGIC" "rd_be32 m 4 = of_nat (40 + ?n + ?k)" "rd_be32 m 8 = 40"
    "rd_be32 m 12 = of_nat (40 + ?n)" "rd_be32 m 32 = of_nat ?k" "rd_be32 m 36 = of_nat ?n"
    unfolding mk_header_def holds_append by simp_all
  have le: "(of_nat a :: u32) > of_nat b \<longleftrightarrow> b < a" if "a < 2147483648" "b < 2147483648" for a b :: nat
    using that by (simp add: word_less_def u)
  have minus: "(of_nat (a + b) :: u32) - of_nat a = of_nat b" for a b :: nat by simp
  have f: "(40 :: u32) = of_nat 40" by simp
  have "\<not> (40 :: u32) > of_nat (40 + ?n + ?k)" unfolding f using assms by (subst le) simp_all
  moreover have "\<not> of_nat ?n > (of_nat (40 + ?n + ?k) - 40 :: u32)"
    unfolding f add.assoc minus using assms by (subst le) simp_all
  moreover have "\<not> of_nat (40 + ?n) > (of_nat (40 + ?n + ?k) :: u32)" using assms by (subst le) simp_all
  moreover have "\<not> of_nat ?k > (of_nat (40 + ?n + ?k) - of_nat (40 + ?n) :: u32)"
    unfolding minus by simp
  ultimately show ?thesis
    unfolding ctx_init_def option.case r Let_def
    using u [of ?n] u [of ?k] u [of "40 + ?n"] assms(1) by (simp add: mk_ctx_def)
qed

lemma held_blob_tree:
  assumes "40 + length (enc_node tab t) + length strings < 2147483648" "names_ok t" "holds m 0 (mk_blob tab strings t)"
  shows "blob_tree (Some m) ((mk_ctx tab strings t)\<lparr>base := m\<rparr>) tab t"
  using held_blob_ctx [OF assms(1,3)] assms by (simp add: blob_tree_def mk_ctx_def mk_blob_def)

lemma mk_blob_tree:
  assumes "40 + length (enc_node tab t) + length strings < 2147483648" "names_ok t"
  shows "blob_tree (Some (mem_of (mk_blob tab strings t))) (mk_ctx tab strings t) tab t"
proof -
  have "holds (mem_of (mk_blob tab strings t)) 0 (mk_blob tab strings t)"
    using holds_mem_of [of 0 "[]" "mk_blob tab strings t" "[]"] by simp
  from held_blob_tree [OF assms this] show ?thesis by (simp add: mk_ctx_def)
qed

subsection \<open>Bytes outside the structure block\<close>

definition agree :: "ctx_t \<Rightarrow> memory \<Rightarrow> bool" where
  "agree c m \<longleftrightarrow> (\<forall>p. s_at c \<le> p \<and> p < send c \<longrightarrow> m p = base c p)"

lemma ok_base [simp]: "ok (c\<lparr>base := m\<rparr>) p n = ok c p n" "off_of (c\<lparr>base := m\<rparr>) p = off_of c p"
  by (simp_all add: ok_def off_of_def)

lemma rd_agree: "agree c m \<Longrightarrow> ok c p 4 \<Longrightarrow> rd_be32 m p = rd_be32 (base c) p"
  by (simp add: agree_def ok_def rd_be32_def)

text \<open>A length behind the end of the block is read, but never used.\<close>

lemma len_agree:
  assumes "agree c m" "ok c p 4"
  shows "(\<not> ok c (p + 12) (uint (rd_be32 m (p + 4)))) = (\<not> ok c (p + 12) (uint (rd_be32 (base c) (p + 4))))"
    "ok c (p + 12) (uint (rd_be32 (base c) (p + 4))) \<Longrightarrow> rd_be32 m (p + 4) = rd_be32 (base c) (p + 4)"
proof -
  have "rd_be32 m (p + 4) = rd_be32 (base c) (p + 4)" if "p + 12 \<le> send c"
    by (rule rd_agree [OF assms(1)]) (use assms(2) that in \<open>simp add: ok_def\<close>)
  then show "(\<not> ok c (p + 12) (uint (rd_be32 m (p + 4)))) = (\<not> ok c (p + 12) (uint (rd_be32 (base c) (p + 4))))"
    "ok c (p + 12) (uint (rd_be32 (base c) (p + 4))) \<Longrightarrow> rd_be32 m (p + 4) = rd_be32 (base c) (p + 4)"
    by (cases "p + 12 \<le> send c"; simp add: ok_def)+
qed

lemma name_scan_agree: "agree c m \<Longrightarrow> name_scan (c\<lparr>base := m\<rparr>) p n = name_scan c p n"
proof (induction c p n rule: name_scan.induct)
  case (1 c p n)
  show ?case
  proof (cases "ok c (p + int n) 1")
    case True
    then have "m (p + int n) = base c (p + int n)" using 1(2) by (simp add: agree_def ok_def)
    then show ?thesis using 1 True by (subst (1 2) name_scan.simps) simp
  qed (subst (1 2) name_scan.simps, simp)
qed

lemma node_name_agree: "agree c m \<Longrightarrow> node_name (c\<lparr>base := m\<rparr>) p = node_name c p"
  by (simp add: node_name_def name_scan_agree)

lemma skip_agree: "agree c m \<Longrightarrow> skip_loop (c\<lparr>base := m\<rparr>) p d = skip_loop c p d"
proof (induction "nat (send c - p)" arbitrary: p d rule: less_induct)
  case less
  show ?case
  proof (cases "ok c p 4")
    case ok: True
    have IH: "skip_loop (c\<lparr>base := m\<rparr>) p' d' = skip_loop c p' d'" if "p < p'" for p' d'
      using less that ok by (simp add: ok_def)
    note t = rd_agree [OF less(2) ok]
    have "rd_be32 m (p + 4) = rd_be32 (base c) (p + 4)" if "ok c (p + 4) 8"
      by (rule rd_agree [OF less(2)]) (use that in \<open>simp add: ok_def\<close>)
    then show ?thesis using ok
      by (simp add: skip_loop.simps [of _ p d] t Let_def node_name_agree [OF less(2)] IH split: option.split)
  qed (simp add: skip_loop.simps [of _ p d])
qed

lemma child_agree: "agree c m \<Longrightarrow> first_child_loop (c\<lparr>base := m\<rparr>) p = first_child_loop c p"
proof (induction "nat (send c - p)" arbitrary: p rule: less_induct)
  case less
  show ?case
  proof (cases "ok c p 4")
    case ok: True
    have IH: "first_child_loop (c\<lparr>base := m\<rparr>) p' = first_child_loop c p'" if "p < p'" for p'
      using less that ok by (simp add: ok_def)
    note t = rd_agree [OF less(2) ok] and l = len_agree [OF less(2) ok]
    show ?thesis using ok l by (simp add: first_child_loop.simps [of _ p] t Let_def IH)
  qed (simp add: first_child_loop.simps [of _ p])
qed

lemma sibling_agree: "agree c m \<Longrightarrow> sibling_loop (c\<lparr>base := m\<rparr>) p = sibling_loop c p"
proof (induction "nat (send c - p)" arbitrary: p rule: less_induct)
  case less
  show ?case
  proof (cases "ok c p 4")
    case ok: True
    have IH: "sibling_loop (c\<lparr>base := m\<rparr>) (p + 4) = sibling_loop c (p + 4)"
      using less ok by (simp add: ok_def)
    show ?thesis using ok by (simp add: sibling_loop.simps [of _ p] rd_agree [OF less(2) ok] Let_def IH)
  qed (simp add: sibling_loop.simps [of _ p])
qed

lemma parent_agree: "agree c m \<Longrightarrow> parent_loop (c\<lparr>base := m\<rparr>) tg p d st = parent_loop c tg p d st"
proof (induction "nat (send c - p)" arbitrary: p d st rule: less_induct)
  case less
  show ?case
  proof (cases "ok c p 4")
    case ok: True
    have IH: "parent_loop (c\<lparr>base := m\<rparr>) tg p' d' st' = parent_loop c tg p' d' st'" if "p < p'" for p' d' st'
      using less that ok by (simp add: ok_def)
    have e: "p + 4 + 8 = p + 12" by simp
    note t = rd_agree [OF less(2) ok] and l = len_agree [OF less(2) ok]
    show ?thesis using ok l
      by (simp add: parent_loop.simps [of _ tg p d st] t Let_def node_name_agree [OF less(2)] IH e del: nth_list_update_eq split: option.split)
  qed (simp add: parent_loop.simps [of _ tg p d st])
qed

lemma after_name_agree: "agree c m \<Longrightarrow> after_name (c\<lparr>base := m\<rparr>) p = after_name c p"
  by (auto simp: after_name_def rd_agree node_name_agree)

subsection \<open>Lists of compatible strings\<close>

lemma entry_end_string:
  assumes "holds m (at + i) (c_string e)" "CHR 0x00 \<notin> set e" "i + int (length e) < len"
  shows "entry_end m at len i = i + int (length e)"
  using assms
proof (induction e arbitrary: i)
  case Nil
  then show ?case by (subst entry_end.simps) (simp add: c_string_def)
next
  case (Cons x e)
  then have "entry_end m at len (i + 1) = i + 1 + int (length e)"
    by (intro Cons.IH) (auto simp: c_string_def algebra_simps)
  then show ?case using Cons.prems by (subst entry_end.simps) (auto simp: c_string_def)
qed

lemma match_loop_strings:
  assumes "holds m (at + i) (concat (map c_string es))" "\<forall>e \<in> set es. CHR 0x00 \<notin> set e"
    "CHR 0x00 \<notin> set want" "len = i + int (length (concat (map c_string es)))"
  shows "match_loop m at len want i \<longleftrightarrow> want \<in> set es"
  using assms
proof (induction es arbitrary: i)
  case Nil
  then show ?case by (subst match_loop.simps) simp
next
  case (Cons e es)
  have h: "holds m (at + i) (c_string e)" "holds m (at + (i + int (length e) + 1)) (concat (map c_string es))"
    using Cons.prems(1) by (simp_all add: algebra_simps)
  have z: "CHR 0x00 \<notin> set e" using Cons.prems(2) by simp
  have l: "i + int (length e) < len" using Cons.prems(4) by simp
  note en = entry_end_string [OF h(1) z l]
  have "match_loop m at len want (i + int (length e) + 1) \<longleftrightarrow> want \<in> set es"
    by (rule Cons.IH [OF h(2)]) (use Cons.prems in auto)
  moreover have "str_eq m (at + i) want \<longleftrightarrow> e = want" by (rule str_eq_holds [OF h(1) z Cons.prems(3)])
  ultimately show ?case using l by (subst match_loop.simps) (auto simp: en Let_def)
qed

lemma compatible_match_strings:
  assumes "holds m at (concat (map c_string es))" "length (concat (map c_string es)) < 2147483648"
    "\<forall>e \<in> set es. CHR 0x00 \<notin> set e" "CHR 0x00 \<notin> set want"
  shows "compatible_match m at (of_nat (length (concat (map c_string es)))) want \<longleftrightarrow> want \<in> set es"
proof -
  let ?n = "length (concat (map c_string es))"
  have "uint (of_nat ?n :: u32) = int ?n"
    using assms(2) by (simp add: unsigned_of_nat take_bit_nat_eq_self del: length_concat)
  then show ?thesis using match_loop_strings [of m at 0 es want "int ?n"] assms by (simp add: compatible_match_def)
qed

text \<open>Which nodes of a tree match, in terms of their properties.\<close>

lemma is_match_tree:
  assumes B: "blob_tree blob c tab t" and u: "tree_node c tab t js u q"
    and k: "\<forall>(nm, v) \<in> set (dt_props u). name_stored c tab nm"
    and es: "map_of (dt_props u) ''compatible'' = map_option (\<lambda>es. concat (map c_string es)) oes"
    and z: "\<forall>es e. oes = Some es \<longrightarrow> e \<in> set es \<longrightarrow> CHR 0x00 \<notin> set e" "CHR 0x00 \<notin> set want"
    and l: "\<forall>es. oes = Some es \<longrightarrow> length (concat (map c_string es)) < 2147483648"
  shows "is_match blob c want prev q \<longleftrightarrow> prev < q \<and> (\<exists>es. oes = Some es \<and> want \<in> set es)"
proof (cases oes)
  case None
  then have "fdt_getprop blob q ''compatible'' = None" using getprop_tree [OF B u k, of "''compatible''"] es by simp
  then show ?thesis by (simp add: is_match_def None)
next
  case (Some es')
  then obtain at where at: "fdt_getprop blob q ''compatible'' = Some (at, of_nat (length (concat (map c_string es'))))"
    "holds (base c) at (concat (map c_string es'))"
    using getprop_tree [OF B u k, of "''compatible''"] es
    by (cases "fdt_getprop blob q ''compatible''") (auto simp del: length_concat)
  show ?thesis using compatible_match_strings [OF at(2) _ _ z(2)] z(1) l
    by (simp add: is_match_def at(1) Some del: length_concat)
qed

end
