(* ===== verification/Fdt_Props.thy ===== *)
theory Fdt_Props
  imports Fdt_Refine
begin

text \<open>
  What the device tree reader of \<open>lib/fdt.c\<close> promises for a blob that holds a tree and
  for any blob at all, and where it reads outside the blob or does not end.
\<close>

subsection \<open>A tree for the witnesses\<close>

definition demo_tab :: "string \<Rightarrow> u32" where "demo_tab nm = 0"

definition demo_soc :: dt_node where
  "demo_soc = DtNode ''soc'' [(''compatible'', c_string ''simple-bus'')]
     [DtNode ''uart'' [] [], DtNode ''rtc'' [] []]"

definition demo_tree :: dt_node where
  "demo_tree = DtNode [] [] [DtNode ''memory'' [] [], demo_soc]"

definition demo_strings :: bytes where "demo_strings = c_string ''compatible''"

abbreviation demo_blob :: blob where "demo_blob \<equiv> Some (mem_of (mk_blob demo_tab demo_strings demo_tree))"
abbreviation demo_ctx :: ctx_t where "demo_ctx \<equiv> mk_ctx demo_tab demo_strings demo_tree"

lemma demo_blob_tree: "blob_tree demo_blob demo_ctx demo_tab demo_tree"
  by (rule mk_blob_tree)
    (simp_all add: demo_tree_def demo_soc_def demo_strings_def enc_props_def pad4_def)

lemma demo_soc_node: "tree_node demo_ctx demo_tab demo_tree [1] demo_soc 64"
  by (simp add: tree_node_def demo_tree_def child_at_def header_len_def enc_props_def pad4_def mk_ctx_def)

subsection \<open>Trees\<close>



text \<open>
  C26: \<open>fdt_getprop\<close> on a node of the tree returns where the value of the first property
  of that name lies and its length, and NULL when the node has no such property.
\<close>

theorem fdt_getprop_finds_value:
  assumes "blob_tree blob c tab t" "tree_node c tab t js u q"
    and "\<forall>(nm, v) \<in> set (dt_props u). name_stored c tab nm" "CHR 0x00 \<notin> set name"
  shows "value_at (base c) (map_of (dt_props u) name) (fdt_getprop blob q name)"
  by (rule getprop_tree [OF assms])

lemma demo_strings_stored: "name_stored demo_ctx demo_tab ''compatible''"
proof -
  have "holds (mem_of (mk_blob demo_tab demo_strings demo_tree)) (40 + int (length (enc_node demo_tab demo_tree)))
      (c_string ''compatible'')"
    using holds_mem_of [of _ "mk_header (length (enc_node demo_tab demo_tree)) (length demo_strings) @ enc_node demo_tab demo_tree"
        demo_strings "[]"] by (simp add: mk_blob_def demo_strings_def)
  then show ?thesis by (simp add: name_stored_def mk_ctx_def demo_tab_def demo_strings_def)
qed

theorem fdt_getprop_finds_value_witness:
  "(\<exists>at. fdt_getprop demo_blob 64 ''compatible'' = Some (at, 11)) \<and> fdt_getprop demo_blob 64 ''reg'' = None"
proof -
  have k: "\<forall>(nm, v) \<in> set (dt_props demo_soc). name_stored demo_ctx demo_tab nm"
    using demo_strings_stored by (simp add: demo_soc_def)
  have "value_at (base demo_ctx) (Some (c_string ''simple-bus'')) (fdt_getprop demo_blob 64 ''compatible'')"
    using fdt_getprop_finds_value [OF demo_blob_tree demo_soc_node k, of "''compatible''"] by (simp add: demo_soc_def)
  then have "\<exists>at. fdt_getprop demo_blob 64 ''compatible'' = Some (at, 11)"
    by (cases "fdt_getprop demo_blob 64 ''compatible''") auto
  moreover have "fdt_getprop demo_blob 64 ''reg'' = None"
    using fdt_getprop_finds_value [OF demo_blob_tree demo_soc_node k, of "''reg''"] by (simp add: demo_soc_def)
  ultimately show ?thesis by blast
qed

text \<open>
  C24: \<open>fdt_path_offset\<close> resolves a path of up to 16 components to the node reached by
  taking the first child of each name in turn, and to no node when a name is missing.
\<close>

theorem fdt_path_resolves:
  assumes "blob_tree blob c tab t" "\<forall>nm \<in> set names. component_ok nm" "length names \<le> 16"
  shows "fdt_path_offset blob (path_of names) =
    (case resolve tab t (s_at c) names of None \<Rightarrow> FDT_ERR_NODE | Some r \<Rightarrow> r)"
  by (rule path_offset_tree [OF assms])

theorem fdt_path_resolves_witness:
  "fdt_path_offset demo_blob ''/soc/rtc'' = 112 \<and> fdt_path_offset demo_blob ''/soc/gpu'' = -1"
  using fdt_path_resolves [OF demo_blob_tree, of "[''soc'', ''rtc'']"]
    fdt_path_resolves [OF demo_blob_tree, of "[''soc'', ''gpu'']"]
  by (simp add: component_ok_def path_of_def demo_tree_def demo_soc_def first_slot_def child_at_def
      header_len_def enc_props_def pad4_def mk_ctx_def FDT_ERR_NODE_def)

text \<open>
  C27: On a tree of at most 16 levels the search for a compatible node ends, and returns
  the first node in document order behind the given offset whose list of compatible
  strings contains the wanted one, or no node when there is none.
\<close>

theorem compatible_search_ends:
  assumes "blob_tree blob c tab t" "height t \<le> 16"
  shows "fdt_next_node_by_compatible_offset blob want prev =
    Some (case find (is_match blob c want prev) (nodes_at tab t (s_at c)) of None \<Rightarrow> FDT_ERR_NODE | Some q \<Rightarrow> q)"
  by (rule next_node_tree [OF assms])

lemma demo_match:
  "\<not> is_match demo_blob demo_ctx ''simple-bus'' (-1) 40" "\<not> is_match demo_blob demo_ctx ''simple-bus'' (-1) 48"
  "is_match demo_blob demo_ctx ''simple-bus'' (-1) 64"
proof -
  have n: "tree_node demo_ctx demo_tab demo_tree [] demo_tree 40"
    "tree_node demo_ctx demo_tab demo_tree [0] (DtNode ''memory'' [] []) 48"
    by (simp_all add: tree_node_def demo_tree_def child_at_def header_len_def enc_props_def pad4_def mk_ctx_def)
  note M = is_match_tree [OF demo_blob_tree]
  show "\<not> is_match demo_blob demo_ctx ''simple-bus'' (-1) 40" using M [OF n(1), of None] by (simp add: demo_tree_def)
  show "\<not> is_match demo_blob demo_ctx ''simple-bus'' (-1) 48" using M [OF n(2), of None] by simp
  show "is_match demo_blob demo_ctx ''simple-bus'' (-1) 64"
    using M [OF demo_soc_node, of "Some [''simple-bus'']"] demo_strings_stored by (simp add: demo_soc_def)
qed

theorem compatible_search_ends_witness:
  "fdt_next_node_by_compatible_offset demo_blob ''simple-bus'' (-1) = Some 64"
proof -
  have h: "height demo_tree \<le> 16" by (simp add: demo_tree_def demo_soc_def)
  have n: "nodes_at demo_tab demo_tree (s_at demo_ctx) = [40, 48, 64, 96, 112]"
    by (simp add: demo_tree_def demo_soc_def header_len_def enc_props_def pad4_def mk_ctx_def)
  show ?thesis
    using compatible_search_ends [OF demo_blob_tree h, of "''simple-bus''" "-1", unfolded n]
    by (simp add: demo_match)
qed

text \<open>
  A list of compatible strings matches when any of its entries is the wanted string,
  not only the first.
\<close>

theorem compatible_match_any_entry:
  assumes "holds m at (concat (map c_string entries))" "length (concat (map c_string entries)) < 2147483648"
    and "\<forall>e \<in> set entries. CHR 0x00 \<notin> set e" "CHR 0x00 \<notin> set want"
  shows "compatible_match m at (of_nat (length (concat (map c_string entries)))) want \<longleftrightarrow> want \<in> set entries"
  by (rule compatible_match_strings [OF assms])

theorem compatible_match_any_entry_witness:
  "compatible_match (mem_of (c_string ''pl011'' @ c_string ''primecell'')) 0 16 ''primecell'' \<and>
   \<not> compatible_match (mem_of (c_string ''pl011'' @ c_string ''primecell'')) 0 16 ''pl01''"
proof -
  have h: "holds (mem_of (c_string ''pl011'' @ c_string ''primecell'')) 0 (concat (map c_string [''pl011'', ''primecell'']))"
    using holds_mem_of [of 0 "[]" "c_string ''pl011'' @ c_string ''primecell''" "[]"] by simp
  show ?thesis
    using compatible_match_any_entry [OF h, of "''primecell''"] compatible_match_any_entry [OF h, of "''pl01''"] by simp
qed

text \<open>
  C28: When the leftmost branch of the tree is deeper than 16 levels and none of its first
  16 nodes matches, the search never returns: it goes up one level to skip the node that
  is too deep, finds the same child again, and repeats.
\<close>

theorem compatible_search_hangs:
  assumes "blob_tree blob c tab t" "has_left tab c t 16"
    and "\<forall>k < 16. \<not> is_match blob c want prev (left_off c tab t k)"
  shows "fdt_next_node_by_compatible_offset blob want prev = None"
proof -
  note b = blob_treeD [OF assms(1)]
  note r = begin_node [OF b(2,3,4)]
  have "\<exists>k < 16. [s_at c] = left_stack c tab t k"
    by (rule exI [of _ 0]) (simp add: left_stack_def left_off_def)
  then have "compatible_search blob c want prev [s_at c] \<noteq> Some y" for y
    using left_search_stuck [of blob c want prev "[s_at c]" y tab t] assms by blast
  then have "compatible_search blob c want prev [s_at c] = None"
    by (cases "compatible_search blob c want prev [s_at c]") auto
  then show ?thesis by (simp add: fdt_next_node_by_compatible_offset_def b(1) r)
qed

text \<open>A chain of 17 nodes.\<close>

definition demo_chain :: "nat \<Rightarrow> dt_node" where
  "demo_chain n = ((\<lambda>t. DtNode [] [] [t]) ^^ n) (DtNode [] [] [])"

lemma demo_chain_simps:
  "demo_chain 0 = DtNode [] [] []" "demo_chain (Suc n) = DtNode [] [] [demo_chain n]"
  by (simp_all add: demo_chain_def)

lemma demo_chain_facts:
  "length (enc_node demo_tab (demo_chain n)) = 12 * Suc n" "names_ok (demo_chain n)"
  by (induction n) (simp_all add: demo_chain_simps enc_props_def pad4_def c_string_def)

lemma demo_chain_left: "k \<le> n \<Longrightarrow> subnode demo_tab (demo_chain n) p (replicate k 0) = Some (demo_chain (n - k), p + 8 * int k)"
proof (induction k arbitrary: n p)
  case (Suc k)
  then obtain m where n: "n = Suc m" by (cases n) auto
  show ?case using Suc
    by (simp add: n demo_chain_simps child_at_def header_len_def enc_props_def pad4_def c_string_def algebra_simps)
qed simp

theorem compatible_search_hangs_witness:
  "fdt_next_node_by_compatible_offset (Some (mem_of (mk_blob demo_tab [] (demo_chain 16)))) ''simple-bus'' (-1) = None"
proof -
  let ?b = "Some (mem_of (mk_blob demo_tab [] (demo_chain 16)))" and ?c = "mk_ctx demo_tab [] (demo_chain 16)"
  have B: "blob_tree ?b ?c demo_tab (demo_chain 16)"
    by (rule mk_blob_tree) (simp_all add: demo_chain_facts)
  have l: "subnode demo_tab (demo_chain 16) (s_at ?c) (replicate k 0) = Some (demo_chain (16 - k), s_at ?c + 8 * int k)"
    if "k \<le> 16" for k using demo_chain_left [of k 16] that by simp
  have "\<not> is_match ?b ?c ''simple-bus'' (-1) (left_off ?c demo_tab (demo_chain 16) k)" if "k < 16" for k
  proof -
    have "tree_node ?c demo_tab (demo_chain 16) (replicate k 0) (demo_chain (16 - k)) (s_at ?c + 8 * int k)"
      using l [of k] that by (simp add: tree_node_def)
    moreover have "dt_props (demo_chain (16 - k)) = []" by (cases "16 - k") (simp_all add: demo_chain_simps)
    ultimately show ?thesis
      using is_match_tree [OF B, of "replicate k 0" _ _ None] l [of k] that by (simp add: left_off_def)
  qed
  then show ?thesis
    using compatible_search_hangs [OF B] l [of 16] by (simp add: has_left_def)
qed

subsection \<open>Any blob\<close>

lemma agree_init:
  assumes "ctx_init (Some m) = Some c" "40 \<le> uint (rd_be32 m 4)"
    and "\<forall>i. 0 \<le> i \<and> i < uint (rd_be32 m 4) \<longrightarrow> m' i = m i"
  shows "ctx_init (Some m') = Some (c\<lparr>base := m'\<rparr>)" "agree c m'"
proof -
  have "rd_be32 m' k = rd_be32 m k" if "0 \<le> k" "k + 4 \<le> 40" for k
    using that assms(2,3) by (simp add: rd_be32_def)
  then show "ctx_init (Some m') = Some (c\<lparr>base := m'\<rparr>)"
    using assms(1) by (auto simp: ctx_init_def Let_def split: if_splits)
  have "base c = m" "ctx_wf c" using ctx_initD [OF assms(1)] by simp_all
  then show "agree c m'" using assms(3) by (auto simp: agree_def ctx_wf_def)
qed

text \<open>
  The walks through the structure block depend on nothing outside the blob: two
  memories that agree on the bytes up to the total size of the header give the same first
  child, next sibling and parent, for any offset and any contents.
\<close>

theorem structure_walks_stay_inside:
  assumes "ctx_init (Some m) = Some c" "40 \<le> uint (rd_be32 m 4)"
    and "\<forall>i. 0 \<le> i \<and> i < uint (rd_be32 m 4) \<longrightarrow> m' i = m i"
  shows "fdt_first_child (Some m') off = fdt_first_child (Some m) off \<and>
    fdt_next_sibling (Some m') par off = fdt_next_sibling (Some m) par off \<and>
    fdt_parent_offset (Some m') off = fdt_parent_offset (Some m) off"
proof -
  note a = agree_init [OF assms]
  have p: "fdt_parent_offset (Some m') off = fdt_parent_offset (Some m) off"
    by (simp add: fdt_parent_offset_def a(1) assms(1) parent_agree [OF a(2)])
  moreover have "fdt_first_child (Some m') off = fdt_first_child (Some m) off"
    by (simp add: fdt_first_child_def a(1) assms(1) after_name_agree [OF a(2)] child_agree [OF a(2)]
        split: option.split)
  moreover have "fdt_next_sibling (Some m') par off = fdt_next_sibling (Some m) par off"
    using p by (simp add: fdt_next_sibling_def Let_def a(1) assms(1) skip_node_def skip_agree [OF a(2)] sibling_agree [OF a(2)])
  ultimately show ?thesis by simp
qed

theorem structure_walks_stay_inside_witness:
  "fdt_first_child (Some ((mem_of (mk_blob demo_tab demo_strings demo_tree))(143 := 7))) 40 = 48"
proof -
  let ?m = "mem_of (mk_blob demo_tab demo_strings demo_tree)"
  have b: "ctx_init (Some ?m) = Some demo_ctx" by (rule blob_treeD [OF demo_blob_tree])
  have l: "length (enc_node demo_tab demo_tree) = 92" "length demo_strings = 11"
    by (simp_all add: demo_tree_def demo_soc_def demo_strings_def enc_props_def pad4_def)
  have t: "rd_be32 ?m 4 = 143"
    using holds_mem_of [of 0 "[]" "mk_header 92 11" "enc_node demo_tab demo_tree @ demo_strings"]
    by (simp add: mk_blob_def l mk_header_def)
  have n: "tree_node demo_ctx demo_tab demo_tree [] demo_tree 40"
    by (simp add: tree_node_def mk_ctx_def)
  have "fdt_first_child (Some ?m) 40 = 48"
    using first_child_tree [OF demo_blob_tree n]
    by (simp add: demo_tree_def child_at_def header_len_def enc_props_def pad4_def)
  then show ?thesis
    using structure_walks_stay_inside [OF b, of "?m(143 := 7)" 40 0] by (simp add: t)
qed



text \<open>A valid blob whose strings block ends without a terminator.\<close>

definition unterminated_blob :: bytes where
  "unterminated_blob = mk_blob demo_tab (map of_char ''reg'') (DtNode [] [(''reg'', [])] [])"

text \<open>
  \<open>fdt_getprop\<close> compares property names past the end of the strings block: on a blob
  that \<open>fdt_valid\<close> accepts, the first byte behind the blob decides whether a property is
  found.
\<close>

theorem getprop_reads_outside_blob:
  "fdt_valid (Some (mem_of unterminated_blob)) 67 \<and> length unterminated_blob = 67 \<and>
   fdt_getprop (Some (mem_of unterminated_blob)) 40 ''reg'' = Some (60, 0) \<and>
   fdt_getprop (Some ((mem_of unterminated_blob)(67 := 1))) 40 ''reg'' = None"
  by code_simp

end
