(* ===== verification/Capnp_List.thy ===== *)
theory Capnp_List
  imports Capnp_Flat
begin

text \<open>
  The messages of \<open>include/capnp_list.h\<close>: a root struct of plain words with one pointer, to
  a composite list of structs of plain words; and the description of the init images that
  \<open>coreinit/boot_protocol_decode.h\<close> reads from one.  A returned pointer is the run of
  words found from there to the end of the message.
\<close>

subsection \<open>The builder and the reader\<close>

definition list_root_word :: "u16 \<Rightarrow> u64" where
  "list_root_word n_data_words = push_bit 32 (ucast n_data_words) OR push_bit 48 1"

definition list_ptr_word :: "u64 \<Rightarrow> u64" where
  "list_ptr_word list_body_words = 1 OR push_bit 32 7 OR push_bit 35 list_body_words"

definition list_tag_word :: "u32 \<Rightarrow> u16 \<Rightarrow> u64" where
  "list_tag_word n_elements elem_data_words =
    push_bit 2 (ucast n_elements) OR push_bit 32 (ucast elem_data_words)"

definition capnp_build_list_root ::
  "nat \<Rightarrow> u64 list \<Rightarrow> u16 \<Rightarrow> u64 list \<Rightarrow> u32 \<Rightarrow> u16 \<Rightarrow> bytes" where
  "capnp_build_list_root buf_cap data_words n_data_words elements n_elements elem_data_words =
    (let element_words = unat n_elements * unat elem_data_words;
         list_body_words = 1 + element_words;
         seg_words = 1 + unat n_data_words + 1 + list_body_words;
         sw = of_nat seg_words :: u64
     in if buf_cap < 8 + seg_words * 8 then []
        else [0, 0, 0, 0, ucast (sw AND 0xFF), ucast (drop_bit 8 sw AND 0xFF),
              ucast (drop_bit 16 sw AND 0xFF), ucast (drop_bit 24 sw AND 0xFF)]
          @ words_bytes (list_root_word n_data_words # take (unat n_data_words) data_words
             @ list_ptr_word (of_nat list_body_words) # list_tag_word n_elements elem_data_words
             # take element_words elements))"

definition capnp_read_list_root :: "bytes \<Rightarrow> u16 \<Rightarrow> u16 \<Rightarrow> (u64 list \<times> u64 list \<times> u32) option" where
  "capnp_read_list_root msg data_words elem_data_words =
    (if length msg < 8 \<or> (length msg - 8) mod 8 \<noteq> 0 then None
     else let seg_words_avail = (length msg - 8) div 8; w = bytes_words (drop 8 msg) in
       if 1 + unat data_words \<ge> seg_words_avail then None
       else let root = w ! 0 in
         if root AND 3 \<noteq> 0 then None
         else if ucast (drop_bit 32 root AND 0xFFFF) \<noteq> data_words
              \<or> (ucast (drop_bit 48 root AND 0xFFFF) :: u16) < 1 then None
         else let list_ptr_index = 1 + unat data_words; list_ptr = w ! list_ptr_index in
           if list_ptr AND 3 \<noteq> 1 then None
           else if drop_bit 32 list_ptr AND 7 \<noteq> 7 then None
           else let list_body_words = drop_bit 35 list_ptr AND 0x1FFFFFFF; tag_index = list_ptr_index + 1 in
             if tag_index \<ge> seg_words_avail \<or> unat list_body_words > seg_words_avail - tag_index then None
             else let tag = w ! tag_index in
               if tag AND 3 \<noteq> 0 then None
               else let count = ucast (drop_bit 2 tag AND 0x3FFFFFFF) :: u32 in
                 if ucast (drop_bit 32 tag AND 0xFFFF) \<noteq> elem_data_words
                    \<or> (ucast (drop_bit 48 tag AND 0xFFFF) :: u16) \<noteq> 0 then None
                 else if elem_data_words \<noteq> 0 \<and> (ucast count :: u64) > (list_body_words - 1) div ucast elem_data_words
                   then None
                 else if 1 + ucast count * ucast elem_data_words > (list_body_words :: u64) then None
                 else Some (drop 1 w, drop (tag_index + 1) w, count))"

definition BOOT_PROTO_ID_DATA_WORDS :: u16 where "BOOT_PROTO_ID_DATA_WORDS = 2"
definition BOOT_PROTO_INIT_VARIANT_WORDS :: u16 where "BOOT_PROTO_INIT_VARIANT_WORDS = 5"
definition INIT_DESCRIPTION_MAGIC :: u64 where "INIT_DESCRIPTION_MAGIC = 0x494e495444455343"

definition boot_protocol_read_init_description :: "bytes \<Rightarrow> (u64 list \<times> u64 list \<times> u32) option" where
  "boot_protocol_read_init_description msg =
    (case capnp_read_list_root msg BOOT_PROTO_ID_DATA_WORDS BOOT_PROTO_INIT_VARIANT_WORDS of
       None \<Rightarrow> None
     | Some (data, elements, variant_count) \<Rightarrow>
        if data ! 0 \<noteq> INIT_DESCRIPTION_MAGIC then None else Some (data, elements, variant_count))"

subsection \<open>The fields of the three pointer words\<close>

lemma mask_consts:
  "(3 :: u64) = mask 2" "(7 :: u64) = mask 3" "(0xFFFF :: u64) = mask 16"
  "(0x1FFFFFFF :: u64) = mask 29" "(0x3FFFFFFF :: u64) = mask 30"
  by (simp_all add: mask_eq_exp_minus_1)

text \<open>The words bit by bit.\<close>

lemma bit_list_root: "bit (list_root_word n) j \<longleftrightarrow> 32 \<le> j \<and> bit n (j - 32) \<or> j = 48"
proof -
  have "bit (push_bit 48 (1 :: u64)) j \<longleftrightarrow> j = 48"
    by (simp only: bit_push_bit_iff bit_1_iff possible_bit_word) auto
  moreover have "bit (push_bit 32 (ucast n :: u64)) j \<longleftrightarrow> 32 \<le> j \<and> bit n (j - 32)"
    by (auto simp: bit_simps dest: bit_imp_le_length)
  ultimately show ?thesis by (simp only: list_root_word_def bit_or_iff)
qed

lemma bit_list_ptr:
  "bit (list_ptr_word b) j \<longleftrightarrow> j \<in> {0, 32, 33, 34} \<or> 35 \<le> j \<and> j < 64 \<and> bit b (j - 35)"
proof -
  have m: "(7 :: u64) = mask 3" by (simp add: mask_eq_exp_minus_1)
  have "bit (push_bit 32 (7 :: u64)) j \<longleftrightarrow> j \<in> {32, 33, 34}"
    unfolding m by (simp only: bit_push_bit_iff bit_mask_iff possible_bit_word) auto
  moreover have "bit (1 :: u64) j \<longleftrightarrow> j = 0" by (simp only: bit_1_iff)
  moreover have "bit (push_bit 35 b) j \<longleftrightarrow> 35 \<le> j \<and> j < 64 \<and> bit b (j - 35)" by (auto simp: bit_simps)
  ultimately show ?thesis unfolding list_ptr_word_def bit_or_iff by auto
qed

lemma bit_list_tag:
  "bit (list_tag_word k e) j \<longleftrightarrow> 2 \<le> j \<and> bit k (j - 2) \<or> 32 \<le> j \<and> bit e (j - 32)"
  by (auto simp: list_tag_word_def bit_simps dest: bit_imp_le_length)

lemma list_root_fields:
  "list_root_word n AND 3 = 0" "ucast (drop_bit 32 (list_root_word n) AND 0xFFFF) = n"
  "(ucast (drop_bit 48 (list_root_word n) AND 0xFFFF) :: u16) = 1"
  unfolding mask_consts
  by (rule bit_word_eqI, auto simp: bit_simps bit_list_root dest: bit_imp_le_length)+

lemma list_ptr_fields:
  "list_ptr_word b AND 3 = 1" "drop_bit 32 (list_ptr_word b) AND 7 = 7"
  "drop_bit 35 (list_ptr_word b) AND 0x1FFFFFFF = take_bit 29 b"
  unfolding mask_consts
  by (rule bit_word_eqI, auto simp: bit_simps bit_list_ptr dest: bit_imp_le_length)+

lemma list_tag_fields:
  assumes "unat k < 2 ^ 30"
  shows "list_tag_word k e AND 3 = 0"
  "(ucast (drop_bit 2 (list_tag_word k e) AND 0x3FFFFFFF) :: u32) = k"
  "ucast (drop_bit 32 (list_tag_word k e) AND 0xFFFF) = e"
  "(ucast (drop_bit 48 (list_tag_word k e) AND 0xFFFF) :: u16) = 0"
proof -
  have k: "bit k n \<Longrightarrow> n < 30" for n
  proof -
    assume "bit k n"
    then have "bit (unat k) n" by (simp add: bit_unsigned_iff bit_imp_le_length)
    also have "unat k = take_bit 30 (unat k)" using assms by (simp add: take_bit_nat_eq_self)
    finally show "n < 30" by (simp add: bit_take_bit_iff)
  qed
  show "list_tag_word k e AND 3 = 0" "(ucast (drop_bit 2 (list_tag_word k e) AND 0x3FFFFFFF) :: u32) = k"
    "ucast (drop_bit 32 (list_tag_word k e) AND 0xFFFF) = e"
    "(ucast (drop_bit 48 (list_tag_word k e) AND 0xFFFF) :: u16) = 0"
    unfolding mask_consts
    by (rule bit_word_eqI, auto simp: bit_simps bit_list_tag dest: k bit_imp_le_length)+
qed

subsection \<open>Round trip\<close>

lemma bytes_words_list_root:
  assumes "length hdr = 8"
  shows "bytes_words (drop 8 (hdr @ words_bytes ws)) = ws"
  using assms by simp

lemma unat_of_nat_small: "b < 2 ^ 29 \<Longrightarrow> unat (of_nat b :: u64) = b"
  by (simp add: unsigned_of_nat take_bit_nat_eq_self)

lemma take_bit_29_of_nat: "b < 2 ^ 29 \<Longrightarrow> take_bit 29 (of_nat b :: u64) = of_nat b"
  by (simp add: take_bit_of_nat take_bit_nat_eq_self flip: of_nat_take_bit)

lemma list_root_round_trip_words:
  assumes n: "length data = unat n" and l: "length els = unat k * unat e"
    and b: "1 + unat k * unat e < 2 ^ 29" "unat k < 2 ^ 30"
    and cap: "8 * (4 + unat n + unat k * unat e) \<le> cap"
  shows "capnp_read_list_root (capnp_build_list_root cap data n els k e) n e =
    Some (data @ [list_ptr_word (of_nat (1 + unat k * unat e)), list_tag_word k e] @ els, els, k)"
proof -
  let ?b = "1 + unat k * unat e"
  let ?ws = "list_root_word n # data @ list_ptr_word (of_nat ?b) # list_tag_word k e # els"
  let ?sw = "of_nat (1 + unat n + 1 + ?b) :: u64"
  let ?hdr = "[0, 0, 0, 0, ucast (?sw AND 0xFF), ucast (drop_bit 8 ?sw AND 0xFF),
    ucast (drop_bit 16 ?sw AND 0xFF), ucast (drop_bit 24 ?sw AND 0xFF)] :: bytes"
  have "capnp_build_list_root cap data n els k e = ?hdr @ words_bytes ?ws"
    using n l cap unfolding capnp_build_list_root_def Let_def by simp
  then obtain hdr where h: "length hdr = 8" "capnp_build_list_root cap data n els k e = hdr @ words_bytes ?ws"
    using that [of ?hdr] by simp
  let ?m = "hdr @ words_bytes ?ws"
  have len: "\<not> (length ?m < 8 \<or> (length ?m - 8) mod 8 \<noteq> 0)" "(length ?m - 8) div 8 = length ?ws"
    using h(1) by simp_all
  have w: "bytes_words (drop 8 ?m) = ?ws" by (rule bytes_words_list_root [OF h(1)])
  have nth: "?ws ! 0 = list_root_word n" "?ws ! (1 + unat n) = list_ptr_word (of_nat ?b)"
    "?ws ! (1 + unat n + 1) = list_tag_word k e" "drop (1 + unat n + 1 + 1) ?ws = els"
    using n by (simp_all add: nth_append)
  have lw: "length ?ws = 3 + unat n + unat k * unat e" using n l by simp
  have body: "drop_bit 35 (list_ptr_word (of_nat ?b)) AND 0x1FFFFFFF = (of_nat ?b :: u64)"
    using list_ptr_fields(3) take_bit_29_of_nat [OF b(1)] by simp
  have ub: "unat (of_nat ?b :: u64) = ?b"
    by (rule unat_of_nat_small [OF b(1)])
  have prod: "1 + ucast k * ucast e = (of_nat ?b :: u64)" by simp
  have quot: "\<not> (e \<noteq> 0 \<and> (ucast k :: u64) > (of_nat ?b - 1) div ucast e)"
  proof
    assume a: "e \<noteq> 0 \<and> (ucast k :: u64) > (of_nat ?b - 1) div ucast e"
    have "(of_nat ?b - 1 :: u64) = of_nat (unat k * unat e)" by simp
    moreover have "unat (of_nat (unat k * unat e) :: u64) = unat k * unat e"
      using b(1) by (intro unat_of_nat_small) simp
    moreover have "unat (ucast e :: u64) = unat e" by (rule unat_ucast_u64) simp
    ultimately have "unat ((of_nat ?b - 1) div ucast e :: u64) = (unat k * unat e) div unat e"
      by (simp only: unat_div)
    also have "\<dots> = unat k" using a by (simp add: unat_eq_0)
    finally show False using a unat_ucast_u64 [of k] by (simp add: word_less_nat_alt)
  qed
  show ?thesis
    unfolding h(2) capnp_read_list_root_def w len(2) lw Let_def nth
      list_root_fields list_ptr_fields(1,2) list_tag_fields [OF b(2)] body ub prod
    using len(1) n l quot by simp
qed

subsection \<open>Properties\<close>

text \<open>
  A message built by \<open>capnp_build_list_root\<close> into a buffer with enough room is read
  back by \<open>capnp_read_list_root\<close> with the same data words, the same number of elements and
  the same elements, as long as the list body fits the 29 bits of its pointer.
\<close>

theorem list_root_round_trip:
  assumes "length data = unat n" "length els = unat k * unat e"
    and "1 + unat k * unat e < 2 ^ 29" "unat k < 2 ^ 30"
    and "8 * (4 + unat n + unat k * unat e) \<le> cap"
  shows "\<exists>d. capnp_read_list_root (capnp_build_list_root cap data n els k e) n e = Some (d, els, k) \<and>
    take (unat n) d = data"
  using list_root_round_trip_words [OF assms] assms(1) by simp

text \<open>Two init images, as \<open>tools/test-boot-protocol.c\<close> builds them.\<close>

definition demo_variants :: "u64 list" where
  "demo_variants = [1, 0x41000000, 0x20000, 0x40200000, 0x24000, 0, 0x1000000, 0x400000, 0x1800000, 0x400000]"

theorem list_root_round_trip_witness:
  "\<exists>d. boot_protocol_read_init_description
      (capnp_build_list_root 512 [INIT_DESCRIPTION_MAGIC, 0x12345000] 2 demo_variants 2 5) = Some (d, demo_variants, 2)"
proof -
  obtain d where d: "capnp_read_list_root (capnp_build_list_root 512 [INIT_DESCRIPTION_MAGIC, 0x12345000] 2 demo_variants 2 5) 2 5
      = Some (d, demo_variants, 2)" "take 2 d = [INIT_DESCRIPTION_MAGIC, 0x12345000]"
    using list_root_round_trip [of "[INIT_DESCRIPTION_MAGIC, 0x12345000]" 2 demo_variants 2 5 512]
    by (auto simp: demo_variants_def)
  have "d ! 0 = take 2 d ! 0" by simp
  then show ?thesis
    using d by (auto simp: boot_protocol_read_init_description_def BOOT_PROTO_ID_DATA_WORDS_def
        BOOT_PROTO_INIT_VARIANT_WORDS_def)
qed

lemma read_list_rootD:
  assumes "capnp_read_list_root msg n e = Some (d, els, k)"
  obtains w body where "w = bytes_words (drop 8 msg)" "d = drop 1 w" "els = drop (3 + unat n) w"
    "length w = (length msg - 8) div 8" "2 + unat n < length w" "unat body \<le> length w - (2 + unat n)"
    "\<not> 1 + ucast k * ucast e > (body :: u64)" "k = ucast (drop_bit 2 (w ! (2 + unat n)) AND 0x3FFFFFFF)"
proof -
  let ?w = "bytes_words (drop 8 msg)"
  let ?body = "drop_bit 35 (?w ! (1 + unat n)) AND 0x1FFFFFFF"
  have third: "drop (3 + unat n) xs = drop (Suc (Suc (Suc (unat n)))) xs" for xs :: "u64 list"
    by (simp add: numeral_3_eq_3)
  from assms [unfolded capnp_read_list_root_def Let_def]
  have "d = drop 1 ?w \<and> els = drop (3 + unat n) ?w \<and> length ?w = (length msg - 8) div 8 \<and> 2 + unat n < length ?w
      \<and> unat ?body \<le> length ?w - (2 + unat n) \<and> \<not> 1 + ucast k * ucast e > ?body
      \<and> k = ucast (drop_bit 2 (?w ! (2 + unat n)) AND 0x3FFFFFFF)"
    by (simp add: third split: if_splits)
  then show thesis by (intro that [of ?w ?body]) blast+
qed

lemma unat_count: "unat (ucast (x AND 0x3FFFFFFF :: u64) :: u32) < 2 ^ 30"
proof -
  have "x AND 0x3FFFFFFF = take_bit 30 x" unfolding mask_consts(5) by (rule take_bit_eq_mask [symmetric])
  then have "unat (ucast (x AND 0x3FFFFFFF) :: u32) = take_bit 32 (take_bit 30 (unat x))"
    by (simp add: unsigned_ucast_eq unsigned_take_bit_eq)
  then show ?thesis using take_bit_nat_less_exp [of 30 "unat x"] by simp
qed

text \<open>
  Whatever bytes it is given, a list that \<open>capnp_read_list_root\<close> accepts lies inside
  the message: the root has its data words, and all elements counted by the tag are there.
\<close>

theorem list_root_in_bounds:
  assumes "capnp_read_list_root msg n e = Some (d, els, k)"
  shows "unat n \<le> length d \<and> unat k * unat e \<le> length els \<and>
    8 * (4 + unat n + unat k * unat e) \<le> length msg"
proof -
  obtain w body where r: "w = bytes_words (drop 8 msg)" "d = drop 1 w" "els = drop (3 + unat n) w"
    "length w = (length msg - 8) div 8" "2 + unat n < length w" "unat body \<le> length w - (2 + unat n)"
    "\<not> 1 + ucast k * ucast e > (body :: u64)" "k = ucast (drop_bit 2 (w ! (2 + unat n)) AND 0x3FFFFFFF)"
    by (rule read_list_rootD [OF assms])
  have "unat k < 2 ^ 30" unfolding r(8) by (rule unat_count)
  moreover have "unat e < 2 ^ 16" using unsigned_less [of e] by simp
  ultimately have lt: "unat k * unat e < 2 ^ 30 * 2 ^ 16" by (intro mult_strict_mono) simp_all
  have "1 + ucast k * ucast e = (of_nat (1 + unat k * unat e) :: u64)" by simp
  then have "unat (1 + ucast k * ucast e :: u64) = 1 + unat k * unat e"
    using lt by (simp only: unsigned_of_nat) (simp add: take_bit_nat_eq_self)
  then have "1 + unat k * unat e \<le> unat body" using r(7) by (simp add: not_less word_le_nat_alt)
  then have "1 + unat k * unat e \<le> length w - (2 + unat n)" using r(6) by linarith
  moreover have "8 * length w \<le> length msg - 8" using r(4) by simp
  moreover have "length d = length w - 1" "length els = length w - (3 + unat n)" using r(2,3) by simp_all
  moreover have "a \<le> length w - 1 \<and> x \<le> length w - (3 + a) \<and> 8 * (4 + a + x) \<le> m"
    if "1 + x \<le> length w - (2 + a)" "8 * length w \<le> m - 8" "2 + a < length w" for a x m
    using that by auto
  ultimately show ?thesis using r(5) by metis
qed

theorem list_root_in_bounds_witness:
  "\<exists>d. capnp_read_list_root (capnp_build_list_root 64 [7] 1 [8] 1 1) 1 1 = Some (d, [8], 1) \<and> 1 \<le> length d \<and>
    8 * 6 \<le> length (capnp_build_list_root 64 [7] 1 [8] 1 1)"
proof -
  obtain d where d: "capnp_read_list_root (capnp_build_list_root 64 [7] 1 [8] 1 1) 1 1 = Some (d, [8], 1)"
    using list_root_round_trip_words [of "[7]" 1 "[8]" 1 1 64] by auto
  show ?thesis using list_root_in_bounds [OF d] d by auto
qed

end
