(* ===== verification/Network_Rpc.thy ===== *)
theory Network_Rpc
  imports Capnp_Flat
begin

text \<open>
  Capability calls between machines: the envelopes, the client and the server half of
  \<open>coreinit/network_rpc.c\<close>.  The packet transport and the invocation of a capability on the
  serving machine are arguments, functions on the state they act on; an invocation returns
  whether it succeeded and the bytes it wrote.  The generated codec of the envelope is the
  flat struct of eight words in the order of \<open>schemas/coreinit.capnp\<close>, as
  \<open>tools/gen-capnp-schemas.py\<close> emits it.
\<close>

subsection \<open>Envelopes\<close>

definition NETWORK_RPC_MAGIC :: u64 where "NETWORK_RPC_MAGIC = 0x4f544f5352504331"
definition NETWORK_RPC_VERSION :: u32 where "NETWORK_RPC_VERSION = 2"
definition NETWORK_RPC_REQUEST :: u32 where "NETWORK_RPC_REQUEST = 1"
definition NETWORK_RPC_RESPONSE :: u32 where "NETWORK_RPC_RESPONSE = 2"
definition NETWORK_RPC_HEADER_SIZE :: nat where "NETWORK_RPC_HEADER_SIZE = 80"
definition NETWORK_RPC_MAX_PAYLOAD :: nat where "NETWORK_RPC_MAX_PAYLOAD = 4096"

record route_t =
  rt_magic :: u64
  version_and_type :: u64
  request_id :: u64
  source_node :: u64
  destination_node :: u64
  target_handle :: u64
  method_and_payload_length :: u64
  response_capacity_and_status :: u64

definition route_words :: "route_t \<Rightarrow> u64 list" where
  "route_words r = [rt_magic r, version_and_type r, request_id r, source_node r, destination_node r,
     target_handle r, method_and_payload_length r, response_capacity_and_status r]"

definition words_route :: "u64 list \<Rightarrow> route_t" where
  "words_route w = \<lparr>rt_magic = w ! 0, version_and_type = w ! 1, request_id = w ! 2, source_node = w ! 3,
     destination_node = w ! 4, target_handle = w ! 5, method_and_payload_length = w ! 6,
     response_capacity_and_status = w ! 7\<rparr>"

text \<open>Two 32-bit halves in one word.\<close>

definition join32 :: "u32 \<Rightarrow> u32 \<Rightarrow> u64" where
  "join32 lo hi = ucast lo OR push_bit 32 (ucast hi)"

definition lo32 :: "u64 \<Rightarrow> u32" where "lo32 w = ucast w"
definition hi32 :: "u64 \<Rightarrow> u32" where "hi32 w = ucast (drop_bit 32 w)"

definition envelope ::
  "nat \<Rightarrow> u32 \<Rightarrow> u64 \<Rightarrow> u64 \<Rightarrow> u64 \<Rightarrow> u64 \<Rightarrow> u32 \<Rightarrow> u32 \<Rightarrow> u32 \<Rightarrow> u32 \<Rightarrow> bytes" where
  "envelope cap type_tag rid source destination target method_id payload_len response_cap status =
    capnp_build_flat cap (route_words
      \<lparr>rt_magic = NETWORK_RPC_MAGIC, version_and_type = join32 NETWORK_RPC_VERSION type_tag,
       request_id = rid, source_node = source, destination_node = destination, target_handle = target,
       method_and_payload_length = join32 method_id payload_len,
       response_capacity_and_status = join32 response_cap status\<rparr>) 8"

definition read_envelope :: "bytes \<Rightarrow> route_t option" where
  "read_envelope packet =
    (if length packet < NETWORK_RPC_HEADER_SIZE then None
     else map_option words_route (capnp_read_flat_exact (Some (take NETWORK_RPC_HEADER_SIZE packet)) 8))"

definition network_rpc_is_response :: "bytes \<Rightarrow> bool" where
  "network_rpc_is_response packet = (case read_envelope packet of None \<Rightarrow> False
   | Some h \<Rightarrow> rt_magic h = NETWORK_RPC_MAGIC \<and> lo32 (version_and_type h) = NETWORK_RPC_VERSION \<and>
       hi32 (version_and_type h) = NETWORK_RPC_RESPONSE)"

definition network_rpc_response_matches :: "bytes \<Rightarrow> bytes \<Rightarrow> bool" where
  "network_rpc_response_matches request response =
    (case (read_envelope request, read_envelope response) of
       (Some rq, Some rs) \<Rightarrow>
         if rt_magic rq \<noteq> NETWORK_RPC_MAGIC \<or> rt_magic rs \<noteq> NETWORK_RPC_MAGIC \<or>
            lo32 (version_and_type rq) \<noteq> NETWORK_RPC_VERSION \<or>
            lo32 (version_and_type rs) \<noteq> NETWORK_RPC_VERSION \<or>
            hi32 (version_and_type rq) \<noteq> NETWORK_RPC_REQUEST \<or>
            hi32 (version_and_type rs) \<noteq> NETWORK_RPC_RESPONSE
         then False
         else request_id rs = request_id rq \<and> source_node rs = destination_node rq \<and>
              destination_node rs = source_node rq
     | _ \<Rightarrow> False)"

subsection \<open>Client and server\<close>

record network_rpc_session_t =
  local_node :: u64
  remote_node :: u64
  next_request_id :: u64

definition network_rpc_session_init :: "u64 \<Rightarrow> u64 \<Rightarrow> network_rpc_session_t" where
  "network_rpc_session_init l r = \<lparr>local_node = l, remote_node = r, next_request_id = 1\<rparr>"

text \<open>The transport sends a request and returns the reply, None when there is none.\<close>

type_synonym 't exchange_fn = "'t \<Rightarrow> bytes \<Rightarrow> nat \<Rightarrow> 't \<times> bytes option"

text \<open>Target, method, message and room for the response.\<close>

type_synonym 's invoke_fn = "'s \<Rightarrow> u64 \<Rightarrow> u32 \<Rightarrow> bytes \<Rightarrow> nat \<Rightarrow> 's \<times> bool \<times> bytes"

definition accept_reply :: "network_rpc_session_t \<Rightarrow> u64 \<Rightarrow> nat \<Rightarrow> bytes \<Rightarrow> bytes option" where
  "accept_reply s rid response_cap reply =
    (case read_envelope reply of None \<Rightarrow> None
     | Some rh \<Rightarrow>
        if rt_magic rh \<noteq> NETWORK_RPC_MAGIC \<or> lo32 (version_and_type rh) \<noteq> NETWORK_RPC_VERSION \<or>
           hi32 (version_and_type rh) \<noteq> NETWORK_RPC_RESPONSE \<or> request_id rh \<noteq> rid \<or>
           source_node rh \<noteq> remote_node s \<or> destination_node rh \<noteq> local_node s then None
        else let payload_len = hi32 (method_and_payload_length rh) in
          if unat payload_len > response_cap \<or>
             length reply \<noteq> NETWORK_RPC_HEADER_SIZE + unat payload_len \<or>
             hi32 (response_capacity_and_status rh) = 0 then None
          else Some (take (unat payload_len) (drop NETWORK_RPC_HEADER_SIZE reply)))"

definition network_rpc_invoke ::
  "'t exchange_fn \<Rightarrow> network_rpc_session_t \<Rightarrow> 't \<Rightarrow> u64 \<Rightarrow> u32 \<Rightarrow> bytes \<Rightarrow> nat \<Rightarrow>
    network_rpc_session_t \<times> 't \<times> bytes option" where
  "network_rpc_invoke exchange s t target method_id msg response_cap =
    (if length msg > NETWORK_RPC_MAX_PAYLOAD \<or> response_cap > NETWORK_RPC_MAX_PAYLOAD then (s, t, None)
     else let rid = next_request_id s;
              s' = s\<lparr>next_request_id := rid + 1\<rparr>;
              hdr = envelope (NETWORK_RPC_HEADER_SIZE + NETWORK_RPC_MAX_PAYLOAD) NETWORK_RPC_REQUEST rid
                (local_node s) (remote_node s) target method_id (of_nat (length msg)) (of_nat response_cap) 0
          in if length hdr \<noteq> NETWORK_RPC_HEADER_SIZE then (s', t, None)
             else (case exchange t (hdr @ msg) (NETWORK_RPC_HEADER_SIZE + NETWORK_RPC_MAX_PAYLOAD) of
                 (t', None) \<Rightarrow> (s', t', None)
               | (t', Some reply) \<Rightarrow> (s', t', accept_reply s rid response_cap reply)))"

definition network_rpc_serve ::
  "u64 \<Rightarrow> 's invoke_fn \<Rightarrow> 's \<Rightarrow> bytes \<Rightarrow> nat \<Rightarrow> 's \<times> bytes option" where
  "network_rpc_serve my_node local_invoke t request response_cap =
    (if length request < NETWORK_RPC_HEADER_SIZE \<or> response_cap < NETWORK_RPC_HEADER_SIZE then (t, None)
     else case read_envelope request of None \<Rightarrow> (t, None)
       | Some h \<Rightarrow>
          let payload_len = hi32 (method_and_payload_length h);
              wanted = lo32 (response_capacity_and_status h)
          in if rt_magic h \<noteq> NETWORK_RPC_MAGIC \<or> lo32 (version_and_type h) \<noteq> NETWORK_RPC_VERSION \<or>
                hi32 (version_and_type h) \<noteq> NETWORK_RPC_REQUEST \<or> destination_node h \<noteq> my_node \<or>
                unat payload_len > NETWORK_RPC_MAX_PAYLOAD \<or> unat wanted > NETWORK_RPC_MAX_PAYLOAD \<or>
                length request \<noteq> NETWORK_RPC_HEADER_SIZE + unat payload_len \<or>
                response_cap < NETWORK_RPC_HEADER_SIZE + unat wanted then (t, None)
             else case local_invoke t (target_handle h) (lo32 (method_and_payload_length h))
                    (drop NETWORK_RPC_HEADER_SIZE request) (unat wanted) of
               (t', ok, result) \<Rightarrow>
                 if length result > unat wanted then (t', None)
                 else let hdr = envelope response_cap NETWORK_RPC_RESPONSE (request_id h) my_node (source_node h)
                        (target_handle h) (lo32 (method_and_payload_length h)) (of_nat (length result)) 0
                        (if ok then 1 else 0)
                   in if length hdr \<noteq> NETWORK_RPC_HEADER_SIZE then (t', None) else (t', Some (hdr @ result)))"

subsection \<open>Envelopes survive the wire\<close>

lemma lo32_join [simp]: "lo32 (join32 a b) = a"
  unfolding lo32_def join32_def by (rule bit_word_eqI) (auto simp: bit_simps)

lemma hi32_join [simp]: "hi32 (join32 a b) = b"
  unfolding hi32_def join32_def by (rule bit_word_eqI) (auto simp: bit_simps dest: bit_imp_le_length)

lemma words_route [simp]: "words_route (route_words r) = r" "length (route_words r) = 8"
  by (simp_all add: words_route_def route_words_def)

lemma length_envelope: "80 \<le> cap \<Longrightarrow> length (envelope cap ty rid a b tg m pl rc st) = 80"
  by (simp add: envelope_def length_capnp_build_flat)

lemma read_envelope_envelope:
  assumes "80 \<le> cap"
  shows "read_envelope (envelope cap ty rid a b tg m pl rc st @ payload) = Some
    \<lparr>rt_magic = NETWORK_RPC_MAGIC, version_and_type = join32 NETWORK_RPC_VERSION ty,
     request_id = rid, source_node = a, destination_node = b, target_handle = tg,
     method_and_payload_length = join32 m pl, response_capacity_and_status = join32 rc st\<rparr>"
proof -
  have l: "length (envelope cap ty rid a b tg m pl rc st) = 80" by (rule length_envelope [OF assms])
  then have t: "take 80 (envelope cap ty rid a b tg m pl rc st @ payload) = envelope cap ty rid a b tg m pl rc st"
    by simp
  show ?thesis
    unfolding read_envelope_def NETWORK_RPC_HEADER_SIZE_def t
    using l assms by (simp add: envelope_def capnp_read_flat_exact_build)
qed

lemma unat_len: "n \<le> 4096 \<Longrightarrow> unat (of_nat n :: u32) = n"
  by (simp add: unsigned_of_nat take_bit_nat_eq_self)

subsection \<open>A remote call is a local call\<close>

lemma serve_request:
  assumes "length msg \<le> 4096" "rc \<le> 4096" "80 + rc \<le> cap"
    and "call t target m msg rc = (t', ok, result)"
  shows "network_rpc_serve node call t
      (envelope 4176 NETWORK_RPC_REQUEST rid client node target m (of_nat (length msg)) (of_nat rc) 0 @ msg) cap =
    (t', if length result > rc then None else
       Some (envelope cap NETWORK_RPC_RESPONSE rid node client target m (of_nat (length result)) 0 (if ok then 1 else 0)
         @ result))"
proof -
  have l: "length (envelope 4176 NETWORK_RPC_REQUEST rid client node target m (of_nat (length msg)) (of_nat rc) 0) = 80"
    by (rule length_envelope) simp
  have d: "drop 80 (envelope 4176 NETWORK_RPC_REQUEST rid client node target m (of_nat (length msg)) (of_nat rc) 0 @ msg) = msg"
    using l by simp
  show ?thesis
    using assms l d unat_len [of "length msg"] unat_len [of rc]
    by (simp add: network_rpc_serve_def NETWORK_RPC_HEADER_SIZE_def NETWORK_RPC_MAX_PAYLOAD_def
        read_envelope_envelope Let_def length_envelope)
qed

text \<open>
  Over a transport that hands the request to the server of the remote machine and
  returns its answer, a remote invocation is the local one: it changes the remote state
  as the local call does and returns the same bytes, or fails where the local call fails
  or writes more than the caller has room for.
\<close>

theorem remote_call_is_local_call:
  assumes "length msg \<le> NETWORK_RPC_MAX_PAYLOAD" "response_cap \<le> NETWORK_RPC_MAX_PAYLOAD"
    and "call t target m msg response_cap = (t', ok, result)"
  shows "network_rpc_invoke (network_rpc_serve (remote_node s) call) s t target m msg response_cap =
    (s\<lparr>next_request_id := next_request_id s + 1\<rparr>, t',
     if ok \<and> length result \<le> response_cap then Some result else None)"
proof -
  have b: "length msg \<le> 4096" "response_cap \<le> 4096" "80 + response_cap \<le> 4176"
    using assms(1,2) by (simp_all add: NETWORK_RPC_MAX_PAYLOAD_def)
  let ?hdr = "envelope 4176 NETWORK_RPC_REQUEST (next_request_id s) (local_node s) (remote_node s) target m
    (of_nat (length msg)) (of_nat response_cap) 0"
  let ?rep = "envelope 4176 NETWORK_RPC_RESPONSE (next_request_id s) (remote_node s) (local_node s) target m
    (of_nat (length result)) 0 (if ok then 1 else 0) @ result"
  note sv = serve_request [OF b, of call t target m, OF assms(3), of "remote_node s" "next_request_id s" "local_node s"]
  have "accept_reply s (next_request_id s) response_cap ?rep = (if ok then Some result else None)"
    if "length result \<le> response_cap"
    using that b(2) unat_len [of "length result"]
    by (simp add: accept_reply_def read_envelope_envelope length_envelope NETWORK_RPC_HEADER_SIZE_def)
  then show ?thesis
    using b sv by (simp add: network_rpc_invoke_def Let_def length_envelope NETWORK_RPC_HEADER_SIZE_def
        NETWORK_RPC_MAX_PAYLOAD_def)
qed

text \<open>A counter as the remote object: each call adds the first byte and returns the sum.\<close>

definition demo_counter :: "u8 invoke_fn" where
  "demo_counter n target m msg cap = (n + hd msg, True, [n + hd msg])"

theorem remote_call_is_local_call_witness:
  "network_rpc_invoke (network_rpc_serve 2 demo_counter) (network_rpc_session_init 1 2) 40 9 0 [2] 16 =
    (\<lparr>local_node = 1, remote_node = 2, next_request_id = 2\<rparr>, 42, Some [42])"
  using remote_call_is_local_call [of "[2]" 16 demo_counter 40 9 0 42 True "[42]" "network_rpc_session_init 1 2"]
  by (simp add: demo_counter_def network_rpc_session_init_def NETWORK_RPC_MAX_PAYLOAD_def)

text \<open>
  An invocation never returns bytes from a packet that is not the answer to it: the
  reply it accepts is a response envelope that matches the request sent, and a response to
  another request of the session, or from another node, is refused.
\<close>

theorem accepted_reply_matches_request:
  assumes "accept_reply s rid response_cap reply = Some bytes"
  shows "network_rpc_response_matches
      (envelope 4176 NETWORK_RPC_REQUEST rid (local_node s) (remote_node s) target m pl rc 0 @ msg) reply \<and>
    length bytes \<le> response_cap \<and> reply = take NETWORK_RPC_HEADER_SIZE reply @ bytes"
  using assms
  by (auto simp: accept_reply_def network_rpc_response_matches_def read_envelope_envelope Let_def
      split: option.splits if_splits)

theorem accepted_reply_matches_request_witness:
  "network_rpc_response_matches
     (envelope 4176 NETWORK_RPC_REQUEST 1 1 2 9 0 1 16 0 @ [2]) (envelope 96 NETWORK_RPC_RESPONSE 1 2 1 9 0 1 0 1 @ [42])"
proof -
  have "accept_reply (network_rpc_session_init 1 2) 1 16 (envelope 96 NETWORK_RPC_RESPONSE 1 2 1 9 0 1 0 1 @ [42]) = Some [42]"
    by (simp add: accept_reply_def read_envelope_envelope length_envelope NETWORK_RPC_HEADER_SIZE_def
        network_rpc_session_init_def)
  from accepted_reply_matches_request [OF this, of 9 0 1 16 "[2]"]
  show ?thesis by (simp add: network_rpc_session_init_def)
qed

end
