(* ===== verification/Network_Ether.thy ===== *)
theory Network_Ether
  imports Network_Rpc
begin

text \<open>
  The raw Ethernet carrier of \<open>coreinit/network_ether.c\<close>: frames, announcements, the client's
  exchange and the server's step.  The network device is an argument: its own address, and
  the two calls of \<open>coreinit/network_device.h\<close> that hand a frame to it and take one from it,
  on the state of the device.
\<close>

subsection \<open>Frames\<close>

definition ETH_HEADER :: nat where "ETH_HEADER = 14"
definition ETHERTYPE_HI :: u8 where "ETHERTYPE_HI = 0x88"
definition ETHERTYPE_LO :: u8 where "ETHERTYPE_LO = 0xb5"
definition ANNOUNCE_MAGIC :: u64 where "ANNOUNCE_MAGIC = 0x4f544f5343415031"
definition FRAME_CAP :: nat where "FRAME_CAP = 2048"
definition MAX_SPINS :: nat where "MAX_SPINS = 100000000"

record 'd network_device =
  network_device_mac :: bytes
  network_device_send :: "'d \<Rightarrow> bytes \<Rightarrow> 'd \<times> bool"
  network_device_poll :: "'d \<Rightarrow> nat \<Rightarrow> 'd \<times> bytes option"

definition same_mac :: "bytes \<Rightarrow> bytes \<Rightarrow> bool" where
  "same_mac a b \<longleftrightarrow> (\<forall>i \<in> set [0..<6]. a ! i = b ! i)"

definition trim_ethernet_padding :: "bytes \<Rightarrow> nat \<Rightarrow> bytes" where
  "trim_ethernet_padding payload cproto_len =
    (if length payload < cproto_len then payload
     else if \<exists>b \<in> set (drop cproto_len payload). b \<noteq> 0 then payload
     else take cproto_len payload)"

definition frame_bytes :: "bytes \<Rightarrow> bytes \<Rightarrow> bytes \<Rightarrow> bytes" where
  "frame_bytes dst src payload = take 6 dst @ take 6 src @ [ETHERTYPE_HI, ETHERTYPE_LO] @ payload"

definition frame :: "'d network_device \<Rightarrow> 'd \<Rightarrow> bytes \<Rightarrow> bytes \<Rightarrow> 'd \<times> bool" where
  "frame dev d dst payload =
    (if length payload > FRAME_CAP - ETH_HEADER then (d, False)
     else network_device_send dev d (frame_bytes dst (network_device_mac dev) payload))"

text \<open>The source address and the payload of a frame of our type that fits.\<close>

definition unframe :: "bytes \<Rightarrow> nat \<Rightarrow> (bytes \<times> bytes) option" where
  "unframe in_frame cap =
    (if length in_frame < ETH_HEADER \<or> in_frame ! 12 \<noteq> ETHERTYPE_HI \<or> in_frame ! 13 \<noteq> ETHERTYPE_LO then None
     else if length in_frame - ETH_HEADER > cap then None
     else Some (take 6 (drop 6 in_frame), drop ETH_HEADER in_frame))"

definition poll :: "'d network_device \<Rightarrow> 'd \<Rightarrow> nat \<Rightarrow> 'd \<times> (bytes \<times> bytes) option" where
  "poll dev d cap = (case network_device_poll dev d FRAME_CAP of
     (d', None) \<Rightarrow> (d', None)
   | (d', Some in_frame) \<Rightarrow> (d', unframe in_frame cap))"

subsection \<open>Announcements, exchange and service\<close>

definition announcement :: "u64 \<Rightarrow> u64 \<Rightarrow> u64 \<Rightarrow> bytes" where
  "announcement node service exported = capnp_build_flat 48 [ANNOUNCE_MAGIC, node, service, exported] 4"

definition network_ether_announce :: "'d network_device \<Rightarrow> 'd \<Rightarrow> u64 \<Rightarrow> u64 \<Rightarrow> u64 \<Rightarrow> 'd \<times> bool" where
  "network_ether_announce dev d my_node service exported =
    (let payload = announcement my_node service exported
     in if payload = [] then (d, False) else frame dev d (replicate 6 0xff) payload)"

text \<open>What an announcement of the wanted service says: the node and the capability.\<close>

definition read_announcement :: "u64 \<Rightarrow> bytes \<Rightarrow> (u64 \<times> u64) option" where
  "read_announcement service payload =
    (case capnp_read_flat_exact (Some (trim_ethernet_padding payload (16 + 32))) 4 of None \<Rightarrow> None
     | Some w \<Rightarrow> if w ! 0 \<noteq> ANNOUNCE_MAGIC \<or> w ! 2 \<noteq> service then None else Some (w ! 1, w ! 3))"

fun announcement_loop :: "'d network_device \<Rightarrow> u64 \<Rightarrow> nat \<Rightarrow> 'd \<Rightarrow> 'd \<times> (u64 \<times> u64 \<times> bytes) option" where
  "announcement_loop dev service 0 d = (d, None)"
| "announcement_loop dev service (Suc spins) d = (case poll dev d FRAME_CAP of
     (d', None) \<Rightarrow> announcement_loop dev service spins d'
   | (d', Some (source, payload)) \<Rightarrow> (case read_announcement service payload of
        None \<Rightarrow> announcement_loop dev service spins d'
      | Some (node, capability) \<Rightarrow> (d', Some (node, capability, source))))"

definition network_ether_wait_announcement ::
  "'d network_device \<Rightarrow> 'd \<Rightarrow> u64 \<Rightarrow> 'd \<times> (u64 \<times> u64 \<times> bytes) option" where
  "network_ether_wait_announcement dev d service = announcement_loop dev service MAX_SPINS d"

fun exchange_loop :: "'d network_device \<Rightarrow> bytes \<Rightarrow> bytes \<Rightarrow> nat \<Rightarrow> nat \<Rightarrow> 'd \<Rightarrow> 'd \<times> bytes option" where
  "exchange_loop dev peer_mac request response_cap 0 d = (d, None)"
| "exchange_loop dev peer_mac request response_cap (Suc spins) d = (case poll dev d response_cap of
     (d', None) \<Rightarrow> exchange_loop dev peer_mac request response_cap spins d'
   | (d', Some (source, response)) \<Rightarrow>
       if same_mac source peer_mac \<and> network_rpc_response_matches request response then (d', Some response)
       else exchange_loop dev peer_mac request response_cap spins d')"

definition network_ether_exchange :: "'d network_device \<Rightarrow> bytes \<Rightarrow> 'd exchange_fn" where
  "network_ether_exchange dev peer_mac d request response_cap = (case frame dev d peer_mac request of
     (d', False) \<Rightarrow> (d', None)
   | (d', True) \<Rightarrow> exchange_loop dev peer_mac request response_cap MAX_SPINS d')"

definition network_ether_serve_once ::
  "'d network_device \<Rightarrow> u64 \<Rightarrow> 's invoke_fn \<Rightarrow> 'd \<Rightarrow> 's \<Rightarrow> 'd \<times> 's \<times> bool" where
  "network_ether_serve_once dev my_node local_invoke d t = (case poll dev d FRAME_CAP of
     (d', None) \<Rightarrow> (d', t, False)
   | (d', Some (source, request)) \<Rightarrow> (case network_rpc_serve my_node local_invoke t request FRAME_CAP of
        (t', None) \<Rightarrow> (d', t', False)
      | (t', Some response) \<Rightarrow> (case frame dev d' source response of (d'', ok) \<Rightarrow> (d'', t', ok))))"

subsection \<open>Frames and announcements survive the wire\<close>

lemma unframe_frame:
  assumes "length dst = 6" "length src = 6" "length payload \<le> cap"
  shows "unframe (frame_bytes dst src payload) cap = Some (src, payload)"
  using assms by (simp add: unframe_def frame_bytes_def ETH_HEADER_def nth_append)

lemma trim_padding:
  "length payload = n \<Longrightarrow> trim_ethernet_padding (payload @ replicate k 0) n = payload"
  by (auto simp: trim_ethernet_padding_def)

lemma read_announcement_padded:
  "read_announcement service (announcement node service exported @ replicate k 0) = Some (node, exported)"
proof -
  have "length (announcement node service exported) = 48"
    by (simp add: announcement_def length_capnp_build_flat)
  from trim_padding [OF this, of k] show ?thesis
    by (simp add: read_announcement_def announcement_def capnp_read_flat_exact_build)
qed

lemma read_announcementD:
  assumes "read_announcement service payload = Some (node, exported)"
  shows "\<exists>k. payload = announcement node service exported @ replicate k 0"
proof -
  let ?t = "trim_ethernet_padding payload 48"
  from assms obtain w where w: "capnp_read_flat_exact (Some ?t) 4 = Some w" "w ! 0 = ANNOUNCE_MAGIC"
    "w ! 2 = service" "w ! 1 = node" "w ! 3 = exported"
    by (auto simp: read_announcement_def split: option.splits if_splits)
  note x = capnp_read_flat_exactD [OF w(1)]
  have lw: "length w = 4" using x by simp
  then have "w = [w ! 0, w ! 1, w ! 2, w ! 3]"
    by (intro nth_equalityI) (auto simp: less_Suc_eq numeral_eq_Suc)
  then have t: "?t = announcement node service exported" using x w(2-) by (simp add: announcement_def)
  then have l: "length ?t = 48" by (simp add: announcement_def length_capnp_build_flat)
  show ?thesis
  proof (cases "length payload < 48 \<or> (\<exists>b \<in> set (drop 48 payload). b \<noteq> 0)")
    case True
    then have "?t = payload" by (auto simp: trim_ethernet_padding_def)
    then show ?thesis using t by (intro exI [of _ 0]) simp
  next
    case False
    then have p: "?t = take 48 payload" "\<forall>b \<in> set (drop 48 payload). b = 0"
      by (auto simp: trim_ethernet_padding_def)
    then have "drop 48 payload = replicate (length (drop 48 payload)) 0" by (simp add: replicate_eqI)
    then have "payload = ?t @ replicate (length (drop 48 payload)) 0"
      using p(1) append_take_drop_id [of 48 payload] by metis
    then show ?thesis using t by auto
  qed
qed

text \<open>
  An announcement is recognised behind any number of zero bytes of Ethernet padding,
  and nothing else is: a payload gives a node and a capability for a service exactly when it
  is the announcement of these three followed by zeros.
\<close>

theorem announcement_recognised_exactly:
  "read_announcement service payload = Some (node, exported) \<longleftrightarrow>
    (\<exists>k. payload = announcement node service exported @ replicate k 0)"
  using read_announcement_padded read_announcementD by blast

subsection \<open>Two machines on a wire\<close>

text \<open>
  The client's end of a wire whose other end runs \<open>network_ether_serve_once\<close> on every frame
  it gets; the server's answers wait in the inbox of the client.
\<close>

record 's wire =
  srv :: 's
  inbox :: "bytes list"

definition server_dev :: "bytes \<Rightarrow> (bytes list \<times> bytes list) network_device" where
  "server_dev mac = \<lparr>network_device_mac = mac,
     network_device_send = (\<lambda>(rx, tx) f. ((rx, tx @ [f]), True)),
     network_device_poll = (\<lambda>(rx, tx) cap. case rx of [] \<Rightarrow> ((rx, tx), None) | f # rx' \<Rightarrow> ((rx', tx), Some f))\<rparr>"

definition client_dev :: "bytes \<Rightarrow> bytes \<Rightarrow> u64 \<Rightarrow> 's invoke_fn \<Rightarrow> 's wire network_device" where
  "client_dev mac server_mac node call = \<lparr>network_device_mac = mac,
     network_device_send = (\<lambda>w f. case network_ether_serve_once (server_dev server_mac) node call ([f], []) (srv w) of
        ((rx, tx), t, ok) \<Rightarrow> (\<lparr>srv = t, inbox = inbox w @ tx\<rparr>, True)),
     network_device_poll = (\<lambda>w cap. case inbox w of [] \<Rightarrow> (w, None) | f # fs \<Rightarrow> (w\<lparr>inbox := fs\<rparr>, Some f))\<rparr>"

lemma serve_frame:
  assumes "length m1 = 6" "length m2 = 6" "length req \<le> 2034"
    and "network_rpc_serve node call t req FRAME_CAP = (t', answer)"
  shows "network_ether_serve_once (server_dev m2) node call ([frame_bytes m2 m1 req], []) t =
    (([], case answer of None \<Rightarrow> [] | Some r \<Rightarrow> if length r > 2034 then [] else [frame_bytes m1 m2 r]), t',
     case answer of None \<Rightarrow> False | Some r \<Rightarrow> \<not> length r > 2034)"
  using assms unframe_frame [of m2 m1 req FRAME_CAP]
  by (auto simp: network_ether_serve_once_def poll_def server_dev_def frame_def FRAME_CAP_def ETH_HEADER_def
      split: option.splits)

lemma exchange_over_wire:
  assumes macs: "length m1 = 6" "length m2 = 6" and req: "length req \<le> 2034" and cap: "2034 \<le> cap"
    and sv: "network_rpc_serve node call t req FRAME_CAP = (t', Some r)"
    and m: "network_rpc_response_matches req r"
  shows "length r \<le> 2034 \<Longrightarrow> network_ether_exchange (client_dev m1 m2 node call) m2 \<lparr>srv = t, inbox = []\<rparr> req cap =
    (\<lparr>srv = t', inbox = []\<rparr>, Some r)"
proof -
  assume r: "length r \<le> 2034"
  let ?dev = "client_dev m1 m2 node call"
  have f: "frame ?dev \<lparr>srv = t, inbox = []\<rparr> m2 req = (\<lparr>srv = t', inbox = [frame_bytes m1 m2 r]\<rparr>, True)"
    using req r serve_frame [OF macs req sv] by (simp add: frame_def client_dev_def FRAME_CAP_def ETH_HEADER_def)
  have p: "poll ?dev \<lparr>srv = t', inbox = [frame_bytes m1 m2 r]\<rparr> cap = (\<lparr>srv = t', inbox = []\<rparr>, Some (m2, r))"
    using unframe_frame [OF macs, of r cap] r cap by (simp add: poll_def client_dev_def)
  have s: "same_mac m2 m2" by (simp add: same_mac_def)
  have n: "MAX_SPINS = Suc 99999999" by (simp add: MAX_SPINS_def)
  have "exchange_loop ?dev m2 req cap (Suc k) \<lparr>srv = t', inbox = [frame_bytes m1 m2 r]\<rparr> =
      (\<lparr>srv = t', inbox = []\<rparr>, Some r)" for k by (simp add: p s m)
  then show ?thesis unfolding network_ether_exchange_def f n prod.case bool.case .
qed



lemma exchange_silent:
  "exchange_loop (client_dev m1 m2 node call) m2 req cap n \<lparr>srv = t, inbox = []\<rparr> = (\<lparr>srv = t, inbox = []\<rparr>, None)"
proof (induction n)
  case (Suc n)
  have "poll (client_dev m1 m2 node call) \<lparr>srv = t, inbox = []\<rparr> cap = (\<lparr>srv = t, inbox = []\<rparr>, None)"
    by (simp add: poll_def client_dev_def)
  then show ?case using Suc by simp
qed simp

text \<open>
  C40: A result of 1955 to 1968 bytes is within the room a server accepts, but its answer does
  not fit a frame: the call takes effect on the serving machine, the answer is dropped, and
  the caller sees a failure after its whole wait.
\<close>

theorem large_result_is_lost:
  assumes "length m1 = 6" "length m2 = 6"
    and "length msg \<le> 1954" "response_cap \<le> 1968" "1954 < length result" "length result \<le> response_cap"
    and "call t target m msg response_cap = (t', True, result)"
  shows "network_rpc_invoke (network_ether_exchange (client_dev m1 m2 (remote_node s) call) m2) s
      \<lparr>srv = t, inbox = []\<rparr> target m msg response_cap =
    (s\<lparr>next_request_id := next_request_id s + 1\<rparr>, \<lparr>srv = t', inbox = []\<rparr>, None)"
proof -
  let ?rid = "next_request_id s" and ?dev = "client_dev m1 m2 (remote_node s) call"
  let ?req = "envelope 4176 NETWORK_RPC_REQUEST ?rid (local_node s) (remote_node s) target m
    (of_nat (length msg)) (of_nat response_cap) 0 @ msg"
  let ?r = "envelope 2048 NETWORK_RPC_RESPONSE ?rid (remote_node s) (local_node s) target m
    (of_nat (length result)) 0 1 @ result"
  have b: "length msg \<le> 4096" "response_cap \<le> 4096" "80 + response_cap \<le> 2048" using assms by simp_all
  have sv: "network_rpc_serve (remote_node s) call t ?req FRAME_CAP = (t', Some ?r)"
    using serve_request [OF b, of call t target m, OF assms(7), of "remote_node s" ?rid "local_node s"] assms(6)
    by (simp add: FRAME_CAP_def)
  have l: "length ?req \<le> 2034" "length ?r > 2034" using assms(3,5) by (simp_all add: length_envelope)
  have "frame ?dev \<lparr>srv = t, inbox = []\<rparr> m2 ?req = (\<lparr>srv = t', inbox = []\<rparr>, True)"
    using l serve_frame [OF assms(1,2) l(1) sv] by (simp add: frame_def client_dev_def FRAME_CAP_def ETH_HEADER_def)
  then have ex: "network_ether_exchange ?dev m2 \<lparr>srv = t, inbox = []\<rparr> ?req 4176 = (\<lparr>srv = t', inbox = []\<rparr>, None)"
    by (simp add: network_ether_exchange_def exchange_silent)
  show ?thesis
    using b ex by (simp add: network_rpc_invoke_def Let_def length_envelope NETWORK_RPC_HEADER_SIZE_def
        NETWORK_RPC_MAX_PAYLOAD_def)
qed

definition demo_page :: "u8 invoke_fn" where
  "demo_page n target m msg cap = (n + 1, True, replicate 1960 n)"

theorem large_result_is_lost_witness:
  "network_rpc_invoke (network_ether_exchange (client_dev [2, 0, 0, 0, 0, 1] [2, 0, 0, 0, 0, 2] 2 demo_page)
      [2, 0, 0, 0, 0, 2]) (network_rpc_session_init 1 2) \<lparr>srv = 7, inbox = []\<rparr> 9 0 [2] 1968 =
    (\<lparr>local_node = 1, remote_node = 2, next_request_id = 2\<rparr>, \<lparr>srv = 8, inbox = []\<rparr>, None)"
  using large_result_is_lost [of "[2, 0, 0, 0, 0, 1]" "[2, 0, 0, 0, 0, 2]" "[2]" 1968 "replicate 1960 7" demo_page 7 9 0 8
      "network_rpc_session_init 1 2"]
  by (simp add: demo_page_def network_rpc_session_init_def)

end
