(* ===== verification/Byte_Memory.thy ===== *)
theory Byte_Memory
  imports Capnp_Flat
begin

text \<open>
  Physical memory as the C code sees it through integer addresses: a byte per 64-bit
  address, address arithmetic modulo \<open>2^64\<close>, little-endian words.  Regions are given by
  their first address and their size; membership is by distance from the start, so a
  region may also lie across the top of the address space.
\<close>

type_synonym memory = "u64 \<Rightarrow> u8"

text \<open>The byte stores of a copy loop, from low to high addresses, and the loads.\<close>

fun write_bytes :: "memory \<Rightarrow> u64 \<Rightarrow> bytes \<Rightarrow> memory" where
  "write_bytes m a [] = m"
| "write_bytes m a (b # bs) = write_bytes (m(a := b)) (a + 1) bs"

definition read_bytes :: "memory \<Rightarrow> u64 \<Rightarrow> nat \<Rightarrow> bytes" where
  "read_bytes m a n = map (\<lambda>i. m (a + of_nat i)) [0..<n]"

definition load64 :: "memory \<Rightarrow> u64 \<Rightarrow> u64" where
  "load64 m a = le_word (read_bytes m a 8)"

definition store64 :: "memory \<Rightarrow> u64 \<Rightarrow> u64 \<Rightarrow> memory" where
  "store64 m a w = write_bytes m a (u64_bytes w)"

subsection \<open>Regions\<close>

definition in_region :: "u64 \<Rightarrow> u64 \<Rightarrow> u64 \<Rightarrow> bool" where
  "in_region base sz a \<longleftrightarrow> a - base < sz"

text \<open>A run of \<open>n\<close> bytes from \<open>a\<close> inside a region, and two regions without a common address.\<close>

definition spans :: "u64 \<Rightarrow> u64 \<Rightarrow> u64 \<Rightarrow> nat \<Rightarrow> bool" where
  "spans base sz a n \<longleftrightarrow> unat (a - base) + n \<le> unat sz"

definition regions_apart :: "u64 \<Rightarrow> u64 \<Rightarrow> u64 \<Rightarrow> u64 \<Rightarrow> bool" where
  "regions_apart b1 s1 b2 s2 \<longleftrightarrow> s1 \<le> b2 - b1 \<and> s2 \<le> b1 - b2"

definition agree_on :: "u64 \<Rightarrow> u64 \<Rightarrow> memory \<Rightarrow> memory \<Rightarrow> bool" where
  "agree_on base sz m m' \<longleftrightarrow> (\<forall>a. in_region base sz a \<longrightarrow> m a = m' a)"

definition same_outside :: "u64 \<Rightarrow> u64 \<Rightarrow> memory \<Rightarrow> memory \<Rightarrow> bool" where
  "same_outside base sz m m' \<longleftrightarrow> (\<forall>a. \<not> in_region base sz a \<longrightarrow> m a = m' a)"

lemma unat_of_nat_below: "k < unat (r :: u64) \<Longrightarrow> unat (of_nat k :: u64) = k"
proof -
  assume "k < unat r"
  also have "unat r < 2 ^ LENGTH(64)" by (rule unsigned_less)
  finally show ?thesis by (simp add: unsigned_of_nat take_bit_nat_eq_self)
qed

lemma spans_in_region:
  assumes "spans base sz a n" "i < n"
  shows "in_region base sz (a + of_nat i)"
proof -
  have k: "unat (a - base) + i < unat sz" using assms by (simp add: spans_def)
  have d: "a + of_nat i - base = of_nat (unat (a - base) + i)" by simp
  have "unat (a + of_nat i - base) = unat (a - base) + i"
    unfolding d by (rule unat_of_nat_below [OF k])
  then show ?thesis using k by (simp add: in_region_def word_less_nat_alt)
qed

lemma spans_shorter: "spans base sz a n \<Longrightarrow> k \<le> n \<Longrightarrow> spans base sz a k"
  by (simp add: spans_def)

lemma spans_shift:
  assumes "spans base sz a n" "i + k \<le> n"
  shows "spans base sz (a + of_nat i) k"
proof (cases k)
  case 0
  have "unat (a + of_nat i - base) \<le> unat (a - base) + i"
  proof -
    have "a + of_nat i - base = of_nat (unat (a - base) + i)" by simp
    then show ?thesis by (simp only:) (simp add: unsigned_of_nat take_bit_nat_less_eq_self del: of_nat_add)
  qed
  then show ?thesis using assms 0 by (simp add: spans_def)
next
  case (Suc j)
  have k: "unat (a - base) + i < unat sz" using assms Suc by (simp add: spans_def)
  have d: "a + of_nat i - base = of_nat (unat (a - base) + i)" by simp
  have "unat (a + of_nat i - base) = unat (a - base) + i"
    unfolding d by (rule unat_of_nat_below [OF k])
  then show ?thesis using assms by (simp add: spans_def)
qed

lemma regions_apart_sym: "regions_apart b1 s1 b2 s2 \<longleftrightarrow> regions_apart b2 s2 b1 s1"
  by (auto simp: regions_apart_def)

lemma unat_uminus: "(e :: u64) \<noteq> 0 \<Longrightarrow> unat (- e) + unat e = 18446744073709551616"
proof -
  assume "e \<noteq> 0"
  then have "0 < uint e" using uint_ge_0 [of e] by (simp add: order_less_le uint_0_iff)
  moreover have "uint e < 18446744073709551616" using uint_bounded [of e] by simp
  ultimately have "uint (- e) = 18446744073709551616 - uint e"
    by (simp add: uint_word_ariths zmod_zminus1_eq_if)
  then have "int (unat (- e)) + int (unat e) = 18446744073709551616"
    by (simp only: uint_nat [symmetric])
  then show ?thesis by linarith
qed

lemma regions_apartD:
  assumes "regions_apart b1 s1 b2 s2" "in_region b1 s1 a"
  shows "\<not> in_region b2 s2 a"
proof
  assume b: "in_region b2 s2 a"
  let ?x = "a - b1" and ?e = "b1 - b2"
  have x: "?x < s1" "s1 \<le> - ?e" "s2 \<le> ?e" using assms by (auto simp: regions_apart_def in_region_def)
  have n0: "?e \<noteq> 0"
  proof
    assume "?e = 0"
    with x(1,2) have "?x < 0" by (metis minus_zero order_less_le_trans)
    then show False by simp
  qed
  have "unat ?x < unat (- ?e)" using x by (meson dual_order.strict_trans1 word_less_nat_alt)
  moreover have "unat (- ?e) + unat ?e = 18446744073709551616"
    by (rule unat_uminus [OF n0])
  ultimately have "unat (?e + ?x) = unat ?e + unat ?x"
    by (intro no_wrap_if_lt) linarith
  moreover have "?e + ?x = a - b2" by simp
  ultimately have "unat ?e \<le> unat (a - b2)" by simp
  then show False using b x(3) by (simp add: in_region_def word_less_nat_alt word_le_nat_alt)
qed

lemma agree_onD: "agree_on base sz m m' \<Longrightarrow> in_region base sz a \<Longrightarrow> m a = m' a"
  by (simp add: agree_on_def)

lemma same_outsideD: "same_outside base sz m m' \<Longrightarrow> \<not> in_region base sz a \<Longrightarrow> m a = m' a"
  by (simp add: same_outside_def)

lemma same_outside_refl [simp]: "same_outside base sz m m"
  by (simp add: same_outside_def)

lemma same_outside_trans:
  "same_outside base sz m m' \<Longrightarrow> same_outside base sz m' m'' \<Longrightarrow> same_outside base sz m m''"
  by (simp add: same_outside_def)

subsection \<open>Stores and loads\<close>

lemma length_read_bytes [simp]: "length (read_bytes m a n) = n"
  by (simp add: read_bytes_def)

lemma nth_read_bytes [simp]: "i < n \<Longrightarrow> read_bytes m a n ! i = m (a + of_nat i)"
  by (simp add: read_bytes_def)

lemma read_bytes_cong: "(\<And>i. i < n \<Longrightarrow> m (a + of_nat i) = m' (a + of_nat i)) \<Longrightarrow> read_bytes m a n = read_bytes m' a n"
  by (simp add: read_bytes_def)

lemma read_bytes_agree: "agree_on base sz m m' \<Longrightarrow> spans base sz a n \<Longrightarrow> read_bytes m a n = read_bytes m' a n"
  by (rule read_bytes_cong) (rule agree_onD [OF _ spans_in_region])

lemma write_bytes_outside:
  "(\<And>i. i < length bs \<Longrightarrow> a \<noteq> x + of_nat i) \<Longrightarrow> write_bytes m x bs a = m a"
proof (induction bs arbitrary: m x)
  case (Cons b bs)
  have "a \<noteq> x + 1 + of_nat i" if "i < length bs" for i using Cons.prems [of "Suc i"] that by (simp add: ac_simps)
  moreover have "a \<noteq> x" using Cons.prems [of 0] by simp
  moreover from calculation(1) have "write_bytes (m(x := b)) (x + 1) bs a = (m(x := b)) a" by (rule Cons.IH)
  ultimately show ?case by simp
qed simp

lemma of_nat_u64_inj: "i < 18446744073709551616 \<Longrightarrow> j < 18446744073709551616 \<Longrightarrow> (of_nat i :: u64) = of_nat j \<longleftrightarrow> i = j"
proof -
  assume "i < 18446744073709551616" "j < 18446744073709551616"
  then have "unat (of_nat i :: u64) = i" "unat (of_nat j :: u64) = j"
    by (simp_all add: unsigned_of_nat take_bit_nat_eq_self)
  then show ?thesis by metis
qed

lemma write_bytes_nth:
  assumes "i < length bs" "length bs \<le> 18446744073709551616"
  shows "write_bytes m x bs (x + of_nat i) = bs ! i"
  using assms
proof (induction bs arbitrary: m x i)
  case (Cons b bs)
  show ?case
  proof (cases i)
    case 0
    have "x \<noteq> x + 1 + of_nat j" if "j < length bs" for j
    proof -
      have "(of_nat (Suc j) :: u64) \<noteq> of_nat 0" using that Cons.prems by (subst of_nat_u64_inj) auto
      then show ?thesis by (simp add: ac_simps)
    qed
    then show ?thesis using 0 by (simp add: write_bytes_outside)
  next
    case (Suc j)
    then have "write_bytes (m(x := b)) (x + 1) bs (x + 1 + of_nat j) = bs ! j" using Cons by simp
    then show ?thesis using Suc by (simp add: ac_simps)
  qed
qed simp

lemma write_bytes_same_outside: "spans base sz x (length bs) \<Longrightarrow> same_outside base sz m (write_bytes m x bs)"
  unfolding same_outside_def by (metis write_bytes_outside spans_in_region)

lemma read_write_same: "length bs \<le> 18446744073709551616 \<Longrightarrow> read_bytes (write_bytes m x bs) x (length bs) = bs"
  by (intro nth_equalityI) (simp_all add: write_bytes_nth)

lemma write_bytes_agree:
  assumes "agree_on base sz m m'"
  shows "agree_on base sz (write_bytes m x bs) (write_bytes m' x bs)"
  using assms
proof (induction bs arbitrary: m m' x)
  case (Cons b bs)
  then show ?case by (simp add: agree_on_def)
qed simp

text \<open>A load that a region contains is not changed by stores outside of it.\<close>

lemma read_bytes_same_outside:
  assumes "same_outside b2 s2 m m'" "regions_apart b1 s1 b2 s2" "spans b1 s1 a n"
  shows "read_bytes m' a n = read_bytes m a n"
proof (rule read_bytes_cong)
  fix i assume "i < n"
  then have "\<not> in_region b2 s2 (a + of_nat i)"
    by (rule regions_apartD [OF assms(2) spans_in_region [OF assms(3)]])
  then show "m' (a + of_nat i) = m (a + of_nat i)" using same_outsideD [OF assms(1)] by simp
qed

lemma load64_same_outside:
  "same_outside b2 s2 m m' \<Longrightarrow> regions_apart b1 s1 b2 s2 \<Longrightarrow> spans b1 s1 a 8 \<Longrightarrow> load64 m' a = load64 m a"
  by (simp add: load64_def read_bytes_same_outside)

lemma load64_store64 [simp]: "load64 (store64 m a w) a = w"
  using read_write_same [of "u64_bytes w" m a] by (simp add: load64_def store64_def)

lemma store64_same_outside: "spans base sz a 8 \<Longrightarrow> same_outside base sz m (store64 m a w)"
  by (simp add: store64_def write_bytes_same_outside)

text \<open>Storing what another memory holds at the same place.\<close>

lemma in_region_nth: "in_region a (of_nat n) x \<Longrightarrow> n < 18446744073709551616 \<Longrightarrow> \<exists>i < n. x = a + of_nat i"
  by (rule exI [of _ "unat (x - a)"]) (simp add: in_region_def word_less_nat_alt unsigned_of_nat take_bit_nat_eq_self)

lemma store_loaded:
  assumes "in_region a 8 x"
  shows "store64 m a (load64 m' a) x = m' x"
proof -
  obtain i where i: "i < 8" "x = a + of_nat i" using in_region_nth [of a 8 x] assms by auto
  have "u64_bytes (load64 m' a) = read_bytes m' a 8" by (simp add: load64_def u64_bytes_le_word)
  then show ?thesis using i write_bytes_nth [of i "read_bytes m' a 8" m a] by (simp add: store64_def)
qed

lemma store64_outside: "\<not> in_region a 8 x \<Longrightarrow> store64 m a w x = m x"
  using store64_same_outside [of a 8 a m w] by (simp add: same_outside_def spans_def)

end
