(* ===== verification/Stage_Loader.thy ===== *)
theory Stage_Loader
  imports Byte_Memory Smp_Layout
begin

text \<open>
  The loader of independently linked stages, \<open>coreinit/stage_loader.c\<close>: the walk over the load
  commands of a Mach-O image, the copy of its segments into the reserved region, and the
  search for the entry point.  The image is a byte list and physical memory a function; the
  region is taken to be apart from the image.  A read outside the image is the value None
  of the option type, so that never reading outside is a theorem; a refused image is a normal
  result with entry 0.
\<close>

subsection \<open>The image\<close>

definition MH_MAGIC_64 :: u32 where "MH_MAGIC_64 = 0xfeedfacf"
definition LC_SEGMENT_64 :: u32 where "LC_SEGMENT_64 = 0x19"
definition LC_MAIN :: u32 where "LC_MAIN = 0x80000028"

definition CPU_TYPE_NATIVE :: "arch \<Rightarrow> u32" where
  "CPU_TYPE_NATIVE ar = (case ar of AArch64 \<Rightarrow> 0x0100000c | X86_64 \<Rightarrow> 0x01000007)"

definition rd32 :: "bytes \<Rightarrow> nat \<Rightarrow> u32 option" where
  "rd32 bs i = (if i + 4 \<le> length bs then Some (le_word (take 4 (drop i bs))) else None)"

definition rd64 :: "bytes \<Rightarrow> nat \<Rightarrow> u64 option" where
  "rd64 bs i = (if i + 8 \<le> length bs then Some (le_word (take 8 (drop i bs))) else None)"

definition rd_bytes :: "bytes \<Rightarrow> nat \<Rightarrow> nat \<Rightarrow> bytes option" where
  "rd_bytes bs i n = (if i + n \<le> length bs then Some (take n (drop i bs)) else None)"

record mach_header_64_t =
  mh_magic :: u32
  mh_cputype :: u32
  mh_ncmds :: u32
  mh_sizeofcmds :: u32

definition rd_header :: "bytes \<Rightarrow> mach_header_64_t option" where
  "rd_header bs =
    Option.bind (rd32 bs 0) (\<lambda>magic. Option.bind (rd32 bs 4) (\<lambda>cputype.
    Option.bind (rd32 bs 16) (\<lambda>ncmds. Option.bind (rd32 bs 20) (\<lambda>sizeofcmds.
      Some \<lparr>mh_magic = magic, mh_cputype = cputype, mh_ncmds = ncmds, mh_sizeofcmds = sizeofcmds\<rparr>))))"

record segment_command_64_t =
  segname :: bytes
  vmaddr :: u64
  vmsize :: u64
  fileoff :: u64
  filesize :: u64
  initprot :: u32

definition rd_segment :: "bytes \<Rightarrow> nat \<Rightarrow> segment_command_64_t option" where
  "rd_segment bs p =
    Option.bind (rd_bytes bs (p + 8) 16) (\<lambda>nm. Option.bind (rd64 bs (p + 24)) (\<lambda>va.
    Option.bind (rd64 bs (p + 32)) (\<lambda>vs. Option.bind (rd64 bs (p + 40)) (\<lambda>fo.
    Option.bind (rd64 bs (p + 48)) (\<lambda>fs. Option.bind (rd32 bs (p + 60)) (\<lambda>ip.
      Some \<lparr>segname = nm, vmaddr = va, vmsize = vs, fileoff = fo, filesize = fs, initprot = ip\<rparr>))))))"

definition is_pagezero :: "bytes \<Rightarrow> bool" where
  "is_pagezero name \<longleftrightarrow> take 11 name = map of_char ''__PAGEZERO'' @ [0]"

subsection \<open>Loading\<close>

record load_state =
  ld_mem :: "memory"
  entryoff :: u64
  have_entry :: bool
  entry :: u64
  code_start :: u64
  code_end :: u64

definition seg_fits :: "nat \<Rightarrow> u64 \<Rightarrow> segment_command_64_t \<Rightarrow> bool" where
  "seg_fits image_len reserved_size seg \<longleftrightarrow>
    \<not> (vmaddr seg > reserved_size \<or> vmsize seg > reserved_size - vmaddr seg \<or> filesize seg > vmsize seg \<or>
       unat (fileoff seg) > image_len \<or> unat (filesize seg) > image_len - unat (fileoff seg))"

definition holds_entry :: "u64 \<Rightarrow> segment_command_64_t \<Rightarrow> bool" where
  "holds_entry off seg \<longleftrightarrow> off \<ge> fileoff seg \<and> off - fileoff seg < filesize seg"

definition entry_in :: "u64 \<Rightarrow> u64 \<Rightarrow> segment_command_64_t \<Rightarrow> u64" where
  "entry_in target_base off seg = target_base + vmaddr seg + off - fileoff seg"

text \<open>The body of the loop for a segment that is copied; None for a read outside the image.\<close>

definition load_segment ::
  "arch \<Rightarrow> bytes \<Rightarrow> u64 \<Rightarrow> segment_command_64_t \<Rightarrow> load_state \<Rightarrow> load_state option" where
  "load_segment ar img target_base seg st =
    (let dest = target_base + vmaddr seg in
     Option.bind (rd_bytes img (unat (fileoff seg)) (unat (filesize seg))) (\<lambda>content.
       let m = write_bytes (ld_mem st) dest (content @ replicate (unat (vmsize seg) - unat (filesize seg)) 0);
           st1 = st\<lparr>ld_mem := m\<rparr>;
           st2 = (if ar = AArch64 \<and> initprot seg AND 4 \<noteq> 0 then
                    st1\<lparr>code_start := min dest (code_start st1),
                        code_end := max (dest + filesize seg) (code_end st1)\<rparr>
                  else st1)
       in Some (if have_entry st2 \<and> holds_entry (entryoff st2) seg
                then st2\<lparr>entry := entry_in target_base (entryoff st2) seg\<rparr> else st2)))"

text \<open>
  The loop over the commands between \<open>p\<close> and \<open>stop\<close>; False when the image is refused.
\<close>

fun load_cmds ::
  "arch \<Rightarrow> bytes \<Rightarrow> u64 \<Rightarrow> u64 \<Rightarrow> nat \<Rightarrow> nat \<Rightarrow> nat \<Rightarrow> load_state \<Rightarrow> (load_state \<times> bool) option" where
  "load_cmds ar img target_base reserved_size stop 0 p st = Some (st, True)"
| "load_cmds ar img target_base reserved_size stop (Suc left) p st =
    (if stop - p < 8 then Some (st, False)
     else Option.bind (rd32 img p) (\<lambda>cmd. Option.bind (rd32 img (p + 4)) (\<lambda>cmdsize.
       if unat cmdsize < 8 \<or> unat cmdsize > stop - p then Some (st, False)
       else if cmd = LC_SEGMENT_64 then
         (if unat cmdsize < 72 then Some (st, False)
          else Option.bind (rd_segment img p) (\<lambda>seg.
            if is_pagezero (segname seg) then
              load_cmds ar img target_base reserved_size stop left (p + unat cmdsize) st
            else if \<not> seg_fits (length img) reserved_size seg then Some (st, False)
            else Option.bind (load_segment ar img target_base seg st)
              (load_cmds ar img target_base reserved_size stop left (p + unat cmdsize))))
       else if cmd = LC_MAIN then
         (if unat cmdsize < 24 then Some (st, False)
          else Option.bind (rd64 img (p + 8)) (\<lambda>off.
            load_cmds ar img target_base reserved_size stop left (p + unat cmdsize)
              (st\<lparr>entryoff := off, have_entry := True\<rparr>)))
       else load_cmds ar img target_base reserved_size stop left (p + unat cmdsize) st)))"

text \<open>The second pass: the first segment whose file range holds the entry, 0 for none.\<close>

fun find_entry :: "bytes \<Rightarrow> u64 \<Rightarrow> u64 \<Rightarrow> nat \<Rightarrow> nat \<Rightarrow> u64 option" where
  "find_entry img target_base off 0 p = Some 0"
| "find_entry img target_base off (Suc left) p =
    Option.bind (rd32 img p) (\<lambda>cmd. Option.bind (rd32 img (p + 4)) (\<lambda>cmdsize.
      if cmd = LC_SEGMENT_64 then
        Option.bind (rd_segment img p) (\<lambda>seg.
          if \<not> is_pagezero (segname seg) \<and> holds_entry off seg then Some (entry_in target_base off seg)
          else find_entry img target_base off left (p + unat cmdsize))
      else find_entry img target_base off left (p + unat cmdsize)))"

definition load_init :: "memory \<Rightarrow> load_state" where
  "load_init m = \<lparr>ld_mem = m, entryoff = 0, have_entry = False, entry = 0, code_start = 0xFFFFFFFFFFFFFFFF, code_end = 0\<rparr>"

text \<open>
  Memory afterwards, the entry point and, on aarch64, the range made visible to
  instruction fetches.
\<close>

definition stage_load_macho ::
  "arch \<Rightarrow> memory \<Rightarrow> bytes option \<Rightarrow> u64 \<Rightarrow> u64 \<Rightarrow> (memory \<times> u64 \<times> (u64 \<times> u64) option) option" where
  "stage_load_macho ar m img target_base reserved_size = (case img of None \<Rightarrow> Some (m, 0, None)
   | Some bs \<Rightarrow>
      if length bs < 32 then Some (m, 0, None)
      else Option.bind (rd_header bs) (\<lambda>header.
        if mh_magic header \<noteq> MH_MAGIC_64 \<or> mh_cputype header \<noteq> CPU_TYPE_NATIVE ar \<or>
           unat (mh_sizeofcmds header) > length bs - 32 then Some (m, 0, None)
        else let stop = 32 + unat (mh_sizeofcmds header); n = unat (mh_ncmds header) in
          Option.bind (load_cmds ar bs target_base reserved_size stop n 32 (load_init m)) (\<lambda>(st, ok).
            if \<not> ok then Some (ld_mem st, 0, None)
            else Option.bind (if have_entry st \<and> entry st = 0 then find_entry bs target_base (entryoff st) n 32
                              else Some (entry st)) (\<lambda>e.
              Some (ld_mem st, e,
                if ar = AArch64 \<and> e \<noteq> 0 \<and> code_start st < code_end st then Some (code_start st, code_end st) else None)))))"

subsection \<open>Reads\<close>

lemma rd_in_image:
  "p + 4 \<le> length bs \<Longrightarrow> \<exists>v. rd32 bs p = Some v" "p + 8 \<le> length bs \<Longrightarrow> \<exists>v. rd64 bs p = Some v"
  "p + n \<le> length bs \<Longrightarrow> \<exists>v. rd_bytes bs p n = Some v"
  by (simp_all add: rd32_def rd64_def rd_bytes_def)

lemma rd_segment_in_image: "p + 72 \<le> length bs \<Longrightarrow> \<exists>seg. rd_segment bs p = Some seg"
  by (simp add: rd_segment_def rd32_def rd64_def rd_bytes_def)

lemma rd_header_in_image: "32 \<le> length bs \<Longrightarrow> \<exists>h. rd_header bs = Some h"
  by (simp add: rd_header_def rd32_def)

lemma seg_fitsD:
  assumes "seg_fits n r seg"
  shows "unat (vmaddr seg) + unat (vmsize seg) \<le> unat r" "unat (filesize seg) \<le> unat (vmsize seg)"
    "unat (fileoff seg) + unat (filesize seg) \<le> n"
proof -
  from assms have a: "vmaddr seg \<le> r" "vmsize seg \<le> r - vmaddr seg" "filesize seg \<le> vmsize seg"
    "unat (fileoff seg) \<le> n" "unat (filesize seg) \<le> n - unat (fileoff seg)"
    by (auto simp: seg_fits_def not_less)
  have "unat (r - vmaddr seg) = unat r - unat (vmaddr seg)"
    using a(1) by (simp add: unat_sub)
  then show "unat (vmaddr seg) + unat (vmsize seg) \<le> unat r"
    using a(1,2) by (simp add: word_le_nat_alt)
  show "unat (filesize seg) \<le> unat (vmsize seg)" using a(3) by (simp add: word_le_nat_alt)
  show "unat (fileoff seg) + unat (filesize seg) \<le> n" using a(4,5) by simp
qed

lemma load_segment_reads: "seg_fits (length img) r seg \<Longrightarrow> \<exists>st'. load_segment ar img tb seg st = Some st'"
  using seg_fitsD(3) [of "length img" r seg] by (simp add: load_segment_def rd_bytes_def Let_def)

text \<open>The commands a completed first pass has walked over.\<close>

fun cmds_ok :: "bytes \<Rightarrow> u64 \<Rightarrow> nat \<Rightarrow> nat \<Rightarrow> nat \<Rightarrow> bool" where
  "cmds_ok img r stop 0 p = True"
| "cmds_ok img r stop (Suc left) p = (case (rd32 img p, rd32 img (p + 4)) of
     (Some cmd, Some cmdsize) \<Rightarrow> p + unat cmdsize \<le> stop \<and>
        (cmd = LC_SEGMENT_64 \<longrightarrow> (case rd_segment img p of None \<Rightarrow> False
           | Some seg \<Rightarrow> is_pagezero (segname seg) \<or> seg_fits (length img) r seg)) \<and>
        cmds_ok img r stop left (p + unat cmdsize)
   | _ \<Rightarrow> False)"

lemma load_cmds_total:
  assumes "stop \<le> length img"
  shows "\<exists>st' ok. load_cmds ar img tb r stop n p st = Some (st', ok) \<and> (ok \<longrightarrow> cmds_ok img r stop n p)"
proof (induction n arbitrary: p st)
  case (Suc n)
  show ?case
  proof (cases "stop - p < 8")
    case False
    then have p: "p + 8 \<le> stop" by simp
    then obtain cmd sz where rd: "rd32 img p = Some cmd" "rd32 img (p + 4) = Some sz"
      using rd_in_image(1) [of p img] rd_in_image(1) [of "p + 4" img] assms by auto
    show ?thesis
    proof (cases "unat sz < 8 \<or> unat sz > stop - p")
      case fits: False
      then have q: "p + unat sz \<le> stop" using p by linarith
      obtain seg where seg: "72 \<le> unat sz \<Longrightarrow> rd_segment img p = Some seg"
        using rd_segment_in_image [of p img] q assms by (cases "72 \<le> unat sz") auto
      obtain off where off: "24 \<le> unat sz \<Longrightarrow> rd64 img (p + 8) = Some off"
        using rd_in_image(2) [of "p + 8" img] q assms by (cases "24 \<le> unat sz") auto
      obtain st1 where st1: "seg_fits (length img) r seg \<Longrightarrow> load_segment ar img tb seg st = Some st1"
        using load_segment_reads [of img r seg ar tb st] by auto
      have IH: "\<exists>st'' ok. load_cmds ar img tb r stop n (p + unat sz) st' = Some (st'', ok) \<and>
          (ok \<longrightarrow> cmds_ok img r stop n (p + unat sz))" for st' by (rule Suc)
      show ?thesis using False rd fits q seg off st1 IH by (auto simp: not_less)
    next
      case True
      then have "load_cmds ar img tb r stop (Suc n) p st = Some (st, False)" using False rd by auto
      then show ?thesis by blast
    qed
  next
    case True
    then have "load_cmds ar img tb r stop (Suc n) p st = Some (st, False)" by simp
    then show ?thesis by blast
  qed
qed auto

lemma find_entry_total:
  assumes "stop \<le> length img" "cmds_ok img r stop n p"
  shows "\<exists>e. find_entry img tb off n p = Some e"
  using assms(2)
proof (induction n arbitrary: p)
  case (Suc n)
  from Suc.prems obtain cmd sz where rd: "rd32 img p = Some cmd" "rd32 img (p + 4) = Some sz"
    "cmd = LC_SEGMENT_64 \<longrightarrow> rd_segment img p \<noteq> None" "cmds_ok img r stop n (p + unat sz)"
    by (auto split: option.splits)
  then show ?case using Suc.IH [OF rd(4)] by auto
qed simp

subsection \<open>Writes and the entry point\<close>

lemma load_segment_writes:
  assumes f: "seg_fits (length img) r seg" and l: "load_segment ar img tb seg st = Some st'"
    and a: "\<not> in_region tb r a"
  shows "ld_mem st' a = ld_mem st a"
proof -
  note F = seg_fitsD [OF f]
  let ?bs = "take (unat (filesize seg)) (drop (unat (fileoff seg)) img) @
    replicate (unat (vmsize seg) - unat (filesize seg)) 0"
  have len: "length ?bs = unat (vmsize seg)" using F by simp
  have "a \<noteq> tb + vmaddr seg + of_nat i" if i: "i < length ?bs" for i
  proof
    assume "a = tb + vmaddr seg + of_nat i"
    then have d: "a - tb = of_nat (unat (vmaddr seg) + i)" by simp
    have "unat (vmaddr seg) + i < unat r" using i F(1) len by simp
    then have "unat (a - tb) = unat (vmaddr seg) + i"
      unfolding d by (rule unat_of_nat_below)
    then have "in_region tb r a" using i F(1) len by (simp add: in_region_def word_less_nat_alt)
    then show False using a by contradiction
  qed
  from write_bytes_outside [of ?bs, OF this, of "ld_mem st"] show ?thesis
    using l F(3) by (auto simp: load_segment_def rd_bytes_def Let_def)
qed

lemma entry_in_region:
  assumes "seg_fits n r seg" "holds_entry off seg"
  shows "in_region tb r (entry_in tb off seg)"
proof -
  note F = seg_fitsD [OF assms(1)]
  have h: "fileoff seg \<le> off" "off - fileoff seg < filesize seg" using assms(2) by (auto simp: holds_entry_def)
  let ?k = "unat (vmaddr seg) + unat (off - fileoff seg)"
  have k: "?k < unat r" using F(1,2) h(2) by (simp add: word_less_nat_alt)
  have d: "entry_in tb off seg - tb = of_nat ?k" by (simp add: entry_in_def)
  have "unat (entry_in tb off seg - tb) = ?k"
    unfolding d by (rule unat_of_nat_below [OF k])
  then show ?thesis using k by (simp add: in_region_def word_less_nat_alt)
qed

text \<open>What the segments and the entry command preserve, the walk preserves.\<close>

lemma load_cmds_inv:
  assumes "\<And>st seg st'. P st \<Longrightarrow> seg_fits (length img) r seg \<Longrightarrow> load_segment ar img tb seg st = Some st' \<Longrightarrow> P st'"
    and "\<And>st off. P st \<Longrightarrow> P (st\<lparr>entryoff := off, have_entry := True\<rparr>)"
    and "P st" "load_cmds ar img tb r stop n p st = Some (st', ok)"
  shows "P st'"
  using assms(3,4)
proof (induction n arbitrary: p st)
  case (Suc n)
  show ?case
    using Suc.prems by (auto simp: bind_eq_Some_conv split: if_splits intro: Suc.IH assms(1,2))
qed simp

lemma load_cmds_writes:
  assumes "load_cmds ar img tb r stop n p st = Some (st', ok)" "\<not> in_region tb r a"
  shows "ld_mem st' a = ld_mem st a"
  by (rule load_cmds_inv [where P = "\<lambda>s. ld_mem s a = ld_mem st a", OF _ _ _ assms(1)])
    (use load_segment_writes [OF _ _ assms(2)] in auto)

lemma load_segment_entry:
  assumes "load_segment ar img tb seg st = Some st'"
  shows "entry st' = (if have_entry st \<and> holds_entry (entryoff st) seg
    then entry_in tb (entryoff st) seg else entry st)"
proof -
  from assms obtain y where y: "rd_bytes img (unat (fileoff seg)) (unat (filesize seg)) = Some y"
    by (auto simp: load_segment_def Let_def bind_eq_Some_conv)
  have "st' = the (load_segment ar img tb seg st)" using assms by simp
  then show ?thesis
    by (cases "ar = AArch64 \<and> initprot seg AND 4 \<noteq> 0"; cases "have_entry st \<and> holds_entry (entryoff st) seg")
      (auto simp add: load_segment_def Let_def y)
qed

lemma load_cmds_entry:
  assumes "load_cmds ar img tb r stop n p st = Some (st', ok)" "entry st = 0"
  shows "entry st' = 0 \<or> in_region tb r (entry st')"
  by (rule load_cmds_inv [where P = "\<lambda>s. entry s = 0 \<or> in_region tb r (entry s)", OF _ _ _ assms(1)])
    (use assms(2) entry_in_region in \<open>auto simp: load_segment_entry\<close>)

lemma find_entry_in_region:
  assumes "cmds_ok img r stop n p" "find_entry img tb off n p = Some e"
  shows "e = 0 \<or> in_region tb r e"
  using assms
proof (induction n arbitrary: p)
  case (Suc n)
  from Suc.prems(1) obtain cmd sz where rd: "rd32 img p = Some cmd" "rd32 img (p + 4) = Some sz"
    "\<And>seg. cmd = LC_SEGMENT_64 \<Longrightarrow> rd_segment img p = Some seg \<Longrightarrow> is_pagezero (segname seg) \<or> seg_fits (length img) r seg"
    "cmds_ok img r stop n (p + unat sz)"
    by (auto split: option.splits)
  show ?case using Suc.prems(2) rd(1,2) Suc.IH [OF rd(4)] rd(3) entry_in_region
    by (auto simp: bind_eq_Some_conv split: if_splits)
qed simp

subsection \<open>Properties\<close>

text \<open>
  C15: Whatever the bytes of the image, the loader returns without reading outside of it,
  writes nowhere but in the reserved region, also when it refuses the image half way, and a
  non-zero entry point lies in that region.
\<close>

theorem stage_load_stays_in_bounds:
  "\<exists>m' e code. stage_load_macho ar m img target_base reserved_size = Some (m', e, code) \<and>
    (\<forall>a. \<not> in_region target_base reserved_size a \<longrightarrow> m' a = m a) \<and>
    (e = 0 \<or> in_region target_base reserved_size e)"
proof (cases "\<exists>bs h. img = Some bs \<and> \<not> length bs < 32 \<and> rd_header bs = Some h \<and>
    \<not> (mh_magic h \<noteq> MH_MAGIC_64 \<or> mh_cputype h \<noteq> CPU_TYPE_NATIVE ar \<or> unat (mh_sizeofcmds h) > length bs - 32)")
  case True
  then obtain bs h where i: "img = Some bs" "\<not> length bs < 32" "rd_header bs = Some h"
    "\<not> (mh_magic h \<noteq> MH_MAGIC_64 \<or> mh_cputype h \<noteq> CPU_TYPE_NATIVE ar \<or> unat (mh_sizeofcmds h) > length bs - 32)"
    by blast
  let ?stop = "32 + unat (mh_sizeofcmds h)" and ?n = "unat (mh_ncmds h)"
  have stop: "?stop \<le> length bs" using i(2,4) by linarith
  obtain st ok where st: "load_cmds ar bs target_base reserved_size ?stop ?n 32 (load_init m) = Some (st, ok)"
    "ok \<longrightarrow> cmds_ok bs reserved_size ?stop ?n 32"
    using load_cmds_total [OF stop] by blast
  have w: "\<forall>a. \<not> in_region target_base reserved_size a \<longrightarrow> ld_mem st a = m a"
    using load_cmds_writes [OF st(1)] by (simp add: load_init_def)
  have e: "entry st = 0 \<or> in_region target_base reserved_size (entry st)"
    using load_cmds_entry [OF st(1)] by (simp add: load_init_def)
  show ?thesis
  proof (cases "ok \<and> have_entry st \<and> entry st = 0")
    case True
    then obtain f where f: "find_entry bs target_base (entryoff st) ?n 32 = Some f"
      using find_entry_total [OF stop] st(2) by blast
    from find_entry_in_region [OF _ f] st(2) True have "f = 0 \<or> in_region target_base reserved_size f" by blast
    then show ?thesis using i st(1) f w True by (simp add: stage_load_macho_def Let_def)
  next
    case False
    then show ?thesis using i st(1) w e by (auto simp: stage_load_macho_def Let_def)
  qed
next
  case False
  have "stage_load_macho ar m img target_base reserved_size = Some (m, 0, None)"
  proof (cases img)
    case (Some bs)
    then show ?thesis using False rd_header_in_image [of bs]
      by (cases "length bs < 32"; cases "rd_header bs") (auto simp: stage_load_macho_def)
  qed (simp add: stage_load_macho_def)
  then show ?thesis by blast
qed

text \<open>An image with one segment, whose code is copied and whose tail is zeroed.\<close>

definition demo_image :: bytes where
  "demo_image = concat (map u32_bytes [0xfeedfacf, 0x01000007, 3, 2, 2, 96, 0, 0])
     @ concat (map u32_bytes [0x19, 72]) @ replicate 16 0 @ concat (map u64_bytes [0x1000, 6, 128, 4])
     @ concat (map u32_bytes [7, 5, 0, 0])
     @ concat (map u32_bytes [0x80000028, 24]) @ concat (map u64_bytes [130, 0])
     @ [0x90, 0x90, 0xf4, 0xc3]"

theorem stage_load_stays_in_bounds_witness:
  "\<exists>m' e code. stage_load_macho X86_64 (\<lambda>a. 0xAA) (Some demo_image) 0x40000 0x2000 = Some (m', e, code) \<and>
     m' 0x42000 = 0xAA \<and> m' 0x41002 = 0xf4 \<and> e = 0x41002"
proof -
  have x: "map_option (\<lambda>(m', e, code). (m' 0x41002, e)) (stage_load_macho X86_64 (\<lambda>a. 0xAA) (Some demo_image) 0x40000 0x2000)
      = Some (0xf4, 0x41002)" by code_simp
  have o: "\<not> in_region 0x40000 0x2000 0x42000" by (simp add: in_region_def)
  show ?thesis
    using stage_load_stays_in_bounds [of X86_64 "\<lambda>a. 0xAA" "Some demo_image" "0x40000" "0x2000"] x o by auto
qed

end
