(* ===== verification/Page_Tables.thy ===== *)
theory Page_Tables
  imports Byte_Memory
begin

text \<open>
  Translation tables of 512 64-bit entries in memory, as both targets use them: reading and
  setting an entry, and the index of an address at a level.
\<close>

definition entry_at :: "memory \<Rightarrow> u64 \<Rightarrow> nat \<Rightarrow> u64" where
  "entry_at m tbl i = load64 m (tbl + of_nat (8 * i))"

definition set_entry :: "memory \<Rightarrow> u64 \<Rightarrow> nat \<Rightarrow> u64 \<Rightarrow> memory" where
  "set_entry m tbl i e = store64 m (tbl + of_nat (8 * i)) e"

definition table_index :: "nat \<Rightarrow> u64 \<Rightarrow> nat" where
  "table_index sh va = unat (drop_bit sh va AND 511)"

subsection \<open>Entries of a table\<close>

lemma entry_spans: "i < 512 \<Longrightarrow> spans tbl 0x1000 (tbl + of_nat (8 * i)) 8"
proof -
  assume "i < 512"
  then have "unat (of_nat (8 * i) :: u64) = 8 * i"
    by (intro unat_of_nat_below [of _ "0x1000"]) simp
  then show ?thesis using \<open>i < 512\<close> by (simp add: spans_def)
qed

lemma entry_at_same_outside:
  "same_outside b s m m' \<Longrightarrow> regions_apart tbl 0x1000 b s \<Longrightarrow> i < 512 \<Longrightarrow> entry_at m' tbl i = entry_at m tbl i"
  unfolding entry_at_def by (rule load64_same_outside) (assumption | rule entry_spans)+

lemma set_entry_same_outside: "i < 512 \<Longrightarrow> same_outside tbl 0x1000 m (set_entry m tbl i e)"
  unfolding set_entry_def by (rule store64_same_outside) (rule entry_spans)

lemma entry_set_same [simp]: "entry_at (set_entry m tbl i e) tbl i = e"
  by (simp add: entry_at_def set_entry_def)

lemma words_apart:
  assumes "i < j" "j < 512"
  shows "regions_apart (tbl + of_nat (8 * i)) 8 (tbl + of_nat (8 * j)) 8"
proof -
  let ?d = "of_nat (8 * (j - i)) :: u64"
  have d: "tbl + of_nat (8 * j) - (tbl + of_nat (8 * i)) = ?d"
    using assms(1) by (simp add: of_nat_diff right_diff_distrib)
  have d': "tbl + of_nat (8 * i) - (tbl + of_nat (8 * j)) = - ?d"
    using assms(1) by (simp add: of_nat_diff right_diff_distrib)
  have u: "unat ?d = 8 * (j - i)"
    using assms by (intro unat_of_nat_below [of _ "0x1000"]) simp
  then have "?d \<noteq> 0" using assms by (metis diff_is_0_eq mult_is_0 not_less unat_0 zero_neq_numeral)
  then have "unat (- ?d) + unat ?d = 18446744073709551616" by (rule unat_uminus)
  then have "8 \<le> unat (- ?d)" "8 \<le> unat ?d" using u assms by simp_all
  then show ?thesis unfolding regions_apart_def d d' by (simp add: word_le_nat_alt)
qed

lemma entry_set_other:
  assumes "i \<noteq> j" "i < 512" "j < 512"
  shows "entry_at (set_entry m tbl i e) tbl j = entry_at m tbl j"
proof -
  have "regions_apart (tbl + of_nat (8 * j)) 8 (tbl + of_nat (8 * i)) 8"
    using assms words_apart [of i j tbl] words_apart [of j i tbl] regions_apart_sym by (cases "i < j") auto
  moreover have "spans a 8 a 8" for a by (simp add: spans_def)
  ultimately show ?thesis
    unfolding entry_at_def set_entry_def by (blast intro: load64_same_outside [OF store64_same_outside])
qed

lemma entry_in_table:
  assumes "i < 512" "in_region (t + of_nat (8 * i)) 8 a"
  shows "in_region t 0x1000 a"
proof -
  have "in_region (t + of_nat (8 * i)) (of_nat 8) a" using assms(2) by simp
  from in_region_nth [OF this] obtain k where k: "k < 8" "a = t + of_nat (8 * i) + of_nat k" by auto
  show ?thesis unfolding k(2) by (rule spans_in_region [OF entry_spans [OF assms(1)] k(1)])
qed

lemma entry_at_other:
  "regions_apart t' 0x1000 t 0x1000 \<Longrightarrow> i < 512 \<Longrightarrow> j < 512 \<Longrightarrow> entry_at (set_entry m t i e) t' j = entry_at m t' j"
  using entry_at_same_outside [OF set_entry_same_outside] .

lemma entry_at_zero: "entry_at (\<lambda>_. 0) t i = 0"
proof -
  have "read_bytes (\<lambda>_. 0) a 8 = u64_bytes 0" for a by (simp add: read_bytes_def u64_bytes_def)
  then show ?thesis by (simp add: entry_at_def load64_def)
qed

subsection \<open>Indices\<close>

lemma no_high_bit:
  assumes "unat (w :: 'a :: len word) < 2 ^ k" "k \<le> n"
  shows "\<not> bit w n"
proof -
  have "take_bit k (unat w) = unat w" using assms(1) by (rule take_bit_nat_eq_self)
  then have "\<not> bit (unat w) n" using assms(2) by (metis bit_take_bit_iff not_less)
  then show ?thesis by (simp add: bit_unsigned_iff)
qed

lemma table_index_less [simp]: "table_index sh va < 512"
proof -
  have "drop_bit sh va AND 511 = take_bit 9 (drop_bit sh va)"
    using take_bit_eq_mask [of 9 "drop_bit sh va"] by (simp add: mask_eq_exp_minus_1)
  then have "unat (drop_bit sh va AND 511) = take_bit 9 (unat (drop_bit sh va))"
    by (simp add: unsigned_take_bit_eq)
  then show ?thesis unfolding table_index_def using take_bit_nat_less_exp [of 9] by simp
qed

lemma mask_9: "(511 :: u64) = mask 9" by (simp add: mask_eq_exp_minus_1)
lemma mask_12: "(0xFFF :: u64) = mask 12" by (simp add: mask_eq_exp_minus_1)
lemma mask_21: "(0x1FFFFF :: u64) = mask 21" by (simp add: mask_eq_exp_minus_1)

lemma table_index_eq: "table_index sh a = table_index sh b \<Longrightarrow> n < 9 \<Longrightarrow> sh + n < 64 \<Longrightarrow> bit a (sh + n) = bit b (sh + n)"
proof -
  assume "table_index sh a = table_index sh b" "n < 9" "sh + n < 64"
  then have "drop_bit sh a AND mask 9 = drop_bit sh b AND mask 9" 
    by (simp add: table_index_def mask_9 unsigned_word_eqI)
  then have "bit (drop_bit sh a AND mask 9) n = bit (drop_bit sh b AND mask 9) n" by simp
  then show ?thesis using \<open>n < 9\<close> by (simp add: bit_simps)
qed

lemma table_index_0: "table_index sh 0 = 0"
  by (simp add: table_index_def)

subsection \<open>Filling a table\<close>

lemma filled_table:
  "same_outside t 0x1000 m (fold (\<lambda>i m. set_entry m t i (f i)) [0..<512] m)"
  "i < 512 \<Longrightarrow> entry_at (fold (\<lambda>i m. set_entry m t i (f i)) [0..<512] m) t i = f i"
proof -
  let ?f = "\<lambda>n. fold (\<lambda>i m. set_entry m t i (f i)) [0..<n] m"
  have "same_outside t 0x1000 m (?f n) \<and> (\<forall>i < n. entry_at (?f n) t i = f i)" if "n \<le> 512" for n
    using that
  proof (induction n)
    case (Suc n)
    then have "same_outside t 0x1000 (?f n) (?f (Suc n))" by (simp add: set_entry_same_outside)
    then show ?case using Suc by (auto simp: less_Suc_eq entry_set_other intro: same_outside_trans)
  qed simp
  from this [of 512] show "same_outside t 0x1000 m (fold (\<lambda>i m. set_entry m t i (f i)) [0..<512] m)"
    "i < 512 \<Longrightarrow> entry_at (fold (\<lambda>i m. set_entry m t i (f i)) [0..<512] m) t i = f i"
    by simp_all
qed

subsection \<open>Pages\<close>

definition page_of :: "u64 \<Rightarrow> u64" where
  "page_of va = va AND NOT 0xFFF"

lemma drop_page: "12 \<le> sh \<Longrightarrow> drop_bit sh (page_of va) = drop_bit sh va"
  by (rule bit_word_eqI) (auto simp: page_of_def mask_12 bit_simps dest: bit_imp_le_length)

lemma same_page_index:
  assumes "page_of va' = page_of va" "12 \<le> sh"
  shows "drop_bit sh va' = drop_bit sh va"
  using drop_page [OF assms(2)] assms(1) by metis

lemma page_of_page [simp]: "page_of (page_of va) = page_of va"
  by (simp add: page_of_def and.assoc)

lemma offset_nat: "\<exists>i < 4096. (va :: u64) AND 0xFFF = of_nat i"
proof -
  have "va AND 0xFFF = take_bit 12 va" by (simp add: mask_12 take_bit_eq_mask)
  moreover have "unat (take_bit 12 va) < 4096"
    using take_bit_nat_less_exp [of 12 "unat va"] by (simp add: unsigned_take_bit_eq)
  ultimately show ?thesis by (intro exI [of _ "unat (va AND 0xFFF)"]) simp
qed

lemma page_split: "page_of va + (va AND 0xFFF) = va"
proof -
  have "page_of va AND (va AND 0xFFF) = 0"
    by (intro bit_word_eqI) (auto simp: page_of_def mask_12 bit_simps)
  from disjunctive_add_eq_or [OF this] have "page_of va + (va AND 0xFFF) = page_of va OR va AND 0xFFF" .
  also have "\<dots> = va" by (intro bit_word_eqI) (auto simp: page_of_def mask_12 bit_simps)
  finally show ?thesis .
qed

lemma same_page_offset: "page_of va' = page_of va \<Longrightarrow> va' AND 0xFFF = va AND 0xFFF \<longleftrightarrow> va' = va"
  by (metis page_split)

end
