(* ===== verification/X86_Mmu.thy ===== *)
theory X86_Mmu
  imports Page_Tables
begin

text \<open>
  The page walk of the x86-64 architecture over tables in memory, with four levels and
  blocks of one gigabyte and two megabytes.  Translations are always those of the tables:
  every change of an entry in the program is followed by the invalidation of the address.
\<close>

definition ADDR_MASK :: u64 where "ADDR_MASK = 0x000FFFFFFFFFF000"
definition PAGE_PRESENT :: u64 where "PAGE_PRESENT = 1"
definition PAGE_WRITE :: u64 where "PAGE_WRITE = 2"
definition PAGE_USER :: u64 where "PAGE_USER = 4"
definition PAGE_HUGE :: u64 where "PAGE_HUGE = 0x80"

lemmas entry_bits = ADDR_MASK_def PAGE_PRESENT_def PAGE_WRITE_def PAGE_USER_def PAGE_HUGE_def

text \<open>
  The walk for an address, where every entry on the way has to satisfy a condition: the
  physical address and whether every entry allows writing.
\<close>

definition canonical :: "u64 \<Rightarrow> bool" where
  "canonical va \<longleftrightarrow> drop_bit 47 va = 0 \<or> drop_bit 47 va = 0x1FFFF"

definition x86_walk :: "(u64 \<Rightarrow> bool) \<Rightarrow> memory \<Rightarrow> u64 \<Rightarrow> u64 \<Rightarrow> (u64 \<times> bool) option" where
  "x86_walk ok m root va =
    (let e4 = entry_at m root (table_index 39 va);
         e3 = entry_at m (e4 AND ADDR_MASK) (table_index 30 va);
         e2 = entry_at m (e3 AND ADDR_MASK) (table_index 21 va);
         e1 = entry_at m (e2 AND ADDR_MASK) (table_index 12 va)
     in if \<not> canonical va \<or> \<not> ok e4 \<or> \<not> ok e3 then None
        else if e3 AND PAGE_HUGE \<noteq> 0 then
          Some (e3 AND 0x000FFFFFC0000000 OR va AND 0x3FFFFFFF, (e4 AND e3) AND PAGE_WRITE \<noteq> 0)
        else if \<not> ok e2 then None
        else if e2 AND PAGE_HUGE \<noteq> 0 then
          Some (e2 AND 0x000FFFFFFFE00000 OR va AND 0x1FFFFF, (e4 AND e3 AND e2) AND PAGE_WRITE \<noteq> 0)
        else if \<not> ok e1 then None
        else Some (e1 AND ADDR_MASK OR va AND 0xFFF, (e4 AND e3 AND e2 AND e1) AND PAGE_WRITE \<noteq> 0))"

text \<open>An access from ring 3 needs entries open to users, one from ring 0 entries that are present.\<close>

definition user_entry :: "u64 \<Rightarrow> bool" where
  "user_entry e \<longleftrightarrow> e AND PAGE_PRESENT \<noteq> 0 \<and> e AND PAGE_USER \<noteq> 0"

definition present_entry :: "u64 \<Rightarrow> bool" where
  "present_entry e \<longleftrightarrow> e AND PAGE_PRESENT \<noteq> 0"

lemma ADDR_MASK_alt: "ADDR_MASK = mask 52 AND NOT (mask 12)"
  by (simp add: ADDR_MASK_def mask_eq_exp_minus_1)

lemma canonical_bit: "canonical va \<Longrightarrow> \<not> bit va 47 \<Longrightarrow> 47 \<le> n \<Longrightarrow> \<not> bit va n"
proof -
  assume c: "canonical va" "\<not> bit va 47" "47 \<le> n"
  have "\<not> bit (drop_bit 47 va) 0" using c(2) by (simp add: bit_drop_bit_eq)
  then have "drop_bit 47 va \<noteq> 0x1FFFF" by (metis bit_0 odd_numeral)
  then have "drop_bit 47 va = 0" using c(1) by (simp add: canonical_def)
  then have "\<not> bit (drop_bit 47 va) (n - 47)" by simp
  then show ?thesis using c(3) by (simp add: bit_drop_bit_eq)
qed

end
