(* ===== verification/X86_Pagefault.thy ===== *)
theory X86_Pagefault
  imports X86_Mmu
begin

text \<open>
  Demand mapping and copy-on-write on x86-64, \<open>coreinit/pagefault_x86_64.c\<close>.  The page
  tables, the table \<open>pf_split_pt\<close> and the pool of private pages lie in memory; the record
  \<open>pf_core_t\<close> holds the other fields of the core state, and where the two arrays are.  A
  byte store of the processor walks the tables and, on a fault, runs the handler and is
  retried, as long as that takes.
\<close>

subsection \<open>State\<close>

definition MAX_STREAMED_PAGES :: nat where "MAX_STREAMED_PAGES = 16"
definition MAX_COW_PAGES :: nat where "MAX_COW_PAGES = 16"
definition COW_POOL_SIZE :: nat where "COW_POOL_SIZE = 4"

record pf_core_t =
  pf_split_pt :: u64
  pf_split_region_base :: u64
  pf_have_split :: bool
  pf_streamed_pages :: "u64 list"
  pf_cow_pages :: "u64 list"
  pf_cow_pool :: u64
  pf_cow_pool_used :: nat
  pf_fault_count :: u64
  pf_cow_copy_count :: u64
  my_pml4_phys :: u64

text \<open>Memory, the control register and the core state, which a core may lack.\<close>

record pf_machine =
  pm_mem :: memory
  pm_cr0 :: u64
  pm_core :: "pf_core_t option"

subsection \<open>Walks\<close>

definition walk_to_pd_entry :: "memory \<Rightarrow> u64 \<Rightarrow> u64 \<Rightarrow> u64 option" where
  "walk_to_pd_entry m pml4_phys vaddr =
    (let e4 = entry_at m pml4_phys (table_index 39 vaddr) in
     if e4 AND PAGE_PRESENT = 0 then None
     else let e3 = entry_at m (e4 AND ADDR_MASK) (table_index 30 vaddr) in
       if e3 AND PAGE_PRESENT = 0 then None
       else Some ((e3 AND ADDR_MASK) + of_nat (8 * table_index 21 vaddr)))"

definition walk_to_pt_entry :: "memory \<Rightarrow> u64 \<Rightarrow> u64 \<Rightarrow> u64 option" where
  "walk_to_pt_entry m pml4_phys vaddr =
    (case walk_to_pd_entry m pml4_phys vaddr of None \<Rightarrow> None
     | Some pd_entry \<Rightarrow>
        let e2 = load64 m pd_entry in
        if e2 AND PAGE_HUGE \<noteq> 0 \<or> e2 AND PAGE_PRESENT = 0 then None
        else Some ((e2 AND ADDR_MASK) + of_nat (8 * table_index 12 vaddr)))"

subsection \<open>Splitting a region\<close>

definition split_entry :: "u64 \<Rightarrow> nat \<Rightarrow> u64" where
  "split_entry huge_base i = (huge_base + of_nat i * 4096) OR PAGE_PRESENT OR PAGE_WRITE"

definition fill_split_pt :: "u64 \<Rightarrow> u64 \<Rightarrow> memory \<Rightarrow> memory" where
  "fill_split_pt pt huge_base m = fold (\<lambda>i m. set_entry m pt i (split_entry huge_base i)) [0..<512] m"

definition pagefault_split_region :: "u64 \<Rightarrow> u64 \<Rightarrow> pf_machine \<Rightarrow> pf_machine \<times> bool" where
  "pagefault_split_region pml4_phys region_base st =
    (case pm_core st of None \<Rightarrow> (st, False)
     | Some cs \<Rightarrow>
        (case walk_to_pd_entry (pm_mem st) pml4_phys region_base of None \<Rightarrow> (st, False)
         | Some pd_entry \<Rightarrow>
            let e2 = load64 (pm_mem st) pd_entry in
            if e2 AND PAGE_PRESENT = 0 \<or> e2 AND PAGE_HUGE = 0 then (st, False)
            else let huge_base = e2 AND NOT 0x1FFFFF;
                     m1 = fill_split_pt (pf_split_pt cs) huge_base (pm_mem st);
                     m2 = store64 m1 pd_entry (pf_split_pt cs OR PAGE_PRESENT OR PAGE_WRITE)
                 in (st\<lparr>pm_mem := m2,
                       pm_core := Some (cs\<lparr>pf_split_region_base := huge_base, pf_have_split := True\<rparr>)\<rparr>, True)))"

subsection \<open>Marking pages\<close>

definition register_streamed :: "u64 \<Rightarrow> pf_core_t \<Rightarrow> pf_core_t" where
  "register_streamed page_addr cs =
    (if length (pf_streamed_pages cs) < MAX_STREAMED_PAGES
     then cs\<lparr>pf_streamed_pages := pf_streamed_pages cs @ [page_addr]\<rparr> else cs)"

definition pagefault_register_streamed_page :: "u64 \<Rightarrow> pf_machine \<Rightarrow> pf_machine" where
  "pagefault_register_streamed_page page_addr st = st\<lparr>pm_core := map_option (register_streamed page_addr) (pm_core st)\<rparr>"

definition is_registered_streamed :: "pf_core_t \<Rightarrow> u64 \<Rightarrow> bool" where
  "is_registered_streamed cs addr \<longleftrightarrow> addr \<in> set (pf_streamed_pages cs)"

definition is_registered_cow :: "pf_core_t \<Rightarrow> u64 \<Rightarrow> bool" where
  "is_registered_cow cs addr \<longleftrightarrow> addr \<in> set (pf_cow_pages cs)"

definition pagefault_mark_absent :: "u64 \<Rightarrow> u64 \<Rightarrow> pf_machine \<Rightarrow> pf_machine \<times> bool" where
  "pagefault_mark_absent pml4_phys page_addr st =
    (case pm_core st of None \<Rightarrow> (st, False)
     | Some cs \<Rightarrow>
        (case walk_to_pt_entry (pm_mem st) pml4_phys page_addr of None \<Rightarrow> (st, False)
         | Some a \<Rightarrow>
            (pagefault_register_streamed_page page_addr
               (st\<lparr>pm_mem := store64 (pm_mem st) a (load64 (pm_mem st) a AND NOT PAGE_PRESENT)\<rparr>), True)))"

definition pagefault_mark_cow :: "u64 \<Rightarrow> u64 \<Rightarrow> pf_machine \<Rightarrow> pf_machine \<times> bool" where
  "pagefault_mark_cow pml4_phys page_addr st =
    (case pm_core st of None \<Rightarrow> (st, False)
     | Some cs \<Rightarrow>
        (case walk_to_pt_entry (pm_mem st) pml4_phys page_addr of None \<Rightarrow> (st, False)
         | Some a \<Rightarrow>
            if load64 (pm_mem st) a AND PAGE_PRESENT = 0 then (st, False)
            else (st\<lparr>pm_mem := store64 (pm_mem st) a (load64 (pm_mem st) a AND NOT PAGE_WRITE),
                    pm_core := Some (if length (pf_cow_pages cs) < MAX_COW_PAGES
                      then cs\<lparr>pf_cow_pages := pf_cow_pages cs @ [page_addr]\<rparr> else cs)\<rparr>, True)))"

subsection \<open>The fault handler\<close>

definition resolve_streamed :: "u64 \<Rightarrow> u64 \<Rightarrow> memory \<Rightarrow> memory" where
  "resolve_streamed fault_addr pml4_phys m =
    (case walk_to_pt_entry m pml4_phys fault_addr of None \<Rightarrow> m
     | Some a \<Rightarrow> store64 m a (load64 m a OR PAGE_PRESENT))"

definition cow_page :: "pf_core_t \<Rightarrow> u64" where
  "cow_page cs = pf_cow_pool cs + of_nat (4096 * pf_cow_pool_used cs)"

definition resolve_cow_write :: "pf_core_t \<Rightarrow> u64 \<Rightarrow> u64 \<Rightarrow> memory \<Rightarrow> memory \<times> pf_core_t" where
  "resolve_cow_write cs fault_addr pml4_phys m =
    (case walk_to_pt_entry m pml4_phys fault_addr of None \<Rightarrow> (m, cs)
     | Some a \<Rightarrow>
        if pf_cow_pool_used cs \<ge> COW_POOL_SIZE then (m, cs)
        else let shared_source = load64 m a AND ADDR_MASK; private_copy = cow_page cs;
                 m1 = write_bytes m private_copy (read_bytes m shared_source 4096);
                 m2 = store64 m1 a ((private_copy AND ADDR_MASK) OR PAGE_PRESENT OR PAGE_WRITE)
             in (m2, cs\<lparr>pf_cow_pool_used := pf_cow_pool_used cs + 1,
                       pf_cow_copy_count := pf_cow_copy_count cs + 1\<rparr>))"

text \<open>
  The handler, with the hook for faults from ring 3 as an argument on the wrapper's state:
  whether the interrupted code resumes; otherwise the core halts.
\<close>

definition isr_page_fault ::
  "('h \<Rightarrow> u64 list \<Rightarrow> u64 \<Rightarrow> u64 \<Rightarrow> 'h \<times> u64 list \<times> bool) option \<Rightarrow> 'h \<Rightarrow> u64 list \<Rightarrow> u64 \<Rightarrow> u64 \<Rightarrow>
    pf_machine \<Rightarrow> 'h \<times> u64 list \<times> pf_machine \<times> bool" where
  "isr_page_fault hook h frame error_code fault_addr st =
    (let (h1, frame1, taken) = (case hook of None \<Rightarrow> (h, frame, False)
           | Some f \<Rightarrow> if error_code AND 4 \<noteq> 0 then f h frame error_code fault_addr else (h, frame, False))
     in if taken then (h1, frame1, st, True)
        else let page_addr = fault_addr AND NOT 0xFFF; was_present = error_code AND 1 \<noteq> 0;
                 was_write = error_code AND 2 \<noteq> 0
             in (case pm_core st of None \<Rightarrow> (h1, frame1, st, False)
               | Some cs0 \<Rightarrow>
                  let cs = cs0\<lparr>pf_fault_count := pf_fault_count cs0 + 1\<rparr> in
                  if \<not> was_present \<and> is_registered_streamed cs page_addr then
                    (h1, frame1, st\<lparr>pm_core := Some cs, pm_mem := resolve_streamed page_addr (my_pml4_phys cs) (pm_mem st)\<rparr>, True)
                  else if was_present \<and> was_write \<and> is_registered_cow cs page_addr then
                    (case resolve_cow_write cs page_addr (my_pml4_phys cs) (pm_mem st) of
                       (m, cs1) \<Rightarrow> (h1, frame1, st\<lparr>pm_core := Some cs1, pm_mem := m\<rparr>, True))
                  else (h1, frame1, st\<lparr>pm_core := Some cs\<rparr>, False)))"

definition pagefault_init :: "pf_machine \<Rightarrow> pf_machine" where
  "pagefault_init st = st\<lparr>pm_cr0 := pm_cr0 st OR push_bit 16 1\<rparr>"

definition pagefault_get_count :: "pf_machine \<Rightarrow> u64" where
  "pagefault_get_count st = (case pm_core st of None \<Rightarrow> 0 | Some cs \<Rightarrow> pf_fault_count cs)"

definition pagefault_get_cow_copy_count :: "pf_machine \<Rightarrow> u64" where
  "pagefault_get_cow_copy_count st = (case pm_core st of None \<Rightarrow> 0 | Some cs \<Rightarrow> pf_cow_copy_count cs)"

definition pagefault_debug_read_pte :: "u64 \<Rightarrow> u64 \<Rightarrow> pf_machine \<Rightarrow> u64" where
  "pagefault_debug_read_pte pml4_phys addr st =
    (case walk_to_pt_entry (pm_mem st) pml4_phys addr of None \<Rightarrow> 0 | Some a \<Rightarrow> load64 (pm_mem st) a)"

subsection \<open>Stores of the processor in ring 0\<close>

text \<open>
  A store goes through when the walk allows it, read-only pages being writable as long as
  write protection is off; otherwise the handler runs and the store is tried again.  The
  inner value is None when the core halts; the whole is None when the store is retried
  forever.
\<close>

definition store_target :: "pf_machine \<Rightarrow> u64 \<Rightarrow> u64 \<Rightarrow> u64 + u64" where
  "store_target st root va =
    (case x86_walk present_entry (pm_mem st) root va of None \<Rightarrow> Inl 2
     | Some (pa, w) \<Rightarrow> if w \<or> \<not> bit (pm_cr0 st) 16 then Inr pa else Inl 3)"

definition kernel_fault :: "u64 \<Rightarrow> u64 \<Rightarrow> pf_machine \<Rightarrow> pf_machine \<times> bool" where
  "kernel_fault error va st = snd (snd (isr_page_fault None () [] error va st))"

partial_function (option) cpu_store :: "u64 \<Rightarrow> u64 \<Rightarrow> u8 \<Rightarrow> pf_machine \<Rightarrow> pf_machine option option" where
  "cpu_store root va b st =
    (case store_target st root va of
       Inr pa \<Rightarrow> Some (Some (st\<lparr>pm_mem := (pm_mem st)(pa := b)\<rparr>))
     | Inl error \<Rightarrow>
        (case kernel_fault error va st of
           (st', resumed) \<Rightarrow> if resumed then cpu_store root va b st' else Some None))"

subsection \<open>Walks down to a table of pages\<close>

lemma flag_bits:
  "e AND PAGE_PRESENT \<noteq> 0 \<longleftrightarrow> bit e 0" "e AND PAGE_WRITE \<noteq> 0 \<longleftrightarrow> bit e 1" "e AND PAGE_HUGE \<noteq> 0 \<longleftrightarrow> bit e 7"
  using and_exp_eq_0_iff_not_bit [of e 0] and_exp_eq_0_iff_not_bit [of e 1] and_exp_eq_0_iff_not_bit [of e 7]
  by (simp_all add: entry_bits)

text \<open>The two upper levels lead to a directory, in which a table of pages is found.\<close>

definition dir_path :: "memory \<Rightarrow> u64 \<Rightarrow> u64 \<Rightarrow> u64 \<Rightarrow> u64 \<Rightarrow> bool" where
  "dir_path m root va pdpt pd \<longleftrightarrow>
    (let e4 = entry_at m root (table_index 39 va); e3 = entry_at m pdpt (table_index 30 va)
     in bit e4 0 \<and> bit e4 1 \<and> e4 AND ADDR_MASK = pdpt \<and> bit e3 0 \<and> bit e3 1 \<and> \<not> bit e3 7 \<and> e3 AND ADDR_MASK = pd)"

definition page_path :: "memory \<Rightarrow> u64 \<Rightarrow> u64 \<Rightarrow> u64 \<Rightarrow> u64 \<Rightarrow> u64 \<Rightarrow> bool" where
  "page_path m root va pdpt pd pt \<longleftrightarrow> dir_path m root va pdpt pd \<and>
    (let e2 = entry_at m pd (table_index 21 va) in bit e2 0 \<and> bit e2 1 \<and> \<not> bit e2 7 \<and> e2 AND ADDR_MASK = pt)"

lemma walk_dir:
  assumes "dir_path m root va pdpt pd" "canonical va"
  shows "x86_walk present_entry m root va =
    (let e2 = entry_at m pd (table_index 21 va); e1 = entry_at m (e2 AND ADDR_MASK) (table_index 12 va)
     in if \<not> bit e2 0 then None
        else if bit e2 7 then Some (e2 AND 0x000FFFFFFFE00000 OR va AND 0x1FFFFF, bit e2 1)
        else if \<not> bit e1 0 then None
        else Some (e1 AND ADDR_MASK OR va AND 0xFFF, bit e2 1 \<and> bit e1 1))"
  using assms by (simp add: x86_walk_def dir_path_def present_entry_def flag_bits Let_def bit_and_iff)

lemma walk_page:
  assumes "page_path m root va pdpt pd pt" "canonical va" "e1 = entry_at m pt (table_index 12 va)"
  shows "x86_walk present_entry m root va =
    (if \<not> bit e1 0 then None else Some (e1 AND ADDR_MASK OR va AND 0xFFF, bit e1 1))"
  using assms walk_dir [of m root va pdpt pd] by (simp add: page_path_def Let_def)

lemma dir_entry:
  assumes "dir_path m root va pdpt pd"
  shows "walk_to_pd_entry m root va = Some (pd + of_nat (8 * table_index 21 va))"
  using assms flag_bits(1) by (simp add: walk_to_pd_entry_def dir_path_def Let_def)

lemma page_entry_address:
  assumes "page_path m root va pdpt pd pt"
  shows "walk_to_pt_entry m root va = Some (pt + of_nat (8 * table_index 12 va))"
proof -
  have "walk_to_pd_entry m root va = Some (pd + of_nat (8 * table_index 21 va))"
    using assms unfolding page_path_def by (blast intro: dir_entry)
  then show ?thesis
    using assms flag_bits [of "entry_at m pd (table_index 21 va)"]
    by (simp only: walk_to_pt_entry_def option.case Let_def entry_at_def [symmetric] page_path_def) auto
qed

text \<open>Addresses of the same page take the same path.\<close>

lemma same_page_path:
  assumes "page_of va' = page_of va"
  shows "page_path m root va' pdpt pd pt = page_path m root va pdpt pd pt"
    "table_index 12 va' = table_index 12 va" "canonical va' = canonical va"
  using same_page_index [OF assms] by (simp_all add: page_path_def dir_path_def table_index_def canonical_def)

text \<open>A frame address and an offset.\<close>

lemma frame_low_bits: "x AND ADDR_MASK = x \<Longrightarrow> n < 12 \<Longrightarrow> \<not> bit x n"
proof -
  assume "x AND ADDR_MASK = x" "n < 12"
  then have "bit x n \<longleftrightarrow> bit (x AND ADDR_MASK) n" by simp
  also have "\<dots> \<longleftrightarrow> False" using \<open>n < 12\<close> by (simp add: ADDR_MASK_alt bit_simps)
  finally show ?thesis by simp
qed

lemma frame_offset:
  assumes "x AND ADDR_MASK = x"
  shows "x OR va AND 0xFFF = x + (va AND 0xFFF)"
proof -
  have "x AND (va AND 0xFFF) = 0"
    using frame_low_bits [OF assms] by (intro bit_word_eqI) (auto simp: mask_12 bit_simps)
  from disjunctive_add_eq_or [OF this] show ?thesis by simp
qed

lemma frame_flags:
  assumes "x AND ADDR_MASK = x"
  shows "(x OR PAGE_PRESENT OR PAGE_WRITE) AND ADDR_MASK = x" "bit (x OR PAGE_PRESENT OR PAGE_WRITE) 0"
    "bit (x OR PAGE_PRESENT OR PAGE_WRITE) 1" "\<not> bit (x OR PAGE_PRESENT OR PAGE_WRITE) 7"
proof -
  show "(x OR PAGE_PRESENT OR PAGE_WRITE) AND ADDR_MASK = x"
    by (simp add: bit.conj_disj_distrib2 assms) (simp add: entry_bits)
  have "\<not> bit x 7" by (rule frame_low_bits [OF assms]) simp
  then show "bit (x OR PAGE_PRESENT OR PAGE_WRITE) 0" "bit (x OR PAGE_PRESENT OR PAGE_WRITE) 1"
    "\<not> bit (x OR PAGE_PRESENT OR PAGE_WRITE) 7"
    by (simp_all add: bit_or_iff entry_bits)
qed

subsection \<open>Copy on write\<close>

text \<open>
  A store to a page that was marked copy-on-write: the address is mapped through tables
  that may be written, its page is present, read-only and registered, the pool has a page
  left, and the tables, the shared frame and that page have no address in common.
\<close>

definition cow_ready :: "pf_machine \<Rightarrow> pf_core_t \<Rightarrow> u64 \<Rightarrow> u64 \<Rightarrow> u64 \<Rightarrow> u64 \<Rightarrow> bool" where
  "cow_ready st cs va pdpt pd pt \<longleftrightarrow>
    (let m = pm_mem st; root = my_pml4_phys cs; e1 = entry_at m pt (table_index 12 va); copy = cow_page cs
     in pm_core st = Some cs \<and> bit (pm_cr0 st) 16 \<and> canonical va \<and> page_path m root va pdpt pd pt \<and>
        bit e1 0 \<and> \<not> bit e1 1 \<and> is_registered_cow cs (page_of va) \<and> pf_cow_pool_used cs < COW_POOL_SIZE \<and>
        copy AND ADDR_MASK = copy \<and>
        regions_apart root 0x1000 copy 0x1000 \<and> regions_apart pdpt 0x1000 copy 0x1000 \<and>
        regions_apart pd 0x1000 copy 0x1000 \<and> regions_apart pt 0x1000 copy 0x1000 \<and>
        regions_apart root 0x1000 pt 0x1000 \<and> regions_apart pdpt 0x1000 pt 0x1000 \<and>
        regions_apart pd 0x1000 pt 0x1000 \<and>
        regions_apart (e1 AND ADDR_MASK) 0x1000 copy 0x1000 \<and> regions_apart (e1 AND ADDR_MASK) 0x1000 pt 0x1000)"

text \<open>The state after the fault, and that it maps the page to the copy.\<close>

definition cow_mem :: "pf_machine \<Rightarrow> pf_core_t \<Rightarrow> u64 \<Rightarrow> u64 \<Rightarrow> memory" where
  "cow_mem st cs va pt =
    set_entry (write_bytes (pm_mem st) (cow_page cs)
        (read_bytes (pm_mem st) (entry_at (pm_mem st) pt (table_index 12 va) AND ADDR_MASK) 4096))
      pt (table_index 12 va) (cow_page cs OR PAGE_PRESENT OR PAGE_WRITE)"

definition cow_core :: "pf_core_t \<Rightarrow> pf_core_t" where
  "cow_core cs = cs\<lparr>pf_fault_count := pf_fault_count cs + 1, pf_cow_pool_used := pf_cow_pool_used cs + 1,
     pf_cow_copy_count := pf_cow_copy_count cs + 1\<rparr>"

lemma cow_fault:
  assumes "cow_ready st cs va pdpt pd pt"
  shows "kernel_fault 3 va st = (st\<lparr>pm_core := Some (cow_core cs), pm_mem := cow_mem st cs va pt\<rparr>, True)"
proof -
  note R = assms [unfolded cow_ready_def Let_def]
  have p: "walk_to_pt_entry (pm_mem st) (my_pml4_phys cs) (page_of va) = Some (pt + of_nat (8 * table_index 12 va))"
    using page_entry_address [of "pm_mem st" "my_pml4_phys cs" "page_of va" pdpt pd pt]
      same_page_path(1,2) [of "page_of va" va] R by simp
  let ?cs = "cs\<lparr>pf_fault_count := pf_fault_count cs + 1\<rparr>"
  have "resolve_cow_write ?cs (page_of va) (my_pml4_phys cs) (pm_mem st) = (cow_mem st cs va pt, cow_core cs)"
    unfolding resolve_cow_write_def p option.case Let_def cow_mem_def cow_core_def set_entry_def entry_at_def
    using R by (simp add: cow_page_def)
  then show ?thesis
    using R by (simp add: kernel_fault_def isr_page_fault_def Let_def page_of_def is_registered_cow_def is_registered_streamed_def)
qed

lemma cow_mem_outside:
  assumes "\<not> in_region (cow_page cs) 0x1000 a" "\<not> in_region (pt + of_nat (8 * table_index 12 va)) 8 a"
  shows "cow_mem st cs va pt a = pm_mem st a"
proof -
  let ?bs = "read_bytes (pm_mem st) (entry_at (pm_mem st) pt (table_index 12 va) AND ADDR_MASK) 4096"
  have "same_outside (cow_page cs) 0x1000 (pm_mem st) (write_bytes (pm_mem st) (cow_page cs) ?bs)"
    by (rule write_bytes_same_outside) (simp add: spans_def)
  from same_outsideD [OF this assms(1)] show ?thesis
    unfolding cow_mem_def set_entry_def by (simp only: store64_outside [OF assms(2)])
qed

lemma cow_path:
  assumes "cow_ready st cs va pdpt pd pt"
  shows "page_path (cow_mem st cs va pt) (my_pml4_phys cs) va pdpt pd pt"
proof -
  note R = assms [unfolded cow_ready_def Let_def]
  let ?m1 = "write_bytes (pm_mem st) (cow_page cs)
     (read_bytes (pm_mem st) (entry_at (pm_mem st) pt (table_index 12 va) AND ADDR_MASK) 4096)"
  have s: "same_outside (cow_page cs) 0x1000 (pm_mem st) ?m1"
    by (rule write_bytes_same_outside) (simp add: spans_def)
  have "entry_at (cow_mem st cs va pt) t i = entry_at (pm_mem st) t i"
    if "t \<in> {my_pml4_phys cs, pdpt, pd}" "i < 512" for t i
  proof -
    have "regions_apart t 0x1000 pt 0x1000" "regions_apart t 0x1000 (cow_page cs) 0x1000" using R that(1) by auto
    then show ?thesis
      using entry_at_same_outside [OF s _ that(2)] entry_at_same_outside [OF set_entry_same_outside _ that(2)]
      by (simp add: cow_mem_def)
  qed
  then show ?thesis using R by (simp add: page_path_def dir_path_def Let_def)
qed

lemma cow_walk:
  assumes "cow_ready st cs va pdpt pd pt" "page_of va' = page_of va" "same_outside (cow_page cs) 0x1000 (cow_mem st cs va pt) m"
  shows "x86_walk present_entry m (my_pml4_phys cs) va' = Some (cow_page cs + (va' AND 0xFFF), True)"
proof -
  note R = assms(1) [unfolded cow_ready_def Let_def]
  note P = same_page_path [OF assms(2)]
  have c: "cow_page cs AND ADDR_MASK = cow_page cs" using R by simp
  have t: "entry_at m t i = entry_at (cow_mem st cs va pt) t i" if "t \<in> {my_pml4_phys cs, pdpt, pd, pt}" "i < 512" for t i
    using entry_at_same_outside [OF assms(3) _ that(2)] R that(1) by auto
  have e: "entry_at m pt (table_index 12 va') = cow_page cs OR PAGE_PRESENT OR PAGE_WRITE"
    using t by (simp add: cow_mem_def P(2))
  have pp: "page_path m (my_pml4_phys cs) va' pdpt pd pt"
    using cow_path [OF assms(1)] t unfolding P(1) by (simp add: page_path_def dir_path_def Let_def)
  have "canonical va'" using R P(3) by simp
  from walk_page [OF pp this e [symmetric]]
  show ?thesis using frame_flags [OF c] frame_offset [OF c] by simp
qed

lemma cow_content:
  assumes "cow_ready st cs va pdpt pd pt" "i < 4096"
  shows "cow_mem st cs va pt (cow_page cs + of_nat i)
    = pm_mem st ((entry_at (pm_mem st) pt (table_index 12 va) AND ADDR_MASK) + of_nat i)"
proof -
  note R = assms(1) [unfolded cow_ready_def Let_def]
  let ?f = "entry_at (pm_mem st) pt (table_index 12 va) AND ADDR_MASK"
  let ?m1 = "write_bytes (pm_mem st) (cow_page cs) (read_bytes (pm_mem st) ?f 4096)"
  have "spans (cow_page cs) 0x1000 (cow_page cs) 4096" by (simp add: spans_def)
  then have "in_region (cow_page cs) 0x1000 (cow_page cs + of_nat i)" by (rule spans_in_region [OF _ assms(2)])
  then have "\<not> in_region pt 0x1000 (cow_page cs + of_nat i)"
    using R regions_apartD regions_apart_sym by blast
  then have "cow_mem st cs va pt (cow_page cs + of_nat i) = ?m1 (cow_page cs + of_nat i)"
    using same_outsideD [OF set_entry_same_outside [OF table_index_less]] by (simp add: cow_mem_def)
  also have "\<dots> = pm_mem st (?f + of_nat i)"
    using write_bytes_nth [of i "read_bytes (pm_mem st) ?f 4096" "pm_mem st" "cow_page cs"] assms(2) by simp
  finally show ?thesis .
qed

text \<open>What the processor reads at an address.\<close>

definition cpu_view :: "u64 \<Rightarrow> pf_machine \<Rightarrow> u64 \<Rightarrow> u8 option" where
  "cpu_view root st va = map_option (\<lambda>(pa, w). pm_mem st pa) (x86_walk present_entry (pm_mem st) root va)"

lemma cow_view_before:
  assumes "cow_ready st cs va pdpt pd pt" "page_of va' = page_of va"
  shows "cpu_view (my_pml4_phys cs) st va'
    = Some (pm_mem st ((entry_at (pm_mem st) pt (table_index 12 va) AND ADDR_MASK) + (va' AND 0xFFF)))"
proof -
  note R = assms(1) [unfolded cow_ready_def Let_def]
  note P = same_page_path [OF assms(2)]
  have "(entry_at (pm_mem st) pt (table_index 12 va) AND ADDR_MASK) AND ADDR_MASK = entry_at (pm_mem st) pt (table_index 12 va) AND ADDR_MASK"
    by (simp add: and.assoc)
  from walk_page [of "pm_mem st" "my_pml4_phys cs" va' pdpt pd pt, OF _ _ refl] frame_offset [OF this] R P
  show ?thesis by (simp add: cpu_view_def)
qed

subsection \<open>Splitting\<close>

lemma fill_split_entries:
  "same_outside pt 0x1000 m (fill_split_pt pt huge_base m)"
  "i < 512 \<Longrightarrow> entry_at (fill_split_pt pt huge_base m) pt i = split_entry huge_base i"
  by (simp_all add: fill_split_pt_def filled_table)

text \<open>The tables of a directory before and after a split of one of its blocks.\<close>

definition split_ready :: "pf_machine \<Rightarrow> pf_core_t \<Rightarrow> u64 \<Rightarrow> u64 \<Rightarrow> u64 \<Rightarrow> u64 \<Rightarrow> bool" where
  "split_ready st cs root region pdpt pd \<longleftrightarrow>
    (let m = pm_mem st; pt = pf_split_pt cs; e2 = entry_at m pd (table_index 21 region)
     in pm_core st = Some cs \<and> dir_path m root region pdpt pd \<and> bit e2 0 \<and> bit e2 1 \<and> bit e2 7 \<and> pt AND ADDR_MASK = pt \<and>
        regions_apart root 0x1000 pt 0x1000 \<and> regions_apart pdpt 0x1000 pt 0x1000 \<and> regions_apart pd 0x1000 pt 0x1000 \<and>
        regions_apart root 0x1000 pd 0x1000 \<and> regions_apart pdpt 0x1000 pd 0x1000)"

lemma split_result:
  assumes "split_ready st cs root region pdpt pd" "pagefault_split_region root region st = (st', r)"
    and "e2 = entry_at (pm_mem st) pd (table_index 21 region)" "pt = pf_split_pt cs"
  shows "r" "\<exists>cs'. pm_core st' = Some cs' \<and> pf_split_pt cs' = pt"
    "i < 512 \<Longrightarrow> entry_at (pm_mem st') root i = entry_at (pm_mem st) root i"
    "i < 512 \<Longrightarrow> entry_at (pm_mem st') pdpt i = entry_at (pm_mem st) pdpt i"
    "i < 512 \<Longrightarrow> entry_at (pm_mem st') pd i = (if i = table_index 21 region then pt OR PAGE_PRESENT OR PAGE_WRITE else entry_at (pm_mem st) pd i)"
    "i < 512 \<Longrightarrow> entry_at (pm_mem st') pt i = split_entry (e2 AND NOT 0x1FFFFF) i"
proof -
  note R = assms(1) [unfolded split_ready_def Let_def, folded assms(3,4)]
  let ?m1 = "fill_split_pt pt (e2 AND NOT 0x1FFFFF) (pm_mem st)"
  let ?m2 = "set_entry ?m1 pd (table_index 21 region) (pt OR PAGE_PRESENT OR PAGE_WRITE)"
  have d: "walk_to_pd_entry (pm_mem st) root region = Some (pd + of_nat (8 * table_index 21 region))"
    using R by (blast intro: dir_entry)
  have st': "r" "st' = st\<lparr>pm_mem := ?m2, pm_core := Some (cs\<lparr>pf_split_region_base := e2 AND NOT 0x1FFFFF, pf_have_split := True\<rparr>)\<rparr>"
    using assms(2) R flag_bits [of e2]
    by (auto simp only: pagefault_split_region_def option.case d Let_def entry_at_def [symmetric] set_entry_def assms(3,4) split: if_splits)
  show "r" by (fact st')
  show "\<exists>cs'. pm_core st' = Some cs' \<and> pf_split_pt cs' = pt" using st'(2) assms(4) by simp
  note o1 = entry_at_same_outside [OF fill_split_entries(1)] and o2 = entry_at_same_outside [OF set_entry_same_outside [OF table_index_less]]
  have m: "pm_mem st' = ?m2" using st'(2) by simp
  show "i < 512 \<Longrightarrow> entry_at (pm_mem st') root i = entry_at (pm_mem st) root i"
    "i < 512 \<Longrightarrow> entry_at (pm_mem st') pdpt i = entry_at (pm_mem st) pdpt i"
    unfolding m using R by (simp_all add: o1 o2)
  show "i < 512 \<Longrightarrow> entry_at (pm_mem st') pd i = (if i = table_index 21 region then pt OR PAGE_PRESENT OR PAGE_WRITE else entry_at (pm_mem st) pd i)"
    unfolding m using R by (simp add: o1 entry_set_other)
  have "regions_apart pt 0x1000 pd 0x1000" using R regions_apart_sym by blast
  then show "i < 512 \<Longrightarrow> entry_at (pm_mem st') pt i = split_entry (e2 AND NOT 0x1FFFFF) i"
    unfolding m by (simp add: o2 fill_split_entries(2))
qed

text \<open>The address a page of the split table stands for.\<close>

lemma split_address:
  shows "(split_entry (e2 AND NOT 0x1FFFFF) (table_index 12 va) AND ADDR_MASK) OR va AND 0xFFF
      = e2 AND 0x000FFFFFFFE00000 OR va AND 0x1FFFFF"
    "bit (split_entry h i) 0" "bit (split_entry h i) 1"
proof -
  let ?h = "e2 AND NOT (mask 21)" and ?j = "of_nat (table_index 12 va) :: u64"
  have j: "bit (table_index 12 va) k \<longleftrightarrow> k < 9 \<and> bit va (12 + k)" for k
    by (auto simp: table_index_def mask_9 bit_simps)
  have p: "?j * 4096 = push_bit 12 ?j" by (simp add: push_bit_eq_mult)
  have "?h AND push_bit 12 ?j = 0" by (rule bit_word_eqI) (auto simp: bit_simps j)
  then have e: "?h + ?j * 4096 = ?h OR push_bit 12 ?j" unfolding p by (rule disjunctive_add_eq_or)
  have b: "(0x000FFFFFFFE00000 :: u64) = mask 52 AND NOT (mask 21)" by (simp add: mask_eq_exp_minus_1)
  show "(split_entry (e2 AND NOT 0x1FFFFF) (table_index 12 va) AND ADDR_MASK) OR va AND 0xFFF
      = e2 AND 0x000FFFFFFFE00000 OR va AND 0x1FFFFF"
  proof (rule bit_word_eqI)
    fix n assume n: "n < LENGTH(64)"
    have "(3 :: u64) = mask 2" by (simp add: mask_eq_exp_minus_1)
    then have "bit (3 :: u64) n \<longleftrightarrow> n < 2 \<and> n < 64" by (simp only: bit_mask_iff possible_bit_word) auto
    then show "bit ((split_entry (e2 AND NOT 0x1FFFFF) (table_index 12 va) AND ADDR_MASK) OR va AND 0xFFF) n
        = bit (e2 AND 0x000FFFFFFFE00000 OR va AND 0x1FFFFF) n"
      using n unfolding split_entry_def mask_21 mask_12 e b ADDR_MASK_alt PAGE_PRESENT_def PAGE_WRITE_def
      by (cases "n < 12"; cases "n < 21") (auto simp: bit_simps j)
  qed
  show "bit (split_entry h i) 0" "bit (split_entry h i) 1" by (simp_all add: split_entry_def bit_or_iff entry_bits)
qed

subsection \<open>Properties\<close>



text \<open>
  Only one block can be split.  The table of pages is the same for every split, so
  splitting a second block of the directory redirects the first: its addresses translate
  to the frames of the second block from then on.
\<close>

theorem second_split_redirects_first:
  assumes "split_ready st cs root region pdpt pd" and "pagefault_split_region root region st = (st1, r1)"
    and "table_index 39 other = table_index 39 region" and "table_index 30 other = table_index 30 region"
    and "table_index 21 other \<noteq> table_index 21 region" and "e2 = entry_at (pm_mem st) pd (table_index 21 other)"
    and "bit e2 0" and "bit e2 1" and "bit e2 7" and "pagefault_split_region root other st1 = (st2, r2)"
    and "canonical va" and "table_index 39 va = table_index 39 region" and "table_index 30 va = table_index 30 region"
    and "table_index 21 va = table_index 21 region"
  shows "x86_walk present_entry (pm_mem st2) root va = Some (e2 AND 0x000FFFFFFFE00000 OR va AND 0x1FFFFF, True)"
proof -
  note R = assms(1) [unfolded split_ready_def Let_def] and S = split_result [OF assms(1,2) refl refl]
  obtain cs1 where c1: "pm_core st1 = Some cs1" "pf_split_pt cs1 = pf_split_pt cs" using S(2) by blast
  have "dir_path (pm_mem st1) root other pdpt pd" using R S(3,4) assms(3,4) by (simp add: dir_path_def)
  then have ready: "split_ready st1 cs1 root other pdpt pd"
    using R c1 S(5) assms(5-9) by (simp add: split_ready_def Let_def)
  note S2 = split_result [OF ready assms(10) refl refl]
  have d: "dir_path (pm_mem st2) root va pdpt pd" using R S(3,4) S2(3,4) assms(12,13) by (simp add: dir_path_def)
  have pt: "pf_split_pt cs AND ADDR_MASK = pf_split_pt cs" using R by simp
  show ?thesis
    using walk_dir [OF d assms(11)] S(5) S2(5,6) assms(5,6,14) frame_flags [OF pt] split_address c1(2)
    by (simp add: Let_def)
qed

text \<open>A store to a copy-on-write page when the pool is used up.\<close>

definition cow_stuck :: "u64 \<Rightarrow> u64 \<Rightarrow> pf_machine \<Rightarrow> bool" where
  "cow_stuck root va st \<longleftrightarrow>
    (\<exists>cs pdpt pd pt. pm_core st = Some cs \<and> my_pml4_phys cs = root \<and> bit (pm_cr0 st) 16 \<and> canonical va \<and>
       page_path (pm_mem st) root va pdpt pd pt \<and> bit (entry_at (pm_mem st) pt (table_index 12 va)) 0 \<and>
       \<not> bit (entry_at (pm_mem st) pt (table_index 12 va)) 1 \<and> is_registered_cow cs (page_of va) \<and>
       pf_cow_pool_used cs \<ge> COW_POOL_SIZE)"

lemma cow_stuck_step:
  assumes "cow_stuck root va st"
  shows "store_target st root va = Inl 3" "\<exists>st'. kernel_fault 3 va st = (st', True) \<and> cow_stuck root va st'"
proof -
  obtain cs pdpt pd pt where R: "pm_core st = Some cs" "my_pml4_phys cs = root" "bit (pm_cr0 st) 16" "canonical va"
    "page_path (pm_mem st) root va pdpt pd pt" "bit (entry_at (pm_mem st) pt (table_index 12 va)) 0"
    "\<not> bit (entry_at (pm_mem st) pt (table_index 12 va)) 1" "is_registered_cow cs (page_of va)"
    "pf_cow_pool_used cs \<ge> COW_POOL_SIZE" using assms unfolding cow_stuck_def by blast
  show "store_target st root va = Inl 3" using walk_page [OF R(5,4) refl] R(3,6,7) by (simp add: store_target_def)
  let ?cs = "cs\<lparr>pf_fault_count := pf_fault_count cs + 1\<rparr>"
  have "resolve_cow_write ?cs (page_of va) root (pm_mem st) = (pm_mem st, ?cs)"
    using R(9) by (simp add: resolve_cow_write_def split: option.splits)
  then have "kernel_fault 3 va st = (st\<lparr>pm_core := Some ?cs\<rparr>, True)"
    using R(1,2,8) by (simp add: kernel_fault_def isr_page_fault_def Let_def page_of_def is_registered_cow_def is_registered_streamed_def)
  moreover have "cow_stuck root va (st\<lparr>pm_core := Some ?cs\<rparr>)"
    unfolding cow_stuck_def using R by (intro exI [of _ ?cs] exI [of _ pdpt] exI [of _ pd] exI [of _ pt]) (simp add: is_registered_cow_def)
  ultimately show "\<exists>st'. kernel_fault 3 va st = (st', True) \<and> cow_stuck root va st'" by blast
qed

text \<open>
  When the pool of private pages is used up, a store to a copy-on-write page never
  returns: the handler changes nothing but its count and lets the store be tried again.
\<close>

theorem exhausted_cow_store_never_returns:
  assumes "cow_stuck root va st"
  shows "cpu_store root va b st = None"
proof (rule ccontr)
  assume "cpu_store root va b st \<noteq> None"
  then obtain y where "cpu_store root va b st = Some y" by blast
  then have "\<not> cow_stuck root va st"
  proof (rule cpu_store.raw_induct [where P = "\<lambda>root va b st y. \<not> cow_stuck root va st", rotated], goal_cases)
    case (1 f root va b st y)
    show ?case
    proof
      assume s: "cow_stuck root va st"
      obtain st' where "kernel_fault 3 va st = (st', True)" "cow_stuck root va st'" using cow_stuck_step(2) [OF s] by blast
      then show False using 1 cow_stuck_step(1) [OF s] by simp
    qed
  qed
  then show False using assms by contradiction
qed

subsection \<open>Instances\<close>

text \<open>A directory with two blocks, and the same after the first was split and page 5 of it marked
  copy-on-write.\<close>

definition demo_dir :: "u64 \<Rightarrow> memory" where
  "demo_dir e = set_entry (set_entry (set_entry (set_entry (\<lambda>_. 0) 0x10000 0 0x11003) 0x11000 0 0x12003)
     0x12000 16 e) 0x12000 17 0x2200083"

definition demo_core :: "nat \<Rightarrow> pf_core_t" where
  "demo_core used = \<lparr>pf_split_pt = 0x13000, pf_split_region_base = 0, pf_have_split = False, pf_streamed_pages = [],
     pf_cow_pages = [0x2005000], pf_cow_pool = 0x20000, pf_cow_pool_used = used, pf_fault_count = 0,
     pf_cow_copy_count = 0, my_pml4_phys = 0x10000\<rparr>"

definition demo_blocks :: pf_machine where
  "demo_blocks = \<lparr>pm_mem = demo_dir 0x2000083, pm_cr0 = 0x10000, pm_core = Some (demo_core 0)\<rparr>"

definition demo_pages :: "nat \<Rightarrow> pf_machine" where
  "demo_pages used = \<lparr>pm_mem = set_entry (demo_dir 0x13003) 0x13000 5 0x2005001, pm_cr0 = 0x10000,
     pm_core = Some (demo_core used)\<rparr>"

lemma demo_dir_entries:
  "entry_at (demo_dir e) 0x10000 0 = 0x11003" "entry_at (demo_dir e) 0x11000 0 = 0x12003"
  "i < 512 \<Longrightarrow> entry_at (demo_dir e) 0x12000 i = (if i = 16 then e else if i = 17 then 0x2200083 else 0)"
  by (simp_all add: demo_dir_def entry_at_other regions_apart_def entry_set_other entry_at_zero)

lemma demo_indices:
  "table_index 39 0x2000000 = 0" "table_index 30 0x2000000 = 0" "table_index 21 0x2000000 = 16"
  "table_index 39 0x2200000 = 0" "table_index 30 0x2200000 = 0" "table_index 21 0x2200000 = 17"
  "table_index 39 0x2005123 = 0" "table_index 30 0x2005123 = 0" "table_index 21 0x2005123 = 16" "table_index 12 0x2005123 = 5"
  by (simp_all add: table_index_def)

lemma demo_blocks_ready: "split_ready demo_blocks (demo_core 0) 0x10000 0x2000000 0x11000 0x12000"
  by (simp add: split_ready_def Let_def demo_blocks_def demo_core_def dir_path_def demo_dir_entries demo_indices
      regions_apart_def ADDR_MASK_def bit_numeral_rec)

lemma demo_pages_path: "page_path (pm_mem (demo_pages used)) 0x10000 0x2005123 0x11000 0x12000 0x13000"
  by (simp add: page_path_def dir_path_def Let_def demo_pages_def entry_at_other regions_apart_def demo_dir_entries
      demo_indices ADDR_MASK_def bit_numeral_rec)

lemma demo_pages_ready: "cow_ready (demo_pages 0) (demo_core 0) 0x2005123 0x11000 0x12000 0x13000"
  using demo_pages_path [of 0]
  by (simp add: cow_ready_def Let_def demo_core_def cow_page_def canonical_def demo_indices regions_apart_def ADDR_MASK_def
      COW_POOL_SIZE_def is_registered_cow_def page_of_def)
    (simp add: demo_pages_def demo_core_def bit_numeral_rec)



theorem second_split_redirects_first_witness:
  "x86_walk present_entry (pm_mem (fst (pagefault_split_region 0x10000 0x2200000
      (fst (pagefault_split_region 0x10000 0x2000000 demo_blocks))))) 0x10000 0x2005123 = Some (0x2205123, True)"
proof -
  obtain st1 r1 where r1: "pagefault_split_region 0x10000 0x2000000 demo_blocks = (st1, r1)" by fastforce
  obtain st2 r2 where r2: "pagefault_split_region 0x10000 0x2200000 st1 = (st2, r2)" by fastforce
  have "entry_at (pm_mem demo_blocks) 0x12000 (table_index 21 0x2200000) = 0x2200083"
    by (simp add: demo_blocks_def demo_indices demo_dir_entries)
  from second_split_redirects_first [OF demo_blocks_ready r1 _ _ _ this [symmetric] _ _ _ r2, of "0x2005123"]
  show ?thesis using r1 r2 by (simp add: demo_indices canonical_def bit_numeral_rec)
qed

theorem exhausted_cow_store_never_returns_witness: "cpu_store 0x10000 0x2005123 7 (demo_pages 4) = None"
proof (rule exhausted_cow_store_never_returns)
  show "cow_stuck 0x10000 0x2005123 (demo_pages 4)"
    unfolding cow_stuck_def using demo_pages_path [of 4]
    by (intro exI [of _ "demo_core 4"] exI [of _ "0x11000"] exI [of _ "0x12000"] exI [of _ "0x13000"])
      (simp add: demo_core_def canonical_def demo_indices COW_POOL_SIZE_def is_registered_cow_def page_of_def demo_pages_def
        bit_numeral_rec)
qed

end
