(* ===== verification/Job_Exec.thy ===== *)
theory Job_Exec
  imports Byte_Memory
begin

text \<open>
  The per-core job table and its wait and wake operations, \<open>coreinit/job_exec.c\<close>, with the
  initial frame of \<open>coreinit/job_exec_x86_64.c\<close>.  The context switch saves the stack
  pointer of the running context, which is an argument of the operations, and continues
  at the one loaded; where the core executes is the field \<open>cpu\<close>.
\<close>

subsection \<open>State\<close>

definition JOB_EXEC_MAX_RESIDENT :: nat where "JOB_EXEC_MAX_RESIDENT = 16"
definition JOB_EXEC_STACK_SIZE :: u64 where "JOB_EXEC_STACK_SIZE = 0x8000"

datatype job_exec_state_t = JOB_EXEC_UNUSED | JOB_EXEC_READY | JOB_EXEC_RUNNING | JOB_EXEC_BLOCKED

record job_exec_slot_t =
  saved_rsp :: u64
  prio :: int
  je_state :: job_exec_state_t
  stack_slot :: int
  waiting_on :: u64

text \<open>A core executes at a stack pointer, or idles in the loop of a wait that found nothing to run.\<close>

datatype cpu_state = Executing u64 | Idling

record je_core =
  job_table :: "job_exec_slot_t list"
  job_stack_used :: "bool list"
  job_stacks :: u64
  current_job :: int
  cpu :: cpu_state

text \<open>Outcomes: the state afterwards, the panic of a core without state, or an access outside the
  table, for which C prescribes nothing.\<close>

datatype je_result = Done je_core | Panic | Undefined

subsection \<open>Stacks\<close>

definition job_exec_alloc_stack :: "je_core option \<Rightarrow> je_core option \<times> u64 \<times> int" where
  "job_exec_alloc_stack c =
    (case c of None \<Rightarrow> (None, 0, -1)
     | Some cs \<Rightarrow>
        (case first_slot (\<lambda>u. \<not> u) (job_stack_used cs) of
           Some i \<Rightarrow> (Some (cs\<lparr>job_stack_used := (job_stack_used cs)[i := True]\<rparr>),
                      job_stacks cs + of_nat i * JOB_EXEC_STACK_SIZE + JOB_EXEC_STACK_SIZE, int i)
         | None \<Rightarrow> (c, 0, -1)))"

definition job_exec_free_stack :: "int \<Rightarrow> je_core option \<Rightarrow> je_core option" where
  "job_exec_free_stack slot c =
    (case c of None \<Rightarrow> None
     | Some cs \<Rightarrow> if slot \<ge> 0 \<and> slot < int JOB_EXEC_MAX_RESIDENT
         then Some (cs\<lparr>job_stack_used := (job_stack_used cs)[nat slot := False]\<rparr>) else c)"

subsection \<open>The job table\<close>

text \<open>The loop both searches use: of the slots with a property, the first one of the greatest priority.\<close>

definition best_step :: "(job_exec_slot_t \<Rightarrow> bool) \<Rightarrow> job_exec_slot_t list \<Rightarrow> nat \<Rightarrow> nat option \<Rightarrow> nat option" where
  "best_step P tbl i best =
    (if P (tbl ! i) then (case best of None \<Rightarrow> Some i | Some b \<Rightarrow> if prio (tbl ! i) > prio (tbl ! b) then Some i else best)
     else best)"

definition best_slot :: "(job_exec_slot_t \<Rightarrow> bool) \<Rightarrow> job_exec_slot_t list \<Rightarrow> nat option" where
  "best_slot P tbl = fold (best_step P tbl) [0..<JOB_EXEC_MAX_RESIDENT] None"

definition pick_highest_priority_ready :: "je_core \<Rightarrow> nat option" where
  "pick_highest_priority_ready cs = best_slot (\<lambda>s. je_state s = JOB_EXEC_READY) (job_table cs)"

abbreviation set_slot :: "nat \<Rightarrow> (job_exec_slot_t \<Rightarrow> job_exec_slot_t) \<Rightarrow> je_core \<Rightarrow> je_core" where
  "set_slot i f cs \<equiv> cs\<lparr>job_table := (job_table cs)[i := f (job_table cs ! i)]\<rparr>"

definition job_exec_spawn :: "u64 \<Rightarrow> int \<Rightarrow> je_core option \<Rightarrow> je_core option \<times> int" where
  "job_exec_spawn rsp priority c =
    (case c of None \<Rightarrow> (None, -1)
     | Some cs \<Rightarrow>
        (case first_slot (\<lambda>s. je_state s = JOB_EXEC_UNUSED) (job_table cs) of
           Some i \<Rightarrow> (Some (set_slot i (\<lambda>s. s\<lparr>saved_rsp := rsp, prio := priority, je_state := JOB_EXEC_READY, waiting_on := 0\<rparr>) cs), int i)
         | None \<Rightarrow> (c, -1)))"

text \<open>The switch: the context of the slot \<open>from\<close> is left at \<open>sp\<close>, the one of \<open>to\<close> continues.\<close>

definition job_exec_switch :: "nat \<Rightarrow> u64 \<Rightarrow> nat \<Rightarrow> je_core \<Rightarrow> je_core" where
  "job_exec_switch from sp to cs =
    (set_slot from (\<lambda>s. s\<lparr>saved_rsp := sp\<rparr>) cs)\<lparr>cpu := Executing (saved_rsp (job_table cs ! to))\<rparr>"

definition job_exec_wait :: "u64 \<Rightarrow> u64 \<Rightarrow> je_core option \<Rightarrow> je_result" where
  "job_exec_wait q sp c =
    (case c of None \<Rightarrow> Panic
     | Some cs \<Rightarrow>
        if current_job cs < 0 \<or> current_job cs \<ge> int JOB_EXEC_MAX_RESIDENT then Undefined
        else let me = nat (current_job cs);
                 cs1 = set_slot me (\<lambda>s. s\<lparr>je_state := JOB_EXEC_BLOCKED, waiting_on := q\<rparr>) cs
             in (case pick_highest_priority_ready cs1 of
                   None \<Rightarrow> Done (cs1\<lparr>cpu := Idling\<rparr>)
                 | Some next_idx \<Rightarrow>
                    let cs2 = (set_slot next_idx (\<lambda>s. s\<lparr>je_state := JOB_EXEC_RUNNING\<rparr>) cs1)\<lparr>current_job := int next_idx\<rparr>
                    in Done (job_exec_switch me sp next_idx cs2)))"

definition job_exec_wake :: "u64 \<Rightarrow> u64 \<Rightarrow> je_core option \<Rightarrow> je_result" where
  "job_exec_wake q sp c =
    (case c of None \<Rightarrow> Panic
     | Some cs \<Rightarrow>
        (case best_slot (\<lambda>s. je_state s = JOB_EXEC_BLOCKED \<and> waiting_on s = q) (job_table cs) of
           None \<Rightarrow> Done cs
         | Some woken_idx \<Rightarrow>
            let cs1 = set_slot woken_idx (\<lambda>s. s\<lparr>je_state := JOB_EXEC_READY, waiting_on := 0\<rparr>) cs; cur = current_job cs1
            in if cur \<ge> int JOB_EXEC_MAX_RESIDENT then Undefined
               else if cur \<ge> 0 \<and> prio (job_table cs1 ! woken_idx) > prio (job_table cs1 ! nat cur) then
                 let cs2 = set_slot (nat cur) (\<lambda>s. s\<lparr>je_state := JOB_EXEC_READY\<rparr>) cs1;
                     cs3 = (set_slot woken_idx (\<lambda>s. s\<lparr>je_state := JOB_EXEC_RUNNING\<rparr>) cs2)\<lparr>current_job := int woken_idx\<rparr>
                 in Done (job_exec_switch (nat cur) sp woken_idx cs3)
               else Done cs1))"

text \<open>The first switch into a job, from a context that is not a job: its stack pointer goes where
  the caller says, which is not the job table.\<close>

definition job_exec_run :: "nat \<Rightarrow> je_core option \<Rightarrow> je_result" where
  "job_exec_run slot c =
    (case c of None \<Rightarrow> Panic
     | Some cs \<Rightarrow>
        if slot \<ge> JOB_EXEC_MAX_RESIDENT then Undefined
        else Done ((set_slot slot (\<lambda>s. s\<lparr>je_state := JOB_EXEC_RUNNING\<rparr>) cs)
          \<lparr>current_job := int slot, cpu := Executing (saved_rsp (job_table cs ! slot))\<rparr>))"

definition job_exec_current_rsp_slot :: "je_core option \<Rightarrow> int option" where
  "job_exec_current_rsp_slot c = map_option current_job c"

subsection \<open>The initial frame\<close>

definition JOB_EXEC_CODE_SELECTOR :: u64 where "JOB_EXEC_CODE_SELECTOR = 0x08"
definition JOB_EXEC_DATA_SELECTOR :: u64 where "JOB_EXEC_DATA_SELECTOR = 0x10"
definition JOB_EXEC_INITIAL_RFLAGS :: u64 where "JOB_EXEC_INITIAL_RFLAGS = 0x202"

definition job_exec_init :: "memory \<Rightarrow> u64 \<Rightarrow> u64 \<Rightarrow> u64 \<Rightarrow> memory \<times> u64" where
  "job_exec_init m stack_top entry_addr arg =
    (let top = stack_top AND NOT 0xF; frame = top - 160
     in (write_bytes m frame (words_bytes (replicate 8 0 @ [arg] @ replicate 6 0 @
           [entry_addr, JOB_EXEC_CODE_SELECTOR, JOB_EXEC_INITIAL_RFLAGS, top, JOB_EXEC_DATA_SELECTOR])), frame))"

subsection \<open>The search\<close>

definition best_of :: "(job_exec_slot_t \<Rightarrow> bool) \<Rightarrow> job_exec_slot_t list \<Rightarrow> nat \<Rightarrow> nat \<Rightarrow> bool" where
  "best_of P tbl n b \<longleftrightarrow> b < n \<and> P (tbl ! b) \<and>
    (\<forall>i < n. P (tbl ! i) \<longrightarrow> prio (tbl ! i) \<le> prio (tbl ! b) \<and> (prio (tbl ! i) = prio (tbl ! b) \<longrightarrow> b \<le> i))"

lemma best_scan:
  "case fold (best_step pr tbl) [0..<n] None of None \<Rightarrow> \<forall>i < n. \<not> pr (tbl ! i) | Some b \<Rightarrow> best_of pr tbl n b"
proof (induction n)
  case (Suc n)
  then show ?case
    by (fastforce simp: best_step_def best_of_def less_Suc_eq split: option.splits)
qed simp

lemma best_slot_None: "best_slot pr tbl = None \<Longrightarrow> i < JOB_EXEC_MAX_RESIDENT \<Longrightarrow> \<not> pr (tbl ! i)"
  using best_scan [where pr = pr and tbl = tbl and n = JOB_EXEC_MAX_RESIDENT] by (simp add: best_slot_def)

lemma best_slot_Some: "best_slot pr tbl = Some b \<Longrightarrow> best_of pr tbl JOB_EXEC_MAX_RESIDENT b"
  using best_scan [where pr = pr and tbl = tbl and n = JOB_EXEC_MAX_RESIDENT] by (simp add: best_slot_def)

subsection \<open>The steps of the running job\<close>

text \<open>What the job a core executes can do to the table: wait, wake, and spawn a job that does not outrank it.
  The first argument of the relation is the stack pointer at which the job makes the call.\<close>

inductive je_step :: "u64 \<Rightarrow> je_core \<Rightarrow> je_core \<Rightarrow> bool" where
  wait_step: "cpu cs \<noteq> Idling \<Longrightarrow> job_exec_wait q sp (Some cs) = Done cs' \<Longrightarrow> je_step sp cs cs'"
| wake_step: "cpu cs \<noteq> Idling \<Longrightarrow> job_exec_wake q sp (Some cs) = Done cs' \<Longrightarrow> je_step sp cs cs'"
| spawn_step: "cpu cs \<noteq> Idling \<Longrightarrow> p \<le> prio (job_table cs ! nat (current_job cs)) \<Longrightarrow>
    job_exec_spawn rsp p (Some cs) = (Some cs', slot) \<Longrightarrow> je_step sp cs cs'"

abbreviation je_steps :: "je_core \<Rightarrow> je_core \<Rightarrow> bool" where
  "je_steps \<equiv> (\<lambda>cs cs'. \<exists>sp. je_step sp cs cs')\<^sup>*\<^sup>*"

text \<open>The table is consistent: the current slot, and no other, is running, and no ready job outranks it;
  a core that idles has no ready job.\<close>

definition je_ok :: "je_core \<Rightarrow> bool" where
  "je_ok cs \<longleftrightarrow> length (job_table cs) = JOB_EXEC_MAX_RESIDENT \<and>
    0 \<le> current_job cs \<and> current_job cs < int JOB_EXEC_MAX_RESIDENT \<and>
    (je_state (job_table cs ! nat (current_job cs)) = JOB_EXEC_RUNNING \<longleftrightarrow> cpu cs \<noteq> Idling) \<and>
    (\<forall>i < JOB_EXEC_MAX_RESIDENT. i \<noteq> nat (current_job cs) \<longrightarrow> je_state (job_table cs ! i) \<noteq> JOB_EXEC_RUNNING) \<and>
    (\<forall>i < JOB_EXEC_MAX_RESIDENT. je_state (job_table cs ! i) = JOB_EXEC_READY \<longrightarrow>
       cpu cs \<noteq> Idling \<and> prio (job_table cs ! i) \<le> prio (job_table cs ! nat (current_job cs)))"

lemma wait_ok:
  assumes "je_ok cs" and "job_exec_wait q sp (Some cs) = Done cs'"
  shows "je_ok cs'"
proof -
  define me where "me = nat (current_job cs)"
  define cs1 where "cs1 = set_slot me (\<lambda>s. s\<lparr>je_state := JOB_EXEC_BLOCKED, waiting_on := q\<rparr>) cs"
  have me: "me < JOB_EXEC_MAX_RESIDENT" "current_job cs = int me" and len: "length (job_table cs) = JOB_EXEC_MAX_RESIDENT"
    using assms(1) by (auto simp: je_ok_def me_def)
  have other: "\<And>i. i < JOB_EXEC_MAX_RESIDENT \<Longrightarrow> i \<noteq> me \<Longrightarrow> je_state (job_table cs ! i) \<noteq> JOB_EXEC_RUNNING"
    using assms(1) by (auto simp: je_ok_def me_def)
  show ?thesis
  proof (cases "pick_highest_priority_ready cs1")
    case None
    then have "cs' = cs1\<lparr>cpu := Idling\<rparr>"
      using assms(2) me by (simp add: job_exec_wait_def Let_def cs1_def [unfolded me_def] me_def [symmetric])
    then show ?thesis
      using best_slot_None [OF None [unfolded pick_highest_priority_ready_def]] me len other
      by (auto simp: je_ok_def cs1_def nth_list_update)
  next
    case (Some n)
    then have cs': "cs' = job_exec_switch me sp n
        ((set_slot n (\<lambda>s. s\<lparr>je_state := JOB_EXEC_RUNNING\<rparr>) cs1)\<lparr>current_job := int n\<rparr>)"
      using assms(2) me by (simp add: job_exec_wait_def Let_def cs1_def [unfolded me_def] me_def [symmetric])
    have "best_of (\<lambda>s. je_state s = JOB_EXEC_READY) (job_table cs1) JOB_EXEC_MAX_RESIDENT n"
      using Some by (simp add: pick_highest_priority_ready_def best_slot_Some)
    then show ?thesis using me len other
      by (auto simp: cs' je_ok_def job_exec_switch_def cs1_def nth_list_update best_of_def split: if_splits)
  qed
qed

lemma wake_ok:
  assumes "je_ok cs" and "cpu cs \<noteq> Idling" and "job_exec_wake q sp (Some cs) = Done cs'"
  shows "je_ok cs'"
proof (cases "best_slot (\<lambda>s. je_state s = JOB_EXEC_BLOCKED \<and> waiting_on s = q) (job_table cs)")
  case None
  then show ?thesis using assms by (simp add: job_exec_wake_def)
next
  case (Some w)
  then have w: "w < JOB_EXEC_MAX_RESIDENT" "je_state (job_table cs ! w) = JOB_EXEC_BLOCKED"
    using best_slot_Some [OF Some] by (auto simp: best_of_def)
  obtain c where c: "current_job cs = int c" "c < JOB_EXEC_MAX_RESIDENT" and len: "length (job_table cs) = JOB_EXEC_MAX_RESIDENT"
    and run: "je_state (job_table cs ! c) = JOB_EXEC_RUNNING"
    and other: "\<And>i. i < JOB_EXEC_MAX_RESIDENT \<Longrightarrow> i \<noteq> c \<Longrightarrow> je_state (job_table cs ! i) \<noteq> JOB_EXEC_RUNNING"
    and best: "\<And>i. i < JOB_EXEC_MAX_RESIDENT \<Longrightarrow> je_state (job_table cs ! i) = JOB_EXEC_READY \<Longrightarrow>
       prio (job_table cs ! i) \<le> prio (job_table cs ! c)"
    using assms(1,2) by (auto simp: je_ok_def dest: nonneg_int_cases)
  have "w \<noteq> c" using w run by auto
  show ?thesis
  proof (cases "prio (job_table cs ! w) > prio (job_table cs ! c)")
    case True
    then have "cs' = job_exec_switch c sp w
        ((set_slot w (\<lambda>s. s\<lparr>je_state := JOB_EXEC_RUNNING\<rparr>)
          (set_slot c (\<lambda>s. s\<lparr>je_state := JOB_EXEC_READY\<rparr>)
            (set_slot w (\<lambda>s. s\<lparr>je_state := JOB_EXEC_READY, waiting_on := 0\<rparr>) cs)))\<lparr>current_job := int w\<rparr>)"
      using assms(3) Some w c len \<open>w \<noteq> c\<close> by (simp add: job_exec_wake_def Let_def)
    moreover have "\<And>i. i < JOB_EXEC_MAX_RESIDENT \<Longrightarrow> je_state (job_table cs ! i) = JOB_EXEC_READY \<Longrightarrow>
        prio (job_table cs ! i) \<le> prio (job_table cs ! w)"
      using best True by fastforce
    ultimately show ?thesis using True w c len other \<open>w \<noteq> c\<close>
      by (auto simp: je_ok_def job_exec_switch_def nth_list_update)
  next
    case False
    then have "cs' = set_slot w (\<lambda>s. s\<lparr>je_state := JOB_EXEC_READY, waiting_on := 0\<rparr>) cs"
      using assms(3) Some w c len \<open>w \<noteq> c\<close> by (simp add: job_exec_wake_def Let_def)
    then show ?thesis using False w c len run other best assms(2) \<open>w \<noteq> c\<close>
      by (auto simp: je_ok_def nth_list_update)
  qed
qed

lemma spawn_ok:
  assumes "je_ok cs" and "cpu cs \<noteq> Idling" and "p \<le> prio (job_table cs ! nat (current_job cs))"
    and "job_exec_spawn rsp p (Some cs) = (Some cs', slot)"
  shows "je_ok cs'"
proof (cases "first_slot (\<lambda>s. je_state s = JOB_EXEC_UNUSED) (job_table cs)")
  case None
  then show ?thesis using assms by (simp add: job_exec_spawn_def)
next
  case (Some i)
  note i = first_slot_SomeD [OF Some]
  then have "i \<noteq> nat (current_job cs)" using assms(1,2) by (auto simp: je_ok_def)
  then show ?thesis using assms i(1) Some
    by (auto simp: job_exec_spawn_def je_ok_def nth_list_update split: if_splits)
qed

lemma je_step_ok: "je_step sp cs cs' \<Longrightarrow> je_ok cs \<Longrightarrow> je_ok cs'"
  by (induction rule: je_step.induct) (blast intro: wait_ok wake_ok spawn_ok)+

lemma je_steps_ok: "je_steps cs cs' \<Longrightarrow> je_ok cs \<Longrightarrow> je_ok cs'"
  by (induction rule: rtranclp_induct) (blast intro: je_step_ok)+

subsection \<open>Contexts\<close>

text \<open>What one step does to the contexts: either the same job continues and no context of a used slot changes,
  or the context of the job that ran is left at \<open>sp\<close> and that of the new one is continued.\<close>

definition used :: "je_core \<Rightarrow> nat \<Rightarrow> bool" where
  "used cs j \<longleftrightarrow> j < JOB_EXEC_MAX_RESIDENT \<and> je_state (job_table cs ! j) \<noteq> JOB_EXEC_UNUSED"

definition same_context :: "je_core \<Rightarrow> je_core \<Rightarrow> nat \<Rightarrow> bool" where
  "same_context cs cs' j \<longleftrightarrow> used cs' j \<and> saved_rsp (job_table cs' ! j) = saved_rsp (job_table cs ! j)"

definition context_step :: "u64 \<Rightarrow> je_core \<Rightarrow> je_core \<Rightarrow> bool" where
  "context_step sp cs cs' \<longleftrightarrow>
    (\<forall>j. used cs j \<and> j \<noteq> nat (current_job cs) \<longrightarrow> same_context cs cs' j) \<and>
    (current_job cs' = current_job cs \<or>
     saved_rsp (job_table cs' ! nat (current_job cs)) = sp \<and> used cs' (nat (current_job cs)) \<and>
     used cs (nat (current_job cs')) \<and> cpu cs' = Executing (saved_rsp (job_table cs ! nat (current_job cs'))))"

lemma wait_context:
  assumes "je_ok cs" and "job_exec_wait q sp (Some cs) = Done cs'"
  shows "context_step sp cs cs'"
proof -
  define me where "me = nat (current_job cs)"
  define cs1 where "cs1 = set_slot me (\<lambda>s. s\<lparr>je_state := JOB_EXEC_BLOCKED, waiting_on := q\<rparr>) cs"
  have me: "me < JOB_EXEC_MAX_RESIDENT" "current_job cs = int me" and len: "length (job_table cs) = JOB_EXEC_MAX_RESIDENT"
    using assms(1) by (auto simp: je_ok_def me_def)
  show ?thesis
  proof (cases "pick_highest_priority_ready cs1")
    case None
    then have "cs' = cs1\<lparr>cpu := Idling\<rparr>"
      using assms(2) me by (simp add: job_exec_wait_def Let_def cs1_def [unfolded me_def] me_def [symmetric])
    then show ?thesis using me len by (auto simp: context_step_def same_context_def used_def cs1_def)
  next
    case (Some n)
    then have cs': "cs' = job_exec_switch me sp n
        ((set_slot n (\<lambda>s. s\<lparr>je_state := JOB_EXEC_RUNNING\<rparr>) cs1)\<lparr>current_job := int n\<rparr>)"
      using assms(2) me by (simp add: job_exec_wait_def Let_def cs1_def [unfolded me_def] me_def [symmetric])
    have "best_of (\<lambda>s. je_state s = JOB_EXEC_READY) (job_table cs1) JOB_EXEC_MAX_RESIDENT n"
      using Some by (simp add: pick_highest_priority_ready_def best_slot_Some)
    then show ?thesis using me len
      by (auto simp: cs' context_step_def same_context_def used_def job_exec_switch_def cs1_def nth_list_update
          best_of_def split: if_splits)
  qed
qed

lemma wake_context:
  assumes "je_ok cs" and "cpu cs \<noteq> Idling" and "job_exec_wake q sp (Some cs) = Done cs'"
  shows "context_step sp cs cs'"
proof (cases "best_slot (\<lambda>s. je_state s = JOB_EXEC_BLOCKED \<and> waiting_on s = q) (job_table cs)")
  case None
  then show ?thesis using assms by (simp add: job_exec_wake_def context_step_def same_context_def)
next
  case (Some w)
  then have w: "w < JOB_EXEC_MAX_RESIDENT" "je_state (job_table cs ! w) = JOB_EXEC_BLOCKED"
    using best_slot_Some [OF Some] by (auto simp: best_of_def)
  obtain c where c: "current_job cs = int c" "c < JOB_EXEC_MAX_RESIDENT" and len: "length (job_table cs) = JOB_EXEC_MAX_RESIDENT"
    and run: "je_state (job_table cs ! c) = JOB_EXEC_RUNNING"
    using assms(1,2) by (auto simp: je_ok_def dest: nonneg_int_cases)
  have "w \<noteq> c" using w run by auto
  then show ?thesis using assms(3) Some w c len run
    by (auto simp: job_exec_wake_def Let_def context_step_def same_context_def used_def job_exec_switch_def nth_list_update
        split: if_splits)
qed

lemma spawn_context:
  assumes "je_ok cs" and "job_exec_spawn rsp p (Some cs) = (Some cs', slot)"
  shows "context_step sp cs cs'"
proof (cases "first_slot (\<lambda>s. je_state s = JOB_EXEC_UNUSED) (job_table cs)")
  case None
  then show ?thesis using assms by (simp add: job_exec_spawn_def context_step_def same_context_def)
next
  case (Some i)
  then show ?thesis using assms first_slot_SomeD [OF Some]
    by (auto simp: job_exec_spawn_def context_step_def same_context_def used_def nth_list_update split: if_splits)
qed

lemma je_step_context: "je_step sp cs cs' \<Longrightarrow> je_ok cs \<Longrightarrow> context_step sp cs cs'"
  by (induction rule: je_step.induct) (blast intro: wait_context wake_context spawn_context)+

text \<open>Steps made while the job of the slot \<open>j\<close> is not the one that runs.\<close>

abbreviation away_steps :: "nat \<Rightarrow> je_core \<Rightarrow> je_core \<Rightarrow> bool" where
  "away_steps j \<equiv> (\<lambda>cs cs'. current_job cs \<noteq> int j \<and> (\<exists>sp. je_step sp cs cs'))\<^sup>*\<^sup>*"

lemma away_keeps_context:
  assumes "away_steps j cs cs'" and "je_ok cs" and "used cs j" and "current_job cs \<noteq> int j"
  shows "je_ok cs' \<and> used cs' j \<and> saved_rsp (job_table cs' ! j) = saved_rsp (job_table cs ! j) \<and>
    (current_job cs' = int j \<longrightarrow> cpu cs' = Executing (saved_rsp (job_table cs ! j)))"
  using assms(1)
proof (induction rule: rtranclp_induct)
  case base
  then show ?case using assms by simp
next
  case (step x y)
  then obtain sp where sp: "je_step sp x y" and x: "current_job x \<noteq> int j" by blast
  have "nat (current_job x) \<noteq> j" using x step.IH by (auto simp: je_ok_def)
  then show ?case
    using step.IH je_step_ok [OF sp] je_step_context [OF sp] x
    by (auto simp: context_step_def same_context_def)
qed

subsection \<open>Jobs of three priorities\<close>

text \<open>The table of the priority test of \<open>coreinit.c\<close>: a job of priority 10 that runs, and
  ready jobs of the priorities 5 and 1.\<close>

definition demo_slot :: "u64 \<Rightarrow> int \<Rightarrow> job_exec_state_t \<Rightarrow> job_exec_slot_t" where
  "demo_slot rsp p st = \<lparr>saved_rsp = rsp, prio = p, je_state = st, stack_slot = 0, waiting_on = 0\<rparr>"

definition demo_je :: je_core where
  "demo_je = \<lparr>job_table = [demo_slot 0x100 10 JOB_EXEC_RUNNING, demo_slot 0x200 5 JOB_EXEC_READY,
       demo_slot 0x300 1 JOB_EXEC_READY] @ replicate 13 (demo_slot 0 0 JOB_EXEC_UNUSED),
     job_stack_used = [True, True, True] @ replicate 13 False, job_stacks = 0x10000,
     current_job = 0, cpu = Executing 0x100\<rparr>"

definition done_core :: "je_result \<Rightarrow> je_core" where
  "done_core r = (case r of Done cs \<Rightarrow> cs | _ \<Rightarrow> demo_je)"

definition demo_je1 :: je_core where "demo_je1 = done_core (job_exec_wait 0x10 0xF8 (Some demo_je))"
definition demo_je2 :: je_core where "demo_je2 = done_core (job_exec_wait 0x20 0x1F8 (Some demo_je1))"
definition demo_je3 :: je_core where "demo_je3 = done_core (job_exec_wake 0x10 0x2F8 (Some demo_je2))"

lemma demo_je_eqs:
  "job_exec_wait 0x10 0xF8 (Some demo_je) = Done demo_je1"
  "job_exec_wait 0x20 0x1F8 (Some demo_je1) = Done demo_je2"
  "job_exec_wake 0x10 0x2F8 (Some demo_je2) = Done demo_je3"
  by code_simp+

lemma demo_je_at:
  "current_job demo_je = 0" "current_job demo_je1 = 1" "current_job demo_je2 = 2" "current_job demo_je3 = 0"
  "cpu demo_je = Executing 0x100" "cpu demo_je1 = Executing 0x200" "cpu demo_je2 = Executing 0x300"
  "cpu demo_je3 = Executing 0xF8"
  by code_simp+

lemma demo_je_ok: "je_ok demo_je"
  by code_simp

lemma demo_je_steps:
  "je_step 0xF8 demo_je demo_je1" "je_step 0x1F8 demo_je1 demo_je2" "je_step 0x2F8 demo_je2 demo_je3"
  using demo_je_eqs demo_je_at by (auto intro: je_step.intros)

subsection \<open>Properties\<close>



text \<open>
  C18: A blocked or preempted job resumes where it left.  When a call of a job at the stack
  pointer \<open>sp\<close> switches away from it, then whatever the other jobs of the core do, the next time the
  job is the current one the core executes at \<open>sp\<close>, and its slot stays its own in between.
\<close>

theorem job_resumes_where_it_left:
  assumes "je_ok cs" and "current_job cs = int j" and "je_step sp cs cs1" and "current_job cs1 \<noteq> int j"
    and "away_steps j cs1 cs2"
  shows "used cs2 j \<and> saved_rsp (job_table cs2 ! j) = sp \<and> (if current_job cs2 = int j then cpu cs2 = Executing sp else True)"
proof -
  have "saved_rsp (job_table cs1 ! j) = sp" "used cs1 j"
    using je_step_context [OF assms(3,1)] assms(2,4) by (auto simp: context_step_def)
  then show ?thesis
    using away_keeps_context [OF assms(5) je_step_ok [OF assms(3,1)]] assms(4) by simp
qed

theorem job_resumes_where_it_left_witness:
  "je_step 0xF8 demo_je demo_je1 \<and> away_steps 0 demo_je1 demo_je3 \<and> current_job demo_je3 = 0 \<and>
   cpu demo_je3 = Executing 0xF8"
proof -
  have "away_steps 0 demo_je1 demo_je3"
    using demo_je_steps(2,3) demo_je_at
    by (intro converse_rtranclp_into_rtranclp [of _ demo_je1 demo_je2] r_into_rtranclp) auto
  then show ?thesis
    using job_resumes_where_it_left [OF demo_je_ok _ demo_je_steps(1), of 0 demo_je3] demo_je_at demo_je_steps(1) by simp
qed

text \<open>
  A wait that finds nothing ready idles for good: a wake that finds the job waiting, called
  from an interrupt of the idle core, marks it ready but does not continue it.
\<close>

lemma idle_core_stays_idle:
  assumes "je_ok cs" and "current_job cs = int j" and "job_exec_wait q sp (Some cs) = Done cs1" and "cpu cs1 = Idling"
    and "best_slot (\<lambda>s. je_state s = JOB_EXEC_BLOCKED \<and> waiting_on s = q) (job_table cs1) = Some j"
  obtains cs2 where "job_exec_wake q sp' (Some cs1) = Done cs2" "cpu cs2 = Idling"
    "je_state (job_table cs2 ! j) = JOB_EXEC_READY"
proof -
  have ok: "je_ok cs1" using wait_ok [OF assms(1,3)] .
  have cur: "current_job cs1 = int j"
    using assms(2-4) by (auto simp: job_exec_wait_def Let_def job_exec_switch_def split: if_splits option.splits)
  show thesis
    using ok cur assms(4,5)
    by (intro that [of "set_slot j (\<lambda>s. s\<lparr>je_state := JOB_EXEC_READY, waiting_on := 0\<rparr>) cs1"])
      (auto simp: job_exec_wake_def Let_def je_ok_def)
qed

end
