(* ===== verification/Context_Switch.thy ===== *)
theory Context_Switch
  imports Byte_Memory
begin

text \<open>
  What a context switch promises, independent of the processor: the routine leaves the registers
  of its caller as a frame of words below the stack pointer, stores the address of the frame where
  the caller says, and continues with the registers of another frame.  The interface is implemented by the
  two switch routines, and a job that is switched away from and back again is a lemma of it.
\<close>

subsection \<open>Words in memory\<close>

lemma load64_store64_apart:
  "regions_apart b 8 a 8 \<Longrightarrow> load64 (store64 m a w) b = load64 m b"
  by (rule load64_same_outside [OF store64_same_outside [of a 8 a], of b 8]) (simp_all add: spans_def)

lemma regions_apart_shift [simp]: "regions_apart (f + a) s (f + b) t \<longleftrightarrow> regions_apart a s b t"
  "regions_apart f s (f + b) t \<longleftrightarrow> regions_apart 0 s b t" "regions_apart (f + a) s f t \<longleftrightarrow> regions_apart a s 0 t"
  by (simp_all add: regions_apart_def)

lemma load64_store64_off:
  "regions_apart b 8 a 8 \<Longrightarrow> load64 (store64 m (f + a) w) (f + b) = load64 m (f + b)"
  "regions_apart 0 8 a 8 \<Longrightarrow> load64 (store64 m (f + a) w) f = load64 m f"
  "regions_apart b 8 0 8 \<Longrightarrow> load64 (store64 m f w) (f + b) = load64 m (f + b)"
  using load64_store64_apart by simp_all

lemma load64_elsewhere:
  "regions_apart f n p 8 \<Longrightarrow> spans 0 n k 8 \<Longrightarrow> load64 (store64 m p w) (f + k) = load64 m (f + k)"
  "regions_apart f n p 8 \<Longrightarrow> spans 0 n 0 8 \<Longrightarrow> load64 (store64 m p w) f = load64 m f"
  by (rule load64_same_outside [OF store64_same_outside [of p 8 p], of f n]; simp add: spans_def)+

lemma unat_u64_bound: "unat (n :: u64) < 18446744073709551616"
proof -
  have "int (unat n) < 18446744073709551616" using uint_bounded [of n] by (simp only: uint_nat [symmetric]) simp
  then show ?thesis by linarith
qed

lemma outside_part:
  assumes "\<not> in_region f n a" and "spans f n b k"
  shows "\<not> in_region b (of_nat k) a"
proof
  assume "in_region b (of_nat k) a"
  moreover have "k < 18446744073709551616"
    using assms(2) unat_u64_bound [of n] unfolding spans_def by linarith
  ultimately show False
    using assms(1) spans_in_region [OF assms(2)] in_region_nth [of b k a] by auto
qed

lemma store64_outside_off:
  "\<not> in_region f n a \<Longrightarrow> spans 0 n k 8 \<Longrightarrow> store64 m (f + k) w a = m a"
  "\<not> in_region f n a \<Longrightarrow> spans 0 n 0 8 \<Longrightarrow> store64 m f w a = m a"
  using outside_part [of f n a "f + k" 8] outside_part [of f n a f 8] by (simp_all add: store64_outside spans_def)

definition frame_at :: "memory \<Rightarrow> u64 \<Rightarrow> u64 list \<Rightarrow> bool" where
  "frame_at m f ws \<longleftrightarrow> map (\<lambda>i. load64 m (f + 8 * of_nat i)) [0..<length ws] = ws"

lemma frame_at_agree:
  assumes "frame_at m f ws" and "agree_on f (of_nat (8 * length ws)) m m'" and "8 * length ws < 18446744073709551616"
  shows "frame_at m' f ws"
proof -
  have "load64 m' (f + 8 * of_nat i) = load64 m (f + 8 * of_nat i)" if i: "i < length ws" for i
  proof -
    have "unat (of_nat (8 * i) :: u64) = 8 * i" "unat (of_nat (8 * length ws) :: u64) = 8 * length ws"
      using assms(3) i by (intro unat_of_nat_u64; linarith)+
    then have "spans f (of_nat (8 * length ws)) (f + 8 * of_nat i) 8" using i by (simp add: spans_def)
    then show ?thesis using read_bytes_agree [OF assms(2)] by (simp add: load64_def)
  qed
  then have "map (\<lambda>i. load64 m' (f + 8 * of_nat i)) [0..<length ws] = map (\<lambda>i. load64 m (f + 8 * of_nat i)) [0..<length ws]"
    by simp
  then show ?thesis using assms(1) by (simp only: frame_at_def)
qed

lemma off_minus: "(f + numeral a) - (numeral b :: u64) = f + (numeral a - numeral b)"
  by simp

lemma words_bytes_nth: "i < length ws \<Longrightarrow> take 8 (drop (8 * i) (words_bytes ws)) = u64_bytes (ws ! i)"
  by (induction ws arbitrary: i) (auto simp: nth_Cons split: nat.splits)

text \<open>A frame written to memory as bytes is one the switch can load.\<close>

lemma frame_at_written:
  assumes "8 * length ws < 18446744073709551616"
  shows "frame_at (write_bytes m f (words_bytes ws)) f ws"
proof -
  have "load64 (write_bytes m f (words_bytes ws)) (f + of_nat (8 * i)) = ws ! i" if i: "i < length ws" for i
  proof -
    have "read_bytes (write_bytes m f (words_bytes ws)) (f + of_nat (8 * i)) 8 = take 8 (drop (8 * i) (words_bytes ws))"
    proof (rule nth_equalityI)
      fix k
      assume "k < length (read_bytes (write_bytes m f (words_bytes ws)) (f + of_nat (8 * i)) 8)"
      then have k: "k < 8" by simp
      have "write_bytes m f (words_bytes ws) (f + of_nat (8 * i + k)) = words_bytes ws ! (8 * i + k)"
        using i k assms by (intro write_bytes_nth) simp_all
      then show "read_bytes (write_bytes m f (words_bytes ws)) (f + of_nat (8 * i)) 8 ! k = take 8 (drop (8 * i) (words_bytes ws)) ! k"
        using i k by (simp add: add.assoc)
    qed (use i in simp)
    then show ?thesis using i by (simp add: load64_def words_bytes_nth)
  qed
  then show ?thesis by (intro nth_equalityI iffD2 [OF frame_at_def]) simp_all
qed

subsection \<open>The contract\<close>

text \<open>
  \<open>switch\<close> runs the whole routine; \<open>depth\<close> is how far below the stack pointer it writes, which is where the frame
  starts; \<open>caller\<close> are the registers the caller has once the routine returns to it, \<open>now\<close> the registers of a state, both
  in the order of the frame; \<open>valid\<close> are the frames whose words the registers can hold.
\<close>

locale context_switch =
  fixes switch :: "'s \<Rightarrow> 's" and ram :: "'s \<Rightarrow> memory"
    and sp :: "'s \<Rightarrow> u64" and save_to :: "'s \<Rightarrow> u64" and load_from :: "'s \<Rightarrow> u64"
    and caller :: "'s \<Rightarrow> u64 list" and now :: "'s \<Rightarrow> u64 list"
    and depth :: u64 and words :: nat and valid :: "u64 list \<Rightarrow> bool"
  assumes law_save: "regions_apart (sp s - depth) depth (save_to s) 8 \<Longrightarrow>
      load64 (ram (switch s)) (save_to s) = sp s - depth \<and> frame_at (ram (switch s)) (sp s - depth) (caller s)"
    and law_load: "frame_at (ram s) (load_from s) ws \<Longrightarrow> length ws = words \<Longrightarrow> valid ws \<Longrightarrow>
      regions_apart (load_from s) (of_nat (8 * words)) (sp s - depth) depth \<Longrightarrow>
      regions_apart (load_from s) (of_nat (8 * words)) (save_to s) 8 \<Longrightarrow> now (switch s) = ws"
    and law_outside: "\<not> in_region (sp s - depth) depth a \<Longrightarrow> \<not> in_region (save_to s) 8 a \<Longrightarrow> ram (switch s) a = ram s a"
    and law_words: "length (caller s) = words" "valid (caller s)" "8 * words < 18446744073709551616"
begin

text \<open>A frame is out of the way of a switch that has its stack and its save slot elsewhere.\<close>

definition out_of_the_way :: "u64 \<Rightarrow> 's \<Rightarrow> bool" where
  "out_of_the_way f s \<longleftrightarrow> regions_apart f (of_nat (8 * words)) (sp s - depth) depth \<and> regions_apart f (of_nat (8 * words)) (save_to s) 8"

lemma keeps_other_frames:
  assumes "out_of_the_way f s"
  shows "agree_on f (of_nat (8 * words)) (ram s) (ram (switch s))"
  unfolding agree_on_def
proof (intro allI impI)
  fix a
  assume "in_region f (of_nat (8 * words)) a"
  then have "\<not> in_region (sp s - depth) depth a" "\<not> in_region (save_to s) 8 a"
    using assms regions_apartD by (auto simp: out_of_the_way_def)
  then show "ram s a = ram (switch s) a" by (simp add: law_outside)
qed

lemma resumes:
  assumes "regions_apart (sp s - depth) depth (save_to s) 8"
    and "load_from t = load64 (ram (switch s)) (save_to s)"
    and "agree_on (load_from t) (of_nat (8 * words)) (ram (switch s)) (ram t)" and "out_of_the_way (load_from t) t"
  shows "now (switch t) = caller s"
proof -
  have f: "load_from t = sp s - depth" and "frame_at (ram (switch s)) (load_from t) (caller s)"
    using law_save [OF assms(1)] assms(2) by simp_all
  then have "frame_at (ram t) (load_from t) (caller s)"
    using frame_at_agree assms(3) law_words by metis
  then show ?thesis
    using law_load [of t "caller s"] law_words assms(4) by (simp add: out_of_the_way_def)
qed

end

subsection \<open>Routines that save and then load\<close>

locale switch_halves =
  fixes save :: "'s \<Rightarrow> 's" and load :: "'s \<Rightarrow> 's" and ram :: "'s \<Rightarrow> memory"
    and sp :: "'s \<Rightarrow> u64" and save_to :: "'s \<Rightarrow> u64" and load_from :: "'s \<Rightarrow> u64"
    and caller :: "'s \<Rightarrow> u64 list" and now :: "'s \<Rightarrow> u64 list"
    and depth :: u64 and words :: nat and valid :: "u64 list \<Rightarrow> bool"
  assumes half_slot: "load64 (ram (save s)) (save_to s) = sp s - depth"
    and half_holds: "regions_apart (sp s - depth) depth (save_to s) 8 \<Longrightarrow> frame_at (ram (save s)) (sp s - depth) (caller s)"
    and half_outside: "\<not> in_region (sp s - depth) depth a \<Longrightarrow> \<not> in_region (save_to s) 8 a \<Longrightarrow> ram (save s) a = ram s a"
    and half_from: "load_from (save s) = load_from s"
    and half_load: "frame_at (ram s) (load_from s) ws \<Longrightarrow> length ws = words \<Longrightarrow> valid ws \<Longrightarrow> now (load s) = ws"
    and half_ram: "ram (load s) = ram s"
    and half_words: "length (caller s) = words" "valid (caller s)" "8 * words < 18446744073709551616"
begin

lemma saved_frames_agree:
  assumes "regions_apart f n (sp s - depth) depth" and "regions_apart f n (save_to s) 8"
  shows "agree_on f n (ram s) (ram (save s))"
  unfolding agree_on_def
proof (intro allI impI)
  fix a
  assume a: "in_region f n a"
  show "ram s a = ram (save s) a"
    using half_outside regions_apartD [OF assms(1) a] regions_apartD [OF assms(2) a] by simp
qed

end

sublocale switch_halves \<subseteq> context_switch "\<lambda>s. load (save s)" ram sp save_to load_from caller now depth words valid
proof
  fix s ws
  assume "frame_at (ram s) (load_from s) ws" and len: "length ws = words" "valid ws"
    and "regions_apart (load_from s) (of_nat (8 * words)) (sp s - depth) depth"
    and "regions_apart (load_from s) (of_nat (8 * words)) (save_to s) 8"
  then have "frame_at (ram (save s)) (load_from s) ws"
    using frame_at_agree [OF _ saved_frames_agree, of s "load_from s" ws] half_words(3) by simp
  then show "now (load (save s)) = ws"
    using half_load [of "save s" ws] half_from len by simp
qed (use half_slot half_holds half_outside half_ram half_words in simp_all)

end
