(* ===== verification/X86_Switch.thy ===== *)
theory X86_Switch
  imports Context_Switch Job_Exec
begin

text \<open>
  The x86 switch routine \<open>coreinit/job_exec_switch_x86_64.S\<close>, instruction by instruction, on a processor with
  the registers it touches.  The flags that the subtraction leaves are an argument: nothing reads them before \<open>iretq\<close>
  replaces them.
\<close>

subsection \<open>Instructions\<close>

datatype x86_reg = RAX | RBX | RCX | RDX | RSI | RDI | RBP | RSP | R8 | R9 | R10 | R11 | R12 | R13 | R14 | R15

record x86_cpu =
  regs :: "x86_reg \<Rightarrow> u64"
  rip :: u64
  rflags :: u64
  code_sel :: u64
  stack_sel :: u64
  x86_ram :: memory

datatype x86_instr =
    Pushfq
  | Cli
  | Sub_rsp u64
  | Store x86_reg u64
  | Store_imm u64 u64
  | Load u64 x86_reg
  | Lea u64 x86_reg
  | Store_at x86_reg x86_reg
  | Mov x86_reg x86_reg
  | Pop x86_reg
  | Iretq

definition RFLAGS_IF :: u64 where "RFLAGS_IF = 0x200"
definition PUSHED_FLAGS :: u64 where "PUSHED_FLAGS = 0xFCFFFF"

definition set_reg :: "x86_reg \<Rightarrow> u64 \<Rightarrow> x86_cpu \<Rightarrow> x86_cpu" where
  "set_reg r v c = c\<lparr>regs := (regs c)(r := v)\<rparr>"

primrec x86_exec :: "(u64 \<Rightarrow> u64 \<Rightarrow> u64) \<Rightarrow> x86_instr \<Rightarrow> x86_cpu \<Rightarrow> x86_cpu" where
  "x86_exec sf Pushfq c = (let a = regs c RSP - 8 in set_reg RSP a (c\<lparr>x86_ram := store64 (x86_ram c) a (rflags c AND PUSHED_FLAGS)\<rparr>))"
| "x86_exec sf Cli c = c\<lparr>rflags := rflags c AND NOT RFLAGS_IF\<rparr>"
| "x86_exec sf (Sub_rsp k) c = set_reg RSP (regs c RSP - k) (c\<lparr>rflags := sf (regs c RSP) k\<rparr>)"
| "x86_exec sf (Store r k) c = c\<lparr>x86_ram := store64 (x86_ram c) (regs c RSP + k) (regs c r)\<rparr>"
| "x86_exec sf (Store_imm v k) c = c\<lparr>x86_ram := store64 (x86_ram c) (regs c RSP + k) v\<rparr>"
| "x86_exec sf (Load k r) c = set_reg r (load64 (x86_ram c) (regs c RSP + k)) c"
| "x86_exec sf (Lea k r) c = set_reg r (regs c RSP + k) c"
| "x86_exec sf (Store_at r p) c = c\<lparr>x86_ram := store64 (x86_ram c) (regs c p) (regs c r)\<rparr>"
| "x86_exec sf (Mov r d) c = set_reg d (regs c r) c"
| "x86_exec sf (Pop r) c = set_reg r (load64 (x86_ram c) (regs c RSP)) (set_reg RSP (regs c RSP + 8) c)"
| "x86_exec sf Iretq c = (let a = regs c RSP; m = x86_ram c in
    (set_reg RSP (load64 m (a + 24)) c)\<lparr>rip := load64 m a, code_sel := load64 m (a + 8), rflags := load64 m (a + 16), stack_sel := load64 m (a + 32)\<rparr>)"

subsection \<open>The routine\<close>

definition x86_save_frame :: "x86_instr list" where
  "x86_save_frame =
    [Pushfq, Cli, Sub_rsp 160,
     Store R15 0, Store R14 8, Store R13 16, Store R12 24, Store R11 32, Store R10 40, Store R9 48, Store R8 56,
     Store RDI 64, Store RSI 72, Store RBP 80, Store RBX 88, Store RDX 96, Store RCX 104, Store RAX 112,
     Load 168 RAX, Store RAX 120, Store_imm 0x08 128, Load 160 RAX, Store RAX 136, Lea 176 RAX, Store RAX 144, Store_imm 0x10 152,
     Store_at RSP RDI]"

definition x86_load_frame :: "x86_instr list" where
  "x86_load_frame =
    [Mov RSI RSP, Pop R15, Pop R14, Pop R13, Pop R12, Pop R11, Pop R10, Pop R9, Pop R8,
     Pop RDI, Pop RSI, Pop RBP, Pop RBX, Pop RDX, Pop RCX, Pop RAX, Iretq]"

definition x86_switch :: "(u64 \<Rightarrow> u64 \<Rightarrow> u64) \<Rightarrow> x86_cpu \<Rightarrow> x86_cpu" where
  "x86_switch sf = fold (x86_exec sf) (x86_save_frame @ x86_load_frame)"

text \<open>The layout \<open>job_saved_context_t\<close>: the registers of a state, and those the caller of the routine has when it returns.\<close>

definition x86_frame_regs :: "x86_reg list" where
  "x86_frame_regs = [R15, R14, R13, R12, R11, R10, R9, R8, RDI, RSI, RBP, RBX, RDX, RCX, RAX]"

definition x86_now :: "x86_cpu \<Rightarrow> u64 list" where
  "x86_now c = map (regs c) x86_frame_regs @ [rip c, code_sel c, rflags c, regs c RSP, stack_sel c]"

definition x86_caller :: "x86_cpu \<Rightarrow> u64 list" where
  "x86_caller c = map (regs c) x86_frame_regs @
    [load64 (x86_ram c) (regs c RSP), JOB_EXEC_CODE_SELECTOR, rflags c AND PUSHED_FLAGS, regs c RSP + 8, JOB_EXEC_DATA_SELECTOR]"

subsection \<open>Its halves\<close>

lemma upt_20: "[0..<20] = [0, 1, 2, 3, 4, 5, 6, 7, 8, 9, 10, 11, 12, 13, 14, 15, 16, 17, 18, 19 :: nat]"
  by (simp add: upt_rec)

lemma frame_at_20: "length ws = 20 \<Longrightarrow> frame_at m f ws \<longleftrightarrow>
  ws = [load64 m f, load64 m (f + 8), load64 m (f + 16), load64 m (f + 24), load64 m (f + 32), load64 m (f + 40),
    load64 m (f + 48), load64 m (f + 56), load64 m (f + 64), load64 m (f + 72), load64 m (f + 80), load64 m (f + 88),
    load64 m (f + 96), load64 m (f + 104), load64 m (f + 112), load64 m (f + 120), load64 m (f + 128), load64 m (f + 136),
    load64 m (f + 144), load64 m (f + 152)]"
  by (auto simp: frame_at_def upt_20)

lemma x86_load_now:
  "x86_now (fold (x86_exec sf) x86_load_frame c) = ws \<longleftrightarrow> frame_at (x86_ram c) (regs c RSI) ws \<and> length ws = 20"
  by (auto simp: frame_at_20 x86_load_frame_def x86_now_def x86_frame_regs_def set_reg_def Let_def add.assoc)

lemma x86_load_ram: "x86_ram (fold (x86_exec sf) x86_load_frame c) = x86_ram c"
  by (simp add: x86_load_frame_def set_reg_def Let_def)

text \<open>The state after the frame has been saved, with the stack pointer at entry written as an offset to it.\<close>

lemma x86_save_rsi: "regs (fold (x86_exec sf) x86_save_frame c) RSI = regs c RSI"
  by (simp add: x86_save_frame_def set_reg_def Let_def)

lemma x86_save_slot:
  "regs c RSP = f + 168 \<Longrightarrow> load64 (x86_ram (fold (x86_exec sf) x86_save_frame c)) (regs c RDI) = f"
  by (simp add: x86_save_frame_def set_reg_def Let_def)

lemma x86_save_holds:
  assumes "regs c RSP = f + 168" and "regions_apart f 168 (regs c RDI) 8"
  shows "frame_at (x86_ram (fold (x86_exec sf) x86_save_frame c)) f (x86_caller c)"
  using assms(1) load64_elsewhere [OF assms(2)]
  by (simp add: frame_at_20 x86_caller_def x86_frame_regs_def x86_save_frame_def set_reg_def Let_def off_minus spans_def
      load64_store64_off regions_apart_def JOB_EXEC_CODE_SELECTOR_def JOB_EXEC_DATA_SELECTOR_def)

lemma x86_save_outside:
  assumes "regs c RSP = f + 168" and "\<not> in_region f 168 a" and "\<not> in_region (regs c RDI) 8 a"
  shows "x86_ram (fold (x86_exec sf) x86_save_frame c) a = x86_ram c a"
  using assms(1,3) store64_outside_off [OF assms(2)]
  by (simp add: x86_save_frame_def set_reg_def Let_def off_minus spans_def store64_outside)

subsection \<open>The contract\<close>

lemma x86_switch_halves: "x86_switch sf = (\<lambda>c. fold (x86_exec sf) x86_load_frame (fold (x86_exec sf) x86_save_frame c))"
  by (simp add: x86_switch_def fun_eq_iff)

interpretation x86_halves: switch_halves "fold (x86_exec sf) x86_save_frame" "fold (x86_exec sf) x86_load_frame" x86_ram
  "\<lambda>c. regs c RSP" "\<lambda>c. regs c RDI" "\<lambda>c. regs c RSI" x86_caller x86_now 168 20 "\<lambda>ws. True" for sf
proof
  fix c :: x86_cpu and a
  have rsp: "regs c RSP = (regs c RSP - 168) + 168" by simp
  show "load64 (x86_ram (fold (x86_exec sf) x86_save_frame c)) (regs c RDI) = regs c RSP - 168"
    by (rule x86_save_slot [OF rsp])
  show "frame_at (x86_ram (fold (x86_exec sf) x86_save_frame c)) (regs c RSP - 168) (x86_caller c)"
    if "regions_apart (regs c RSP - 168) 168 (regs c RDI) 8" by (rule x86_save_holds [OF rsp that])
  show "x86_ram (fold (x86_exec sf) x86_save_frame c) a = x86_ram c a"
    if "\<not> in_region (regs c RSP - 168) 168 a" "\<not> in_region (regs c RDI) 8 a" by (rule x86_save_outside [OF rsp that])
qed (auto simp: x86_save_rsi x86_load_now x86_load_ram x86_caller_def x86_frame_regs_def)

subsection \<open>Properties\<close>

lemma x86_now_caller:
  "x86_now r = x86_caller s \<Longrightarrow> regs r = (regs s)(RSP := regs s RSP + 8) \<and> rip r = load64 (x86_ram s) (regs s RSP) \<and>
    rflags r = rflags s AND PUSHED_FLAGS"
proof (intro conjI)
  assume eq: "x86_now r = x86_caller s"
  show "regs r = (regs s)(RSP := regs s RSP + 8)"
  proof
    fix q
    show "regs r q = ((regs s)(RSP := regs s RSP + 8)) q"
      using eq by (cases q) (simp_all add: x86_now_def x86_caller_def x86_frame_regs_def)
  qed
qed (simp_all add: x86_now_def x86_caller_def x86_frame_regs_def)

text \<open>
  C11: The x86 switch is transparent to the job that calls it.  When the routine has been called in the state \<open>s\<close>
  and is later called, in a state \<open>t\<close>, with the stack pointer it stored for \<open>s\<close>, and until then nobody wrote to the
  frame, it continues after the first call with every register as it was there, the stack pointer
  without the return address, and the interrupt flag from before the routine cleared it.
\<close>

theorem x86_switch_resumes_job:
  assumes "regions_apart (regs s RSP - 168) 168 (regs s RDI) 8"
    and "regs t RSI = load64 (x86_ram (x86_switch sf s)) (regs s RDI)"
    and "agree_on (regs t RSI) 160 (x86_ram (x86_switch sf s)) (x86_ram t)"
    and "regions_apart (regs t RSI) 160 (regs t RSP - 168) 168" and "regions_apart (regs t RSI) 160 (regs t RDI) 8"
  shows "regs (x86_switch sf t) = (regs s)(RSP := regs s RSP + 8) \<and>
    rip (x86_switch sf t) = load64 (x86_ram s) (regs s RSP) \<and>
    rflags (x86_switch sf t) = rflags s AND PUSHED_FLAGS"
  using assms
  by (intro x86_now_caller x86_halves.resumes [of s t sf, folded x86_switch_halves [THEN fun_cong]])
    (simp_all add: x86_halves.out_of_the_way_def)

text \<open>Two jobs: the first calls the switch with its stack at 0x1000, the second switches back to it.\<close>

definition demo_job :: x86_cpu where
  "demo_job = \<lparr>regs = (\<lambda>r. 7)(RSP := 0x1000, RDI := 0x5000, RSI := 0x2000), rip = 0, rflags = 0x202, code_sel = 8, stack_sel = 16,
     x86_ram = store64 (\<lambda>a. 0) 0x1000 0x400123\<rparr>"

definition demo_back :: x86_cpu where
  "demo_back = \<lparr>regs = (\<lambda>r. 9)(RSP := 0x3000, RDI := 0x5008, RSI := 0xF58), rip = 0, rflags = 2, code_sel = 8, stack_sel = 16,
     x86_ram = x86_ram (x86_switch (\<lambda>a k. 0) demo_job)\<rparr>"

lemma demo_job_saved: "load64 (x86_ram (x86_switch (\<lambda>a k. 0) demo_job)) 0x5000 = 0xF58"
  using x86_save_slot [of demo_job "0xF58" "\<lambda>a k. 0"]
  by (simp add: x86_switch_halves x86_load_ram demo_job_def)

theorem x86_switch_resumes_job_witness:
  "regs (x86_switch (\<lambda>a k. 0) demo_back) RBX = 7 \<and> regs (x86_switch (\<lambda>a k. 0) demo_back) RSP = 0x1008 \<and>
   rip (x86_switch (\<lambda>a k. 0) demo_back) = 0x400123 \<and> rflags (x86_switch (\<lambda>a k. 0) demo_back) = 0x202"
proof -
  have "regs (x86_switch (\<lambda>a k. 0) demo_back) = (regs demo_job)(RSP := regs demo_job RSP + 8) \<and>
    rip (x86_switch (\<lambda>a k. 0) demo_back) = load64 (x86_ram demo_job) (regs demo_job RSP) \<and>
    rflags (x86_switch (\<lambda>a k. 0) demo_back) = rflags demo_job AND PUSHED_FLAGS"
    by (rule x86_switch_resumes_job)
      (use demo_job_saved in \<open>simp_all add: demo_job_def demo_back_def regions_apart_def agree_on_def\<close>)
  then show ?thesis by (simp add: demo_job_def PUSHED_FLAGS_def)
qed

text \<open>A job that has never run starts in its entry function with its argument, interrupts enabled, on its own stack.\<close>

lemma x86_fresh_job_starts:
  assumes "job_exec_init m top entry arg = (m', f)" and "regs t RSI = f" and "agree_on f 160 m' (x86_ram t)"
    and "regions_apart f 160 (regs t RSP - 168) 168" and "regions_apart f 160 (regs t RDI) 8"
  shows "rip (x86_switch sf t) = entry" and "regs (x86_switch sf t) RDI = arg"
    and "regs (x86_switch sf t) RSP = top AND NOT 0xF" and "rflags (x86_switch sf t) AND RFLAGS_IF = RFLAGS_IF"
proof -
  let ?ws = "replicate 8 0 @ [arg] @ replicate 6 0 @
    [entry, JOB_EXEC_CODE_SELECTOR, JOB_EXEC_INITIAL_RFLAGS, top AND NOT 0xF, JOB_EXEC_DATA_SELECTOR]"
  have "frame_at m' f ?ws"
    using assms(1) frame_at_written [of ?ws m "(top AND NOT 0xF) - 160"] by (auto simp: job_exec_init_def Let_def)
  then have "frame_at (x86_ram t) (regs t RSI) ?ws"
    using frame_at_agree [of m' f ?ws "x86_ram t"] assms(2,3) by simp
  then have now: "x86_now (x86_switch sf t) = ?ws"
    unfolding x86_switch_halves using x86_halves.law_load [of t ?ws sf] assms(2,4,5) by simp
  show "rip (x86_switch sf t) = entry" "regs (x86_switch sf t) RDI = arg" "regs (x86_switch sf t) RSP = top AND NOT 0xF"
    "rflags (x86_switch sf t) AND RFLAGS_IF = RFLAGS_IF"
    using now by (simp_all add: x86_now_def x86_frame_regs_def JOB_EXEC_INITIAL_RFLAGS_def RFLAGS_IF_def numeral_nat)
qed

end
