(* ===== verification/Arm_Switch.thy ===== *)
theory Arm_Switch
  imports Context_Switch
begin

text \<open>
  The aarch64 switch routine \<open>coreinit/job_exec_switch_aarch64.S\<close>, instruction by instruction, and the initial frame
  of \<open>coreinit/job_exec_aarch64.c\<close>.  Registers are numbered as in the source; the interrupt mask is the register \<open>daif\<close>.
\<close>

subsection \<open>Instructions\<close>

record arm_cpu =
  xr :: "nat \<Rightarrow> u64"
  arm_sp :: u64
  arm_pc :: u64
  daif :: "4 word"
  arm_ram :: memory

datatype arm_base = SP | X nat

datatype arm_instr =
    Str_pre nat u64
  | Mrs_daif nat
  | Msr_daifset
  | Sub_sp u64
  | Stp nat nat u64
  | Str nat arm_base u64
  | Ldp nat nat arm_base u64
  | Ldr nat arm_base u64
  | Add_sp nat u64
  | Mov_from_sp nat
  | Mov_x nat nat
  | Msr_daif nat
  | Mov_to_sp nat
  | Br nat

text \<open>The mask bits D, A, I and F are the bits 9 to 6 of the register as the instructions \<open>mrs\<close> and \<open>msr\<close> see it.\<close>

definition daif_word :: "4 word \<Rightarrow> u64" where "daif_word d = push_bit 6 (ucast d)"
definition word_daif :: "u64 \<Rightarrow> 4 word" where "word_daif w = ucast (drop_bit 6 w)"
definition DAIF_I :: "4 word" where "DAIF_I = 2"

lemma word_daif_word [simp]: "word_daif (daif_word d) = d"
  by (auto simp: word_daif_def daif_word_def bit_simps intro!: bit_word_eqI)

primrec base :: "arm_cpu \<Rightarrow> arm_base \<Rightarrow> u64" where
  "base c SP = arm_sp c"
| "base c (X n) = xr c n"

definition set_x :: "nat \<Rightarrow> u64 \<Rightarrow> arm_cpu \<Rightarrow> arm_cpu" where
  "set_x n v c = c\<lparr>xr := (xr c)(n := v)\<rparr>"

primrec arm_exec :: "arm_instr \<Rightarrow> arm_cpu \<Rightarrow> arm_cpu" where
  "arm_exec (Str_pre n k) c = c\<lparr>arm_sp := arm_sp c - k, arm_ram := store64 (arm_ram c) (arm_sp c - k) (xr c n)\<rparr>"
| "arm_exec (Mrs_daif n) c = set_x n (daif_word (daif c)) c"
| "arm_exec Msr_daifset c = c\<lparr>daif := daif c OR DAIF_I\<rparr>"
| "arm_exec (Sub_sp k) c = c\<lparr>arm_sp := arm_sp c - k\<rparr>"
| "arm_exec (Stp a b k) c = c\<lparr>arm_ram := store64 (store64 (arm_ram c) (arm_sp c + k) (xr c a)) (arm_sp c + (k + 8)) (xr c b)\<rparr>"
| "arm_exec (Str n p k) c = c\<lparr>arm_ram := store64 (arm_ram c) (base c p + k) (xr c n)\<rparr>"
| "arm_exec (Ldp a b p k) c = set_x b (load64 (arm_ram c) (base c p + (k + 8))) (set_x a (load64 (arm_ram c) (base c p + k)) c)"
| "arm_exec (Ldr n p k) c = set_x n (load64 (arm_ram c) (base c p + k)) c"
| "arm_exec (Add_sp n k) c = set_x n (arm_sp c + k) c"
| "arm_exec (Mov_from_sp n) c = set_x n (arm_sp c) c"
| "arm_exec (Mov_x d n) c = set_x d (xr c n) c"
| "arm_exec (Msr_daif n) c = c\<lparr>daif := word_daif (xr c n)\<rparr>"
| "arm_exec (Mov_to_sp n) c = c\<lparr>arm_sp := xr c n\<rparr>"
| "arm_exec (Br n) c = c\<lparr>arm_pc := xr c n\<rparr>"

subsection \<open>The routine\<close>

definition arm_save_frame :: "arm_instr list" where
  "arm_save_frame =
    [Str_pre 9 16, Mrs_daif 9, Msr_daifset, Sub_sp 264,
     Stp 0 1 0, Stp 2 3 16, Stp 4 5 32, Stp 6 7 48, Str 8 SP 64,
     Stp 10 11 80, Stp 12 13 96, Stp 14 15 112, Stp 16 17 128, Str 18 SP 144,
     Stp 19 20 152, Stp 21 22 168, Stp 23 24 184, Stp 25 26 200, Stp 27 28 216, Stp 29 30 232,
     Add_sp 10 280, Str 10 SP 248, Ldr 10 SP 264, Str 10 SP 72, Str 9 SP 256,
     Mov_from_sp 10, Str 10 (X 0) 0]"

definition arm_load_frame :: "arm_instr list" where
  "arm_load_frame =
    [Mov_x 10 1,
     Ldp 19 20 (X 10) 152, Ldp 21 22 (X 10) 168, Ldp 23 24 (X 10) 184, Ldp 25 26 (X 10) 200, Ldp 27 28 (X 10) 216,
     Ldr 29 (X 10) 232, Ldr 30 (X 10) 240, Ldr 11 (X 10) 248, Ldr 12 (X 10) 256,
     Ldp 0 1 (X 10) 0, Ldp 2 3 (X 10) 16, Ldp 4 5 (X 10) 32, Ldp 6 7 (X 10) 48, Ldr 8 (X 10) 64, Ldr 9 (X 10) 72,
     Ldr 13 (X 10) 104, Ldr 14 (X 10) 112, Ldr 15 (X 10) 120, Ldr 16 (X 10) 128, Ldr 17 (X 10) 136, Ldr 18 (X 10) 144,
     Msr_daif 12, Mov_to_sp 11, Ldr 11 (X 10) 88, Ldr 12 (X 10) 96, Ldr 10 (X 10) 80, Br 30]"

definition arm_switch :: "arm_cpu \<Rightarrow> arm_cpu" where
  "arm_switch = fold arm_exec (arm_save_frame @ arm_load_frame)"

text \<open>The layout \<open>job_saved_context_aarch64_t\<close>; of the saved status the routine uses the mask bits.\<close>

definition arm_now :: "arm_cpu \<Rightarrow> u64 list" where
  "arm_now c = map (xr c) [0..<31] @ [arm_sp c, daif_word (daif c)]"

definition arm_caller :: "arm_cpu \<Rightarrow> u64 list" where
  "arm_caller c = map (xr c) [0..<31] @ [arm_sp c, daif_word (daif c)]"

definition JOB_EXEC_INITIAL_PSTATE :: u64 where "JOB_EXEC_INITIAL_PSTATE = 0"

definition job_exec_init_aarch64 :: "memory \<Rightarrow> u64 \<Rightarrow> u64 \<Rightarrow> u64 \<Rightarrow> memory \<times> u64" where
  "job_exec_init_aarch64 m stack_top entry_addr arg =
    (let top = stack_top AND NOT 0xF; frame = top - 264
     in (write_bytes m frame (words_bytes ([arg] @ replicate 29 0 @ [entry_addr, top, JOB_EXEC_INITIAL_PSTATE])), frame))"

subsection \<open>Its halves\<close>

lemma upt_31: "[0..<31] = [0, 1, 2, 3, 4, 5, 6, 7, 8, 9, 10, 11, 12, 13, 14, 15, 16, 17, 18, 19, 20, 21, 22, 23, 24, 25, 26, 27, 28, 29, 30 :: nat]"
  by (simp add: upt_rec)

lemma upt_33: "[0..<33] = [0, 1, 2, 3, 4, 5, 6, 7, 8, 9, 10, 11, 12, 13, 14, 15, 16, 17, 18, 19, 20, 21, 22, 23, 24, 25, 26, 27, 28, 29, 30, 31, 32 :: nat]"
  by (simp add: upt_rec)

lemma frame_at_33: "length ws = 33 \<Longrightarrow> frame_at m f ws \<longleftrightarrow>
  ws = [load64 m f, load64 m (f + 8), load64 m (f + 16), load64 m (f + 24), load64 m (f + 32), load64 m (f + 40),
    load64 m (f + 48), load64 m (f + 56), load64 m (f + 64), load64 m (f + 72), load64 m (f + 80), load64 m (f + 88),
    load64 m (f + 96), load64 m (f + 104), load64 m (f + 112), load64 m (f + 120), load64 m (f + 128), load64 m (f + 136),
    load64 m (f + 144), load64 m (f + 152), load64 m (f + 160), load64 m (f + 168), load64 m (f + 176), load64 m (f + 184),
    load64 m (f + 192), load64 m (f + 200), load64 m (f + 208), load64 m (f + 216), load64 m (f + 224), load64 m (f + 232),
    load64 m (f + 240), load64 m (f + 248), load64 m (f + 256)]"
  by (auto simp: frame_at_def upt_33)

lemma arm_load_ram: "arm_ram (fold arm_exec arm_load_frame c) = arm_ram c"
  by (simp add: arm_load_frame_def set_x_def)

lemma arm_load_now:
  assumes "frame_at (arm_ram c) (xr c 1) ws" and "length ws = 33"
  shows "arm_now (fold arm_exec arm_load_frame c) = butlast ws @ [daif_word (word_daif (last ws))]"
  unfolding assms(1) [unfolded frame_at_33 [OF assms(2)]]
  by (simp add: arm_load_frame_def arm_now_def set_x_def upt_31)

lemma arm_save_slot:
  "arm_sp c = f + 280 \<Longrightarrow> load64 (arm_ram (fold arm_exec arm_save_frame c)) (xr c 0) = f"
  by (simp add: arm_save_frame_def set_x_def)

lemma arm_save_from: "xr (fold arm_exec arm_save_frame c) 1 = xr c 1"
  by (simp add: arm_save_frame_def set_x_def)

lemma arm_save_holds:
  assumes "arm_sp c = f + 280" and "regions_apart f 280 (xr c 0) 8"
  shows "frame_at (arm_ram (fold arm_exec arm_save_frame c)) f (arm_caller c)"
  using assms(1) load64_elsewhere [OF assms(2)]
  by (simp add: frame_at_33 arm_caller_def upt_31 arm_save_frame_def set_x_def off_minus spans_def load64_store64_off regions_apart_def)

lemma arm_save_outside:
  assumes "arm_sp c = f + 280" and "\<not> in_region f 280 a" and "\<not> in_region (xr c 0) 8 a"
  shows "arm_ram (fold arm_exec arm_save_frame c) a = arm_ram c a"
  using assms(1,3) store64_outside_off [OF assms(2)]
  by (simp add: arm_save_frame_def set_x_def off_minus spans_def store64_outside)

lemma arm_load_pc: "arm_pc (fold arm_exec arm_load_frame c) = xr (fold arm_exec arm_load_frame c) 30"
  by (simp add: arm_load_frame_def set_x_def)

subsection \<open>The contract\<close>

lemma arm_switch_halves: "arm_switch = (\<lambda>c. fold arm_exec arm_load_frame (fold arm_exec arm_save_frame c))"
  by (simp add: arm_switch_def fun_eq_iff)

definition arm_valid :: "u64 list \<Rightarrow> bool" where
  "arm_valid ws \<longleftrightarrow> daif_word (word_daif (last ws)) = last ws"

interpretation arm_halves: switch_halves "fold arm_exec arm_save_frame" "fold arm_exec arm_load_frame" arm_ram
  arm_sp "\<lambda>c. xr c 0" "\<lambda>c. xr c 1" arm_caller arm_now 280 33 arm_valid
proof
  fix c :: arm_cpu and a and ws :: "u64 list"
  have sp: "arm_sp c = (arm_sp c - 280) + 280" by simp
  show "load64 (arm_ram (fold arm_exec arm_save_frame c)) (xr c 0) = arm_sp c - 280"
    by (rule arm_save_slot [OF sp])
  show "frame_at (arm_ram (fold arm_exec arm_save_frame c)) (arm_sp c - 280) (arm_caller c)"
    if "regions_apart (arm_sp c - 280) 280 (xr c 0) 8" by (rule arm_save_holds [OF sp that])
  show "arm_ram (fold arm_exec arm_save_frame c) a = arm_ram c a"
    if "\<not> in_region (arm_sp c - 280) 280 a" "\<not> in_region (xr c 0) 8 a" by (rule arm_save_outside [OF sp that])
  show "arm_now (fold arm_exec arm_load_frame c) = ws"
    if "frame_at (arm_ram c) (xr c 1) ws" "length ws = 33" "arm_valid ws"
    using arm_load_now [OF that(1,2)] that(2,3) by (simp add: arm_valid_def append_butlast_last_id flip: length_greater_0_conv)
qed (auto simp: arm_save_from arm_save_from [unfolded One_nat_def] arm_load_ram arm_caller_def arm_valid_def)

subsection \<open>Properties\<close>

lemma arm_now_caller:
  assumes "arm_now r = arm_caller s"
  shows "map (xr r) [0..<31] = map (xr s) [0..<31]" and "arm_sp r = arm_sp s" and "daif r = daif s"
proof -
  have "map (xr r) [0..<31] = map (xr s) [0..<31] \<and> arm_sp r = arm_sp s \<and> daif_word (daif r) = daif_word (daif s)"
    using assms by (simp add: arm_now_def arm_caller_def)
  then show "map (xr r) [0..<31] = map (xr s) [0..<31]" "arm_sp r = arm_sp s" "daif r = daif s"
    by (auto dest: arg_cong [where f = word_daif])
qed

text \<open>
  C12: The aarch64 switch is transparent to the job that calls it.  When the routine has been called in the state \<open>s\<close>
  and is later called, in a state \<open>t\<close>, with the address it stored for \<open>s\<close>, and until then nobody wrote to
  the frame, it continues at the return address of the first call with all 31 registers, the stack
  pointer and the interrupt mask as they were there, including those the routine itself uses.
\<close>

theorem arm_switch_resumes_job:
  assumes "regions_apart (arm_sp s - 280) 280 (xr s 0) 8"
    and "xr t 1 = load64 (arm_ram (arm_switch s)) (xr s 0)"
    and "agree_on (xr t 1) 264 (arm_ram (arm_switch s)) (arm_ram t)"
    and "regions_apart (xr t 1) 264 (arm_sp t - 280) 280" and "regions_apart (xr t 1) 264 (xr t 0) 8"
  shows "map (xr (arm_switch t)) [0..<31] = map (xr s) [0..<31] \<and> arm_sp (arm_switch t) = arm_sp s \<and>
    daif (arm_switch t) = daif s \<and> arm_pc (arm_switch t) = xr s 30"
proof -
  have "arm_now (arm_switch t) = arm_caller s"
    using assms
    by (intro arm_halves.resumes [of s t, folded arm_switch_halves [THEN fun_cong]]) (simp_all add: arm_halves.out_of_the_way_def)
  note now = arm_now_caller [OF this]
  have "arm_pc (arm_switch t) = xr (arm_switch t) 30" by (simp add: arm_switch_halves arm_load_pc)
  then show ?thesis using now by (auto dest: map_eq_conv [THEN iffD1])
qed

text \<open>Two jobs: the first calls the switch with its stack at 0x1000, the second switches back to it.\<close>

definition demo_arm_job :: arm_cpu where
  "demo_arm_job = \<lparr>xr = (\<lambda>n. of_nat n + 7)(0 := 0x5000, 1 := 0x2000, 30 := 0x400123), arm_sp = 0x1000, arm_pc = 0, daif = 0,
     arm_ram = (\<lambda>a. 0)\<rparr>"

definition demo_arm_back :: arm_cpu where
  "demo_arm_back = \<lparr>xr = (\<lambda>n. 9)(0 := 0x5008, 1 := 0xEE8), arm_sp = 0x3000, arm_pc = 0, daif = 15,
     arm_ram = arm_ram (arm_switch demo_arm_job)\<rparr>"

lemma demo_arm_saved: "load64 (arm_ram (arm_switch demo_arm_job)) 0x5000 = 0xEE8"
  using arm_save_slot [of demo_arm_job "0xEE8"]
  by (simp add: arm_switch_halves arm_load_ram demo_arm_job_def)

theorem arm_switch_resumes_job_witness:
  "map (xr (arm_switch demo_arm_back)) [0..<31] = map (xr demo_arm_job) [0..<31] \<and>
   arm_sp (arm_switch demo_arm_back) = 0x1000 \<and> daif (arm_switch demo_arm_back) = 0 \<and> arm_pc (arm_switch demo_arm_back) = 0x400123"
proof -
  have "map (xr (arm_switch demo_arm_back)) [0..<31] = map (xr demo_arm_job) [0..<31] \<and>
    arm_sp (arm_switch demo_arm_back) = arm_sp demo_arm_job \<and>
    daif (arm_switch demo_arm_back) = daif demo_arm_job \<and> arm_pc (arm_switch demo_arm_back) = xr demo_arm_job 30"
    by (rule arm_switch_resumes_job)
      (use demo_arm_saved in \<open>simp_all add: demo_arm_job_def demo_arm_back_def regions_apart_def agree_on_def\<close>)
  then show ?thesis by (simp add: demo_arm_job_def)
qed

text \<open>A job that has never run starts in its entry function with its argument, interrupts unmasked, on its own stack.\<close>

lemma arm_fresh_job_starts:
  assumes "job_exec_init_aarch64 m top entry arg = (m', f)" and "xr t 1 = f" and "agree_on f 264 m' (arm_ram t)"
    and "regions_apart f 264 (arm_sp t - 280) 280" and "regions_apart f 264 (xr t 0) 8"
  shows "xr (arm_switch t) 30 = entry" and "arm_pc (arm_switch t) = entry" and "xr (arm_switch t) 0 = arg"
    and "arm_sp (arm_switch t) = top AND NOT 0xF" and "daif (arm_switch t) = 0"
proof -
  let ?ws = "[arg] @ replicate 29 0 @ [entry, top AND NOT 0xF, JOB_EXEC_INITIAL_PSTATE]"
  have "frame_at m' f ?ws"
    using assms(1) frame_at_written [of ?ws m "(top AND NOT 0xF) - 264"] by (auto simp: job_exec_init_aarch64_def Let_def)
  then have "frame_at (arm_ram t) (xr t 1) ?ws"
    using frame_at_agree [of m' f ?ws "arm_ram t"] assms(2,3) by simp
  then have now: "arm_now (arm_switch t) = ?ws"
    unfolding arm_switch_halves using arm_halves.law_load [of t ?ws] assms(2,4,5)
    by (simp add: arm_valid_def JOB_EXEC_INITIAL_PSTATE_def daif_word_def word_daif_def)
  have pc: "arm_pc (arm_switch t) = xr (arm_switch t) 30" by (simp add: arm_switch_halves arm_load_pc)
  show "xr (arm_switch t) 30 = entry" "xr (arm_switch t) 0 = arg" "arm_sp (arm_switch t) = top AND NOT 0xF"
    using now by (simp_all add: arm_now_def upt_31 numeral_nat)
  with pc show "arm_pc (arm_switch t) = entry" by simp
  have "daif_word (daif (arm_switch t)) = 0" using now by (simp add: arm_now_def upt_31 numeral_nat JOB_EXEC_INITIAL_PSTATE_def)
  then have "word_daif (daif_word (daif (arm_switch t))) = word_daif 0" by simp
  moreover have "word_daif 0 = 0" by (simp add: word_daif_def)
  ultimately show "daif (arm_switch t) = 0" by simp
qed

end
