(* ===== verification/User_Ipc.thy ===== *)
theory User_Ipc
  imports Byte_Memory
begin

text \<open>
  The transport of \<open>securinit/user_ipc.c\<close> between an unprivileged guest and the one
  capability it was granted.  Guest memory is the machine's memory; the request and the
  response travel through copies only the wrapper can reach, so the invocation is a
  function on the state \<open>'k\<close> of the rest of the machine that gets the bytes of the request
  and returns whether it succeeded and the bytes of the response.
\<close>

subsection \<open>The descriptor\<close>

definition WRAPPER_IPC_VERSION :: u32 where "WRAPPER_IPC_VERSION = 1"
definition WRAPPER_IPC_MAX_BYTES :: u64 where "WRAPPER_IPC_MAX_BYTES = 4096"
definition WRAPPER_GATE_ENDPOINT :: u64 where "WRAPPER_GATE_ENDPOINT = 1"
definition GATE_METHOD_INVOKE :: u32 where "GATE_METHOD_INVOKE = 0"

text \<open>The statuses, as the \<open>int64_t\<close> the guest finds in its result register.\<close>

definition WRAPPER_IPC_OK :: u64 where "WRAPPER_IPC_OK = 0"
definition WRAPPER_IPC_BAD_DESCRIPTOR :: u64 where "WRAPPER_IPC_BAD_DESCRIPTOR = - 1"
definition WRAPPER_IPC_BAD_ENDPOINT :: u64 where "WRAPPER_IPC_BAD_ENDPOINT = - 2"
definition WRAPPER_IPC_BOUNDS :: u64 where "WRAPPER_IPC_BOUNDS = - 3"
definition WRAPPER_IPC_REJECTED :: u64 where "WRAPPER_IPC_REJECTED = - 4"

lemmas ipc_statuses = WRAPPER_IPC_OK_def WRAPPER_IPC_BAD_DESCRIPTOR_def WRAPPER_IPC_BAD_ENDPOINT_def
  WRAPPER_IPC_BOUNDS_def WRAPPER_IPC_REJECTED_def

record wrapper_ipc_call_t =
  local_endpoint :: u64
  version :: u32
  method_id :: u32
  request_ptr :: u64
  request_len :: u64
  response_ptr :: u64
  response_capacity :: u64
  response_len :: u64

definition call_bytes :: "wrapper_ipc_call_t \<Rightarrow> bytes" where
  "call_bytes c = u64_bytes (local_endpoint c) @ u32_bytes (version c) @ u32_bytes (method_id c)
    @ u64_bytes (request_ptr c) @ u64_bytes (request_len c) @ u64_bytes (response_ptr c)
    @ u64_bytes (response_capacity c) @ u64_bytes (response_len c)"

definition bytes_call :: "bytes \<Rightarrow> wrapper_ipc_call_t" where
  "bytes_call bs = \<lparr>local_endpoint = le_word (take 8 bs), version = le_word (take 4 (drop 8 bs)),
     method_id = le_word (take 4 (drop 12 bs)), request_ptr = le_word (take 8 (drop 16 bs)),
     request_len = le_word (take 8 (drop 24 bs)), response_ptr = le_word (take 8 (drop 32 bs)),
     response_capacity = le_word (take 8 (drop 40 bs)), response_len = le_word (take 8 (drop 48 bs))\<rparr>"

lemma length_call_bytes [simp]: "length (call_bytes c) = 56"
  by (simp add: call_bytes_def)

lemma bytes_call_call_bytes [simp]: "bytes_call (call_bytes c) = c"
  by (simp add: call_bytes_def bytes_call_def)

text \<open>The hand-over from coreinit to the second stage, without the pointer to \<open>kernel_invoke\<close>,
  which is an argument wherever it is called.\<close>

record securinit_boot_info =
  factory :: u64
  status_sink :: u64
  exception_router :: u64
  exception_router_bind_method :: u32
  user_region_base :: u64
  user_region_size :: u64
  ttbr0_root_phys :: u64
  x86_pml4_phys :: u64

subsection \<open>Dispatch of a guest call\<close>

type_synonym 'k wrapper_invoke_fn_t = "'k \<Rightarrow> u64 \<Rightarrow> u32 \<Rightarrow> bytes \<Rightarrow> nat \<Rightarrow> 'k \<times> bool \<times> bytes"

definition within_user :: "u64 \<Rightarrow> u64 \<Rightarrow> u64 \<Rightarrow> u64 \<Rightarrow> bool" where
  "within_user base sz addr len \<longleftrightarrow> addr \<ge> base \<and> len \<le> sz \<and> addr - base \<le> sz - len"

definition call_in_bounds :: "u64 \<Rightarrow> u64 \<Rightarrow> wrapper_ipc_call_t \<Rightarrow> bool" where
  "call_in_bounds user_base user_size c \<longleftrightarrow>
    \<not> (request_len c > WRAPPER_IPC_MAX_BYTES \<or> response_capacity c > WRAPPER_IPC_MAX_BYTES \<or>
       \<not> within_user user_base user_size (request_ptr c) (request_len c) \<or>
       \<not> within_user user_base user_size (response_ptr c) (response_capacity c))"

definition wrapper_dispatch_guest_call ::
  "u64 \<Rightarrow> u64 \<Rightarrow> u64 \<Rightarrow> 'k wrapper_invoke_fn_t \<Rightarrow> u64 \<Rightarrow> memory \<Rightarrow> 'k \<Rightarrow> memory \<times> 'k \<times> u64" where
  "wrapper_dispatch_guest_call user_base user_size granted_gate invoke descriptor_addr m k =
    (if \<not> within_user user_base user_size descriptor_addr 56 then (m, k, WRAPPER_IPC_BAD_DESCRIPTOR)
     else let c = bytes_call (read_bytes m descriptor_addr 56) in
       if version c \<noteq> WRAPPER_IPC_VERSION then (m, k, WRAPPER_IPC_BAD_DESCRIPTOR)
       else if local_endpoint c \<noteq> WRAPPER_GATE_ENDPOINT \<or> method_id c \<noteq> GATE_METHOD_INVOKE
         then (m, k, WRAPPER_IPC_BAD_ENDPOINT)
       else if \<not> call_in_bounds user_base user_size c then (m, k, WRAPPER_IPC_BOUNDS)
       else (case invoke k granted_gate (method_id c) (read_bytes m (request_ptr c) (unat (request_len c)))
                    (unat (response_capacity c)) of
           (k', ok, response) \<Rightarrow>
             if \<not> ok \<or> length response > unat (response_capacity c) then (m, k', WRAPPER_IPC_REJECTED)
             else let m1 = write_bytes m (response_ptr c) response;
                      m2 = write_bytes m1 (descriptor_addr + 48) (u64_bytes (of_nat (length response)))
                  in (m2, k', WRAPPER_IPC_OK)))"

subsection \<open>The window\<close>

lemma within_user_spans:
  assumes "within_user base sz addr len"
  shows "spans base sz addr (unat len)"
proof -
  have l: "len \<le> sz" "addr - base \<le> sz - len" using assms by (auto simp: within_user_def)
  then have "unat (addr - base) \<le> unat sz - unat len" by (simp add: word_le_nat_alt unat_sub)
  then show ?thesis using l(1) by (simp add: spans_def word_le_nat_alt)
qed

text \<open>The outcomes of a call: refused with nothing done, or carried out on the granted capability.\<close>

lemma dispatch_cases:
  assumes "wrapper_dispatch_guest_call base sz gate invoke d m k = (m', k', status)"
  obtains (refused) "m' = m" "k' = k" "status \<noteq> WRAPPER_IPC_OK"
  | (invoked) c ok response where "within_user base sz d 56" "c = bytes_call (read_bytes m d 56)"
      "call_in_bounds base sz c"
      "invoke k gate GATE_METHOD_INVOKE (read_bytes m (request_ptr c) (unat (request_len c)))
         (unat (response_capacity c)) = (k', ok, response)"
      "if ok \<and> length response \<le> unat (response_capacity c)
       then m' = write_bytes (write_bytes m (response_ptr c) response) (d + 48) (u64_bytes (of_nat (length response)))
            \<and> status = WRAPPER_IPC_OK
       else m' = m \<and> status = WRAPPER_IPC_REJECTED"
  using assms
  by (fastforce simp: wrapper_dispatch_guest_call_def Let_def ipc_statuses split: if_splits prod.splits)

lemma call_in_boundsD:
  assumes "call_in_bounds base sz c"
  shows "spans base sz (request_ptr c) (unat (request_len c))"
    "spans base sz (response_ptr c) (unat (response_capacity c))"
    "unat (request_len c) \<le> 4096" "unat (response_capacity c) \<le> 4096"
  using assms by (auto simp: call_in_bounds_def WRAPPER_IPC_MAX_BYTES_def word_le_nat_alt not_less
      intro: within_user_spans)

lemma descriptor_spans:
  assumes "within_user base sz d 56"
  shows "spans base sz d 56" "spans base sz (d + 48) 8"
  using within_user_spans [OF assms] spans_shift [of base sz d 56 48 8] by simp_all

text \<open>The two stores of a successful call.\<close>

lemma reply_stores:
  assumes "within_user base sz d 56" "call_in_bounds base sz c" "length response \<le> unat (response_capacity c)"
    and "m' = write_bytes (write_bytes m (response_ptr c) response) (d + 48) (u64_bytes (of_nat (length response)))"
  shows "same_outside base sz m m'"
  unfolding assms(4)
  by (rule same_outside_trans; rule write_bytes_same_outside)
    (simp_all add: descriptor_spans(2) [OF assms(1)] spans_shorter [OF call_in_boundsD(2) [OF assms(2)] assms(3)])

text \<open>The effect of a guest call on the rest of the machine.\<close>

definition gate_call :: "'k wrapper_invoke_fn_t \<Rightarrow> u64 \<Rightarrow> 'k \<Rightarrow> 'k \<Rightarrow> bool" where
  "gate_call invoke gate k k' \<longleftrightarrow> (\<exists>request cap. k' = fst (invoke k gate GATE_METHOD_INVOKE request cap)
     \<and> length request \<le> 4096 \<and> cap \<le> 4096)"

lemma dispatch_same_outside:
  assumes "wrapper_dispatch_guest_call base sz gate invoke d m k = (m', k', status)"
  shows "same_outside base sz m m'"
  using assms by (cases rule: dispatch_cases) (auto split: if_splits intro: reply_stores)

lemma dispatch_gate_call:
  assumes "wrapper_dispatch_guest_call base sz gate invoke d m k = (m', k', status)"
  shows "k' = k \<or> gate_call invoke gate k k'"
  using assms
proof (cases rule: dispatch_cases)
  case (invoked c ok response)
  then show ?thesis using call_in_boundsD(3,4) [OF invoked(3)] unfolding gate_call_def
    by (intro disjI2 exI [of _ "read_bytes m (request_ptr c) (unat (request_len c))"]
        exI [of _ "unat (response_capacity c)"]) simp
qed simp

lemma dispatch_agree:
  assumes "wrapper_dispatch_guest_call base sz gate invoke d m k = (m', k', status)" and "agree_on base sz m n"
  shows "\<exists>n'. wrapper_dispatch_guest_call base sz gate invoke d n k = (n', k', status) \<and> agree_on base sz m' n'"
proof (cases "within_user base sz d 56")
  case True
  note dsc = read_bytes_agree [OF assms(2) descriptor_spans(1) [OF True], symmetric]
  let ?c = "bytes_call (read_bytes m d 56)"
  have req: "read_bytes n (request_ptr ?c) (unat (request_len ?c)) = read_bytes m (request_ptr ?c) (unat (request_len ?c))"
    if "call_in_bounds base sz ?c"
    by (rule read_bytes_agree [OF assms(2) call_in_boundsD(1) [OF that], symmetric])
  show ?thesis
    using assms True req
    by (auto simp: wrapper_dispatch_guest_call_def Let_def dsc split: if_splits prod.splits intro: write_bytes_agree)
qed (use assms in \<open>auto simp: wrapper_dispatch_guest_call_def\<close>)

subsection \<open>Properties\<close>


text \<open>
  A well-formed call is delivered.  When the descriptor in the window names the granted
  endpoint and its buffers lie in the window, the granted capability is invoked once with
  exactly the bytes of the request; if it succeeds within the room the guest gave, the
  guest finds the response in its buffer, its length in the descriptor and the status OK,
  and otherwise the status REJECTED with its memory unchanged.
\<close>

theorem guest_call_delivers:
  assumes "within_user base sz d 56" and "read_bytes m d 56 = call_bytes c"
    and "version c = WRAPPER_IPC_VERSION" and "local_endpoint c = WRAPPER_GATE_ENDPOINT"
    and "method_id c = GATE_METHOD_INVOKE" and "call_in_bounds base sz c"
    and "regions_apart (response_ptr c) (response_capacity c) d 56"
    and "invoke k gate GATE_METHOD_INVOKE (read_bytes m (request_ptr c) (unat (request_len c)))
           (unat (response_capacity c)) = (k', ok, response)"
    and "wrapper_dispatch_guest_call base sz gate invoke d m k = (m', k'', status)"
  shows "k'' = k' \<and> (if ok \<and> length response \<le> unat (response_capacity c)
     then status = WRAPPER_IPC_OK \<and> read_bytes m' (response_ptr c) (length response) = response
       \<and> load64 m' (d + 48) = of_nat (length response)
     else status = WRAPPER_IPC_REJECTED \<and> m' = m)"
proof (cases "ok \<and> length response \<le> unat (response_capacity c)")
  case True
  let ?m1 = "write_bytes m (response_ptr c) response"
  have e: "k'' = k' \<and> status = WRAPPER_IPC_OK
      \<and> m' = write_bytes ?m1 (d + 48) (u64_bytes (of_nat (length response)))"
    using assms(1-6,8,9) True by (simp add: wrapper_dispatch_guest_call_def)
  have "spans d 56 (d + 48) 8" by (simp add: spans_def)
  then have out: "same_outside d 56 ?m1 m'" using e by (auto intro: write_bytes_same_outside)
  have "length response \<le> 4096" using True call_in_boundsD(4) [OF assms(6)] by linarith
  then have "read_bytes ?m1 (response_ptr c) (length response) = response" by (simp add: read_write_same)
  moreover have "spans (response_ptr c) (response_capacity c) (response_ptr c) (length response)"
    using True by (simp add: spans_def)
  ultimately have "read_bytes m' (response_ptr c) (length response) = response"
    using read_bytes_same_outside [OF out assms(7)] by simp
  moreover have "load64 m' (d + 48) = of_nat (length response)"
    using e load64_store64 [of ?m1 "d + 48" "of_nat (length response)"] by (simp add: store64_def)
  ultimately show ?thesis using e True by simp
next
  case False
  then show ?thesis using assms by (auto simp: wrapper_dispatch_guest_call_def)
qed

text \<open>A guest whose window is the page at \<open>0x200000\<close>, with a descriptor and a request in it.\<close>

definition demo_guest_call :: wrapper_ipc_call_t where
  "demo_guest_call = \<lparr>local_endpoint = 1, version = 1, method_id = 0, request_ptr = 0x200100, request_len = 3,
     response_ptr = 0x200200, response_capacity = 8, response_len = 0\<rparr>"

definition demo_guest :: memory where
  "demo_guest = write_bytes (write_bytes (\<lambda>_. 0) 0x200100 [1, 2, 3]) 0x200000 (call_bytes demo_guest_call)"

text \<open>An invocation that counts and returns the request backwards.\<close>

definition demo_reverse :: "nat wrapper_invoke_fn_t" where
  "demo_reverse k gate mth request cap = (Suc k, True, rev request)"

lemma demo_guest_descriptor: "read_bytes demo_guest 0x200000 56 = call_bytes demo_guest_call"
  using read_write_same [of "call_bytes demo_guest_call"] by (simp add: demo_guest_def)

lemma demo_guest_request: "read_bytes demo_guest 0x200100 3 = [1, 2, 3]"
proof -
  have "same_outside 0x200000 56 (write_bytes (\<lambda>_. 0) 0x200100 [1, 2, 3]) demo_guest"
    unfolding demo_guest_def by (rule write_bytes_same_outside) (simp add: spans_def)
  from read_bytes_same_outside [OF this, of "0x200100" 3 "0x200100" 3]
  have "read_bytes demo_guest 0x200100 3 = read_bytes (write_bytes (\<lambda>_. 0) 0x200100 [1, 2, 3]) 0x200100 3"
    by (simp add: regions_apart_def spans_def)
  then show ?thesis using read_write_same [of "[1, 2, 3]" "\<lambda>_. 0" "0x200100"] by (simp add: numeral_3_eq_3)
qed

lemma demo_guest_ok:
  "within_user 0x200000 0x1000 0x200000 56" "call_in_bounds 0x200000 0x1000 demo_guest_call"
  "regions_apart (response_ptr demo_guest_call) (response_capacity demo_guest_call) 0x200000 56"
  by (simp_all add: within_user_def call_in_bounds_def demo_guest_call_def WRAPPER_IPC_MAX_BYTES_def regions_apart_def)

theorem guest_call_delivers_witness:
  "\<exists>m'. wrapper_dispatch_guest_call 0x200000 0x1000 77 demo_reverse 0x200000 demo_guest 5 = (m', 6, WRAPPER_IPC_OK)
    \<and> read_bytes m' 0x200200 3 = [3, 2, 1] \<and> load64 m' 0x200030 = 3"
proof -
  obtain m' k' st where r: "wrapper_dispatch_guest_call 0x200000 0x1000 77 demo_reverse 0x200000 demo_guest 5 = (m', k', st)"
    by (cases "wrapper_dispatch_guest_call 0x200000 0x1000 77 demo_reverse 0x200000 demo_guest 5")
  have "demo_reverse 5 77 GATE_METHOD_INVOKE (read_bytes demo_guest (request_ptr demo_guest_call) (unat (request_len demo_guest_call)))
      (unat (response_capacity demo_guest_call)) = (6, True, [3, 2, 1])"
    using demo_guest_request by (simp add: demo_guest_call_def demo_reverse_def)
  from guest_call_delivers [OF demo_guest_ok(1) demo_guest_descriptor _ _ _ demo_guest_ok(2,3) this r]
  show ?thesis using r by (auto simp: demo_guest_call_def WRAPPER_IPC_VERSION_def WRAPPER_GATE_ENDPOINT_def GATE_METHOD_INVOKE_def numeral_3_eq_3)
qed


end
