(* ===== verification/Securinit.thy ===== *)
theory Securinit
  imports User_Ipc Smp_Layout
begin

text \<open>
  The second stage \<open>securinit/securinit.c\<close>: the status, gate, admin, wrapper factory and wrapped objects and
  \<open>securinit_main\<close>.  The kernel behind \<open>g_invoke\<close> is not part of the repository: creating an object,
  what a handle reaches, what messages are let through, and the objects of others are arguments, and so is
  the guest run of the wrapper, which has its own theory.  Calls nest, so an invocation has a
  depth; four levels are the most this stage uses.
\<close>

subsection \<open>State and environment\<close>

definition STATUS_METHOD_REPORT :: u32 where "STATUS_METHOD_REPORT = 0"
definition GATE_METHOD_GET_STATS :: u32 where "GATE_METHOD_GET_STATS = 1"
definition ADMIN_METHOD_SET_ALLOWED :: u32 where "ADMIN_METHOD_SET_ALLOWED = 0"
definition WRAPPER_FACTORY_METHOD_CREATE :: u32 where "WRAPPER_FACTORY_METHOD_CREATE = 0"
definition WRAPPED_OBJECT_METHOD_RUN :: u32 where "WRAPPED_OBJECT_METHOD_RUN = 0"

definition SECURINIT_BOOT_MARKER :: u64 where "SECURINIT_BOOT_MARKER = 0x5345435552494e49"
definition SECURINIT_EL0_DENIED_MARKER :: u64 where "SECURINIT_EL0_DENIED_MARKER = 0x454c3044454e4945"
definition SECURINIT_EL0_IPC_MARKER :: u64 where "SECURINIT_EL0_IPC_MARKER = 0x454c304950434d4b"
definition SECURINIT_RING3_DENIED_MARKER :: u64 where "SECURINIT_RING3_DENIED_MARKER = 0x523344454e494544"
definition SECURINIT_RING3_IPC_MARKER :: u64 where "SECURINIT_RING3_IPC_MARKER = 0x52334950434d4b21"

datatype stage_obj = OStatus | OGate | OAdmin | OWrapperFactory | OWrapped

text \<open>The static variables, the state of the rest of the machine, and the record of the calls made to the sink.\<close>

record 'k stage =
  sk :: 'k
  g_sink :: u64
  g_status :: u64
  g_gate :: u64
  g_wrapped :: u64
  g_boot :: securinit_boot_info
  g_allowed :: u64
  g_denied :: u64
  g_forwarded :: u64
  g_probe_failures :: u64
  reports :: "bytes list"

type_synonym 'k stage_invoke_fn = "'k stage wrapper_invoke_fn_t"

record 'k stage_env =
  s_arch :: arch
  s_create :: "'k \<Rightarrow> stage_obj \<Rightarrow> 'k \<times> u64"
  s_object :: "'k \<Rightarrow> u64 \<Rightarrow> stage_obj option"
  s_issued :: "'k \<Rightarrow> u64 \<Rightarrow> bool"
  s_other :: "'k wrapper_invoke_fn_t"
  s_request_ok :: "stage_obj \<Rightarrow> u32 \<Rightarrow> bytes \<Rightarrow> bool"
  s_result_ok :: "stage_obj \<Rightarrow> u32 \<Rightarrow> bytes \<Rightarrow> bool"
  s_probe :: "'k stage_invoke_fn \<Rightarrow> u64 \<Rightarrow> 'k stage \<Rightarrow> 'k stage \<times> u64 option"

definition create_stage_object :: "'k stage_env \<Rightarrow> stage_obj \<Rightarrow> 'k stage \<Rightarrow> 'k stage \<times> u64" where
  "create_stage_object E ob s = (case s_create E (sk s) ob of (k, h) \<Rightarrow> (s\<lparr>sk := k\<rparr>, h))"

subsection \<open>Handlers\<close>

definition status_handler :: "'k stage_invoke_fn \<Rightarrow> bytes \<Rightarrow> 'k stage \<Rightarrow> 'k stage \<times> bytes" where
  "status_handler invoke msg s = (fst (invoke (s\<lparr>reports := reports s @ [msg]\<rparr>) (g_sink s) 0 msg 0), [])"

definition gate_handler :: "'k stage_invoke_fn \<Rightarrow> u32 \<Rightarrow> bytes \<Rightarrow> nat \<Rightarrow> 'k stage \<Rightarrow> 'k stage \<times> bytes" where
  "gate_handler invoke mid msg response_cap s =
    (if mid = GATE_METHOD_GET_STATS then (s, capnp_build_flat response_cap [g_denied s, g_forwarded s] 2)
     else
       (case (if g_allowed s \<noteq> 0 then
                (case invoke s (g_status s) STATUS_METHOD_REPORT (capnp_build_flat 24 [capnp_read_flat msg ! 0] 1) 0 of
                   (s1, called, _) \<Rightarrow> if called then (s1\<lparr>g_forwarded := g_forwarded s1 + 1\<rparr>, 1) else (s1, 0))
              else (s, 0 :: u64)) of
          (s2, ok) \<Rightarrow>
            (if ok = 0 then s2\<lparr>g_denied := g_denied s2 + 1\<rparr> else s2, capnp_build_flat response_cap [ok] 1)))"

definition admin_handler :: "bytes \<Rightarrow> nat \<Rightarrow> 'k stage \<Rightarrow> 'k stage \<times> bytes" where
  "admin_handler msg response_cap s =
    (s\<lparr>g_allowed := (if capnp_read_flat msg ! 0 \<noteq> 0 then 1 else 0)\<rparr>, capnp_build_flat response_cap [1] 1)"

definition denied_marker :: "arch \<Rightarrow> u64" where
  "denied_marker a = (case a of AArch64 \<Rightarrow> SECURINIT_EL0_DENIED_MARKER | X86_64 \<Rightarrow> SECURINIT_RING3_DENIED_MARKER)"

definition wrapped_handler :: "'k stage_env \<Rightarrow> 'k stage_invoke_fn \<Rightarrow> bytes \<Rightarrow> nat \<Rightarrow> 'k stage \<Rightarrow> 'k stage \<times> bytes" where
  "wrapped_handler E invoke msg response_cap s =
    (case (if exception_router (g_boot s) \<noteq> 0 then s_probe E invoke (capnp_read_flat msg ! 0) s else (s, None)) of
       (s1, None) \<Rightarrow> (s1\<lparr>g_probe_failures := g_probe_failures s1 + 1\<rparr>, capnp_build_flat response_cap [0] 1)
     | (s1, Some forwarded) \<Rightarrow>
         (case invoke s1 (g_status s1) STATUS_METHOD_REPORT (capnp_build_flat 24 [denied_marker (s_arch E)] 1) 0 of
            (s2, called, _) \<Rightarrow>
              (if \<not> called then s2\<lparr>g_probe_failures := g_probe_failures s2 + 1\<rparr> else s2,
               capnp_build_flat response_cap [forwarded] 1)))"

definition wrapper_factory_handler :: "'k stage_env \<Rightarrow> nat \<Rightarrow> 'k stage \<Rightarrow> 'k stage \<times> bytes" where
  "wrapper_factory_handler E response_cap s =
    (let s1 = (if g_wrapped s = 0
               then (case create_stage_object E OWrapped s of (s', h) \<Rightarrow> s'\<lparr>g_wrapped := h\<rparr>) else s)
     in (s1, capnp_build_flat response_cap [g_wrapped s1] 1))"

definition run_stage_handler ::
  "'k stage_env \<Rightarrow> 'k stage_invoke_fn \<Rightarrow> stage_obj \<Rightarrow> u32 \<Rightarrow> bytes \<Rightarrow> nat \<Rightarrow> 'k stage \<Rightarrow> 'k stage \<times> bytes" where
  "run_stage_handler E invoke ob mid msg cap s =
    (case ob of
       OStatus \<Rightarrow> status_handler invoke msg s
     | OGate \<Rightarrow> gate_handler invoke mid msg cap s
     | OAdmin \<Rightarrow> admin_handler msg cap s
     | OWrapperFactory \<Rightarrow> wrapper_factory_handler E cap s
     | OWrapped \<Rightarrow> wrapped_handler E invoke msg cap s)"

text \<open>\<open>kernel_invoke\<close>, for calls nested at most \<open>n\<close> deep.\<close>

fun stage_invoke :: "'k stage_env \<Rightarrow> nat \<Rightarrow> 'k stage_invoke_fn" where
  "stage_invoke E 0 s h mid msg cap = (s, False, [])"
| "stage_invoke E (Suc n) s h mid msg cap =
    (case s_object E (sk s) h of
       None \<Rightarrow> (case s_other E (sk s) h mid msg cap of (k, ok, resp) \<Rightarrow> (s\<lparr>sk := k\<rparr>, ok, resp))
     | Some ob \<Rightarrow>
         if \<not> s_request_ok E ob mid msg then (s, False, [])
         else (case run_stage_handler E (stage_invoke E n) ob mid msg cap s of
                 (s', resp) \<Rightarrow> (s', s_result_ok E ob mid resp, resp)))"

subsection \<open>Start-up\<close>

text \<open>A call whose answer is checked: the word answered, if the call succeeded.\<close>

definition checked_call :: "'k stage_invoke_fn \<Rightarrow> u64 \<Rightarrow> u32 \<Rightarrow> u64 \<Rightarrow> 'k stage \<Rightarrow> 'k stage \<times> u64 option" where
  "checked_call invoke h mid word s =
    (case invoke s h mid (capnp_build_flat 24 [word] 1) 24 of
       (s', ok, resp) \<Rightarrow> (s', if ok \<and> length resp \<ge> 24 then Some (capnp_read_flat resp ! 0) else None))"

definition user_marker :: "arch \<Rightarrow> u64" where
  "user_marker a = (case a of AArch64 \<Rightarrow> SECURINIT_EL0_IPC_MARKER | X86_64 \<Rightarrow> SECURINIT_RING3_IPC_MARKER)"

text \<open>The part of the start-up that runs the wrapped guest: once let through, once after the permission is revoked.\<close>

definition guest_rounds :: "'k stage_env \<Rightarrow> 'k stage_invoke_fn \<Rightarrow> u64 \<Rightarrow> u64 \<Rightarrow> 'k stage \<Rightarrow> 'k stage \<times> bool" where
  "guest_rounds E invoke admin wrapper_factory s =
    (case checked_call invoke wrapper_factory WRAPPER_FACTORY_METHOD_CREATE 0 s of
       (s1, None) \<Rightarrow> (s1, False)
     | (s1, Some wrapped) \<Rightarrow>
        if wrapped = 0 then (s1, False)
        else (case checked_call invoke wrapped WRAPPED_OBJECT_METHOD_RUN (user_marker (s_arch E)) s1 of (s2, r2) \<Rightarrow>
          if r2 \<noteq> Some 1 then (s2, False)
          else (case checked_call invoke admin ADMIN_METHOD_SET_ALLOWED 0 s2 of (s3, r3) \<Rightarrow>
            if r3 \<noteq> Some 1 then (s3, False)
            else (case checked_call invoke wrapped WRAPPED_OBJECT_METHOD_RUN (user_marker (s_arch E)) s3 of (s4, r4) \<Rightarrow>
              (s4, r4 = Some 0 \<and> g_probe_failures s4 = 0)))))"

text \<open>The checks of the gate: closed it must not forward, opened it must.\<close>

definition gate_rounds :: "'k stage_invoke_fn \<Rightarrow> u64 \<Rightarrow> u64 \<Rightarrow> 'k stage \<Rightarrow> 'k stage \<times> bool" where
  "gate_rounds invoke gate admin s =
    (case checked_call invoke gate GATE_METHOD_INVOKE SECURINIT_BOOT_MARKER s of (s1, r1) \<Rightarrow>
      if r1 \<noteq> Some 0 then (s1, False)
      else (case checked_call invoke admin ADMIN_METHOD_SET_ALLOWED 1 s1 of (s2, r2) \<Rightarrow>
        if r2 \<noteq> Some 1 then (s2, False)
        else (case checked_call invoke gate GATE_METHOD_INVOKE SECURINIT_BOOT_MARKER s2 of (s3, r3) \<Rightarrow> (s3, r3 = Some 1))))"

definition stage_reset :: "securinit_boot_info \<Rightarrow> 'k stage \<Rightarrow> 'k stage" where
  "stage_reset info s = s\<lparr>g_sink := status_sink info, g_boot := info, g_wrapped := 0, g_probe_failures := 0,
     g_allowed := 0, g_denied := 0, g_forwarded := 0\<rparr>"

definition securinit_main :: "'k stage_env \<Rightarrow> nat \<Rightarrow> securinit_boot_info \<Rightarrow> 'k stage \<Rightarrow> 'k stage \<times> u64" where
  "securinit_main E n info s =
    (case create_stage_object E OStatus (stage_reset info s) of (s1, status) \<Rightarrow>
     case create_stage_object E OGate (s1\<lparr>g_status := status\<rparr>) of (s2, gate) \<Rightarrow>
     case create_stage_object E OAdmin s2 of (s3, admin) \<Rightarrow>
     case create_stage_object E OWrapperFactory s3 of (s4, wrapper_factory) \<Rightarrow>
       if status = 0 \<or> gate = 0 \<or> admin = 0 \<or> wrapper_factory = 0 then (s4, 0)
       else (case gate_rounds (stage_invoke E n) gate admin (s4\<lparr>g_gate := gate\<rparr>) of
          (s5, False) \<Rightarrow> (s5, 0)
        | (s5, True) \<Rightarrow>
            if exception_router info = 0 then (s5, gate)
            else (case guest_rounds E (stage_invoke E n) admin wrapper_factory s5 of
                    (s6, passed) \<Rightarrow> (s6, if passed then gate else 0))))"

subsection \<open>What is known of the kernel\<close>

text \<open>
  As for the scheduler: a created object is reachable under a fresh handle, calls to the objects of others neither add nor
  remove an object of this stage and take no handle back, a message of the declared shape is let
  through, and a message without a data word is refused.
\<close>

definition stage_create_law :: "'k stage_env \<Rightarrow> bool" where
  "stage_create_law E \<longleftrightarrow> (\<forall>k ob k' h. s_create E k ob = (k', h) \<longrightarrow>
    (if h = 0 then s_object E k' = s_object E k \<and> s_issued E k' = s_issued E k
     else \<not> s_issued E k h \<and> s_object E k h = None \<and> s_object E k' = (s_object E k)(h \<mapsto> ob) \<and>
       s_issued E k' = (s_issued E k)(h := True)))"

definition stage_other_law :: "'k stage_env \<Rightarrow> bool" where
  "stage_other_law E \<longleftrightarrow> (\<forall>k h m msg cap. s_object E (fst (s_other E k h m msg cap)) = s_object E k \<and>
     s_issued E k \<le> s_issued E (fst (s_other E k h m msg cap)))"

definition stage_message_law :: "'k stage_env \<Rightarrow> bool" where
  "stage_message_law E \<longleftrightarrow>
    (\<forall>ob w. s_request_ok E ob 0 (flat_msg [w])) \<and>
    s_result_ok E OStatus 0 [] \<and>
    (\<forall>ob w. ob \<noteq> OStatus \<longrightarrow> s_result_ok E ob 0 (flat_msg [w])) \<and>
    (\<forall>ob m msg. s_request_ok E ob m msg \<longrightarrow> capnp_read_flat msg \<noteq> [])"

definition stage_laws :: "'k stage_env \<Rightarrow> bool" where
  "stage_laws E \<longleftrightarrow> stage_create_law E \<and> stage_other_law E \<and> stage_message_law E"

text \<open>The guest run acts on the stage through calls of the gate and of the exception router, and on the machine.\<close>

inductive guest_effect :: "'k stage_env \<Rightarrow> 'k stage_invoke_fn \<Rightarrow> u64 \<Rightarrow> u64 \<Rightarrow> 'k stage \<Rightarrow> 'k stage \<Rightarrow> bool"
  for E invoke gate router where
  effect_gate: "guest_effect E invoke gate router s (fst (invoke s gate GATE_METHOD_INVOKE msg cap))"
| effect_router: "guest_effect E invoke gate router s (fst (invoke s router m msg cap))"
| effect_machine: "s_object E k = s_object E (sk s) \<Longrightarrow> s_issued E k = s_issued E (sk s) \<Longrightarrow>
    guest_effect E invoke gate router s (s\<lparr>sk := k\<rparr>)"

definition probe_law :: "'k stage_env \<Rightarrow> bool" where
  "probe_law E \<longleftrightarrow> (\<forall>invoke v s.
    (guest_effect E invoke (g_gate s) (exception_router (g_boot s)))\<^sup>*\<^sup>* s (fst (s_probe E invoke v s)))"

subsection \<open>What calls keep\<close>

text \<open>Handles that have been handed out, and the null handle, which never is.\<close>

definition known :: "'k stage_env \<Rightarrow> 'k \<Rightarrow> u64 \<Rightarrow> bool" where
  "known E k h \<longleftrightarrow> s_issued E k h \<or> h = 0"

definition grows :: "'k stage_env \<Rightarrow> 'k stage \<Rightarrow> 'k stage \<Rightarrow> bool" where
  "grows E s s' \<longleftrightarrow> g_sink s' = g_sink s \<and> g_status s' = g_status s \<and> g_gate s' = g_gate s \<and> g_boot s' = g_boot s \<and>
    (\<forall>h. known E (sk s) h \<longrightarrow> known E (sk s') h \<and> s_object E (sk s') h = s_object E (sk s) h)"

lemma grows_refl [simp]: "grows E s s"
  by (simp add: grows_def)

lemma grows_trans: "grows E s s' \<Longrightarrow> grows E s' s'' \<Longrightarrow> grows E s s''"
  by (simp add: grows_def)

text \<open>The stage is wired: the status handle reaches the status object, the gate handle the gate, and the
  sink and the router are objects of others.\<close>

definition wired :: "'k stage_env \<Rightarrow> 'k stage \<Rightarrow> bool" where
  "wired E s \<longleftrightarrow>
    s_object E (sk s) (g_status s) = Some OStatus \<and> known E (sk s) (g_status s) \<and>
    s_object E (sk s) (g_gate s) = Some OGate \<and> known E (sk s) (g_gate s) \<and>
    s_object E (sk s) (g_sink s) = None \<and> known E (sk s) (g_sink s) \<and>
    s_object E (sk s) (exception_router (g_boot s)) = None \<and> known E (sk s) (exception_router (g_boot s))"

lemma grows_wired: "grows E s s' \<Longrightarrow> wired E s \<Longrightarrow> wired E s'"
  by (simp add: grows_def wired_def)

lemmas invoke_unfold = stage_invoke.simps(2)

declare stage_invoke.simps(2) [simp del]

lemma invoke_object:
  "s_object E (sk s) h = Some ob \<Longrightarrow> s_request_ok E ob m msg \<Longrightarrow>
   stage_invoke E (Suc n) s h m msg cap =
     (case run_stage_handler E (stage_invoke E n) ob m msg cap s of (s', resp) \<Rightarrow> (s', s_result_ok E ob m resp, resp))"
  by (simp add: invoke_unfold)

lemma invoke_refused:
  "s_object E (sk s) h = Some ob \<Longrightarrow> \<not> s_request_ok E ob m msg \<Longrightarrow> stage_invoke E (Suc n) s h m msg cap = (s, False, [])"
  by (simp add: invoke_unfold)

lemma call_other:
  assumes "stage_laws E" and "s_object E (sk s) h = None" and "stage_invoke E (Suc n) s h m msg cap = (s', ok, resp)"
  obtains k where "s' = s\<lparr>sk := k\<rparr>" "s_object E k = s_object E (sk s)" "s_issued E (sk s) \<le> s_issued E k"
proof -
  obtain k ok' resp' where o: "s_other E (sk s) h m msg cap = (k, ok', resp')" by (metis prod_cases3)
  have "s_object E k = s_object E (sk s)" "s_issued E (sk s) \<le> s_issued E k"
    using assms(1) o by (auto simp: stage_laws_def stage_other_law_def dest!: spec [of _ "sk s"] spec [of _ h] spec [of _ m] spec [of _ msg] spec [of _ cap])
  then show thesis using that [of k] assms(2,3) o by (auto simp: invoke_unfold)
qed

lemma call_status:
  assumes "stage_laws E" and "wired E s"
  obtains k where "stage_invoke E (Suc (Suc n)) s (g_status s) 0 (flat_msg [w]) 0 =
      (s\<lparr>sk := k, reports := reports s @ [flat_msg [w]]\<rparr>, True, [])"
    "s_object E k = s_object E (sk s)" "s_issued E (sk s) \<le> s_issued E k"
proof -
  let ?s1 = "s\<lparr>reports := reports s @ [flat_msg [w]]\<rparr>"
  obtain s' ok resp where c: "stage_invoke E (Suc n) ?s1 (g_sink s) 0 (flat_msg [w]) 0 = (s', ok, resp)" by (metis prod_cases3)
  have none: "s_object E (sk ?s1) (g_sink s) = None" using assms(2) by (simp add: wired_def)
  obtain k where k: "s' = ?s1\<lparr>sk := k\<rparr>" "s_object E k = s_object E (sk s)" "s_issued E (sk s) \<le> s_issued E k"
    using call_other [OF assms(1) none c] by auto
  have "s_request_ok E OStatus 0 (flat_msg [w])" "s_result_ok E OStatus 0 []"
    using assms(1) by (simp_all add: stage_laws_def stage_message_law_def)
  then have "stage_invoke E (Suc (Suc n)) s (g_status s) 0 (flat_msg [w]) 0 = (s', True, [])"
    using assms(2) c by (simp add: wired_def invoke_object run_stage_handler_def status_handler_def)
  then show thesis using that [of k] k by simp
qed

subsection \<open>The gate\<close>

text \<open>What a gate invocation does to the stage, and what the admin object does.\<close>

definition gate_effect :: "u64 \<Rightarrow> 'k stage \<Rightarrow> 'k stage" where
  "gate_effect w s = (if g_allowed s \<noteq> 0 then s\<lparr>reports := reports s @ [flat_msg [w]], g_forwarded := g_forwarded s + 1\<rparr>
     else s\<lparr>g_denied := g_denied s + 1\<rparr>)"

lemma call_gate:
  assumes "stage_laws E" and "wired E s" and "s_object E (sk s) h = Some OGate"
    and "s_request_ok E OGate m msg" and "m \<noteq> GATE_METHOD_GET_STATS"
  obtains k resp where "stage_invoke E (Suc (Suc (Suc n))) s h m msg cap =
      ((gate_effect (capnp_read_flat msg ! 0) s)\<lparr>sk := k\<rparr>, s_result_ok E OGate m resp, resp)"
    "resp = capnp_build_flat cap [if g_allowed s \<noteq> 0 then 1 else 0] 1"
    "s_object E k = s_object E (sk s)" "s_issued E (sk s) \<le> s_issued E k"
proof (cases "g_allowed s \<noteq> 0")
  case True
  let ?w = "capnp_read_flat msg ! 0"
  obtain k where k: "stage_invoke E (Suc (Suc n)) s (g_status s) 0 (flat_msg [?w]) 0 =
      (s\<lparr>sk := k, reports := reports s @ [flat_msg [?w]]\<rparr>, True, [])"
    "s_object E k = s_object E (sk s)" "s_issued E (sk s) \<le> s_issued E k"
    by (rule call_status [OF assms(1,2)])
  then show thesis using that [of k] True assms(3-5)
    by (simp add: invoke_object run_stage_handler_def gate_handler_def gate_effect_def STATUS_METHOD_REPORT_def)
next
  case False
  then show thesis using that [of "sk s"] assms(3-5)
    by (simp add: invoke_object run_stage_handler_def gate_handler_def gate_effect_def)
qed

lemma call_stats:
  assumes "s_object E (sk s) h = Some OGate"
  shows "fst (stage_invoke E (Suc n) s h GATE_METHOD_GET_STATS msg cap) = s"
  using assms by (cases "s_request_ok E OGate GATE_METHOD_GET_STATS msg")
    (simp_all add: invoke_object invoke_refused run_stage_handler_def gate_handler_def)

lemma call_admin:
  assumes "s_object E (sk s) h = Some OAdmin" and "s_request_ok E OAdmin m msg"
  shows "stage_invoke E (Suc n) s h m msg cap =
    (s\<lparr>g_allowed := (if capnp_read_flat msg ! 0 \<noteq> 0 then 1 else 0)\<rparr>,
     s_result_ok E OAdmin m (capnp_build_flat cap [1] 1), capnp_build_flat cap [1] 1)"
  using assms by (simp add: invoke_object run_stage_handler_def admin_handler_def)

subsection \<open>The policy\<close>

text \<open>The promise of the gate, on the permission, the two counters and the messages handed to the sink.\<close>

type_synonym policy = "bool \<times> u64 \<times> u64 \<times> bytes list"

definition policy_of :: "'k stage \<Rightarrow> policy" where
  "policy_of s = (g_allowed s \<noteq> 0, g_denied s, g_forwarded s, reports s)"

fun policy_step :: "stage_obj \<Rightarrow> u32 \<Rightarrow> u64 \<Rightarrow> policy \<Rightarrow> policy" where
  "policy_step OAdmin m w (allowed, denied, forwarded, log) = (w \<noteq> 0, denied, forwarded, log)"
| "policy_step OGate m w (allowed, denied, forwarded, log) =
    (if m = GATE_METHOD_GET_STATS then (allowed, denied, forwarded, log)
     else if allowed then (allowed, denied, forwarded + 1, log @ [flat_msg [w]])
     else (allowed, denied + 1, forwarded, log))"
| "policy_step _ m w p = p"

type_synonym stage_call = "u64 \<times> u32 \<times> bytes \<times> nat"

definition make_call :: "'k stage_env \<Rightarrow> nat \<Rightarrow> stage_call \<Rightarrow> 'k stage \<Rightarrow> 'k stage" where
  "make_call E n c s = (case c of (h, m, msg, cap) \<Rightarrow> fst (stage_invoke E n s h m msg cap))"

definition call_policy :: "'k stage_env \<Rightarrow> 'k \<Rightarrow> stage_call \<Rightarrow> policy \<Rightarrow> policy" where
  "call_policy E k c p = (case c of (h, m, msg, cap) \<Rightarrow>
    (case s_object E k h of
       Some ob \<Rightarrow> if s_request_ok E ob m msg then policy_step ob m (capnp_read_flat msg ! 0) p else p
     | None \<Rightarrow> p))"

definition policy_handle :: "'k stage_env \<Rightarrow> 'k stage \<Rightarrow> u64 \<Rightarrow> bool" where
  "policy_handle E s h \<longleftrightarrow> known E (sk s) h \<and> (s_object E (sk s) h = Some OGate \<or> s_object E (sk s) h = Some OAdmin)"

lemma grows_policy_handle: "grows E s s' \<Longrightarrow> policy_handle E s h \<Longrightarrow> policy_handle E s' h"
  by (simp add: grows_def policy_handle_def)

lemma grows_sk:
  "s_object E k = s_object E (sk s) \<Longrightarrow> s_issued E (sk s) \<le> s_issued E k \<Longrightarrow> sk s' = k \<Longrightarrow>
   g_sink s' = g_sink s \<Longrightarrow> g_status s' = g_status s \<Longrightarrow> g_gate s' = g_gate s \<Longrightarrow> g_boot s' = g_boot s \<Longrightarrow> grows E s s'"
  by (auto simp: grows_def le_fun_def known_def)

lemma gate_effect_simps [simp]:
  "g_sink (gate_effect w s) = g_sink s" "g_status (gate_effect w s) = g_status s" "g_gate (gate_effect w s) = g_gate s"
  "g_boot (gate_effect w s) = g_boot s" "sk (gate_effect w s) = sk s" "g_allowed (gate_effect w s) = g_allowed s"
  by (simp_all add: gate_effect_def)

lemma gate_invoke_step:
  assumes "stage_laws E" and "wired E s" and "s_object E (sk s) h = Some OGate" and "known E (sk s) h"
  shows "grows E s (fst (stage_invoke E (Suc (Suc (Suc n))) s h m msg cap)) \<and>
    policy_of (fst (stage_invoke E (Suc (Suc (Suc n))) s h m msg cap)) = call_policy E (sk s) (h, m, msg, cap) (policy_of s)"
proof (cases "s_request_ok E OGate m msg")
  case False
  then show ?thesis using assms(3) by (simp add: invoke_refused call_policy_def)
next
  case ok: True
  show ?thesis
  proof (cases "m = GATE_METHOD_GET_STATS")
    case True
    then show ?thesis using assms(3) ok by (simp add: call_stats call_policy_def policy_of_def)
  next
    case False
    obtain k resp where "stage_invoke E (Suc (Suc (Suc n))) s h m msg cap =
        ((gate_effect (capnp_read_flat msg ! 0) s)\<lparr>sk := k\<rparr>, s_result_ok E OGate m resp, resp)"
      "s_object E k = s_object E (sk s)" "s_issued E (sk s) \<le> s_issued E k"
      using call_gate [OF assms(1-3) ok False] by metis
    then show ?thesis using False ok assms(3) grows_sk [of E k s]
      by (simp add: call_policy_def policy_of_def gate_effect_def)
  qed
qed

lemma admin_invoke_step:
  assumes "s_object E (sk s) h = Some OAdmin"
  shows "grows E s (fst (stage_invoke E (Suc n) s h m msg cap)) \<and>
    policy_of (fst (stage_invoke E (Suc n) s h m msg cap)) = call_policy E (sk s) (h, m, msg, cap) (policy_of s)"
  using assms by (cases "s_request_ok E OAdmin m msg")
    (auto simp: call_admin invoke_refused call_policy_def policy_of_def grows_def)

lemma make_call_step:
  assumes "stage_laws E" and "wired E s" and "policy_handle E s (fst c)"
  shows "grows E s (make_call E (Suc (Suc (Suc n))) c s) \<and>
    policy_of (make_call E (Suc (Suc (Suc n))) c s) = call_policy E (sk s) c (policy_of s)"
  using assms gate_invoke_step [OF assms(1,2)] admin_invoke_step [of E s _ "Suc (Suc n)"]
  by (cases c) (auto simp: make_call_def policy_handle_def)

lemma call_policy_grows: "grows E s s' \<Longrightarrow> policy_handle E s (fst c) \<Longrightarrow> call_policy E (sk s') c = call_policy E (sk s) c"
  by (cases c) (auto simp: call_policy_def grows_def policy_handle_def fun_eq_iff)

lemma calls_follow_policy:
  assumes "stage_laws E" and "wired E s" and "list_all (policy_handle E s \<circ> fst) cs"
  shows "grows E s (fold (make_call E (Suc (Suc (Suc n)))) cs s) \<and>
    policy_of (fold (make_call E (Suc (Suc (Suc n)))) cs s) = fold (call_policy E (sk s)) cs (policy_of s)"
  using assms(2,3)
proof (induction cs arbitrary: s)
  case (Cons c cs)
  let ?s1 = "make_call E (Suc (Suc (Suc n))) c s"
  have step: "grows E s ?s1" "policy_of ?s1 = call_policy E (sk s) c (policy_of s)"
    using make_call_step [OF assms(1) Cons.prems(1), of c] Cons.prems(2) by auto
  have all: "list_all (policy_handle E ?s1 \<circ> fst) cs"
    using Cons.prems(2) grows_policy_handle [OF step(1)] by (auto simp: list_all_iff)
  have "fold (call_policy E (sk ?s1)) cs p = fold (call_policy E (sk s)) cs p" for p
    using Cons.prems(2) call_policy_grows [OF step(1)] by (intro fold_cong) (auto simp: list_all_iff)
  then show ?case
    using Cons.IH [OF grows_wired [OF step(1) Cons.prems(1)] all] step grows_trans by auto
qed simp

subsection \<open>The start-up\<close>

text \<open>Answers of the size the start-up asks for.\<close>

lemma message_laws:
  assumes "stage_laws E"
  shows "s_request_ok E ob 0 (capnp_build_flat 24 [w] 1)" "ob \<noteq> OStatus \<Longrightarrow> s_result_ok E ob 0 (capnp_build_flat 24 [w] 1)"
    "length (capnp_build_flat 24 [w] 1) = 24" "capnp_read_flat (capnp_build_flat 24 [w] 1) = [w]"
  using assms length_flat_msg [of "[w]"] capnp_read_flat_msg [of "[w]"] by (simp_all add: stage_laws_def stage_message_law_def)

lemma checked_gate:
  assumes "stage_laws E" and "wired E s"
  obtains k where "checked_call (stage_invoke E (Suc (Suc (Suc n)))) (g_gate s) GATE_METHOD_INVOKE w s =
      ((gate_effect w s)\<lparr>sk := k\<rparr>, Some (if g_allowed s \<noteq> 0 then 1 else 0))"
    "grows E s ((gate_effect w s)\<lparr>sk := k\<rparr>)"
proof -
  note M = message_laws [OF assms(1)]
  have g: "s_object E (sk s) (g_gate s) = Some OGate" using assms(2) by (simp add: wired_def)
  have "(0 :: u32) \<noteq> GATE_METHOD_GET_STATS" by (simp add: GATE_METHOD_GET_STATS_def)
  then obtain k resp where "stage_invoke E (Suc (Suc (Suc n))) s (g_gate s) 0 (capnp_build_flat 24 [w] 1) 24 =
      ((gate_effect w s)\<lparr>sk := k\<rparr>, s_result_ok E OGate 0 resp, resp)"
    "resp = capnp_build_flat 24 [if g_allowed s \<noteq> 0 then 1 else 0] 1"
    "s_object E k = s_object E (sk s)" "s_issued E (sk s) \<le> s_issued E k"
    using call_gate [OF assms g M(1)] M(4) by (metis nth_Cons_0)
  then show thesis using that [of k] grows_sk [of E k s "(gate_effect w s)\<lparr>sk := k\<rparr>"] M(2-4)
    by (simp add: checked_call_def GATE_METHOD_INVOKE_def)
qed

lemma checked_admin:
  assumes "stage_laws E" and "s_object E (sk s) h = Some OAdmin"
  shows "checked_call (stage_invoke E (Suc n)) h ADMIN_METHOD_SET_ALLOWED w s =
    (s\<lparr>g_allowed := (if w \<noteq> 0 then 1 else 0)\<rparr>, Some 1)"
  using call_admin [OF assms(2) message_laws(1) [OF assms(1), of OAdmin w], of n 24] message_laws(2-4) [OF assms(1)]
  by (simp add: checked_call_def ADMIN_METHOD_SET_ALLOWED_def)

text \<open>The guest leaves the permission alone, and with the gate closed it reports nothing.\<close>

definition calm :: "'k stage_env \<Rightarrow> 'k stage \<Rightarrow> 'k stage \<Rightarrow> bool" where
  "calm E s s' \<longleftrightarrow> grows E s s' \<and> g_allowed s' = g_allowed s"

lemma calm_refl [simp]: "calm E s s"
  by (simp add: calm_def)

lemma calm_trans: "calm E s s' \<Longrightarrow> calm E s' s'' \<Longrightarrow> calm E s s''"
  by (auto simp: calm_def intro: grows_trans)

lemma calm_wired: "calm E s s' \<Longrightarrow> wired E s \<Longrightarrow> wired E s'"
  by (auto simp: calm_def intro: grows_wired)

lemma gate_call_calm:
  assumes "stage_laws E" and "wired E s"
  shows "calm E s (fst (stage_invoke E (Suc (Suc (Suc n))) s (g_gate s) m msg cap))"
proof (cases "s_request_ok E OGate m msg \<and> m \<noteq> GATE_METHOD_GET_STATS")
  case True
  have g: "s_object E (sk s) (g_gate s) = Some OGate" using assms(2) by (simp add: wired_def)
  obtain k resp where "stage_invoke E (Suc (Suc (Suc n))) s (g_gate s) m msg cap =
      ((gate_effect (capnp_read_flat msg ! 0) s)\<lparr>sk := k\<rparr>, s_result_ok E OGate m resp, resp)"
    "s_object E k = s_object E (sk s)" "s_issued E (sk s) \<le> s_issued E k"
    using call_gate [OF assms g] True by metis
  then show ?thesis using grows_sk [of E k s "(gate_effect (capnp_read_flat msg ! 0) s)\<lparr>sk := k\<rparr>"]
    by (simp add: calm_def)
next
  case False
  have g: "s_object E (sk s) (g_gate s) = Some OGate" using assms(2) by (simp add: wired_def)
  show ?thesis
  proof (cases "m = GATE_METHOD_GET_STATS")
    case True
    then show ?thesis using call_stats [OF g] by simp
  next
    case m: False
    then show ?thesis using False invoke_refused [OF g] by simp
  qed
qed

lemma router_call_calm:
  assumes "stage_laws E" and "wired E s"
  shows "calm E s (fst (stage_invoke E (Suc n) s (exception_router (g_boot s)) m msg cap))"
proof -
  obtain s' ok resp where c: "stage_invoke E (Suc n) s (exception_router (g_boot s)) m msg cap = (s', ok, resp)" by (metis prod_cases3)
  have "s_object E (sk s) (exception_router (g_boot s)) = None" using assms(2) by (simp add: wired_def)
  from call_other [OF assms(1) this c] obtain k where "s' = s\<lparr>sk := k\<rparr>" "s_object E k = s_object E (sk s)"
    "s_issued E (sk s) \<le> s_issued E k" by blast
  then show ?thesis using c grows_sk [of E k s s'] by (simp add: calm_def)
qed

lemma guest_effects_calm:
  assumes "(guest_effect E (stage_invoke E (Suc (Suc (Suc n)))) (g_gate s) (exception_router (g_boot s)))\<^sup>*\<^sup>* s s'" and "stage_laws E" and "wired E s"
  shows "calm E s s'"
  using assms(1)
proof (induction rule: rtranclp_induct)
  case (step x y)
  have x: "wired E x" using calm_wired step.IH assms(3) by blast
  have g: "g_gate s = g_gate x" "g_boot s = g_boot x" using step.IH by (simp_all add: calm_def grows_def)
  have "calm E x y"
    using step.hyps(2)
  proof (cases rule: guest_effect.cases)
    case (effect_gate msg cap)
    then show ?thesis using gate_call_calm [OF assms(2) x] g by simp
  next
    case (effect_router m msg cap)
    then show ?thesis using router_call_calm [OF assms(2) x] g by simp
  next
    case (effect_machine k)
    then show ?thesis by (simp add: calm_def grows_def known_def)
  qed
  then show ?case using step.IH calm_trans by blast
qed simp

lemma create_step:
  assumes "stage_laws E" and "create_stage_object E ob s = (s', h)"
  shows "\<exists>k. s' = s\<lparr>sk := k\<rparr>" and "calm E s s'"
    and "h \<noteq> 0 \<Longrightarrow> s_object E (sk s') h = Some ob \<and> known E (sk s') h"
proof -
  obtain k where k: "s_create E (sk s) ob = (k, h)" "s' = s\<lparr>sk := k\<rparr>"
    using assms(2) by (auto simp: create_stage_object_def split: prod.splits)
  have L: "if h = 0 then s_object E k = s_object E (sk s) \<and> s_issued E k = s_issued E (sk s)
     else \<not> s_issued E (sk s) h \<and> s_object E (sk s) h = None \<and> s_object E k = (s_object E (sk s))(h \<mapsto> ob) \<and>
       s_issued E k = (s_issued E (sk s))(h := True)"
    using assms(1) k(1) unfolding stage_laws_def stage_create_law_def by blast
  show "\<exists>k. s' = s\<lparr>sk := k\<rparr>" using k by blast
  show "calm E s s'" using L k by (auto simp: calm_def grows_def known_def split: if_splits)
  show "h \<noteq> 0 \<Longrightarrow> s_object E (sk s') h = Some ob \<and> known E (sk s') h" using L k by (simp add: known_def)
qed

lemma status_call_calm:
  assumes "stage_laws E" and "wired E s"
  shows "calm E s (fst (stage_invoke E (Suc (Suc n)) s (g_status s) 0 (flat_msg [w]) 0))"
proof -
  obtain k where "stage_invoke E (Suc (Suc n)) s (g_status s) 0 (flat_msg [w]) 0 =
      (s\<lparr>sk := k, reports := reports s @ [flat_msg [w]]\<rparr>, True, [])"
    "s_object E k = s_object E (sk s)" "s_issued E (sk s) \<le> s_issued E k"
    by (rule call_status [OF assms])
  then show ?thesis using grows_sk [of E k s "s\<lparr>sk := k, reports := reports s @ [flat_msg [w]]\<rparr>"] by (simp add: calm_def)
qed

lemma wrapped_call_calm:
  assumes "stage_laws E" and "probe_law E" and "wired E s" and "s_object E (sk s) h = Some OWrapped"
  shows "calm E s (fst (stage_invoke E (Suc (Suc (Suc (Suc n)))) s h m msg cap))"
proof (cases "s_request_ok E OWrapped m msg")
  case False
  then show ?thesis using assms(4) by (simp add: invoke_refused)
next
  case ok: True
  let ?I = "stage_invoke E (Suc (Suc (Suc n)))"
  obtain s1 r where p: "(if exception_router (g_boot s) \<noteq> 0 then s_probe E ?I (capnp_read_flat msg ! 0) s else (s, None)) = (s1, r)"
    by fastforce
  have "(guest_effect E ?I (g_gate s) (exception_router (g_boot s)))\<^sup>*\<^sup>* s s1"
    using assms(2) p by (auto simp: probe_law_def split: if_splits) (metis fst_conv)
  then have s1: "calm E s s1" using guest_effects_calm assms(1,3) by blast
  have fail: "calm E s (s2\<lparr>g_probe_failures := v\<rparr>) \<longleftrightarrow> calm E s s2" for s2 v
    by (simp add: calm_def grows_def)
  have "calm E s1 (fst (?I s1 (g_status s1) 0 (flat_msg [denied_marker (s_arch E)]) 0))"
    using status_call_calm [OF assms(1) calm_wired [OF s1 assms(3)]] .
  then have "calm E s (fst (?I s1 (g_status s1) 0 (flat_msg [denied_marker (s_arch E)]) 0))"
    using s1 calm_trans by blast
  then show ?thesis using ok assms(4) p s1 fail
    by (auto simp: invoke_object run_stage_handler_def wrapped_handler_def STATUS_METHOD_REPORT_def split: option.splits prod.splits)
qed

lemma factory_call:
  assumes "stage_laws E" and "s_object E (sk s) h = Some OWrapperFactory" and "g_wrapped s = 0"
  obtains s' w where "checked_call (stage_invoke E (Suc n)) h WRAPPER_FACTORY_METHOD_CREATE 0 s = (s', Some w)"
    "calm E s s'" "w \<noteq> 0 \<Longrightarrow> s_object E (sk s') w = Some OWrapped \<and> known E (sk s') w"
proof -
  note M = message_laws [OF assms(1)]
  obtain s1 w where c: "create_stage_object E OWrapped s = (s1, w)" by fastforce
  note S = create_step [OF assms(1) c]
  have "stage_invoke E (Suc n) s h 0 (capnp_build_flat 24 [0] 1) 24 =
      (s1\<lparr>g_wrapped := w\<rparr>, s_result_ok E OWrapperFactory 0 (capnp_build_flat 24 [w] 1), capnp_build_flat 24 [w] 1)"
    using assms(2,3) c M(1) by (simp add: invoke_object run_stage_handler_def wrapper_factory_handler_def Let_def)
  then have "checked_call (stage_invoke E (Suc n)) h WRAPPER_FACTORY_METHOD_CREATE 0 s = (s1\<lparr>g_wrapped := w\<rparr>, Some w)"
    using M(2-4) by (simp add: checked_call_def WRAPPER_FACTORY_METHOD_CREATE_def)
  moreover have "calm E s (s1\<lparr>g_wrapped := w\<rparr>)" using S(2) by (simp add: calm_def grows_def)
  ultimately show thesis using that [of "s1\<lparr>g_wrapped := w\<rparr>" w] S(3) by simp
qed

text \<open>What the start-up reaches: from a stage where the sink and the router are objects of others.\<close>

lemma gate_rounds_state:
  assumes "stage_laws E" and "wired E s" and "s_object E (sk s) admin = Some OAdmin" and "known E (sk s) admin"
    and "g_allowed s = 0" and "gate_rounds (stage_invoke E (Suc (Suc (Suc n)))) (g_gate s) admin s = (s', True)"
  shows "grows E s s'" and "g_allowed s' = 1" and "reports s' = reports s @ [flat_msg [SECURINIT_BOOT_MARKER]]"
    and "g_wrapped s' = g_wrapped s"
proof -
  let ?I = "stage_invoke E (Suc (Suc (Suc n)))"
  obtain k where c1: "checked_call ?I (g_gate s) GATE_METHOD_INVOKE SECURINIT_BOOT_MARKER s =
      ((gate_effect SECURINIT_BOOT_MARKER s)\<lparr>sk := k\<rparr>, Some (if g_allowed s \<noteq> 0 then 1 else 0))"
    and g1: "grows E s ((gate_effect SECURINIT_BOOT_MARKER s)\<lparr>sk := k\<rparr>)"
    by (rule checked_gate [OF assms(1,2)])
  define s1 where "s1 = (gate_effect SECURINIT_BOOT_MARKER s)\<lparr>sk := k\<rparr>"
  define s2 where "s2 = s1\<lparr>g_allowed := 1\<rparr>"
  have a1: "s_object E (sk s1) admin = Some OAdmin" using g1 assms(3,4) by (simp add: s1_def grows_def)
  have c2: "checked_call ?I admin ADMIN_METHOD_SET_ALLOWED 1 s1 = (s2, Some 1)"
    using checked_admin [OF assms(1) a1, of "Suc (Suc n)" 1] by (simp add: s2_def)
  have g2: "grows E s s2" using g1 by (simp add: s2_def s1_def grows_def)
  have gt: "g_gate s2 = g_gate s" by (simp add: s2_def s1_def)
  obtain k' where c3: "checked_call ?I (g_gate s2) GATE_METHOD_INVOKE SECURINIT_BOOT_MARKER s2 =
      ((gate_effect SECURINIT_BOOT_MARKER s2)\<lparr>sk := k'\<rparr>, Some (if g_allowed s2 \<noteq> 0 then 1 else 0))"
    and g3: "grows E s2 ((gate_effect SECURINIT_BOOT_MARKER s2)\<lparr>sk := k'\<rparr>)"
    by (rule checked_gate [OF assms(1) grows_wired [OF g2 assms(2)]])
  have s': "s' = (gate_effect SECURINIT_BOOT_MARKER s2)\<lparr>sk := k'\<rparr>"
    using assms(5,6) c1 c2 c3 gt by (simp add: gate_rounds_def s1_def [symmetric] s2_def)
  show "grows E s s'" using g2 g3 grows_trans s' by blast
  show "g_allowed s' = 1" "reports s' = reports s @ [flat_msg [SECURINIT_BOOT_MARKER]]" "g_wrapped s' = g_wrapped s"
    using assms(5) by (simp_all add: s' s2_def s1_def gate_effect_def)
qed

lemma checked_wrapped_calm:
  assumes "stage_laws E" and "probe_law E" and "wired E s" and "s_object E (sk s) h = Some OWrapped"
    and "checked_call (stage_invoke E (Suc (Suc (Suc (Suc n))))) h m w s = (s', r)"
  shows "calm E s s'"
  using wrapped_call_calm [OF assms(1-4), of n m "capnp_build_flat 24 [w] 1" 24] assms(5)
  by (auto simp: checked_call_def split: prod.splits)

lemma guest_rounds_state:
  assumes "stage_laws E" and "probe_law E" and "wired E s" and "g_wrapped s = 0"
    and "s_object E (sk s) admin = Some OAdmin" "known E (sk s) admin"
    and "s_object E (sk s) fac = Some OWrapperFactory"
    and "guest_rounds E (stage_invoke E (Suc (Suc (Suc (Suc n))))) admin fac s = (s', True)"
  shows "grows E s s'" and "g_allowed s' = 0"
proof -
  let ?I = "stage_invoke E (Suc (Suc (Suc (Suc n))))"
  obtain s1 w where c1: "checked_call ?I fac WRAPPER_FACTORY_METHOD_CREATE 0 s = (s1, Some w)" and s1: "calm E s s1"
    and w: "w \<noteq> 0 \<Longrightarrow> s_object E (sk s1) w = Some OWrapped \<and> known E (sk s1) w"
    by (rule factory_call [OF assms(1,7,4), where n = "Suc (Suc (Suc n))"]) blast
  have w0: "w \<noteq> 0" using assms(8) c1 by (auto simp: guest_rounds_def)
  obtain s2 r2 where c2: "checked_call ?I w WRAPPED_OBJECT_METHOD_RUN (user_marker (s_arch E)) s1 = (s2, r2)" by fastforce
  have s2: "calm E s1 s2"
    using checked_wrapped_calm [OF assms(1,2) calm_wired [OF s1 assms(3)] _ c2] w w0 by simp
  define s3 where "s3 = s2\<lparr>g_allowed := 0\<rparr>"
  have g2: "grows E s s2" using s1 s2 grows_trans by (auto simp: calm_def)
  then have g3: "grows E s s3" by (simp add: s3_def grows_def)
  have "s_object E (sk s2) admin = Some OAdmin" using g2 assms(5,6) by (simp add: grows_def)
  then have c3: "checked_call ?I admin ADMIN_METHOD_SET_ALLOWED 0 s2 = (s3, Some 1)"
    using checked_admin [OF assms(1), of s2 admin "Suc (Suc (Suc n))" 0] by (simp add: s3_def)
  obtain s4 r4 where c4: "checked_call ?I w WRAPPED_OBJECT_METHOD_RUN (user_marker (s_arch E)) s3 = (s4, r4)" by fastforce
  have "s_object E (sk s3) w = Some OWrapped" using s2 w w0 by (simp add: s3_def calm_def grows_def)
  then have s4: "calm E s3 s4" using checked_wrapped_calm [OF assms(1,2) grows_wired [OF g3 assms(3)] _ c4] by simp
  have "s' = s4" using assms(8) c1 c2 c3 c4 w0 by (auto simp: guest_rounds_def split: if_splits)
  then show "grows E s s'" "g_allowed s' = 0" using g3 s4 grows_trans by (auto simp: calm_def s3_def)
qed

text \<open>The sink and the router are objects of others, and handed out.\<close>

definition foreign :: "'k stage_env \<Rightarrow> 'k stage \<Rightarrow> u64 \<Rightarrow> bool" where
  "foreign E s h \<longleftrightarrow> s_object E (sk s) h = None \<and> known E (sk s) h"

text \<open>The four objects of the stage have been created.\<close>

definition ready :: "'k stage_env \<Rightarrow> securinit_boot_info \<Rightarrow> 'k stage \<Rightarrow> u64 \<Rightarrow> u64 \<Rightarrow> u64 \<Rightarrow> 'k stage \<Rightarrow> bool" where
  "ready E info s gate admin fac s' \<longleftrightarrow> wired E s' \<and> g_gate s' = gate \<and> g_allowed s' = 0 \<and> g_wrapped s' = 0 \<and> reports s' = reports s \<and>
    s_object E (sk s') admin = Some OAdmin \<and> known E (sk s') admin \<and>
    s_object E (sk s') fac = Some OWrapperFactory \<and> known E (sk s') fac"

lemma created_ready:
  assumes "stage_laws E" and "foreign E s (status_sink info)" and "foreign E s (exception_router info)"
    and c1: "create_stage_object E OStatus (stage_reset info s) = (s1, st)"
    and c2: "create_stage_object E OGate (s1\<lparr>g_status := st\<rparr>) = (s2, gt)"
    and c3: "create_stage_object E OAdmin s2 = (s3, ad)" and c4: "create_stage_object E OWrapperFactory s3 = (s4, fac)"
    and nz: "st \<noteq> 0" "gt \<noteq> 0" "ad \<noteq> 0" "fac \<noteq> 0"
  shows "ready E info s gt ad fac (s4\<lparr>g_gate := gt\<rparr>)"
proof -
  note S1 = create_step [OF assms(1) c1] and S2 = create_step [OF assms(1) c2] and S3 = create_step [OF assms(1) c3]
    and S4 = create_step [OF assms(1) c4]
  obtain k1 k2 k3 k4 where k: "s1 = (stage_reset info s)\<lparr>sk := k1\<rparr>" "s2 = s1\<lparr>g_status := st, sk := k2\<rparr>" "s3 = s2\<lparr>sk := k3\<rparr>" "s4 = s3\<lparr>sk := k4\<rparr>"
    using S1(1) S2(1) S3(1) S4(1) by auto
  have keep: "known E (sk s) h \<Longrightarrow> known E k1 h \<and> s_object E k1 h = s_object E (sk s) h"
    "known E k1 h \<Longrightarrow> known E k2 h \<and> s_object E k2 h = s_object E k1 h"
    "known E k2 h \<Longrightarrow> known E k3 h \<and> s_object E k3 h = s_object E k2 h"
    "known E k3 h \<Longrightarrow> known E k4 h \<and> s_object E k4 h = s_object E k3 h" for h
    using S1(2) S2(2) S3(2) S4(2) k by (simp_all add: calm_def grows_def stage_reset_def)
  have obj: "s_object E k1 st = Some OStatus \<and> known E k1 st" "s_object E k2 gt = Some OGate \<and> known E k2 gt"
    "s_object E k3 ad = Some OAdmin \<and> known E k3 ad" "s_object E k4 fac = Some OWrapperFactory \<and> known E k4 fac"
    using S1(3) S2(3) S3(3) S4(3) k nz by simp_all
  show ?thesis
    using assms(2,3) keep obj by (simp add: ready_def wired_def stage_reset_def foreign_def k)
qed

lemma securinit_main_state:
  assumes "stage_laws E" and "probe_law E" and "foreign E s (status_sink info)" and "foreign E s (exception_router info)"
    and "securinit_main E (Suc (Suc (Suc (Suc n)))) info s = (s', gate)" and "gate \<noteq> 0"
  shows "wired E s' \<and> g_gate s' = gate \<and> g_allowed s' = (if exception_router info = 0 then 1 else 0) \<and>
    (exception_router info = 0 \<longrightarrow> reports s' = reports s @ [flat_msg [SECURINIT_BOOT_MARKER]])"
proof -
  let ?I = "stage_invoke E (Suc (Suc (Suc (Suc n))))"
  obtain s1 st where c1: "create_stage_object E OStatus (stage_reset info s) = (s1, st)" by fastforce
  obtain s2 gt where c2: "create_stage_object E OGate (s1\<lparr>g_status := st\<rparr>) = (s2, gt)" by fastforce
  obtain s3 ad where c3: "create_stage_object E OAdmin s2 = (s3, ad)" by fastforce
  obtain s4 fac where c4: "create_stage_object E OWrapperFactory s3 = (s4, fac)" by fastforce
  obtain s5 ok5 where c5: "gate_rounds ?I gt ad (s4\<lparr>g_gate := gt\<rparr>) = (s5, ok5)" by fastforce
  obtain s6 ok6 where c6: "guest_rounds E ?I ad fac s5 = (s6, ok6)" by fastforce
  note D = assms(5) [unfolded securinit_main_def, simplified c1 c2 c3 c4 c5 c6 prod.case]
  have nz: "st \<noteq> 0" "gt \<noteq> 0" "ad \<noteq> 0" "fac \<noteq> 0" and ok: "ok5"
    and res: "if exception_router info = 0 then s' = s5 \<and> gate = gt else s' = s6 \<and> gate = gt \<and> ok6"
    using D assms(6) by (auto split: if_splits bool.splits)
  note R = created_ready [OF assms(1,3,4) c1 c2 c3 c4 nz, unfolded ready_def]
  have G5: "grows E (s4\<lparr>g_gate := gt\<rparr>) s5" "g_allowed s5 = 1" "reports s5 = reports s @ [flat_msg [SECURINIT_BOOT_MARKER]]" "g_wrapped s5 = 0"
    using gate_rounds_state [OF assms(1), of "s4\<lparr>g_gate := gt\<rparr>" ad "Suc n" s5] R c5 ok by simp_all
  have w5: "wired E s5" and g5: "g_gate s5 = gt" using grows_wired [OF G5(1)] G5(1) R by (simp_all add: grows_def)
  have o5: "s_object E (sk s5) ad = Some OAdmin" "known E (sk s5) ad" "s_object E (sk s5) fac = Some OWrapperFactory"
    using G5(1) R by (simp_all add: grows_def)
  show ?thesis
  proof (cases "exception_router info = 0")
    case True
    then show ?thesis using res w5 g5 G5 by simp
  next
    case False
    then have "grows E s5 s6" "g_allowed s6 = 0"
      using guest_rounds_state [OF assms(1,2) w5 G5(4) o5, of n s6] c6 res by simp_all
    then show ?thesis using False res grows_wired [OF _ w5] g5 by (simp add: grows_def)
  qed
qed

lemma closed_policy:
  "list_all (\<lambda>c. fst c = gate) cs \<Longrightarrow> s_object E k gate = Some OGate \<Longrightarrow> \<exists>d. fold (call_policy E k) cs (False, denied, f, log) = (False, d, f, log)"
  by (induction cs arbitrary: denied) (auto simp: call_policy_def)

lemma three_more: "3 \<le> n \<Longrightarrow> \<exists>k. n = Suc (Suc (Suc k))"
  by presburger

subsection \<open>A small kernel\<close>

text \<open>Handles below 10 belong to others, 10 to 15 can be given out.  The guest makes one call of the gate.\<close>

definition demo_env :: "(u64 \<times> stage_obj) list stage_env" where
  "demo_env = \<lparr>s_arch = X86_64,
     s_create = (\<lambda>k ob. case find (\<lambda>h. map_of k h = None) [10, 11, 12, 13, 14, 15] of
        None \<Rightarrow> (k, 0) | Some h \<Rightarrow> ((h, ob) # k, h)),
     s_object = map_of,
     s_issued = (\<lambda>k h. h < 10 \<or> map_of k h \<noteq> None),
     s_other = (\<lambda>k h m msg cap. (k, True, [])),
     s_request_ok = (\<lambda>ob m msg. capnp_read_flat msg \<noteq> []),
     s_result_ok = (\<lambda>ob m resp. True),
     s_probe = (\<lambda>inv v s. case inv s (g_gate s) GATE_METHOD_INVOKE (flat_msg [v]) 24 of
        (s', ok, resp) \<Rightarrow> (s', Some (capnp_read_flat resp ! 0)))\<rparr>"

definition demo_boot :: securinit_boot_info where
  "demo_boot = \<lparr>factory = 1, status_sink = 2, exception_router = 3, exception_router_bind_method = 0,
     user_region_base = 0, user_region_size = 0, ttbr0_root_phys = 0, x86_pml4_phys = 0\<rparr>"

definition demo_stage :: "(u64 \<times> stage_obj) list stage" where
  "demo_stage = \<lparr>sk = [], g_sink = 0, g_status = 0, g_gate = 0, g_wrapped = 0, g_boot = demo_boot, g_allowed = 0,
     g_denied = 0, g_forwarded = 0, g_probe_failures = 0, reports = []\<rparr>"

lemma demo_env_laws: "stage_laws demo_env"
proof -
  have f: "map_of k h = None \<and> \<not> h < 10 \<and> h \<noteq> 0" if "find (\<lambda>h. map_of k h = None) [10, 11, 12, 13, 14, 15] = Some h"
    for k :: "(u64 \<times> stage_obj) list" and h
    using that by (auto simp del: not_Some_eq split: if_splits)
  have r: "capnp_read_flat (flat_msg [w]) \<noteq> []" for w using capnp_read_flat_msg [of "[w]"] by simp
  have "stage_create_law demo_env"
    unfolding stage_create_law_def
  proof (intro allI impI)
    fix k ob k' h
    assume c: "s_create demo_env k ob = (k', h)"
    show "if h = 0 then s_object demo_env k' = s_object demo_env k \<and> s_issued demo_env k' = s_issued demo_env k
      else \<not> s_issued demo_env k h \<and> s_object demo_env k h = None \<and> s_object demo_env k' = (s_object demo_env k)(h \<mapsto> ob) \<and>
        s_issued demo_env k' = (s_issued demo_env k)(h := True)"
    proof (cases "find (\<lambda>h. map_of k h = None) [10, 11, 12, 13, 14, 15]")
      case None
      then show ?thesis using c by (simp add: demo_env_def)
    next
      case (Some h')
      then show ?thesis using c f [OF Some] by (auto simp: demo_env_def fun_eq_iff simp del: find.simps)
    qed
  qed
  then show ?thesis using r by (simp add: stage_laws_def stage_other_law_def stage_message_law_def demo_env_def)
qed

lemma demo_env_probe: "probe_law demo_env"
proof -
  have "fst (s_probe demo_env inv v s) = fst (inv s (g_gate s) GATE_METHOD_INVOKE (flat_msg [v]) 24)" for inv v s
    by (simp add: demo_env_def split: prod.splits)
  then show ?thesis by (simp only: probe_law_def) (blast intro: guest_effect.effect_gate)
qed

definition demo_booted :: "(u64 \<times> stage_obj) list stage" where
  "demo_booted = fst (securinit_main demo_env 4 demo_boot demo_stage)"

lemma demo_boot_run:
  "snd (securinit_main demo_env 4 demo_boot demo_stage) = 11
   \<and> sk demo_booted = [(14, OWrapped), (13, OWrapperFactory), (12, OAdmin), (11, OGate), (10, OStatus)]
   \<and> g_denied demo_booted = 2 \<and> g_forwarded demo_booted = 2"
proof -
  have "let p = securinit_main demo_env 4 demo_boot demo_stage in snd p = 11
      \<and> sk (fst p) = [(14, OWrapped), (13, OWrapperFactory), (12, OAdmin), (11, OGate), (10, OStatus)]
      \<and> g_denied (fst p) = 2 \<and> g_forwarded (fst p) = 2"
    by code_simp
  then show ?thesis by (simp only: demo_booted_def Let_def)
qed

lemma demo_main: "securinit_main demo_env 4 demo_boot demo_stage = (demo_booted, 11)"
  using demo_boot_run by (simp only: demo_booted_def prod_eq_iff fst_conv snd_conv simp_thms)

lemmas demo_booted_sk = demo_boot_run [THEN conjunct2]

lemma demo_foreign: "foreign demo_env demo_stage 2" "foreign demo_env demo_stage 3"
  by (simp_all add: foreign_def known_def demo_env_def demo_stage_def)

subsection \<open>Properties\<close>

text \<open>
  C8: The gate and the admin object implement the policy.  Whatever sequence of calls is made on their handles, with
  whatever messages, the permission, both counters and the messages that have reached the sink are those of the
  policy: a message refused by the kernel changes nothing, an admin call sets the permission, a
  gate call hands its word to the sink and counts it exactly when the permission is set.
\<close>

theorem gate_follows_policy:
  assumes "stage_laws E" and "wired E s" and "list_all (policy_handle E s \<circ> fst) cs" and "3 \<le> n"
  shows "policy_of (fold (make_call E n) cs s) = fold (call_policy E (sk s)) cs (policy_of s)"
proof -
  obtain k where "n = Suc (Suc (Suc k))" using three_more [OF assms(4)] by blast
  then show ?thesis using calls_follow_policy [OF assms(1-3), of k] by simp
qed

lemma demo_wired: "wired demo_env demo_booted" "g_allowed demo_booted = 0" "g_gate demo_booted = 11"
proof -
  have "Suc (Suc (Suc (Suc 0))) = 4" by simp
  then have "securinit_main demo_env (Suc (Suc (Suc (Suc 0)))) demo_boot demo_stage = (demo_booted, 11)"
    using demo_main by presburger
  from securinit_main_state [OF demo_env_laws demo_env_probe _ _ this] demo_foreign
  show "wired demo_env demo_booted" "g_allowed demo_booted = 0" "g_gate demo_booted = 11"
    by (simp_all add: demo_boot_def)
qed

lemma flat_word [simp]: "capnp_read_flat (capnp_build_flat 24 [w] 1) = [w]"
  using capnp_read_flat_msg [of "[w]"] by simp

theorem gate_follows_policy_witness:
  "policy_of (fold (make_call demo_env 3) [(11, 0, flat_msg [7], 24), (12, 0, flat_msg [1], 24), (11, 0, flat_msg [8], 24)] demo_booted)
   = (True, 3, 3, reports demo_booted @ [flat_msg [8]])"
proof -
  have "list_all (policy_handle demo_env demo_booted \<circ> fst)
      [(11, 0, flat_msg [7], 24), (12, 0, flat_msg [1], 24), (11, 0, flat_msg [8], 24)]"
    by (simp add: policy_handle_def known_def demo_env_def demo_booted_sk)
  from gate_follows_policy [OF demo_env_laws demo_wired(1) this, of 3] show ?thesis
    by (simp add: call_policy_def demo_env_def demo_booted_sk policy_of_def demo_wired GATE_METHOD_GET_STATS_def)
qed



end
