(* ===== verification/X86_Wrapper.thy ===== *)
theory X86_Wrapper
  imports User_Ipc X86_Mmu
begin

text \<open>
  The ring-3 wrapper of \<open>securinit/x86_wrapper.c\<close>: the page grant, the traps of the guest
  and the isolation probe.  Memory is physical memory; the page tables, the guest's
  region and the wrapper's own table \<open>g_user_pt\<close> live in it, the latter at the link address
  \<open>pt\<close>.  The rest of the machine is the state \<open>'k\<close> on which the kernel's invocation acts.
  Running the guest is an argument, since the processor does it; what a processor can do
  for a guest in ring 3 is the relation \<open>guest_step\<close>, with the page walk of the
  architecture deciding which stores are possible.
\<close>

subsection \<open>State\<close>

definition PAGE_SIZE :: u64 where "PAGE_SIZE = 4096"
definition REGION_SIZE :: u64 where "REGION_SIZE = 0x200000"

lemmas x86_bits = PAGE_SIZE_def REGION_SIZE_def entry_bits

record 'k x86_state =
  x86_mem :: memory
  x86_kernel :: 'k
  g_user_base :: u64
  g_user_size :: u64
  g_forbidden :: u64
  g_denied_access :: u64
  g_ipc_denied :: u64
  g_ipc_forwarded :: u64
  g_exits :: u64
  g_resume_rsp :: u64
  g_resume_pc :: u64
  g_saved_flags :: u64
  g_granted_gate :: u64

definition securinit_x86_save_resume :: "u64 \<Rightarrow> u64 \<Rightarrow> u64 \<Rightarrow> 'k x86_state \<Rightarrow> 'k x86_state" where
  "securinit_x86_save_resume flags rsp pc st = st\<lparr>g_resume_rsp := rsp, g_resume_pc := pc, g_saved_flags := flags\<rparr>"

subsection \<open>Traps of the guest\<close>

text \<open>The page fault hook, on the frame the processor pushed: whether it handled the fault.\<close>

definition securinit_x86_fault_hook ::
  "u64 list \<Rightarrow> u64 \<Rightarrow> u64 \<Rightarrow> 'k x86_state \<Rightarrow> 'k x86_state \<times> u64 list \<times> bool" where
  "securinit_x86_fault_hook frame error cr2 st =
    (if frame ! 1 AND 3 \<noteq> 3 \<or> error AND 4 = 0 \<or> error AND 1 = 0 \<or> cr2 \<noteq> g_forbidden st \<or>
        frame ! 0 \<noteq> g_user_base st + PAGE_SIZE then (st, frame, False)
     else (st\<lparr>g_denied_access := g_denied_access st + 1\<rparr>, frame[0 := frame ! 0 + 3], True))"

text \<open>\<open>INT 0x80\<close> and \<open>INT3\<close>: the frame holds the saved registers, then RIP, CS, RFLAGS, RSP and
  SS; the result tells whether the guest is over.\<close>

definition securinit_x86_dispatch ::
  "'k wrapper_invoke_fn_t \<Rightarrow> u64 list \<Rightarrow> u64 \<Rightarrow> 'k x86_state \<Rightarrow> 'k x86_state \<times> u64 list \<times> bool" where
  "securinit_x86_dispatch g_priv_invoke frame vector st =
    (if frame ! 16 AND 3 \<noteq> 3 \<or> frame ! 15 < g_user_base st \<or> frame ! 15 \<ge> g_user_base st + g_user_size st
       then (st, frame, False)
     else if vector = 3 then (st\<lparr>g_exits := g_exits st + 1\<rparr>, frame, True)
     else if vector = 0x80 then
       (case wrapper_dispatch_guest_call (g_user_base st) (g_user_size st) (g_granted_gate st) g_priv_invoke
               (frame ! 8) (x86_mem st) (x86_kernel st) of
         (m, k, status) \<Rightarrow>
           let st1 = st\<lparr>x86_mem := m, x86_kernel := k\<rparr>;
               st2 = (if status = WRAPPER_IPC_OK then st1\<lparr>g_ipc_forwarded := g_ipc_forwarded st1 + 1\<rparr>
                      else st1\<lparr>g_ipc_denied := g_ipc_denied st1 + 1\<rparr>)
           in (st2, frame[14 := status], False))
     else (st, frame, False))"

subsection \<open>The isolation probe\<close>

text \<open>The loop that fills the table of the region, and gives up at another user mapping.\<close>

fun fill_user_pt :: "u64 \<Rightarrow> nat \<Rightarrow> u64 \<Rightarrow> u64 \<Rightarrow> nat list \<Rightarrow> memory \<Rightarrow> memory \<times> bool" where
  "fill_user_pt pd index base pt [] m = (m, True)"
| "fill_user_pt pd index base pt (i # is) m =
    (if i \<noteq> index \<and> entry_at m pd i AND PAGE_USER \<noteq> 0 then (m, False)
     else fill_user_pt pd index base pt is
       (set_entry m pt i ((base + of_nat i * PAGE_SIZE) OR PAGE_PRESENT OR PAGE_WRITE OR PAGE_USER)))"

definition probe_call :: "u64 \<Rightarrow> u64 \<Rightarrow> u64 \<Rightarrow> wrapper_ipc_call_t" where
  "probe_call endpoint base user_message_len =
    \<lparr>local_endpoint = endpoint, version = WRAPPER_IPC_VERSION, method_id = GATE_METHOD_INVOKE,
     request_ptr = base + 0x3000, request_len = user_message_len, response_ptr = base + 0x3100,
     response_capacity = 24, response_len = 0\<rparr>"

text \<open>What the guest finds in its region: its code, the message, the two descriptors and the
  two words for the statuses.\<close>

definition place_guest :: "u64 \<Rightarrow> bytes \<Rightarrow> u64 \<Rightarrow> memory \<Rightarrow> memory" where
  "place_guest base code value m =
    (let m = write_bytes m (base + PAGE_SIZE) code;
         msg = capnp_build_flat 24 [value] 1;
         m = write_bytes m (base + 0x3000) msg;
         len = of_nat (length msg);
         m = write_bytes m (base + 0x2000) (call_bytes (probe_call (WRAPPER_GATE_ENDPOINT + 1) base len));
         m = write_bytes m (base + 0x2080) (call_bytes (probe_call WRAPPER_GATE_ENDPOINT base len));
         m = store64 m (base + 0x4000) (- 1)
     in store64 m (base + 0x4008) (- 1))"

text \<open>Opening and closing the grant: the three entries on the way to the region.\<close>

definition set_path :: "u64 \<Rightarrow> u64 \<Rightarrow> u64 \<Rightarrow> nat \<Rightarrow> u64 \<Rightarrow> u64 \<Rightarrow> u64 \<Rightarrow> memory \<Rightarrow> memory" where
  "set_path pml4 pdpt pd index e4 e3 e2 m = set_entry (set_entry (set_entry m pml4 0 e4) pdpt 0 e3) pd index e2"

definition reset_path :: "u64 \<Rightarrow> u64 \<Rightarrow> u64 \<Rightarrow> nat \<Rightarrow> u64 \<Rightarrow> u64 \<Rightarrow> u64 \<Rightarrow> memory \<Rightarrow> memory" where
  "reset_path pml4 pdpt pd index e4 e3 e2 m = set_entry (set_entry (set_entry m pd index e2) pdpt 0 e3) pml4 0 e4"

definition first_word :: "bytes \<Rightarrow> u64" where
  "first_word msg = capnp_read_flat msg ! 0"

text \<open>The verdict over the run, from the counters and what the guest left in its region.\<close>

definition probe_valid :: "u64 \<Rightarrow> u64 \<Rightarrow> 'k x86_state \<Rightarrow> bool" where
  "probe_valid base result st \<longleftrightarrow>
    result = 0 \<and> g_denied_access st = 1 \<and> g_exits st = 1 \<and> g_ipc_denied st = 1 \<and> g_ipc_forwarded st = 1 \<and>
    load64 (x86_mem st) (base + 0x4000) = WRAPPER_IPC_BAD_ENDPOINT \<and>
    load64 (x86_mem st) (base + 0x4008) = WRAPPER_IPC_OK \<and>
    load64 (x86_mem st) (base + 0x2080 + 48) = 24 \<and>
    first_word (read_bytes (x86_mem st) (base + 0x3100) 24) \<le> 1"

definition securinit_x86_isolation_probe ::
  "'k wrapper_invoke_fn_t \<Rightarrow>
   (u64 \<Rightarrow> u64 \<Rightarrow> u64 \<Rightarrow> u64 \<Rightarrow> u64 \<Rightarrow> u64 \<Rightarrow> 'k x86_state \<Rightarrow> 'k x86_state \<times> u64) \<Rightarrow>
   u64 \<Rightarrow> u64 list \<Rightarrow> bytes \<Rightarrow> securinit_boot_info \<Rightarrow> u64 \<Rightarrow> u64 \<Rightarrow> u64 \<Rightarrow> 'k x86_state \<Rightarrow>
   'k x86_state \<times> u64 option" where
  "securinit_x86_isolation_probe kernel_invoke run_user pt bind code info privileged_addr gate value st =
    (let base = user_region_base info in
     if x86_pml4_phys info = 0 \<or> exception_router info = 0 \<or> user_region_size info \<noteq> REGION_SIZE \<or>
        base AND (REGION_SIZE - 1) \<noteq> 0 \<or> base + REGION_SIZE > 0x4000000 \<or>
        (privileged_addr \<ge> base \<and> privileged_addr < base + REGION_SIZE) then (st, None)
     else let m = x86_mem st; pml4 = x86_pml4_phys info; old_pml4 = entry_at m pml4 0 in
       if old_pml4 AND PAGE_PRESENT = 0 then (st, None)
       else let pdpt = old_pml4 AND ADDR_MASK; old_pdpt = entry_at m pdpt 0 in
         if old_pdpt AND PAGE_PRESENT = 0 then (st, None)
         else let pd = old_pdpt AND ADDR_MASK; index = unat (drop_bit 21 base AND 511);
                  old_pde = entry_at m pd index in
           if old_pde AND PAGE_PRESENT = 0 \<or> old_pde AND PAGE_HUGE = 0 then (st, None)
           else (case fill_user_pt pd index base pt [0..<512] m of (m1, filled) \<Rightarrow>
             if \<not> filled \<or> code = [] \<or> length code > 4096 then (st\<lparr>x86_mem := m1\<rparr>, None)
             else
               let st1 = st\<lparr>x86_mem := set_path pml4 pdpt pd index (old_pml4 OR PAGE_USER) (old_pdpt OR PAGE_USER)
                           (pt OR PAGE_PRESENT OR PAGE_WRITE OR PAGE_USER) (place_guest base code value m1),
                         g_user_base := base, g_user_size := REGION_SIZE, g_forbidden := privileged_addr,
                         g_granted_gate := gate, g_denied_access := 0, g_ipc_denied := 0,
                         g_ipc_forwarded := 0, g_exits := 0\<rparr>
               in (case kernel_invoke (x86_kernel st1) (exception_router info) (exception_router_bind_method info)
                          (capnp_build_flat 48 bind 4) 24 of (k, ok, response) \<Rightarrow>
                 let st2 = st1\<lparr>x86_kernel := k\<rparr> in
                 if \<not> ok \<or> length response < 24 \<or> first_word response \<noteq> 1 then
                   (st2\<lparr>x86_mem := reset_path pml4 pdpt pd index old_pml4 old_pdpt old_pde (x86_mem st2)\<rparr>, None)
                 else (case run_user (base + PAGE_SIZE) (base + REGION_SIZE - 16) privileged_addr (base + 0x4000)
                              (base + 0x2000) (base + 0x2080) st2 of (st3, result) \<Rightarrow>
                   let st4 = st3\<lparr>x86_mem := reset_path pml4 pdpt pd index old_pml4 old_pdpt old_pde (x86_mem st3)\<rparr>
                   in (st4, if probe_valid base result st4
                            then Some (first_word (read_bytes (x86_mem st4) (base + 0x3100) 24)) else None)))))"

subsection \<open>What the processor can do for the guest\<close>

definition x86_user_walk :: "memory \<Rightarrow> u64 \<Rightarrow> u64 \<Rightarrow> (u64 \<times> bool) option" where
  "x86_user_walk = x86_walk user_entry"

inductive guest_step :: "'k wrapper_invoke_fn_t \<Rightarrow> u64 \<Rightarrow> 'k x86_state \<Rightarrow> 'k x86_state \<Rightarrow> bool"
  for invoke root where
  guest_store: "x86_user_walk (x86_mem st) root va = Some (pa, True) \<Longrightarrow>
    guest_step invoke root st (st\<lparr>x86_mem := (x86_mem st)(pa := b)\<rparr>)"
| guest_fault: "securinit_x86_fault_hook frame error cr2 st = (st', frame', handled) \<Longrightarrow> guest_step invoke root st st'"
| guest_trap: "securinit_x86_dispatch invoke frame vector st = (st', frame', over) \<Longrightarrow> guest_step invoke root st st'"
| guest_resume: "guest_step invoke root st (securinit_x86_save_resume flags rsp pc st)"

text \<open>
  What the wrapper relies on and does not check: the four tables and the region have no
  address in common, the region lies below the limit, the address of the table fits an
  entry, the first entry of the second level is a table, and no other entry of the two
  upper tables is open to users.
\<close>

definition x86_tables_ok :: "securinit_boot_info \<Rightarrow> u64 \<Rightarrow> memory \<Rightarrow> bool" where
  "x86_tables_ok info pt m \<longleftrightarrow>
    (let base = user_region_base info; pml4 = x86_pml4_phys info; pdpt = entry_at m pml4 0 AND ADDR_MASK;
         pd = entry_at m pdpt 0 AND ADDR_MASK
     in base < 0x4000000 \<and> pt AND ADDR_MASK = pt \<and> entry_at m pdpt 0 AND PAGE_HUGE = 0 \<and>
        regions_apart pml4 0x1000 base REGION_SIZE \<and> regions_apart pdpt 0x1000 base REGION_SIZE \<and>
        regions_apart pd 0x1000 base REGION_SIZE \<and> regions_apart pt 0x1000 base REGION_SIZE \<and>
        regions_apart pml4 0x1000 pdpt 0x1000 \<and> regions_apart pml4 0x1000 pd 0x1000 \<and>
        regions_apart pml4 0x1000 pt 0x1000 \<and> regions_apart pdpt 0x1000 pd 0x1000 \<and>
        regions_apart pdpt 0x1000 pt 0x1000 \<and> regions_apart pd 0x1000 pt 0x1000 \<and>
        list_all (\<lambda>i. entry_at m pml4 i AND PAGE_USER = 0 \<and> entry_at m pdpt i AND PAGE_USER = 0) [1..<512])"

subsection \<open>The filled table\<close>

abbreviation user_page_entry :: "u64 \<Rightarrow> nat \<Rightarrow> u64" where
  "user_page_entry base i \<equiv> (base + of_nat i * PAGE_SIZE) OR PAGE_PRESENT OR PAGE_WRITE OR PAGE_USER"

lemma fill_same_outside:
  "\<forall>i \<in> set is. i < 512 \<Longrightarrow> same_outside pt 0x1000 m (fst (fill_user_pt pd index base pt is m))"
proof (induction "is" arbitrary: m)
  case (Cons i "is")
  then have "same_outside pt 0x1000 m (set_entry m pt i (user_page_entry base i))"
    by (simp add: set_entry_same_outside)
  with Cons show ?case by (auto intro: same_outside_trans)
qed simp

lemma fill_entries:
  assumes "fill_user_pt pd index base pt is m = (m', True)" "\<forall>i \<in> set is. i < 512" "distinct is"
    and "regions_apart pd 0x1000 pt 0x1000"
  shows "(\<forall>i \<in> set is. i \<noteq> index \<longrightarrow> entry_at m pd i AND PAGE_USER = 0)
    \<and> (\<forall>i \<in> set is. entry_at m' pt i = user_page_entry base i)
    \<and> (\<forall>j < 512. j \<notin> set is \<longrightarrow> entry_at m' pt j = entry_at m pt j)"
  using assms(1-3)
proof (induction "is" arbitrary: m)
  case (Cons i "is")
  let ?m = "set_entry m pt i (user_page_entry base i)"
  have i: "i < 512" using Cons.prems(2) by simp
  have run: "fill_user_pt pd index base pt is ?m = (m', True)" and u: "i \<noteq> index \<longrightarrow> entry_at m pd i AND PAGE_USER = 0"
    using Cons.prems(1) by (auto split: if_splits)
  have pd: "entry_at ?m pd k = entry_at m pd k" if "k < 512" for k
    using entry_at_same_outside [OF set_entry_same_outside [OF i] assms(4) that] .
  have ih: "(\<forall>i \<in> set is. i \<noteq> index \<longrightarrow> entry_at ?m pd i AND PAGE_USER = 0)
    \<and> (\<forall>i \<in> set is. entry_at m' pt i = user_page_entry base i)
    \<and> (\<forall>j < 512. j \<notin> set is \<longrightarrow> entry_at m' pt j = entry_at ?m pt j)"
    using Cons.IH [OF run] Cons.prems(2,3) by simp
  have "entry_at m' pt i = user_page_entry base i" using ih i Cons.prems(3) by simp
  moreover have "entry_at m' pt j = entry_at m pt j" if "j < 512" "j \<notin> set (i # is)" for j
    using ih that i by (simp add: entry_set_other)
  ultimately show ?case using ih u pd Cons.prems(2) by (auto simp: all_conj_distrib)
qed simp

subsection \<open>The open grant\<close>

text \<open>The tables while the guest runs.\<close>

definition granted :: "u64 \<Rightarrow> u64 \<Rightarrow> u64 \<Rightarrow> u64 \<Rightarrow> u64 \<Rightarrow> memory \<Rightarrow> bool" where
  "granted base pml4 pdpt pd pt m \<longleftrightarrow>
    entry_at m pml4 0 AND ADDR_MASK = pdpt \<and> entry_at m pdpt 0 AND ADDR_MASK = pd \<and>
    entry_at m pdpt 0 AND PAGE_HUGE = 0 \<and>
    entry_at m pd (table_index 21 base) = pt OR PAGE_PRESENT OR PAGE_WRITE OR PAGE_USER \<and>
    (\<forall>i < 512. i \<noteq> 0 \<longrightarrow> entry_at m pml4 i AND PAGE_USER = 0 \<and> entry_at m pdpt i AND PAGE_USER = 0) \<and>
    (\<forall>i < 512. i \<noteq> table_index 21 base \<longrightarrow> entry_at m pd i AND PAGE_USER = 0) \<and>
    (\<forall>i < 512. entry_at m pt i = user_page_entry base i)"

definition region_ok :: "u64 \<Rightarrow> bool" where
  "region_ok base \<longleftrightarrow> base < 0x4000000 \<and> base AND (REGION_SIZE - 1) = 0"

lemma region_bits:
  assumes "region_ok base"
  shows "n < 21 \<Longrightarrow> \<not> bit base n" "26 \<le> n \<Longrightarrow> \<not> bit base n"
proof -
  have "base AND mask 21 = 0" using assms by (simp add: region_ok_def REGION_SIZE_def mask_21)
  then show "\<not> bit base n" if "n < 21" using that by (metis bit_0_eq bit_and_iff bit_mask_iff bot_apply bot_bool_def
        possible_bit_word bit_imp_le_length)
  have "unat base < 2 ^ 26" using assms by (simp add: region_ok_def word_less_nat_alt)
  then show "\<not> bit base n" if "26 \<le> n" using that by (rule no_high_bit)
qed

text \<open>The addresses whose indices lead to the region.\<close>

lemma region_address:
  assumes "region_ok base" "canonical va" "table_index 39 va = 0" "table_index 30 va = 0"
    "table_index 21 va = table_index 21 base"
  shows "21 \<le> n \<Longrightarrow> bit va n = bit base n"
proof -
  assume n: "21 \<le> n"
  have z: "\<not> bit va (39 + k)" "\<not> bit va (30 + k)" if "k < 9" for k
    using table_index_eq [of 39 va 0 k] table_index_eq [of 30 va 0 k] assms(3,4) that by (simp_all add: table_index_0)
  show ?thesis
  proof (cases "n < 30")
    case True
    then show ?thesis using table_index_eq [OF assms(5), of "n - 21"] n by simp
  next
    case False
    have "\<not> bit va n"
    proof (cases "n < 47")
      case True
      then show ?thesis using z(1) [of "n - 39"] z(2) [of "n - 30"] False by (cases "n < 39") auto
    next
      case f: False
      then show ?thesis using canonical_bit [OF assms(2)] z(1) [of 8] by simp
    qed
    then show ?thesis using region_bits(2) [OF assms(1)] False by simp
  qed
qed

lemma entry_flags:
  assumes "x AND ADDR_MASK = x"
  shows "(x OR PAGE_PRESENT OR PAGE_WRITE OR PAGE_USER) AND ADDR_MASK = x"
    "(x OR PAGE_PRESENT OR PAGE_WRITE OR PAGE_USER) AND PAGE_HUGE = 0"
    "user_entry (x OR PAGE_PRESENT OR PAGE_WRITE OR PAGE_USER)"
proof -
  show "(x OR PAGE_PRESENT OR PAGE_WRITE OR PAGE_USER) AND ADDR_MASK = x"
    by (simp add: bit.conj_disj_distrib2 assms) (simp add: x86_bits)
  have "x AND PAGE_HUGE = x AND (ADDR_MASK AND PAGE_HUGE)" by (metis and.assoc assms)
  then show "(x OR PAGE_PRESENT OR PAGE_WRITE OR PAGE_USER) AND PAGE_HUGE = 0"
    by (simp add: bit.conj_disj_distrib2) (simp add: x86_bits)
  have "x AND PAGE_PRESENT = x AND (ADDR_MASK AND PAGE_PRESENT)" "x AND PAGE_USER = x AND (ADDR_MASK AND PAGE_USER)"
    by (metis and.assoc assms)+
  then show "user_entry (x OR PAGE_PRESENT OR PAGE_WRITE OR PAGE_USER)"
    by (simp add: user_entry_def bit.conj_disj_distrib2) (simp add: x86_bits)
qed

lemma page_address:
  assumes "region_ok base" "j < 512"
  shows "bit (base + of_nat j * PAGE_SIZE) n \<longleftrightarrow> bit base n \<or> (12 \<le> n \<and> bit j (n - 12) \<and> n < 64)"
    "(base + of_nat j * PAGE_SIZE) AND ADDR_MASK = base + of_nat j * PAGE_SIZE"
proof -
  have p: "of_nat j * PAGE_SIZE = push_bit 12 (of_nat j)" by (simp add: push_bit_eq_mult PAGE_SIZE_def)
  have "take_bit 9 j = j" using assms(2) by (simp add: take_bit_nat_eq_self)
  then have jb: "\<not> bit j k" if "9 \<le> k" for k using that by (metis bit_take_bit_iff not_less)
  have "base AND push_bit 12 (of_nat j) = 0"
  proof (rule bit_word_eqI)
    fix n
    show "bit (base AND push_bit 12 (of_nat j)) n = bit (0 :: u64) n"
      using region_bits(1) [OF assms(1), of n] jb [of "n - 12"]
      by (cases "n < 21") (auto simp: bit_simps)
  qed
  then have e: "base + of_nat j * PAGE_SIZE = base OR push_bit 12 (of_nat j)"
    unfolding p by (rule disjunctive_add_eq_or)
  show b: "bit (base + of_nat j * PAGE_SIZE) n \<longleftrightarrow> bit base n \<or> (12 \<le> n \<and> bit j (n - 12) \<and> n < 64)" for n
    unfolding e by (auto simp: bit_simps)
  show "(base + of_nat j * PAGE_SIZE) AND ADDR_MASK = base + of_nat j * PAGE_SIZE"
  proof (rule bit_word_eqI)
    fix n assume "n < LENGTH(64)"
    then show "bit ((base + of_nat j * PAGE_SIZE) AND ADDR_MASK) n = bit (base + of_nat j * PAGE_SIZE) n"
      using region_bits [OF assms(1), of n] jb [of "n - 12"]
      by (cases "n < 21"; cases "26 \<le> n") (auto simp: bit_and_iff bit_not_iff bit_mask_iff b ADDR_MASK_alt)
  qed
qed

lemma region_member:
  assumes "region_ok base" "\<And>n. 21 \<le> n \<Longrightarrow> bit va n = bit base n"
  shows "in_region base REGION_SIZE va"
proof -
  have z: "base AND take_bit 21 va = 0"
    using region_bits(1) [OF assms(1)] by (intro bit_word_eqI) (auto simp: bit_and_iff bit_take_bit_iff)
  have "va = base OR take_bit 21 va"
    by (rule bit_word_eqI, simp add: bit_or_iff bit_take_bit_iff) (metis region_bits(1) [OF assms(1)] assms(2) not_le)
  then have "va = base + take_bit 21 va" using disjunctive_add_eq_or [OF z] by simp
  then have "va - base = take_bit 21 va" by (metis add_diff_cancel_left')
  moreover have "unat (take_bit 21 va) < 0x200000"
    using take_bit_nat_less_exp [of 21 "unat va"] by (simp add: unsigned_take_bit_eq)
  ultimately show ?thesis by (simp add: in_region_def REGION_SIZE_def word_less_nat_alt)
qed

lemma region_member_bits:
  assumes "region_ok base" "in_region base REGION_SIZE va" "21 \<le> n"
  shows "bit va n = bit base n"
proof -
  let ?t = "va - base"
  have "unat ?t < 2 ^ 21" using assms(2) by (simp add: in_region_def REGION_SIZE_def word_less_nat_alt)
  then have t: "\<not> bit ?t k" if "21 \<le> k" for k using that by (rule no_high_bit)
  have "base AND ?t = 0"
    using region_bits(1) [OF assms(1)] t by (intro bit_word_eqI) (metis bit_0_eq bit_and_iff bot_apply bot_bool_def not_le)
  from disjunctive_add_eq_or [OF this] have "va = base OR ?t" by simp
  then show ?thesis using t [OF assms(3)] by (metis bit_or_iff)
qed

lemma page_of_address:
  assumes "region_ok base" "\<And>n. 21 \<le> n \<Longrightarrow> bit va n = bit base n"
  shows "(base + of_nat (table_index 12 va) * PAGE_SIZE) OR va AND 0xFFF = va"
proof (rule bit_word_eqI)
  fix n assume n: "n < LENGTH(64)"
  have j: "bit (table_index 12 va) k \<longleftrightarrow> k < 9 \<and> bit va (12 + k)" for k
    by (auto simp: table_index_def mask_9 bit_simps)
  have "n < 21 \<Longrightarrow> 12 \<le> n \<Longrightarrow> 12 + (n - 12) = n" by simp
  then show "bit ((base + of_nat (table_index 12 va) * PAGE_SIZE) OR va AND 0xFFF) n = bit va n"
    using n region_bits(1) [OF assms(1), of n] assms(2) [of n]
    by (cases "n < 21"; cases "n < 12")
      (auto simp: mask_12 bit_or_iff bit_and_iff bit_mask_iff page_address(1) [OF assms(1) table_index_less] j)
qed

lemma granted_walk:
  assumes g: "granted base pml4 pdpt pd pt m" and r: "region_ok base" and p: "pt AND ADDR_MASK = pt"
    and w: "x86_user_walk m pml4 va = Some (pa, wr)"
  shows "in_region base REGION_SIZE va \<and> pa = va"
proof -
  note G = g [unfolded granted_def]
  have c: "canonical va" and u4: "user_entry (entry_at m pml4 (table_index 39 va))"
    using w by (auto simp: x86_user_walk_def x86_walk_def Let_def split: if_splits)
  have i4: "table_index 39 va = 0"
    using u4 G table_index_less [of 39 va] unfolding user_entry_def by blast
  have u3: "user_entry (entry_at m pdpt (table_index 30 va))"
    using w i4 G by (auto simp: x86_user_walk_def x86_walk_def Let_def split: if_splits)
  have i3: "table_index 30 va = 0"
    using u3 G table_index_less [of 30 va] unfolding user_entry_def by blast
  have u2: "user_entry (entry_at m pd (table_index 21 va))"
    using w i4 i3 G by (auto simp: x86_user_walk_def x86_walk_def Let_def split: if_splits)
  have i2: "table_index 21 va = table_index 21 base"
    using u2 G table_index_less [of 21 va] unfolding user_entry_def by blast
  have e2: "entry_at m pd (table_index 21 va) = pt OR PAGE_PRESENT OR PAGE_WRITE OR PAGE_USER"
    using G i2 by simp
  have e1: "entry_at m pt (table_index 12 va) = user_page_entry base (table_index 12 va)" using G by simp
  have "pa = (base + of_nat (table_index 12 va) * PAGE_SIZE) OR va AND 0xFFF"
    using w u2 i4 i3 G e2 e1 entry_flags(1,2) [OF p] entry_flags(1) [OF page_address(2) [OF r table_index_less]]
    by (auto simp: x86_user_walk_def x86_walk_def Let_def split: if_splits)
  moreover note b = region_address [OF r c i4 i3 i2]
  ultimately show ?thesis using region_member [OF r b] page_of_address [OF r b] by simp
qed

subsection \<open>Runs of the guest\<close>

text \<open>The tables of a probe lie apart from the region, so the guest cannot change them.\<close>

definition tables_apart :: "u64 \<Rightarrow> u64 \<Rightarrow> u64 \<Rightarrow> u64 \<Rightarrow> u64 \<Rightarrow> bool" where
  "tables_apart base pml4 pdpt pd pt \<longleftrightarrow>
    regions_apart pml4 0x1000 base REGION_SIZE \<and> regions_apart pdpt 0x1000 base REGION_SIZE \<and>
    regions_apart pd 0x1000 base REGION_SIZE \<and> regions_apart pt 0x1000 base REGION_SIZE"

lemma granted_same_outside:
  assumes "same_outside base REGION_SIZE m m'" "tables_apart base pml4 pdpt pd pt" "granted base pml4 pdpt pd pt m"
  shows "granted base pml4 pdpt pd pt m'"
proof -
  have "entry_at m' t i = entry_at m t i" if "i < 512" "t \<in> {pml4, pdpt, pd, pt}" for t i
    using entry_at_same_outside [OF assms(1) _ that(1)] assms(2) that(2) by (auto simp: tables_apart_def)
  then show ?thesis using assms(3) by (simp add: granted_def)
qed

definition confined :: "u64 \<Rightarrow> u64 \<Rightarrow> 'k wrapper_invoke_fn_t \<Rightarrow> 'k x86_state \<Rightarrow> 'k x86_state \<Rightarrow> bool" where
  "confined base gate invoke st st' \<longleftrightarrow>
    same_outside base REGION_SIZE (x86_mem st) (x86_mem st') \<and>
    (gate_call invoke gate)\<^sup>*\<^sup>* (x86_kernel st) (x86_kernel st') \<and>
    g_user_base st' = base \<and> g_user_size st' = REGION_SIZE \<and> g_granted_gate st' = gate"

lemma dispatch_confined:
  assumes "securinit_x86_dispatch invoke frame vector st = (st', frame', over)"
    and "g_user_base st = base" "g_user_size st = REGION_SIZE" "g_granted_gate st = gate"
  shows "confined base gate invoke st st'"
proof -
  obtain m k status where c: "wrapper_dispatch_guest_call base REGION_SIZE gate invoke (frame ! 8) (x86_mem st) (x86_kernel st)
      = (m, k, status)" by (cases "wrapper_dispatch_guest_call base REGION_SIZE gate invoke (frame ! 8) (x86_mem st) (x86_kernel st)")
  have "(gate_call invoke gate)\<^sup>*\<^sup>* (x86_kernel st) k" using dispatch_gate_call [OF c] by auto
  then show ?thesis using assms c dispatch_same_outside [OF c]
    by (auto simp: securinit_x86_dispatch_def confined_def Let_def split: if_splits)
qed

lemma fault_confined:
  assumes "securinit_x86_fault_hook frame error cr2 st = (st', frame', handled)"
    and "g_user_base st = base" "g_user_size st = REGION_SIZE" "g_granted_gate st = gate"
  shows "confined base gate invoke st st'"
  using assms by (auto simp: securinit_x86_fault_hook_def confined_def split: if_splits)

lemma store_confined:
  assumes "x86_user_walk (x86_mem st) pml4 va = Some (pa, True)" "granted base pml4 pdpt pd pt (x86_mem st)"
    and "region_ok base" "pt AND ADDR_MASK = pt"
    and "g_user_base st = base" "g_user_size st = REGION_SIZE" "g_granted_gate st = gate"
  shows "confined base gate invoke st (st\<lparr>x86_mem := (x86_mem st)(pa := b)\<rparr>)"
  using granted_walk [OF assms(2-4,1)] assms(5-7) by (auto simp: confined_def same_outside_def)

lemma guest_step_confined:
  assumes "guest_step invoke pml4 st st'" "granted base pml4 pdpt pd pt (x86_mem st)"
    and "region_ok base" "pt AND ADDR_MASK = pt"
    and "g_user_base st = base" "g_user_size st = REGION_SIZE" "g_granted_gate st = gate"
  shows "confined base gate invoke st st'"
  using assms(1)
proof cases
  case guest_store
  then show ?thesis using store_confined [OF _ assms(2-7)] by blast
next
  case guest_fault
  then show ?thesis by (rule fault_confined) (fact assms)+
next
  case guest_trap
  then show ?thesis by (rule dispatch_confined) (fact assms)+
next
  case guest_resume
  then show ?thesis using assms by (simp add: securinit_x86_save_resume_def confined_def)
qed

lemma guest_run_confined:
  assumes "(guest_step invoke pml4)\<^sup>*\<^sup>* st st'" "granted base pml4 pdpt pd pt (x86_mem st)"
    and "region_ok base" "pt AND ADDR_MASK = pt" "tables_apart base pml4 pdpt pd pt"
    and "g_user_base st = base" "g_user_size st = REGION_SIZE" "g_granted_gate st = gate"
  shows "confined base gate invoke st st'"
  using assms(1)
proof (induction rule: rtranclp_induct)
  case base
  then show ?case using assms by (simp add: confined_def)
next
  case (step s s')
  note C = step.IH [unfolded confined_def]
  have "granted base pml4 pdpt pd pt (x86_mem s)" using granted_same_outside C assms(2,5) by blast
  from guest_step_confined [OF step.hyps(2) this assms(3,4)] C
  have "confined base gate invoke s s'" by blast
  with C show ?case unfolding confined_def by (meson rtranclp_trans same_outside_trans)
qed

subsection \<open>Opening and closing the grant\<close>

lemma place_guest_same_outside:
  assumes "length code \<le> 4096"
  shows "same_outside base REGION_SIZE m (place_guest base code value m)"
proof -
  have sp: "spans base REGION_SIZE (base + c) n" if "unat c + n \<le> 0x200000" for c n
    using that by (simp add: spans_def REGION_SIZE_def)
  have len: "length (capnp_build_flat 24 [value] 1) = 24" by (simp add: length_capnp_build_flat)
  show ?thesis
    unfolding place_guest_def Let_def
    by (intro same_outside_trans [OF _ store64_same_outside] same_outside_trans [OF _ write_bytes_same_outside]
        write_bytes_same_outside sp) (use assms len in \<open>simp_all add: PAGE_SIZE_def\<close>)
qed

text \<open>The path to the region is three words, in three tables.\<close>

lemma set_path_entries:
  assumes "regions_apart pml4 0x1000 pdpt 0x1000" "regions_apart pml4 0x1000 pd 0x1000" "regions_apart pdpt 0x1000 pd 0x1000"
    and "i < 512" "k < 512"
  shows "entry_at (set_path pml4 pdpt pd k e4 e3 e2 m) pml4 i = (if i = 0 then e4 else entry_at m pml4 i)"
    "entry_at (set_path pml4 pdpt pd k e4 e3 e2 m) pdpt i = (if i = 0 then e3 else entry_at m pdpt i)"
    "entry_at (set_path pml4 pdpt pd k e4 e3 e2 m) pd i = (if i = k then e2 else entry_at m pd i)"
proof -
  have o: "entry_at (set_entry m t l e) t' i = entry_at m t' i"
    if "regions_apart t' 0x1000 t 0x1000" "l < 512" for m t t' l e
    using entry_at_same_outside [OF set_entry_same_outside [OF that(2)] that(1) assms(4)] .
  note a = assms(1-3) assms(1-3) [THEN regions_apart_sym [THEN iffD1]]
  show "entry_at (set_path pml4 pdpt pd k e4 e3 e2 m) pml4 i = (if i = 0 then e4 else entry_at m pml4 i)"
    "entry_at (set_path pml4 pdpt pd k e4 e3 e2 m) pdpt i = (if i = 0 then e3 else entry_at m pdpt i)"
    "entry_at (set_path pml4 pdpt pd k e4 e3 e2 m) pd i = (if i = k then e2 else entry_at m pd i)"
    using assms(4,5) by (auto simp: set_path_def o a entry_set_other)
qed

lemma set_path_other:
  assumes "i < 512" "k < 512"
    and "regions_apart t 0x1000 pml4 0x1000" "regions_apart t 0x1000 pdpt 0x1000" "regions_apart t 0x1000 pd 0x1000"
  shows "entry_at (set_path pml4 pdpt pd k e4 e3 e2 m) t i = entry_at m t i"
  using assms entry_at_same_outside [OF set_entry_same_outside _ assms(1)] by (simp add: set_path_def)

lemma user_bit_mask:
  "(e OR PAGE_USER) AND ADDR_MASK = e AND ADDR_MASK" "(e OR PAGE_USER) AND PAGE_HUGE = e AND PAGE_HUGE"
  by (simp_all add: bit.conj_disj_distrib2) (simp_all add: x86_bits)

lemma tables_okD:
  assumes "x86_tables_ok info pt m" "pdpt = entry_at m (x86_pml4_phys info) 0 AND ADDR_MASK"
    "pd = entry_at m pdpt 0 AND ADDR_MASK"
  shows "user_region_base info < 0x4000000" "pt AND ADDR_MASK = pt" "entry_at m pdpt 0 AND PAGE_HUGE = 0"
    "tables_apart (user_region_base info) (x86_pml4_phys info) pdpt pd pt"
    "regions_apart (x86_pml4_phys info) 0x1000 pdpt 0x1000" "regions_apart (x86_pml4_phys info) 0x1000 pd 0x1000"
    "regions_apart (x86_pml4_phys info) 0x1000 pt 0x1000" "regions_apart pdpt 0x1000 pd 0x1000"
    "regions_apart pdpt 0x1000 pt 0x1000" "regions_apart pd 0x1000 pt 0x1000"
    "\<And>i. i < 512 \<Longrightarrow> i \<noteq> 0 \<Longrightarrow> entry_at m (x86_pml4_phys info) i AND PAGE_USER = 0 \<and> entry_at m pdpt i AND PAGE_USER = 0"
  using assms unfolding x86_tables_ok_def Let_def tables_apart_def by (auto simp: list_all_iff)

text \<open>The memory handed to the guest.\<close>

definition opened :: "securinit_boot_info \<Rightarrow> u64 \<Rightarrow> bytes \<Rightarrow> u64 \<Rightarrow> memory \<Rightarrow> memory option" where
  "opened info pt code value m =
    (let base = user_region_base info; pml4 = x86_pml4_phys info; e4 = entry_at m pml4 0; pdpt = e4 AND ADDR_MASK;
         e3 = entry_at m pdpt 0; pd = e3 AND ADDR_MASK
     in case fill_user_pt pd (table_index 21 base) base pt [0..<512] m of (m1, filled) \<Rightarrow>
       if filled then Some (set_path pml4 pdpt pd (table_index 21 base) (e4 OR PAGE_USER) (e3 OR PAGE_USER)
         (pt OR PAGE_PRESENT OR PAGE_WRITE OR PAGE_USER) (place_guest base code value m1))
       else None)"

lemma opened_granted:
  assumes ok: "x86_tables_ok info pt m" and len: "length code \<le> 4096" and o: "opened info pt code value m = Some m'"
    and d: "pdpt = entry_at m (x86_pml4_phys info) 0 AND ADDR_MASK" "pd = entry_at m pdpt 0 AND ADDR_MASK"
  shows "granted (user_region_base info) (x86_pml4_phys info) pdpt pd pt m'"
proof -
  let ?base = "user_region_base info" and ?pml4 = "x86_pml4_phys info" and ?k = "table_index 21 (user_region_base info)"
  note T = tables_okD [OF ok d]
  obtain m1 where f: "fill_user_pt pd ?k ?base pt [0..<512] m = (m1, True)"
    and m': "m' = set_path ?pml4 pdpt pd ?k (entry_at m ?pml4 0 OR PAGE_USER) (entry_at m pdpt 0 OR PAGE_USER)
         (pt OR PAGE_PRESENT OR PAGE_WRITE OR PAGE_USER) (place_guest ?base code value m1)"
    using o d by (auto simp: opened_def Let_def split: prod.splits if_splits)
  let ?m2 = "place_guest ?base code value m1"
  have s1: "same_outside pt 0x1000 m m1" using fill_same_outside [of "[0..<512]" pt m pd ?k ?base] f by simp
  have s2: "same_outside ?base REGION_SIZE m1 ?m2" by (rule place_guest_same_outside [OF len])
  note R = T(4) [unfolded tables_apart_def]
  have old: "entry_at ?m2 t i = entry_at m t i"
    if "t \<in> {?pml4, pdpt, pd}" "i < 512" for t i
  proof -
    have "regions_apart t 0x1000 ?base REGION_SIZE" "regions_apart t 0x1000 pt 0x1000" using R T(7,9,10) that(1) by auto
    then show ?thesis using entry_at_same_outside [OF s2 _ that(2)] entry_at_same_outside [OF s1 _ that(2)] by simp
  qed
  have new: "entry_at ?m2 pt i = user_page_entry ?base i" if "i < 512" for i
    using entry_at_same_outside [OF s2 _ that] R fill_entries [OF f _ _ T(10)] that by simp
  note F = fill_entries [OF f _ _ T(10)]
  note E = set_path_entries [OF T(5,6,8)] set_path_other [OF _ table_index_less T(7,9,10) [THEN regions_apart_sym [THEN iffD1]]]
  show ?thesis
    unfolding granted_def m'
    using F old new T(3,11) by (simp add: E user_bit_mask d [symmetric])
qed

lemma set_entry_loaded:
  "set_entry m t i (entry_at m0 t i) x = (if in_region (t + of_nat (8 * i)) 8 x then m0 x else m x)"
  by (simp add: set_entry_def entry_at_def store_loaded store64_outside)

lemma reset_path_restores:
  assumes "\<not> in_region pml4 8 x \<Longrightarrow> \<not> in_region pdpt 8 x \<Longrightarrow> \<not> in_region (pd + of_nat (8 * k)) 8 x \<Longrightarrow> m x = m0 x"
  shows "reset_path pml4 pdpt pd k (entry_at m0 pml4 0) (entry_at m0 pdpt 0) (entry_at m0 pd k) m x = m0 x"
  using assms by (simp add: reset_path_def set_entry_loaded)

lemma set_path_outside:
  "\<not> in_region pml4 8 x \<Longrightarrow> \<not> in_region pdpt 8 x \<Longrightarrow> \<not> in_region (pd + of_nat (8 * k)) 8 x \<Longrightarrow>
    set_path pml4 pdpt pd k e4 e3 e2 m x = m x"
  by (simp add: set_path_def set_entry_def store64_outside)

lemma user_entry_OR: "e AND PAGE_PRESENT \<noteq> 0 \<Longrightarrow> user_entry (e OR PAGE_USER)"
  by (simp add: user_entry_def bit.conj_disj_distrib2) (simp add: x86_bits)

definition x86_pdpt :: "securinit_boot_info \<Rightarrow> memory \<Rightarrow> u64" where
  "x86_pdpt info m = entry_at m (x86_pml4_phys info) 0 AND ADDR_MASK"

definition x86_pd :: "securinit_boot_info \<Rightarrow> memory \<Rightarrow> u64" where
  "x86_pd info m = entry_at m (x86_pdpt info m) 0 AND ADDR_MASK"

text \<open>Closing the grant, from the entries in the memory before it was opened.\<close>

definition closed :: "securinit_boot_info \<Rightarrow> memory \<Rightarrow> memory \<Rightarrow> memory" where
  "closed info m0 m = reset_path (x86_pml4_phys info) (x86_pdpt info m0) (x86_pd info m0)
     (table_index 21 (user_region_base info)) (entry_at m0 (x86_pml4_phys info) 0) (entry_at m0 (x86_pdpt info m0) 0)
     (entry_at m0 (x86_pd info m0) (table_index 21 (user_region_base info))) m"

lemma opened_outside:
  assumes "length code \<le> 4096" "opened info pt code value m = Some m'"
    and "\<not> in_region (user_region_base info) REGION_SIZE x" "\<not> in_region pt 0x1000 x"
    and "\<not> in_region (x86_pml4_phys info) 8 x" "\<not> in_region (x86_pdpt info m) 8 x"
    "\<not> in_region (x86_pd info m + of_nat (8 * table_index 21 (user_region_base info))) 8 x"
  shows "m' x = m x"
proof -
  let ?base = "user_region_base info"
  obtain m1 where f: "fst (fill_user_pt (x86_pd info m) (table_index 21 ?base) ?base pt [0..<512] m) = m1"
    and m': "m' x = place_guest ?base code value m1 x"
    using assms(2) set_path_outside [OF assms(5-7)]
    by (auto simp: opened_def x86_pdpt_def x86_pd_def Let_def split: prod.splits if_splits)
  have "m x = m1 x" using fill_same_outside [of "[0..<512]" pt m] f assms(4) unfolding same_outside_def by fastforce
  moreover have "m1 x = place_guest ?base code value m1 x"
    by (rule same_outsideD [OF place_guest_same_outside [OF assms(1)] assms(3)])
  ultimately show ?thesis using m' by simp
qed

lemma opened_path:
  assumes "regions_apart (x86_pml4_phys info) 0x1000 (x86_pdpt info m) 0x1000"
    "regions_apart (x86_pml4_phys info) 0x1000 (x86_pd info m) 0x1000" "regions_apart (x86_pdpt info m) 0x1000 (x86_pd info m) 0x1000"
    and "opened info pt code value m = Some m'"
    and "entry_at m (x86_pml4_phys info) 0 AND PAGE_PRESENT \<noteq> 0" "entry_at m (x86_pdpt info m) 0 AND PAGE_PRESENT \<noteq> 0"
  shows "user_entry (entry_at m' (x86_pml4_phys info) 0)" "user_entry (entry_at m' (x86_pdpt info m) 0)"
  using assms(4-6) set_path_entries [OF assms(1-3) _ table_index_less, of 0] user_entry_OR
  by (auto simp: opened_def x86_pdpt_def x86_pd_def Let_def split: prod.splits if_splits)

lemma closed_restores:
  assumes "length code \<le> 4096" "opened info pt code value m = Some m'" "same_outside (user_region_base info) REGION_SIZE m' m''"
    and "\<not> in_region (user_region_base info) REGION_SIZE x" "\<not> in_region pt 0x1000 x"
  shows "closed info m m'' x = m x"
  unfolding closed_def
proof (rule reset_path_restores)
  assume "\<not> in_region (x86_pml4_phys info) 8 x" "\<not> in_region (x86_pdpt info m) 8 x"
    "\<not> in_region (x86_pd info m + of_nat (8 * table_index 21 (user_region_base info))) 8 x"
  from opened_outside [OF assms(1,2,4,5) this] show "m'' x = m x"
    using same_outsideD [OF assms(3,4)] by simp
qed

text \<open>The ways through the probe.\<close>

lemma probe_cases:
  assumes "securinit_x86_isolation_probe kernel_invoke run_user pt bind code info privileged_addr gate value st = (st', r)"
  obtains (early) "st' = st" "r = None"
  | (unfilled) "st' = st\<lparr>x86_mem := fst (fill_user_pt (x86_pd info (x86_mem st)) (table_index 21 (user_region_base info))
      (user_region_base info) pt [0..<512] (x86_mem st))\<rparr>" "r = None"
  | (ran) m' st1 st2 where "user_region_base info AND (REGION_SIZE - 1) = 0" "length code \<le> 4096"
      "opened info pt code value (x86_mem st) = Some m'"
      "x86_mem st1 = m'" "g_user_base st1 = user_region_base info" "g_user_size st1 = REGION_SIZE" "g_granted_gate st1 = gate"
      "x86_kernel st1 = fst (kernel_invoke (x86_kernel st) (exception_router info) (exception_router_bind_method info)
         (capnp_build_flat 48 bind 4) 24)"
      "st2 = st1 \<or> (\<exists>e sp f w d g. st2 = fst (run_user e sp f w d g st1))"
      "st' = st2\<lparr>x86_mem := closed info (x86_mem st) (x86_mem st2)\<rparr>"
proof -
  let ?base = "user_region_base info" and ?m = "x86_mem st"
  obtain m1 filled where f: "fill_user_pt (x86_pd info ?m) (table_index 21 ?base) ?base pt [0..<512] ?m = (m1, filled)"
    by fastforce
  obtain k ok response where inv: "kernel_invoke (x86_kernel st) (exception_router info) (exception_router_bind_method info)
      (capnp_build_flat 48 bind 4) 24 = (k, ok, response)" by (metis prod_cases3)
  note D = assms [unfolded securinit_x86_isolation_probe_def Let_def, folded x86_pdpt_def, folded x86_pd_def table_index_def]
  show thesis
  proof (cases "st' = st \<and> r = None")
    case True
    then show thesis using early by blast
  next
    case False
    then have al: "?base AND (REGION_SIZE - 1) = 0" using D by (auto split: if_splits)
    show thesis
    proof (cases "\<not> filled \<or> code = [] \<or> length code > 4096")
      case True
      then show thesis using unfilled D False f by (auto split: if_splits)
    next
      case ok': False
      define st1 where "st1 = st\<lparr>x86_mem := the (opened info pt code value ?m),
        g_user_base := ?base, g_user_size := REGION_SIZE, g_forbidden := privileged_addr, g_granted_gate := gate,
        g_denied_access := 0, g_ipc_denied := 0, g_ipc_forwarded := 0, g_exits := 0, x86_kernel := k\<rparr>"
      have o: "opened info pt code value ?m = Some (x86_mem st1)"
        using ok' f by (simp add: st1_def opened_def Let_def x86_pd_def x86_pdpt_def)
      define st2 where "st2 = (if \<not> ok \<or> length response < 24 \<or> first_word response \<noteq> 1 then st1
        else fst (run_user (?base + PAGE_SIZE) (?base + REGION_SIZE - 16) privileged_addr (?base + 0x4000)
          (?base + 0x2000) (?base + 0x2080) st1))"
      have eq: "the (opened info pt code value ?m) = set_path (x86_pml4_phys info) (x86_pdpt info ?m) (x86_pd info ?m)
          (table_index 21 ?base) (entry_at ?m (x86_pml4_phys info) 0 OR PAGE_USER) (entry_at ?m (x86_pdpt info ?m) 0 OR PAGE_USER)
          (pt OR PAGE_PRESENT OR PAGE_WRITE OR PAGE_USER) (place_guest ?base code value m1)"
        using ok' f by (simp add: opened_def Let_def x86_pd_def x86_pdpt_def)
      have "st' = st2\<lparr>x86_mem := closed info ?m (x86_mem st2)\<rparr>"
        using D False ok' f inv unfolding st2_def st1_def eq closed_def
        by (auto simp: split: if_splits prod.splits)
      moreover have "st2 = st1 \<or> (\<exists>e sp f w d g. st2 = fst (run_user e sp f w d g st1))"
        unfolding st2_def by (metis (full_types))
      ultimately show thesis
        using ok' by (intro ran [OF al _ o, of st1 st2]) (simp_all add: st1_def inv)
    qed
  qed
qed

lemma granted_walk_Some:
  assumes g: "granted base pml4 pdpt pd pt m" and r: "region_ok base" and p: "pt AND ADDR_MASK = pt"
    and u: "user_entry (entry_at m pml4 0)" "user_entry (entry_at m pdpt 0)" and va: "in_region base REGION_SIZE va"
  shows "\<exists>w. x86_user_walk m pml4 va = Some (va, w)"
proof -
  note G = g [unfolded granted_def]
  have b: "bit va n = bit base n" if "21 \<le> n" for n by (rule region_member_bits [OF r va that])
  have eq: "drop_bit sh va = drop_bit sh base" if "21 \<le> sh" for sh
    using b that by (intro bit_word_eqI) (simp add: bit_drop_bit_eq)
  have z: "drop_bit sh base = 0" if "26 \<le> sh" for sh
    using region_bits(2) [OF r] that by (intro bit_word_eqI) (simp add: bit_drop_bit_eq)
  have i: "table_index 39 va = 0" "table_index 30 va = 0" "table_index 21 va = table_index 21 base"
    by (simp_all add: table_index_def eq z)
  have c: "canonical va" by (simp add: canonical_def eq z)
  note pa = page_address(2) [OF r table_index_less]
  have e1: "entry_at m pt (table_index 12 va) = user_page_entry base (table_index 12 va)" using G by simp
  show ?thesis
    using G u entry_flags [OF p] entry_flags(1,3) [OF pa] e1
    by (auto simp: x86_user_walk_def x86_walk_def Let_def i c page_of_address [OF r b])
qed

subsection \<open>Properties\<close>

text \<open>
  C17: While the guest runs, the memory it can reach is its region and nothing else.  Under
  the tables as the wrapper leaves them for the guest, an access from ring 3 translates
  exactly for the addresses of the two-megabyte region, and there to itself.
\<close>

theorem x86_grant_is_the_region:
  assumes "x86_tables_ok info pt m" and "user_region_base info AND (REGION_SIZE - 1) = 0" and "length code \<le> 4096"
    and "opened info pt code value m = Some m'"
    and "entry_at m (x86_pml4_phys info) 0 AND PAGE_PRESENT \<noteq> 0" and "entry_at m (x86_pdpt info m) 0 AND PAGE_PRESENT \<noteq> 0"
  shows "(\<exists>w. x86_user_walk m' (x86_pml4_phys info) va = Some (pa, w))
    \<longleftrightarrow> in_region (user_region_base info) REGION_SIZE va \<and> pa = va"
proof -
  note T = tables_okD [OF assms(1) x86_pdpt_def x86_pd_def]
  have r: "region_ok (user_region_base info)" using T(1) assms(2) by (simp add: region_ok_def)
  note G = opened_granted [OF assms(1,3,4) x86_pdpt_def x86_pd_def]
  have "user_entry (entry_at m' (x86_pml4_phys info) 0) \<and> user_entry (entry_at m' (x86_pdpt info m) 0)"
    using assms(4-6) opened_path [OF T(5,6,8) assms(4)] by simp
  then show ?thesis using granted_walk [OF G r T(2)] granted_walk_Some [OF G r T(2)] by auto
qed


text \<open>Page tables for a machine whose region is the two megabytes at \<open>0x2000000\<close>.\<close>

definition demo_info :: securinit_boot_info where
  "demo_info = \<lparr>factory = 1, status_sink = 2, exception_router = 3, exception_router_bind_method = 0,
     user_region_base = 0x2000000, user_region_size = 0x200000, ttbr0_root_phys = 0, x86_pml4_phys = 0x10000\<rparr>"

lemma demo_info_simps [simp]:
  "user_region_base demo_info = 0x2000000" "user_region_size demo_info = 0x200000" "x86_pml4_phys demo_info = 0x10000"
  by (simp_all add: demo_info_def)

definition demo_tables :: memory where
  "demo_tables = set_entry (set_entry (set_entry (\<lambda>_. 0) 0x10000 0 0x11003) 0x11000 0 0x12003) 0x12000 16 0x2000083"

lemma demo_entries:
  assumes "i < 512"
  shows "entry_at demo_tables 0x10000 i = (if i = 0 then 0x11003 else 0)"
    "entry_at demo_tables 0x11000 i = (if i = 0 then 0x12003 else 0)"
    "entry_at demo_tables 0x12000 i = (if i = 16 then 0x2000083 else 0)"
  using set_path_entries [of "0x10000" "0x11000" "0x12000" i 16 "0x11003" "0x12003" "0x2000083" "\<lambda>_. 0"] assms
  by (simp_all add: demo_tables_def set_path_def regions_apart_def entry_at_zero)

lemma demo_pdpt: "x86_pdpt demo_info demo_tables = 0x11000" "x86_pd demo_info demo_tables = 0x12000"
  by (simp_all add: x86_pdpt_def x86_pd_def demo_entries ADDR_MASK_def)

lemma demo_tables_ok: "x86_tables_ok demo_info 0x13000 demo_tables"
  by (simp add: x86_tables_ok_def Let_def demo_entries x86_bits regions_apart_def list_all_iff)

lemma fill_succeeds:
  assumes "\<forall>i \<in> set is. i < 512 \<and> (i \<noteq> index \<longrightarrow> entry_at m pd i AND PAGE_USER = 0)" "regions_apart pd 0x1000 pt 0x1000"
  shows "\<exists>m'. fill_user_pt pd index base pt is m = (m', True)"
  using assms(1)
proof (induction "is" arbitrary: m)
  case (Cons i "is")
  have "entry_at (set_entry m pt i e) pd k = entry_at m pd k" if "k < 512" for k e
    using entry_at_same_outside [OF set_entry_same_outside assms(2) that] Cons.prems by simp
  then show ?case using Cons by auto
qed simp

lemma demo_opened: "\<exists>m'. opened demo_info 0x13000 code value demo_tables = Some m'"
proof -
  have "\<exists>m1. fill_user_pt (x86_pd demo_info demo_tables) (table_index 21 (user_region_base demo_info))
      (user_region_base demo_info) 0x13000 [0..<512] demo_tables = (m1, True)"
    by (rule fill_succeeds) (auto simp: demo_pdpt demo_entries regions_apart_def table_index_def)
  then show ?thesis by (auto simp: opened_def Let_def x86_pd_def x86_pdpt_def)
qed

theorem x86_grant_is_the_region_witness:
  "\<exists>m'. opened demo_info 0x13000 [0xCC] 7 demo_tables = Some m'
    \<and> (\<exists>w. x86_user_walk m' 0x10000 0x2001234 = Some (0x2001234, w))
    \<and> \<not> (\<exists>w. x86_user_walk m' 0x10000 0x12080 = Some (0x12080, w))"
proof -
  obtain m' where o: "opened demo_info 0x13000 [0xCC] 7 demo_tables = Some m'" using demo_opened by blast
  have "(\<exists>w. x86_user_walk m' (x86_pml4_phys demo_info) va = Some (pa, w))
    \<longleftrightarrow> in_region (user_region_base demo_info) REGION_SIZE va \<and> pa = va" for va pa
    by (rule x86_grant_is_the_region [OF demo_tables_ok _ _ o])
      (simp_all add: demo_pdpt demo_entries x86_bits)
  from this [of "0x2001234" "0x2001234"] this [of "0x12080" "0x12080"] o
  show ?thesis by (simp add: in_region_def REGION_SIZE_def)
qed

text \<open>A guest that ends at once, under a kernel that counts its calls and agrees to everything.\<close>

definition demo_ready :: "nat x86_state" where
  "demo_ready = \<lparr>x86_mem = demo_tables, x86_kernel = 0, g_user_base = 0, g_user_size = 0, g_forbidden = 0,
     g_denied_access = 0, g_ipc_denied = 0, g_ipc_forwarded = 0, g_exits = 0, g_resume_rsp = 0, g_resume_pc = 0,
     g_saved_flags = 0, g_granted_gate = 0\<rparr>"

definition demo_agree :: "nat wrapper_invoke_fn_t" where
  "demo_agree k target mth request cap = (Suc k, True, flat_msg [1])"

definition demo_exit :: "u64 \<Rightarrow> u64 \<Rightarrow> u64 \<Rightarrow> u64 \<Rightarrow> u64 \<Rightarrow> u64 \<Rightarrow> nat x86_state \<Rightarrow> nat x86_state \<times> u64" where
  "demo_exit e sp f w d g st = (fst (securinit_x86_dispatch demo_agree (replicate 15 0 @ [e, 0x33, 0, sp, 0x2B]) 3 st), 0)"


end
