(* ===== verification/Securinit_X86.thy ===== *)
theory Securinit_X86
  imports Securinit X86_Wrapper
begin

text \<open>
  The second stage with the x86 wrapper: the guest run the stage is given is the isolation probe, on a machine state beside the
  kernel's.  Whatever the guest does, the stage is touched only by gate calls and the binding of the exception
  router, which is the law the stage relies on.
\<close>

definition x86_attach :: "'s \<Rightarrow> unit x86_state \<Rightarrow> 's x86_state" where
  "x86_attach k x = \<lparr>x86_mem = x86_mem x, x86_kernel = k, g_user_base = g_user_base x, g_user_size = g_user_size x,
     g_forbidden = g_forbidden x, g_denied_access = g_denied_access x, g_ipc_denied = g_ipc_denied x,
     g_ipc_forwarded = g_ipc_forwarded x, g_exits = g_exits x, g_resume_rsp = g_resume_rsp x, g_resume_pc = g_resume_pc x,
     g_saved_flags = g_saved_flags x, g_granted_gate = g_granted_gate x\<rparr>"

definition x86_detach :: "'s x86_state \<Rightarrow> unit x86_state" where
  "x86_detach x = \<lparr>x86_mem = x86_mem x, x86_kernel = (), g_user_base = g_user_base x, g_user_size = g_user_size x,
     g_forbidden = g_forbidden x, g_denied_access = g_denied_access x, g_ipc_denied = g_ipc_denied x,
     g_ipc_forwarded = g_ipc_forwarded x, g_exits = g_exits x, g_resume_rsp = g_resume_rsp x, g_resume_pc = g_resume_pc x,
     g_saved_flags = g_saved_flags x, g_granted_gate = g_granted_gate x\<rparr>"

type_synonym 'j x86_machine = "'j \<times> unit x86_state"

type_synonym 'j x86_guest_run =
  "u64 \<Rightarrow> u64 \<Rightarrow> u64 \<Rightarrow> u64 \<Rightarrow> u64 \<Rightarrow> u64 \<Rightarrow> 'j x86_machine stage x86_state \<Rightarrow> 'j x86_machine stage x86_state \<times> u64"

definition x86_stage_probe ::
  "'j x86_guest_run \<Rightarrow> u64 \<Rightarrow> u64 list \<Rightarrow> bytes \<Rightarrow> u64 \<Rightarrow> 'j x86_machine stage_invoke_fn \<Rightarrow> u64 \<Rightarrow>
   'j x86_machine stage \<Rightarrow> 'j x86_machine stage \<times> u64 option" where
  "x86_stage_probe run_user pt bind code admin_record invoke value s =
    (case securinit_x86_isolation_probe invoke run_user pt bind code (g_boot s) admin_record (g_gate s) value (x86_attach s (snd (sk s))) of
       (st, r) \<Rightarrow> let s' = x86_kernel st in (s'\<lparr>sk := (fst (sk s'), x86_detach st)\<rparr>, r))"

lemma dispatch_gate_only:
  assumes "securinit_x86_dispatch invoke frame vector st = (st', frame', over)"
  shows "g_granted_gate st' = g_granted_gate st \<and> (gate_call invoke (g_granted_gate st))\<^sup>*\<^sup>* (x86_kernel st) (x86_kernel st')"
proof -
  obtain m k status where c: "wrapper_dispatch_guest_call (g_user_base st) (g_user_size st) (g_granted_gate st) invoke (frame ! 8)
      (x86_mem st) (x86_kernel st) = (m, k, status)" by (metis prod_cases3)
  have "(gate_call invoke (g_granted_gate st))\<^sup>*\<^sup>* (x86_kernel st) k" using dispatch_gate_call [OF c] by auto
  then show ?thesis using assms c by (auto simp: securinit_x86_dispatch_def Let_def split: if_splits)
qed

lemma guest_steps_gate_only:
  assumes "(guest_step invoke root)\<^sup>*\<^sup>* st st'"
  shows "g_granted_gate st' = g_granted_gate st \<and> (gate_call invoke (g_granted_gate st))\<^sup>*\<^sup>* (x86_kernel st) (x86_kernel st')"
  using assms
proof (induction rule: rtranclp_induct)
  case (step x y)
  have "g_granted_gate y = g_granted_gate x \<and> (gate_call invoke (g_granted_gate x))\<^sup>*\<^sup>* (x86_kernel x) (x86_kernel y)"
    using step.hyps(2)
  proof (cases rule: guest_step.cases)
    case (guest_fault frame error cr2 frame' handled)
    then show ?thesis by (auto simp: securinit_x86_fault_hook_def split: if_splits)
  next
    case (guest_trap frame vector frame' over)
    then show ?thesis using dispatch_gate_only by blast
  qed (simp_all add: securinit_x86_save_resume_def)
  then show ?case using step.IH by (metis rtranclp_trans)
qed simp

text \<open>What the probe does to the state behind it: the router is bound, then only gate calls follow.\<close>

lemma probe_gate_only:
  assumes "\<And>e sp f w d g s. (guest_step invoke root)\<^sup>*\<^sup>* s (fst (run_user e sp f w d g s))"
    and "securinit_x86_isolation_probe invoke run_user pt bind code info privileged_addr gate value st = (st', r)"
  obtains k where "k = x86_kernel st \<or> k = fst (invoke (x86_kernel st) (exception_router info)
      (exception_router_bind_method info) (capnp_build_flat 48 bind 4) 24)"
    "(gate_call invoke gate)\<^sup>*\<^sup>* k (x86_kernel st')"
  using assms(2)
proof (cases rule: probe_cases)
  case early
  then show ?thesis using that by blast
next
  case unfilled
  then show ?thesis using that by auto
next
  case (ran m' st1 st2)
  have "(guest_step invoke root)\<^sup>*\<^sup>* st1 st2" using ran(9) assms(1) by blast
  then have "(gate_call invoke gate)\<^sup>*\<^sup>* (x86_kernel st1) (x86_kernel st2)" using guest_steps_gate_only ran(7) by metis
  then show ?thesis using that [of "x86_kernel st1"] ran(8,10) by simp
qed

lemma gate_calls_effects:
  "(gate_call invoke gate)\<^sup>*\<^sup>* k k' \<Longrightarrow> (guest_effect E invoke gate router)\<^sup>*\<^sup>* k k'"
proof (induction rule: rtranclp_induct)
  case (step x y)
  then obtain msg cap where "y = fst (invoke x gate GATE_METHOD_INVOKE msg cap)" by (auto simp: gate_call_def)
  then have "guest_effect E invoke gate router x y" using effect_gate [of E invoke gate router x msg cap] by simp
  then show ?case using step.IH by simp
qed simp

text \<open>The x86 wrapper keeps the law of the stage, for a kernel whose objects do not depend on the machine state.\<close>

lemma x86_probe_law:
  assumes "\<And>invoke e sp f w d g s. (guest_step invoke root)\<^sup>*\<^sup>* s (fst (run_user e sp f w d g s))"
    and "\<And>j x y. s_object E (j, x) = s_object E (j, y) \<and> s_issued E (j, x) = s_issued E (j, y)"
  shows "probe_law (E\<lparr>s_probe := x86_stage_probe run_user pt bind code admin_record\<rparr>)"
  unfolding probe_law_def
proof (intro allI)
  let ?E = "E\<lparr>s_probe := x86_stage_probe run_user pt bind code admin_record\<rparr>"
  fix invoke v and s :: "'a x86_machine stage"
  let ?ef = "guest_effect ?E invoke (g_gate s) (exception_router (g_boot s))"
  obtain st r where p: "securinit_x86_isolation_probe invoke run_user pt bind code (g_boot s) admin_record (g_gate s) v
      (x86_attach s (snd (sk s))) = (st, r)" by fastforce
  obtain k where k: "k = s \<or> k = fst (invoke s (exception_router (g_boot s)) (exception_router_bind_method (g_boot s)) (capnp_build_flat 48 bind 4) 24)"
    and g: "(gate_call invoke (g_gate s))\<^sup>*\<^sup>* k (x86_kernel st)"
    using probe_gate_only [OF assms(1) p] by (auto simp: x86_attach_def)
  have "?ef\<^sup>*\<^sup>* s k" using k by (auto intro: effect_router)
  moreover have "?ef\<^sup>*\<^sup>* k (x86_kernel st)" using g by (rule gate_calls_effects)
  moreover have "?ef (x86_kernel st) ((x86_kernel st)\<lparr>sk := (fst (sk (x86_kernel st)), x86_detach st)\<rparr>)"
    using assms(2) [of "fst (sk (x86_kernel st))" "snd (sk (x86_kernel st))" "x86_detach st"] by (intro effect_machine) simp_all
  ultimately have "?ef\<^sup>*\<^sup>* s ((x86_kernel st)\<lparr>sk := (fst (sk (x86_kernel st)), x86_detach st)\<rparr>)" by (meson rtranclp.rtrancl_into_rtrancl rtranclp_trans)
  then show "?ef\<^sup>*\<^sup>* s (fst (s_probe ?E invoke v s))" using p by (simp add: x86_stage_probe_def Let_def)
qed

end
