(* ===== verification/Scheduler_Client.thy ===== *)
theory Scheduler_Client
  imports Cluster_Scheduler
begin

text \<open>
  The per-node client of the cluster scheduler, \<open>coreinit/scheduler.c\<close>: the calls a node makes, the worker loop, and the part of
  \<open>coreinit/job_memory.c\<close> that acquires and releases slices.  How a call reaches the scheduler is an argument: a
  function on the state of the system that returns the bytes of the answer, if there is one.  The encoders are
  generated from \<open>schemas/coreinit.capnp\<close>: one word per field, in the order of the schema.
\<close>

subsection \<open>Reaching the scheduler\<close>

type_synonym 'w scheduler_invoke = "'w \<Rightarrow> u64 \<Rightarrow> u32 \<Rightarrow> bytes \<Rightarrow> nat \<Rightarrow> 'w \<times> bytes option"

record 'w sched_client =
  sc_invoke :: "'w scheduler_invoke"
  sc_cluster :: u64
  sc_node :: u64

text \<open>Where the client is recorded: in the state of the core if there is one, otherwise in the static variables.\<close>

record 'w client_place =
  core_client :: "'w sched_client option option"
  static_client :: "'w sched_client option"

definition scheduler_client_init :: "'w sched_client \<Rightarrow> 'w client_place \<Rightarrow> 'w client_place" where
  "scheduler_client_init c p =
    (case core_client p of Some _ \<Rightarrow> p\<lparr>core_client := Some (Some c)\<rparr> | None \<Rightarrow> p\<lparr>static_client := Some c\<rparr>)"

definition scheduler_client :: "'w client_place \<Rightarrow> 'w sched_client option" where
  "scheduler_client p = (case core_client p of Some (Some c) \<Rightarrow> Some c | _ \<Rightarrow> static_client p)"

definition scheduler_call :: "'w sched_client \<Rightarrow> u32 \<Rightarrow> bytes \<Rightarrow> nat \<Rightarrow> 'w \<Rightarrow> 'w \<times> bytes option" where
  "scheduler_call c mid msg cap w = sc_invoke c w (sc_cluster c) mid msg cap"

text \<open>An answer of at least the size the caller checks for.\<close>

definition answer :: "nat \<Rightarrow> bytes option \<Rightarrow> u64 list option" where
  "answer least r = (case r of Some resp \<Rightarrow> if length resp < least then None else Some (capnp_read_flat resp) | None \<Rightarrow> None)"

definition ask :: "'w sched_client \<Rightarrow> u32 \<Rightarrow> nat \<Rightarrow> u64 list \<Rightarrow> nat \<Rightarrow> nat \<Rightarrow> 'w \<Rightarrow> 'w \<times> u64 list option" where
  "ask c mid req_size words resp_size least w =
    (case scheduler_call c mid (reply req_size words) resp_size w of (w', r) \<Rightarrow> (w', answer least r))"

definition METHOD_REQUEST_ALLOCATION :: u32 where "METHOD_REQUEST_ALLOCATION = 2"
definition METHOD_DECLARE_RESOURCE :: u32 where "METHOD_DECLARE_RESOURCE = 3"
definition METHOD_REASSIGN_RESOURCE :: u32 where "METHOD_REASSIGN_RESOURCE = 4"
definition METHOD_SUBMIT_JOB :: u32 where "METHOD_SUBMIT_JOB = 5"
definition METHOD_GET_NEXT_JOB :: u32 where "METHOD_GET_NEXT_JOB = 6"
definition METHOD_REPORT_JOB_RESULT :: u32 where "METHOD_REPORT_JOB_RESULT = 7"
definition METHOD_MUTEX_TRY_LOCK :: u32 where "METHOD_MUTEX_TRY_LOCK = 8"
definition METHOD_MUTEX_UNLOCK :: u32 where "METHOD_MUTEX_UNLOCK = 9"
definition METHOD_GET_RESOURCE_INFO :: u32 where "METHOD_GET_RESOURCE_INFO = 10"
definition METHOD_ALLOCATE_SLICE :: u32 where "METHOD_ALLOCATE_SLICE = 11"
definition METHOD_RELEASE_SLICE :: u32 where "METHOD_RELEASE_SLICE = 12"
definition METHOD_GET_JOB_RESULT :: u32 where "METHOD_GET_JOB_RESULT = 14"

lemmas method_numbers = METHOD_REQUEST_ALLOCATION_def METHOD_DECLARE_RESOURCE_def METHOD_REASSIGN_RESOURCE_def
  METHOD_SUBMIT_JOB_def METHOD_GET_NEXT_JOB_def METHOD_REPORT_JOB_RESULT_def METHOD_MUTEX_TRY_LOCK_def
  METHOD_MUTEX_UNLOCK_def METHOD_GET_RESOURCE_INFO_def METHOD_ALLOCATE_SLICE_def METHOD_RELEASE_SLICE_def METHOD_GET_JOB_RESULT_def

subsection \<open>Calls\<close>

definition submit :: "'w sched_client \<Rightarrow> u64 \<Rightarrow> u32 \<Rightarrow> u64 \<Rightarrow> u64 \<Rightarrow> int \<Rightarrow> u64 \<Rightarrow> u64 \<Rightarrow> u64 \<Rightarrow> 'w \<Rightarrow> 'w \<times> u64" where
  "submit c affinity type a0 a1 priority rid rkind rcap w =
    (case ask c METHOD_SUBMIT_JOB 96 [affinity, ucast type, a0, a1, c_u64 priority, rid, rkind, rcap] 24 24 w of
       (w', r) \<Rightarrow> (w', case r of Some ws \<Rightarrow> ws ! 0 | None \<Rightarrow> 0))"

definition scheduler_submit :: "'w sched_client \<Rightarrow> u32 \<Rightarrow> u64 \<Rightarrow> int \<Rightarrow> u64 \<Rightarrow> u64 \<Rightarrow> u64 \<Rightarrow> 'w \<Rightarrow> 'w \<times> u64" where
  "scheduler_submit c type ctx priority rid rkind rcap = submit c (sc_node c) type ctx 0 priority rid rkind rcap"

definition scheduler_submit_to_node :: "'w sched_client \<Rightarrow> u64 \<Rightarrow> u32 \<Rightarrow> u64 \<Rightarrow> int \<Rightarrow> u64 \<Rightarrow> u64 \<Rightarrow> u64 \<Rightarrow> 'w \<Rightarrow> 'w \<times> u64" where
  "scheduler_submit_to_node c target type ctx priority rid rkind rcap = submit c target type ctx 0 priority rid rkind rcap"

definition scheduler_submit_values_to_node ::
  "'w sched_client \<Rightarrow> u64 \<Rightarrow> u32 \<Rightarrow> u64 \<Rightarrow> u64 \<Rightarrow> int \<Rightarrow> u64 \<Rightarrow> u64 \<Rightarrow> u64 \<Rightarrow> 'w \<Rightarrow> 'w \<times> u64" where
  "scheduler_submit_values_to_node c target type a0 a1 priority rid rkind rcap = submit c target type a0 a1 priority rid rkind rcap"

definition scheduler_get_job_result :: "'w sched_client \<Rightarrow> u64 \<Rightarrow> 'w \<Rightarrow> 'w \<times> u64 option" where
  "scheduler_get_job_result c job w =
    (case ask c METHOD_GET_JOB_RESULT 24 [job] 32 32 w of
       (w', r) \<Rightarrow> (w', case r of Some ws \<Rightarrow> if ws ! 0 = 0 then None else Some (ws ! 1) | None \<Rightarrow> None))"

definition scheduler_declare_resource :: "'w sched_client \<Rightarrow> u64 \<Rightarrow> u64 \<Rightarrow> u64 \<Rightarrow> u64 \<Rightarrow> 'w \<Rightarrow> 'w \<times> u64" where
  "scheduler_declare_resource c knd descr cap sync w =
    (case ask c METHOD_DECLARE_RESOURCE 64 [sc_node c, knd, descr, cap, sync] 24 24 w of
       (w', r) \<Rightarrow> (w', case r of Some ws \<Rightarrow> ws ! 0 | None \<Rightarrow> 0))"

definition scheduler_reassign_resource :: "'w sched_client \<Rightarrow> u64 \<Rightarrow> u64 \<Rightarrow> 'w \<Rightarrow> 'w \<times> bool" where
  "scheduler_reassign_resource c rid new_owner w =
    (case ask c METHOD_REASSIGN_RESOURCE 40 [rid, new_owner] 24 24 w of
       (w', r) \<Rightarrow> (w', case r of Some ws \<Rightarrow> ws ! 0 \<noteq> 0 | None \<Rightarrow> False))"

definition scheduler_request_allocation :: "'w sched_client \<Rightarrow> u64 \<Rightarrow> u64 \<Rightarrow> u64 \<Rightarrow> u64 \<Rightarrow> 'w \<Rightarrow> 'w \<times> bool \<times> u64" where
  "scheduler_request_allocation c bas sz knd sync w =
    (case ask c METHOD_REQUEST_ALLOCATION 64 [sc_node c, bas, sz, knd, sync] 40 32 w of
       (w', r) \<Rightarrow> (w', case r of Some ws \<Rightarrow> (ws ! 0 \<noteq> 0, ws ! 1) | None \<Rightarrow> (False, 0)))"

record resource_info =
  ri_owner :: u64
  ri_kind :: u64
  ri_descriptor :: u64
  ri_capacity :: u64
  ri_sync :: u64

definition scheduler_get_resource_info :: "'w sched_client \<Rightarrow> u64 \<Rightarrow> 'w \<Rightarrow> 'w \<times> bool \<times> resource_info" where
  "scheduler_get_resource_info c rid w =
    (case ask c METHOD_GET_RESOURCE_INFO 24 [rid] 64 56 w of
       (w', r) \<Rightarrow> (w', case r of
          Some ws \<Rightarrow> (ws ! 0 \<noteq> 0, \<lparr>ri_owner = ws ! 1, ri_kind = ws ! 2, ri_descriptor = ws ! 3, ri_capacity = ws ! 4, ri_sync = ws ! 5\<rparr>)
        | None \<Rightarrow> (False, \<lparr>ri_owner = 0, ri_kind = 0, ri_descriptor = 0, ri_capacity = 0, ri_sync = 0\<rparr>)))"

definition scheduler_get_my_node_id :: "'w sched_client \<Rightarrow> u64" where
  "scheduler_get_my_node_id c = sc_node c"

definition scheduler_node_for_local_core :: "'w sched_client \<Rightarrow> u64 \<Rightarrow> u64" where
  "scheduler_node_for_local_core c core =
    (scheduler_get_my_node_id c AND 0xFF00000000000000) OR (core AND 0x00FFFFFFFFFFFFFF)"

definition scheduler_allocate_slice :: "'w sched_client \<Rightarrow> u64 \<Rightarrow> u64 \<Rightarrow> u64 \<Rightarrow> u64 \<Rightarrow> 'w \<Rightarrow> 'w \<times> bool \<times> u64 \<times> u64" where
  "scheduler_allocate_slice c sz knd sync job w =
    (case ask c METHOD_ALLOCATE_SLICE 64 [sc_node c, job, sz, knd, sync] 48 32 w of
       (w', r) \<Rightarrow> (w', case r of Some ws \<Rightarrow> (ws ! 0 \<noteq> 0, ws ! 1, ws ! 2) | None \<Rightarrow> (False, 0, 0)))"

definition scheduler_release_slice :: "'w sched_client \<Rightarrow> u64 \<Rightarrow> u64 \<Rightarrow> 'w \<Rightarrow> 'w \<times> bool" where
  "scheduler_release_slice c rid job w =
    (case ask c METHOD_RELEASE_SLICE 40 [rid, job] 24 24 w of
       (w', r) \<Rightarrow> (w', case r of Some ws \<Rightarrow> ws ! 0 \<noteq> 0 | None \<Rightarrow> False))"

definition scheduler_mutex_try_lock :: "'w sched_client \<Rightarrow> int \<Rightarrow> u64 \<Rightarrow> 'w \<Rightarrow> 'w \<times> bool" where
  "scheduler_mutex_try_lock c mutex job w =
    (case ask c METHOD_MUTEX_TRY_LOCK 40 [c_u64 mutex, job] 24 24 w of
       (w', r) \<Rightarrow> (w', case r of Some ws \<Rightarrow> ws ! 0 \<noteq> 0 | None \<Rightarrow> False))"

definition scheduler_mutex_unlock :: "'w sched_client \<Rightarrow> int \<Rightarrow> u64 \<Rightarrow> 'w \<Rightarrow> 'w" where
  "scheduler_mutex_unlock c mutex job w = fst (scheduler_call c METHOD_MUTEX_UNLOCK (reply 40 [c_u64 mutex, job]) 0 w)"

subsection \<open>The worker loop\<close>

definition JOB_TYPE_COUNT :: u64 where "JOB_TYPE_COUNT = 13"

text \<open>A job function runs on the state of the system and returns its result and the word it stored for the caller.\<close>

type_synonym 'w job_fn = "u64 \<Rightarrow> u64 \<Rightarrow> 'w \<Rightarrow> 'w \<times> u32 \<times> u64"
type_synonym 'w job_value_fn = "u64 \<Rightarrow> u64 \<Rightarrow> u64 \<Rightarrow> 'w \<Rightarrow> 'w \<times> u32 \<times> u64"

record 'w job_tables =
  g_job_type_table :: "u64 \<Rightarrow> 'w job_fn option"
  g_job_value_type_table :: "u64 \<Rightarrow> 'w job_value_fn option"

definition scheduler_register_job_type :: "u64 \<Rightarrow> 'w job_fn \<Rightarrow> 'w job_tables \<Rightarrow> 'w job_tables" where
  "scheduler_register_job_type type fn t =
    (if type < JOB_TYPE_COUNT then t\<lparr>g_job_type_table := (g_job_type_table t)(type := Some fn)\<rparr> else t)"

definition scheduler_register_value_job_type :: "u64 \<Rightarrow> 'w job_value_fn \<Rightarrow> 'w job_tables \<Rightarrow> 'w job_tables" where
  "scheduler_register_value_job_type type fn t =
    (if type < JOB_TYPE_COUNT then t\<lparr>g_job_value_type_table := (g_job_value_type_table t)(type := Some fn)\<rparr> else t)"

definition run_job :: "'w job_tables \<Rightarrow> u64 \<Rightarrow> u64 \<Rightarrow> u64 \<Rightarrow> u64 \<Rightarrow> 'w \<Rightarrow> 'w \<times> u32 \<times> u64" where
  "run_job t type a0 a1 job w =
    (if \<not> type < JOB_TYPE_COUNT then (w, JOB_FINISHED, 0)
     else (case g_job_value_type_table t type of
             Some f \<Rightarrow> f a0 a1 job w
           | None \<Rightarrow> (case g_job_type_table t type of Some f \<Rightarrow> f a0 job w | None \<Rightarrow> (w, JOB_FINISHED, 0))))"

text \<open>One turn of \<open>scheduler_run\<close>: the node waits for an interrupt, asks again at once because the idle hook
  wants it to, or has run the job it was given.\<close>

datatype turn = Waited | Polled | Ran u64

definition scheduler_turn :: "'w sched_client \<Rightarrow> 'w job_tables \<Rightarrow> ('w \<Rightarrow> 'w \<times> bool) option \<Rightarrow> 'w \<Rightarrow> 'w \<times> turn" where
  "scheduler_turn c t g_idle_hook w =
    (case ask c METHOD_GET_NEXT_JOB 24 [sc_node c] 64 56 w of
       (w1, r) \<Rightarrow>
        (case r of
           None \<Rightarrow> (w1, Waited)
         | Some ws \<Rightarrow>
            if ws ! 0 = 0 then
              (case g_idle_hook of
                 None \<Rightarrow> (w1, Waited)
               | Some hook \<Rightarrow> (case hook w1 of (w2, again) \<Rightarrow> (w2, if again then Polled else Waited)))
            else (case run_job t (ws ! 2) (ws ! 3) (ws ! 4) (ws ! 1) w1 of
              (w2, result, block) \<Rightarrow>
                (fst (scheduler_call c METHOD_REPORT_JOB_RESULT
                   (reply 48 [ws ! 1, ucast result, block, if result = JOB_FINISHED then block else 0]) 0 w2), Ran (ws ! 1)))))"

subsection \<open>Slices\<close>

record job_memory_slice_t =
  sl_resource_id :: u64
  sl_base :: u64
  sl_size :: u64
  sl_sync_kind :: u64
  sl_owned :: bool

text \<open>The job's result and block id, and the slice when the allocation was attempted.\<close>

definition job_memory_try_acquire_local ::
  "'w sched_client \<Rightarrow> u64 \<Rightarrow> u64 \<Rightarrow> u64 \<Rightarrow> 'w \<Rightarrow> 'w \<times> u32 \<times> job_memory_slice_t option" where
  "job_memory_try_acquire_local c sz knd job w =
    (case scheduler_mutex_try_lock c ALLOCATOR_MUTEX_ID job w of
       (w1, False) \<Rightarrow> (w1, JOB_BLOCKED_ON_MUTEX, None)
     | (w1, True) \<Rightarrow>
        (case scheduler_allocate_slice c sz knd RESOURCE_SYNC_TRANSFER job w1 of
           (w2, ok, rid, bas) \<Rightarrow>
             (scheduler_mutex_unlock c ALLOCATOR_MUTEX_ID job w2, JOB_FINISHED,
              Some \<lparr>sl_resource_id = rid, sl_base = bas, sl_size = sz, sl_sync_kind = RESOURCE_SYNC_TRANSFER, sl_owned = (rid \<noteq> 0)\<rparr>)))"

definition job_memory_try_release :: "'w sched_client \<Rightarrow> u64 \<Rightarrow> u64 \<Rightarrow> 'w \<Rightarrow> 'w \<times> u32 \<times> bool option" where
  "job_memory_try_release c rid job w =
    (case scheduler_mutex_try_lock c ALLOCATOR_MUTEX_ID job w of
       (w1, False) \<Rightarrow> (w1, JOB_BLOCKED_ON_MUTEX, None)
     | (w1, True) \<Rightarrow>
        (case scheduler_release_slice c rid job w1 of
           (w2, ok) \<Rightarrow> (scheduler_mutex_unlock c ALLOCATOR_MUTEX_ID job w2, JOB_FINISHED, Some ok)))"

end
