(* ===== verification/Client_Props.thy ===== *)
theory Client_Props
  imports Scheduler_Client Mutex_Props
begin

text \<open>
  The client and the cluster scheduler together: what a node gets when it acquires a slice of memory, and what becomes of a job
  that a worker runs.  Between the two stands the kernel, which lets messages of the shape declared in
  \<open>schemas/coreinit.capnp\<close> through.
\<close>

subsection \<open>The scheduler behind the client\<close>

definition cs_request_words :: "u32 \<Rightarrow> nat option" where
  "cs_request_words m = (if m < 15 then Some ([3, 1, 5, 5, 2, 8, 1, 4, 2, 2, 1, 5, 2, 1, 1] ! unat m) else None)"

definition cs_result_words :: "u32 \<Rightarrow> nat option" where
  "cs_result_words m = (if m < 15 then Some ([1, 0, 2, 1, 1, 1, 5, 0, 1, 0, 6, 3, 1, 1, 2] ! unat m) else None)"

record validator =
  v_request :: "u32 \<Rightarrow> bytes \<Rightarrow> bool"
  v_result :: "u32 \<Rightarrow> bytes \<Rightarrow> bool"

definition validator_laws :: "validator \<Rightarrow> bool" where
  "validator_laws V \<longleftrightarrow>
    (\<forall>m ws. cs_request_words m = Some (length ws) \<longrightarrow> v_request V m (flat_msg ws)) \<and>
    (\<forall>m ws. cs_result_words m = Some (length ws) \<longrightarrow> v_result V m (flat_msg ws)) \<and>
    (\<forall>m b. cs_result_words m = Some 0 \<longrightarrow> v_result V m b)"

definition cluster_invoke :: "('k, 'z) platform_scheme \<Rightarrow> validator \<Rightarrow> u64 \<Rightarrow> 'k cluster scheduler_invoke" where
  "cluster_invoke K V self s h m msg cap =
    (if h \<noteq> self \<or> \<not> v_request V m msg then (s, None)
     else (case cluster_scheduler_handler K s m msg cap of (s', resp) \<Rightarrow> (s', if v_result V m resp then Some resp else None)))"

definition cluster_client :: "('k, 'z) platform_scheme \<Rightarrow> validator \<Rightarrow> u64 \<Rightarrow> u64 \<Rightarrow> 'k cluster sched_client" where
  "cluster_client K V self node = \<lparr>sc_invoke = cluster_invoke K V self, sc_cluster = self, sc_node = node\<rparr>"

lemma client_node [simp]: "sc_node (cluster_client K V self node) = node"
  by (simp add: cluster_client_def)

text \<open>A call with the declared number of words reaches the handler with those words.\<close>

lemma client_call:
  assumes "validator_laws V" and "cs_request_words m = Some (length ws)" and "16 + 8 * length ws \<le> cap'" and "length ws < 65536"
  shows "scheduler_call (cluster_client K V self node) m (reply cap' ws) cap s =
    (case cluster_scheduler_handler K s m (flat_msg ws) cap of (s', resp) \<Rightarrow> (s', if v_result V m resp then Some resp else None))"
proof -
  have "v_request V m (flat_msg ws)" using assms(1,2) unfolding validator_laws_def by blast
  then show ?thesis
    unfolding scheduler_call_def cluster_client_def cluster_invoke_def
    by (simp add: build_flat_enough [OF assms(4,3)])
qed

lemma client_ask:
  assumes "validator_laws V" and "cs_request_words m = Some (length ws)" and "16 + 8 * length ws \<le> rcap" and "length ws < 65536"
    and "cluster_scheduler_handler K s m (flat_msg ws) cap = (s', reply cap rs)"
    and "cs_result_words m = Some (length rs)" and "16 + 8 * length rs \<le> cap" and "length rs < 65536" and "least \<le> 16 + 8 * length rs"
  shows "ask (cluster_client K V self node) m rcap ws cap least s = (s', Some rs)"
proof -
  have v: "v_result V m (flat_msg rs)" using assms(1,6) unfolding validator_laws_def by blast
  have e: "reply cap rs = flat_msg rs" by (rule build_flat_enough [OF assms(8,7)])
  have a: "answer least (Some (flat_msg rs)) = Some rs"
    using assms(9) by (simp only: answer_def option.case length_flat_msg [OF assms(8)] capnp_read_flat_msg [OF assms(8)] not_less [symmetric] if_False)
  show ?thesis
    unfolding ask_def client_call [OF assms(1-4)] assms(5) prod.case e if_P [OF v] a ..
qed

lemma words_simps [simp]:
  "cs_request_words 6 = Some 1" "cs_request_words 7 = Some 4" "cs_request_words 8 = Some 2" "cs_request_words 9 = Some 2"
  "cs_request_words 11 = Some 5" "cs_request_words 14 = Some 1"
  "cs_result_words 6 = Some 5" "cs_result_words 7 = Some 0" "cs_result_words 8 = Some 1" "cs_result_words 9 = Some 0"
  "cs_result_words 11 = Some 3" "cs_result_words 14 = Some 2"
  by (simp_all add: cs_request_words_def cs_result_words_def)

lemma handler_methods:
  "cluster_scheduler_handler K s 7 (flat_msg ws) cap = handle_report_job_result K s (capnp_read_flat (flat_msg ws))"
  "cluster_scheduler_handler K s 8 (flat_msg ws) cap = handle_mutex_try_lock K s (capnp_read_flat (flat_msg ws)) cap"
  "cluster_scheduler_handler K s 9 (flat_msg ws) cap = handle_mutex_unlock K s (capnp_read_flat (flat_msg ws))"
  "cluster_scheduler_handler K s 11 (flat_msg ws) cap = handle_allocate_slice K s (capnp_read_flat (flat_msg ws)) cap"
  "cluster_scheduler_handler K s 14 (flat_msg ws) cap = handle_get_job_result s (capnp_read_flat (flat_msg ws)) cap"
  by (simp_all add: cluster_scheduler_handler_def)

subsection \<open>The calls of the client on the scheduler\<close>

lemma allocator_mutex: "c_int (c_u64 ALLOCATOR_MUTEX_ID) = int 0" "(0 :: nat) < MAX_MUTEXES"
  by (simp_all add: ALLOCATOR_MUTEX_ID_def c_int_def c_u64_def MAX_MUTEXES_def)

lemma client_try_lock:
  assumes L: "kernel_laws K" and V: "validator_laws V" and wf: "cluster_wf K s" and m: "g_mutex_handles s ! 0 \<noteq> 0"
  shows "scheduler_mutex_try_lock (cluster_client K V self node) ALLOCATOR_MUTEX_ID job s =
    (if mx_locked (g_mutex_storage s ! 0) then (inherit_priority s job (mx_holder (g_mutex_storage s ! 0)), False)
     else (s\<lparr>g_mutex_storage := (g_mutex_storage s)[0 := \<lparr>mx_locked = True, mx_holder = job\<rparr>]\<rparr>, True))"
proof -
  let ?ws = "[c_u64 ALLOCATOR_MUTEX_ID, job]"
  have c: "capnp_read_flat (flat_msg ?ws) = ?ws" by (rule capnp_read_flat_msg) simp
  note h = handler_methods(2) [of K s ?ws 24, unfolded c try_lock_spec [OF L wf allocator_mutex m]]
  have "ask (cluster_client K V self node) 8 40 ?ws 24 24 s =
     (if mx_locked (g_mutex_storage s ! 0) then (inherit_priority s job (mx_holder (g_mutex_storage s ! 0)), Some [0])
     else (s\<lparr>g_mutex_storage := (g_mutex_storage s)[0 := \<lparr>mx_locked = True, mx_holder = job\<rparr>]\<rparr>, Some [1]))"
    by (auto intro!: client_ask [OF V] simp only: h if_True if_False split: if_split) simp_all
  then show ?thesis unfolding scheduler_mutex_try_lock_def METHOD_MUTEX_TRY_LOCK_def by simp
qed

lemma client_unlock:
  assumes V: "validator_laws V"
  shows "scheduler_mutex_unlock (cluster_client K V self node) ALLOCATOR_MUTEX_ID job s =
    fst (handle_mutex_unlock K s [c_u64 ALLOCATOR_MUTEX_ID, job])"
proof -
  let ?ws = "[c_u64 ALLOCATOR_MUTEX_ID, job]"
  have c: "capnp_read_flat (flat_msg ?ws) = ?ws" by (rule capnp_read_flat_msg) simp
  show ?thesis
    using client_call [OF V, of 9 ?ws 40 K self node 0 s]
    unfolding scheduler_mutex_unlock_def METHOD_MUTEX_UNLOCK_def handler_methods c by (simp add: split_beta)
qed

lemma client_allocate:
  assumes L: "kernel_laws K" and V: "validator_laws V" and wf: "cluster_wf K s"
  shows "scheduler_allocate_slice (cluster_client K V self node) sz knd sync job s =
    (case alloc_locked (p_arch K) (mm_ledger s) sz knd of
       (g, None) \<Rightarrow> (s\<lparr>mm_ledger := g\<rparr>, False, 0, 0)
     | (g, Some b) \<Rightarrow>
         (case create_resource_object K (s\<lparr>mm_ledger := g\<rparr>) node RESOURCE_KIND_MEMORY b sz sync job of
            (s', h) \<Rightarrow> (s', True, h, b)))"
proof -
  let ?ws = "[node, job, sz, knd, sync]"
  have c: "capnp_read_flat (flat_msg ?ws) = ?ws" by (rule capnp_read_flat_msg) simp
  note h = handler_methods(4) [of K s ?ws 48, unfolded c allocate_slice_spec [OF L wf]]
  obtain g r where a: "alloc_locked (p_arch K) (mm_ledger s) sz knd = (g, r)" by fastforce
  have "ask (cluster_client K V self node) 11 64 ?ws 48 32 s =
    (case r of None \<Rightarrow> (s\<lparr>mm_ledger := g\<rparr>, Some [0, 0, 0])
     | Some b \<Rightarrow> (case create_resource_object K (s\<lparr>mm_ledger := g\<rparr>) node RESOURCE_KIND_MEMORY b sz sync job of
            (s', h) \<Rightarrow> (s', Some [1, h, b])))"
  proof (cases r)
    case None
    then show ?thesis using h a by (auto intro!: client_ask [OF V])
  next
    case (Some b)
    obtain s' hd where cr: "create_resource_object K (s\<lparr>mm_ledger := g\<rparr>) node RESOURCE_KIND_MEMORY b sz sync job = (s', hd)" by fastforce
    then have "cluster_scheduler_handler K s 11 (flat_msg ?ws) 48 = (s', reply 48 [1, hd, b])"
      using h a Some by simp
    from client_ask [OF V _ _ _ this, of 64 32 self node] show ?thesis using cr Some by simp
  qed
  then show ?thesis
    unfolding scheduler_allocate_slice_def METHOD_ALLOCATE_SLICE_def client_node
    by (auto simp: a split: option.split prod.split)
qed

subsection \<open>Acquiring a slice\<close>

lemma unlock_ledger:
  assumes L: "kernel_laws K" and wf: "cluster_wf K s" and m: "g_mutex_handles s ! 0 \<noteq> 0"
    and mx: "g_mutex_storage s ! 0 = \<lparr>mx_locked = True, mx_holder = job\<rparr>"
  defines "s' \<equiv> fst (handle_mutex_unlock K s [c_u64 ALLOCATOR_MUTEX_ID, job])"
  shows "\<not> mx_locked (g_mutex_storage s' ! 0)" "mm_ledger s' = mm_ledger s" "kst s' = kst s"
    "g_resource_storage s' = g_resource_storage s"
proof -
  have "length (g_mutex_storage s) = MAX_MUTEXES" using cluster_wfD(1) [OF wf] by (simp add: sizes_wf_def)
  then have z: "0 < length (g_mutex_storage s)" using allocator_mutex(2) by simp
  note u = unlock_spec [OF L wf allocator_mutex m, of job]
  show "\<not> mx_locked (g_mutex_storage s' ! 0)" "mm_ledger s' = mm_ledger s" "kst s' = kst s"
    "g_resource_storage s' = g_resource_storage s"
    using z by (auto simp: s'_def u mx Let_def job_update_def split: option.split)
qed

lemma create_resource_mutexes:
  "create_resource_object K s own knd des cap syn rb = (s', h) \<Longrightarrow> g_mutex_storage s' = g_mutex_storage s \<and> g_mutex_handles s' = g_mutex_handles s"
  by (auto simp: create_resource_object_def Let_def split: option.splits if_splits prod.splits)

text \<open>What the asking job has when the call returns a slice with a resource.\<close>

definition owns_slice :: "('k, 'z) platform_scheme \<Rightarrow> u64 \<Rightarrow> u64 \<Rightarrow> 'k cluster \<Rightarrow> 'k cluster \<Rightarrow> job_memory_slice_t \<Rightarrow> bool" where
  "owns_slice K node job s s' sl \<longleftrightarrow>
    list_all (\<lambda>r. {unat (sl_base sl)..<unat (sl_base sl) + unat (sl_size sl)} \<inter> {fst r..<fst r + snd r} = {}) (live_regions (mm_ledger s)) \<and>
    live_regions (mm_ledger s') = live_regions (mm_ledger s) @ [(unat (sl_base sl), unat (sl_size sl))] \<and>
    objs K s (sl_resource_id sl) = None \<and>
    (\<exists>k. objs K s' (sl_resource_id sl) = Some (OResource k) \<and> g_resource_storage s' ! k =
       \<lparr>owner_node = node, kind = RESOURCE_KIND_MEMORY, descriptor = sl_base sl, capacity = sl_size sl, reserved_by = job,
        sync_kind = RESOURCE_SYNC_TRANSFER\<rparr>)"

lemma allocated_owns:
  assumes L: "kernel_laws K" and wf: "cluster_wf K s" and a: "alloc_locked (p_arch K) (mm_ledger s) sz knd = (g, Some b)"
    and c: "create_resource_object K (s\<lparr>mm_ledger := g\<rparr>) node RESOURCE_KIND_MEMORY b sz RESOURCE_SYNC_TRANSFER job = (s', h)" and h: "h \<noteq> 0"
  shows "owns_slice K node job s s' \<lparr>sl_resource_id = h, sl_base = b, sl_size = sz, sl_sync_kind = RESOURCE_SYNC_TRANSFER, sl_owned = x\<rparr>"
proof -
  have wf': "cluster_wf K (s\<lparr>mm_ledger := g\<rparr>)"
    using wf mm.alloc_inv [OF cluster_wfD(7) [OF wf], of "p_arch K" sz knd] a by (simp add: cluster_wf_def sizes_wf_def)
  note new = create_resource_new [OF L wf' c h]
  have "mm_ledger s' = g" using create_resource_ledger [of K "s\<lparr>mm_ledger := g\<rparr>" node RESOURCE_KIND_MEMORY b sz RESOURCE_SYNC_TRANSFER job] c
    by simp
  moreover have "list_all (\<lambda>r. {unat b..<unat b + unat sz} \<inter> {fst r..<fst r + snd r} = {}) (live_regions (mm_ledger s))"
    unfolding list_all_iff using mm.alloc_fresh [OF cluster_wfD(7) [OF wf] a] by blast
  ultimately show ?thesis
    using new mm.alloc_live [OF a] by (auto simp: owns_slice_def)
qed

text \<open>The state in which the allocation is made: the mutex is held by the job and nothing else differs.\<close>

lemma locked_state:
  fixes job :: u64
  assumes L: "kernel_laws K" and wf: "cluster_wf K s" and m: "g_mutex_handles s ! 0 \<noteq> 0" and f: "\<not> mx_locked (g_mutex_storage s ! 0)"
  defines "s1 \<equiv> s\<lparr>g_mutex_storage := (g_mutex_storage s)[0 := \<lparr>mx_locked = True, mx_holder = job\<rparr>]\<rparr>"
  shows "cluster_wf K s1" "g_mutex_storage s1 ! 0 = \<lparr>mx_locked = True, mx_holder = job\<rparr>"
proof -
  have "fst (handle_mutex_try_lock K s [c_u64 ALLOCATOR_MUTEX_ID, job] 24) = s1"
    using try_lock_spec [OF L wf allocator_mutex m, of job 24] f by (simp add: s1_def)
  then show "cluster_wf K s1" using wfi.try_lock [of K s "[c_u64 ALLOCATOR_MUTEX_ID, job]" 24] L wf by simp
  have "length (g_mutex_storage s) = MAX_MUTEXES" using cluster_wfD(1) [OF wf] by (simp add: sizes_wf_def)
  then show "g_mutex_storage s1 ! 0 = \<lparr>mx_locked = True, mx_holder = job\<rparr>" using allocator_mutex(2) by (simp add: s1_def)
qed

text \<open>The allocation leaves the mutexes alone and a well-formed state.\<close>

lemma client_allocate_frame:
  assumes L: "kernel_laws K" and V: "validator_laws V" and wf: "cluster_wf K s"
    and a: "scheduler_allocate_slice (cluster_client K V self node) sz knd sync job s = (s', ok, h, b)"
  shows "cluster_wf K s'" "g_mutex_storage s' = g_mutex_storage s" "g_mutex_handles s' = g_mutex_handles s"
proof -
  have "fst (handle_allocate_slice K s [node, job, sz, knd, sync] 48) = s'"
    using client_allocate [OF L V wf, of self node sz knd sync job] allocate_slice_spec [OF L wf, of "[node, job, sz, knd, sync]" 48] a
    by (auto split: prod.splits option.splits)
  then show "cluster_wf K s'" using wfi.allocate_slice [of K s "[node, job, sz, knd, sync]" 48] L wf by simp
  show "g_mutex_storage s' = g_mutex_storage s" "g_mutex_handles s' = g_mutex_handles s"
    using client_allocate [OF L V wf, of self node sz knd sync job] a
    by (auto dest: create_resource_mutexes split: prod.splits option.splits)
qed


definition demo_validator :: validator where
  "demo_validator = \<lparr>v_request = (\<lambda>m msg. True), v_result = (\<lambda>m msg. True)\<rparr>"

lemma demo_validator_laws: "validator_laws demo_validator"
  by (simp add: validator_laws_def demo_validator_def)

abbreviation demo_client :: "demo cluster sched_client" where
  "demo_client \<equiv> cluster_client DK demo_validator 5 1"

lemma demo_acquired:
  "snd (job_memory_try_acquire_local demo_client 0x10000 3 20 demo_jobs) =
    (JOB_FINISHED, Some \<lparr>sl_resource_id = 22, sl_base = 0x1C00000, sl_size = 0x10000, sl_sync_kind = 0, sl_owned = True\<rparr>)"
  "g_mutex_handles demo_jobs ! 0 \<noteq> 0"
  by code_simp+


subsection \<open>A turn of the worker\<close>

text \<open>What a request for work does to the slot it hands out and to the results kept.\<close>

lemma job_update_completions [simp]: "g_completions (job_update i f s) = g_completions s"
  by (simp add: job_update_def)

lemma handed_out_completions:
  assumes "scanned K nid s JOB_POOL_SIZE t" and "chosen_slot K nid s (Some i)"
  shows "g_completions (handed_out K nid s t i) = g_completions s"
proof -
  have t: "g_completions t = g_completions s"
    using assms(1) by (auto simp: scanned_def jobs_mutexes_only_def)
  show ?thesis
    using assms by (cases rule: handed_out_cases) (simp_all add: t)
qed

lemma get_next_cases:
  assumes L: "kernel_laws K" and wf: "cluster_wf K s"
  obtains (none) t where "handle_get_next_job K s [nid] cap = (t, reply cap [0, 0, 0, 0, 0])"
  | (some) i t where "chosen_slot K nid s (Some i)" "i < JOB_POOL_SIZE"
      "handle_get_next_job K s [nid] cap = (t, reply cap [1, js_handle (g_jobs s ! i), ucast (jb_type (job_at s i)),
         arg0 (job_at s i), arg1 (job_at s i)])"
      "cluster_wf K t" "js_used (g_jobs t ! i)" "js_handle (g_jobs t ! i) = js_handle (g_jobs s ! i)"
      "g_completions t = g_completions s"
  using L wf
proof (cases rule: pick_next_spec [where nid = nid])
  case (none t)
  then show thesis using that(1) [of t] by (simp add: handle_get_next_job_def)
next
  case (some t i)
  note H = handed_out_facts [OF wf some(1,2)] and cd = chosen_candidate [OF some(2)]
  have len: "i < length (g_jobs s)" using cd(1) cluster_wfD(1) [OF wf] by (simp add: sizes_wf_def)
  have nz: "js_handle (g_jobs s ! i) \<noteq> 0"
    by (rule job_handle_nonzero [OF L wf len candidate_used [OF cd(2)]])
  have e: "handle_get_next_job K s [nid] cap = (handed_out K nid s t i, reply cap [1, js_handle (g_jobs s ! i), ucast (jb_type (job_at s i)),
         arg0 (job_at s i), arg1 (job_at s i)])"
    using some(3) nz scanned_simps(7) [OF some(1), of i] by (simp add: handle_get_next_job_def H)
  have "cluster_wf K (handed_out K nid s t i)"
    using wfi.get_next [of K s "[nid]" cap] L wf e by simp
  then show thesis
    using that(2) [OF some(2) cd(1) e] H(2,3) candidate_used [OF cd(2)] handed_out_completions [OF some(1,2)] by simp
qed

lemma client_get_next:
  assumes "validator_laws V" and "handle_get_next_job K s [node] 64 = (s', reply 64 rs)" and "length rs = 5"
  shows "ask (cluster_client K V self node) METHOD_GET_NEXT_JOB 24 [node] 64 56 s = (s', Some rs)"
proof -
  have c: "capnp_read_flat (flat_msg [node]) = [node]" by (rule capnp_read_flat_msg) simp
  have "cluster_scheduler_handler K s 6 (flat_msg [node]) 64 = (s', reply 64 rs)"
    unfolding handler_get_next c by (rule assms(2))
  from client_ask [OF assms(1) _ _ _ this, of 24 56 self node] assms(3) show ?thesis
    by (simp add: METHOD_GET_NEXT_JOB_def)
qed

lemma client_report:
  assumes "validator_laws V"
  shows "fst (scheduler_call (cluster_client K V self node) METHOD_REPORT_JOB_RESULT (reply 48 [h, r, blk, v]) 0 s) =
    fst (handle_report_job_result K s [h, r, blk, v])"
proof -
  have c: "capnp_read_flat (flat_msg [h, r, blk, v]) = [h, r, blk, v]" by (rule capnp_read_flat_msg) simp
  show ?thesis
    using client_call [OF assms, of 7 "[h, r, blk, v]" 48 K self node 0 s]
    unfolding METHOD_REPORT_JOB_RESULT_def handler_methods c by (simp add: split_beta)
qed

lemma client_get_result:
  assumes "validator_laws V" and "completion_find s h = Some v"
  shows "snd (scheduler_get_job_result (cluster_client K V self node) h s) = Some v"
proof -
  have c: "capnp_read_flat (flat_msg [h]) = [h]" by (rule capnp_read_flat_msg) simp
  have "cluster_scheduler_handler K s 14 (flat_msg [h]) 32 = (s, reply 32 [1, v])"
    unfolding handler_methods c by (simp add: handle_get_job_result_def assms(2))
  from client_ask [OF assms(1) _ _ _ this, of 24 32 self node] show ?thesis
    by (simp add: scheduler_get_job_result_def METHOD_GET_JOB_RESULT_def)
qed


text \<open>Job functions that add their arguments, as the scheduled addition of \<open>coreinit.c\<close> does.\<close>

definition demo_adders :: "demo cluster job_tables" where
  "demo_adders = \<lparr>g_job_type_table = (\<lambda>type. None), g_job_value_type_table = (\<lambda>type. Some (\<lambda>a b job w. (w, JOB_FINISHED, a + b)))\<rparr>"

lemma demo_adders_run: "run_job demo_adders type a b job w = (w, JOB_FINISHED, if type < JOB_TYPE_COUNT then a + b else 0)"
  by (simp add: run_job_def demo_adders_def)

lemma demo_turn: "snd (scheduler_turn demo_client demo_adders None demo_jobs) = Ran 21"
  "list_all (\<lambda>j. completion_find demo_jobs (js_handle j) = None) (g_jobs demo_jobs)" "length (g_jobs demo_jobs) = JOB_POOL_SIZE"
  "snd (scheduler_get_job_result demo_client 21 (fst (scheduler_turn demo_client demo_adders None demo_jobs))) = Some 11"
proof -
  have "let s = demo_jobs; t = scheduler_turn demo_client demo_adders None s in snd t = Ran 21
      \<and> list_all (\<lambda>j. completion_find s (js_handle j) = None) (g_jobs s) \<and> length (g_jobs s) = JOB_POOL_SIZE
      \<and> snd (scheduler_get_job_result demo_client 21 (fst t)) = Some 11"
    by code_simp
  note this [unfolded Let_def]
  then show "snd (scheduler_turn demo_client demo_adders None demo_jobs) = Ran 21"
    "list_all (\<lambda>j. completion_find demo_jobs (js_handle j) = None) (g_jobs demo_jobs)" "length (g_jobs demo_jobs) = JOB_POOL_SIZE"
    "snd (scheduler_get_job_result demo_client 21 (fst (scheduler_turn demo_client demo_adders None demo_jobs))) = Some 11"
    by (simp_all only: simp_thms)
qed


end
