(* ===== verification/Freestanding_Mem.thy ===== *)
theory Freestanding_Mem
  imports Byte_Memory
begin

text \<open>
  The four memory functions a freestanding compiler may call (\<open>lib/freestanding_mem.c\<close>), as the byte loops they
  are.  \<open>memmove\<close> picks its direction from the addresses; the result is the copy a snapshot of the source would
  give, however the two ranges overlap.
\<close>

definition copy_byte :: "u64 \<Rightarrow> u64 \<Rightarrow> nat \<Rightarrow> memory \<Rightarrow> memory" where
  "copy_byte d s i m = m(d + of_nat i := m (s + of_nat i))"

definition memset :: "memory \<Rightarrow> u64 \<Rightarrow> i32 \<Rightarrow> nat \<Rightarrow> memory" where
  "memset m dst val count = fold (\<lambda>i m. m(dst + of_nat i := ucast val)) [0..<count] m"

definition memcpy :: "memory \<Rightarrow> u64 \<Rightarrow> u64 \<Rightarrow> nat \<Rightarrow> memory" where
  "memcpy m dst src count = fold (copy_byte dst src) [0..<count] m"

definition memmove :: "memory \<Rightarrow> u64 \<Rightarrow> u64 \<Rightarrow> nat \<Rightarrow> memory" where
  "memmove m dst src count =
    (if dst < src then fold (copy_byte dst src) [0..<count] m
     else fold (\<lambda>i. copy_byte dst src (i - 1)) (rev [1..<count + 1]) m)"

primrec memcmp_from :: "memory \<Rightarrow> u64 \<Rightarrow> u64 \<Rightarrow> nat \<Rightarrow> nat \<Rightarrow> int" where
  "memcmp_from m a b i 0 = 0"
| "memcmp_from m a b i (Suc k) =
    (if m (a + of_nat i) \<noteq> m (b + of_nat i) then uint (m (a + of_nat i)) - uint (m (b + of_nat i))
     else memcmp_from m a b (Suc i) k)"

definition memcmp :: "memory \<Rightarrow> u64 \<Rightarrow> u64 \<Rightarrow> nat \<Rightarrow> int" where
  "memcmp m a b count = memcmp_from m a b 0 count"

subsection \<open>Copy loops\<close>

text \<open>An object of \<open>n\<close> bytes that does not run over the top of the address space.\<close>

definition fits_memory :: "u64 \<Rightarrow> nat \<Rightarrow> bool" where
  "fits_memory a n \<longleftrightarrow> unat a + n \<le> 18446744073709551616"

lemma offset_distinct:
  assumes "fits_memory a n" "fits_memory b n" "i < n" "j < n"
  shows "a + of_nat i = b + of_nat j \<longleftrightarrow> unat a + i = unat b + j"
proof -
  have "a + of_nat i = of_nat (unat a + i)" "b + of_nat j = of_nat (unat b + j)" by simp_all
  then show ?thesis
    using assms of_nat_u64_inj [of "unat a + i" "unat b + j"] unfolding fits_memory_def by simp
qed

text \<open>A copy loop that never reads a byte it has already overwritten copies the original source.\<close>

definition copied :: "memory \<Rightarrow> u64 \<Rightarrow> u64 \<Rightarrow> nat set \<Rightarrow> memory" where
  "copied m d s S = (\<lambda>a. if \<exists>i \<in> S. a = d + of_nat i then m (a - d + s) else m a)"

lemma fold_copy:
  assumes "\<And>k j. k < length idx \<Longrightarrow> j < k \<Longrightarrow> s + of_nat (idx ! k) \<noteq> d + of_nat (idx ! j)"
  shows "fold (copy_byte d s) idx m = copied m d s (set idx)"
  using assms
proof (induction idx rule: rev_induct)
  case (snoc x xs)
  have "s + of_nat (xs ! k) \<noteq> d + of_nat (xs ! j)" if "k < length xs" "j < k" for k j
    using snoc.prems [of k j] that by (simp add: nth_append)
  then have IH: "fold (copy_byte d s) xs m = copied m d s (set xs)" by (rule snoc.IH)
  have "s + of_nat x \<noteq> d + of_nat i" if "i \<in> set xs" for i
    using snoc.prems [of "length xs"] that by (auto simp: in_set_conv_nth nth_append)
  then have "copied m d s (set xs) (s + of_nat x) = m (s + of_nat x)" by (auto simp: copied_def)
  then have "copy_byte d s x (copied m d s (set xs)) = (copied m d s (set xs))(d + of_nat x := m (s + of_nat x))"
    by (simp add: copy_byte_def)
  also have "\<dots> = copied m d s (set (xs @ [x]))" by (auto simp: copied_def fun_eq_iff add.commute)
  finally show ?case by (simp add: IH)
qed (simp add: copied_def)

lemma copied_all:
  assumes "n \<le> 18446744073709551616"
  shows "copied m d s {..<n} = write_bytes m d (read_bytes m s n)"
proof
  fix a
  show "copied m d s {..<n} a = write_bytes m d (read_bytes m s n) a"
  proof (cases "\<exists>i < n. a = d + of_nat i")
    case True
    then obtain i where "i < n" "a = d + of_nat i" by blast
    then show ?thesis using write_bytes_nth [of i "read_bytes m s n" m d] assms by (auto simp: copied_def add.commute)
  next
    case False
    then have "write_bytes m d (read_bytes m s n) a = m a" by (intro write_bytes_outside) simp
    then show ?thesis using False by (auto simp: copied_def)
  qed
qed

lemma memmove_snapshot:
  assumes "fits_memory dst n" "fits_memory src n"
  shows "memmove m dst src n = write_bytes m dst (read_bytes m src n)"
proof -
  have le: "n \<le> 18446744073709551616" using assms by (simp add: fits_memory_def)
  have down: "fold (\<lambda>i. copy_byte dst src (i - 1)) (rev [1..<n + 1]) m = fold (copy_byte dst src) (rev [0..<n]) m"
  proof -
    have "map (\<lambda>i. i - 1) [1..<n + 1] = [0..<n]" by (intro nth_equalityI) (simp_all del: upt_Suc)
    then have "rev [0..<n] = map (\<lambda>i. i - 1) (rev [1..<n + 1])" by (metis rev_map)
    then show ?thesis by (simp only: fold_map o_def)
  qed
  show ?thesis
  proof (cases "dst < src")
    case True
    then have "unat dst < unat src" by (simp add: word_less_nat_alt)
    then have "fold (copy_byte dst src) [0..<n] m = copied m dst src (set [0..<n])"
      by (intro fold_copy) (simp add: offset_distinct [OF assms(2,1)])
    then show ?thesis using True copied_all [OF le] by (simp add: memmove_def atLeast0LessThan)
  next
    case False
    then have le': "unat src \<le> unat dst" by (simp add: word_less_nat_alt)
    have "src + of_nat (rev [0..<n] ! k) \<noteq> dst + of_nat (rev [0..<n] ! j)" if "k < n" "j < k" for k j
    proof -
      have "rev [0..<n] ! k = n - Suc k" "rev [0..<n] ! j = n - Suc j" using that by (simp_all add: rev_nth)
      moreover have "unat src + (n - Suc k) \<noteq> unat dst + (n - Suc j)" using le' that by linarith
      moreover have "n - Suc k < n" "n - Suc j < n" using that by linarith+
      note offset_distinct [OF assms(2,1) this]
      ultimately show ?thesis by (simp only: simp_thms)
    qed
    then have "fold (copy_byte dst src) (rev [0..<n]) m = copied m dst src (set (rev [0..<n]))"
      by (intro fold_copy) simp_all
    also have "\<dots> = write_bytes m dst (read_bytes m src n)" using copied_all [OF le] by (simp add: atLeast0LessThan)
    finally show ?thesis using False by (simp only: memmove_def down if_False)
  qed
qed

lemma memcpy_disjoint:
  assumes "fits_memory dst n" "fits_memory src n" "unat dst + n \<le> unat src \<or> unat src + n \<le> unat dst"
  shows "memcpy m dst src n = write_bytes m dst (read_bytes m src n)"
proof -
  have le: "n \<le> 18446744073709551616" using assms by (simp add: fits_memory_def)
  have "fold (copy_byte dst src) [0..<n] m = copied m dst src (set [0..<n])"
    using assms(3) by (intro fold_copy) (auto simp: offset_distinct [OF assms(2,1)])
  then show ?thesis using copied_all [OF le] by (simp add: memcpy_def atLeast0LessThan)
qed

lemma memset_fills:
  "memset m dst val n = write_bytes m dst (replicate n (ucast val))" if "n \<le> 18446744073709551616"
proof -
  have "memset m dst val k = (\<lambda>a. if \<exists>i < k. a = dst + of_nat i then ucast val else m a)" for k
    by (induction k) (auto simp: memset_def fun_eq_iff less_Suc_eq)
  then show ?thesis using that write_bytes_nth [of _ "replicate n (ucast val)" m dst]
      write_bytes_outside [of "replicate n (ucast val)" _ dst m]
    by (auto simp: fun_eq_iff)
qed

lemma memcmp_from_zero: "memcmp_from m a b i k = 0 \<longleftrightarrow> (\<forall>j < k. m (a + of_nat (i + j)) = m (b + of_nat (i + j)))"
proof (induction k arbitrary: i)
  case (Suc k)
  have "(\<forall>j < Suc k. m (a + of_nat (i + j)) = m (b + of_nat (i + j))) \<longleftrightarrow>
      m (a + of_nat i) = m (b + of_nat i) \<and> (\<forall>j < k. m (a + of_nat (Suc i + j)) = m (b + of_nat (Suc i + j)))"
    by (simp add: All_less_Suc2 ac_simps)
  then show ?case using Suc.IH [of "Suc i"] by (simp add: word_uint_eq_iff [symmetric])
qed simp

text \<open>
  C33: \<open>memmove\<close> gives the destination the bytes the source had before the call and leaves every other byte
  alone, for any two ranges inside the address space, overlapping or not.
\<close>

theorem memmove_moves:
  assumes "fits_memory dst n" and "fits_memory src n"
  shows "read_bytes (memmove m dst src n) dst n = read_bytes m src n
    \<and> (\<forall>a. (\<forall>i < n. a \<noteq> dst + of_nat i) \<longrightarrow> memmove m dst src n a = m a)"
proof -
  have "length (read_bytes m src n) \<le> 18446744073709551616" using assms by (simp add: fits_memory_def)
  from read_write_same [OF this, of m dst] show ?thesis
    using write_bytes_outside [of "read_bytes m src n" _ dst m] by (simp add: memmove_snapshot [OF assms])
qed

theorem memmove_moves_witness:
  "read_bytes (memmove (\<lambda>a. ucast a) 0x1002 0x1000 6) 0x1002 6 = [0, 1, 2, 3, 4, 5]
   \<and> memmove (\<lambda>a. ucast a) 0x1002 0x1000 6 0x1001 = 1
   \<and> read_bytes (memcpy (\<lambda>a. ucast a) 0x1002 0x1000 6) 0x1002 6 = [0, 1, 0, 1, 0, 1]"
proof -
  have f: "fits_memory 0x1002 6" "fits_memory 0x1000 6" by (simp_all add: fits_memory_def)
  have "fits_memory 0x1001 6" by (simp add: fits_memory_def)
  from offset_distinct [OF this f(1), of 0] have b: "\<forall>i < 6. (0x1001 :: u64) \<noteq> 0x1002 + of_nat i" by simp
  note t = memmove_moves [OF f, of "\<lambda>a. ucast a"]
  have "read_bytes (\<lambda>a. ucast a) 0x1000 6 = [0, 1, 2, 3, 4, 5]"
    "read_bytes (memcpy (\<lambda>a. ucast a) 0x1002 0x1000 6) 0x1002 6 = [0, 1, 0, 1, 0, 1]" by code_simp+
  with t [THEN conjunct1] t [THEN conjunct2, THEN spec, of "0x1001"] b show ?thesis by simp
qed

lemma memcmp_zero: "memcmp m a b n = 0 \<longleftrightarrow> read_bytes m a n = read_bytes m b n"
  using memcmp_from_zero [of m a b 0 n] by (simp add: memcmp_def list_eq_iff_nth_eq)

end
