(* ===== verification/Serial_Format.thy ===== *)
theory Serial_Format
  imports Coreinit_Prelude
begin

text \<open>
  The console (\<open>serial_aarch64.c\<close>, \<open>serial_x86_64.c\<close>): the two UARTs of the ARM port and COM1, reached through
  register accesses that are arguments of the model, and the formatter both files share word for word.  Output goes
  character by character through \<open>putc\<close>, which waits until the transmitter has room; a wait that never ends, and an
  argument or format whose reading C leaves undefined, is \<open>None\<close>.
\<close>

subsection \<open>Registers\<close>

record 'd io =
  io_read :: "u64 \<Rightarrow> 'd \<Rightarrow> 'd \<times> u32"
  io_write :: "u64 \<Rightarrow> u32 \<Rightarrow> 'd \<Rightarrow> 'd"

definition PL011_DR :: u64 where "PL011_DR = 0x00"
definition PL011_FR :: u64 where "PL011_FR = 0x18"
definition PL011_IBRD :: u64 where "PL011_IBRD = 0x24"
definition PL011_FBRD :: u64 where "PL011_FBRD = 0x28"
definition PL011_LCR_H :: u64 where "PL011_LCR_H = 0x2C"
definition PL011_CR :: u64 where "PL011_CR = 0x30"
definition PL011_IMSC :: u64 where "PL011_IMSC = 0x38"
definition PL011_FR_TXFF :: u32 where "PL011_FR_TXFF = push_bit 5 1"
definition PL011_LCR_H_FEN :: u32 where "PL011_LCR_H_FEN = push_bit 4 1"
definition PL011_LCR_H_WLEN_8 :: u32 where "PL011_LCR_H_WLEN_8 = push_bit 5 3"
definition PL011_CR_UARTEN :: u32 where "PL011_CR_UARTEN = 1"
definition PL011_CR_TXE :: u32 where "PL011_CR_TXE = push_bit 8 1"
definition PL011_CR_RXE :: u32 where "PL011_CR_RXE = push_bit 9 1"
definition CADENCE_CR :: u64 where "CADENCE_CR = 0x00"
definition CADENCE_CR_RX_DIS :: u32 where "CADENCE_CR_RX_DIS = push_bit 3 1"
definition CADENCE_CR_TX_EN :: u32 where "CADENCE_CR_TX_EN = push_bit 4 1"
definition CADENCE_CR_TX_DIS :: u32 where "CADENCE_CR_TX_DIS = push_bit 5 1"
definition CADENCE_SR :: u64 where "CADENCE_SR = 0x2C"
definition CADENCE_FIFO :: u64 where "CADENCE_FIFO = 0x30"
definition CADENCE_SR_TXFULL :: u32 where "CADENCE_SR_TXFULL = push_bit 4 1"
definition COM1 :: u64 where "COM1 = 0x3F8"

record serial =
  g_pl011_base :: u64
  g_is_cadence :: bool
  g_ready :: bool

subsection \<open>The ARM UARTs\<close>

definition serial_aarch64_set_base :: "'d io \<Rightarrow> u64 \<Rightarrow> serial \<Rightarrow> 'd \<Rightarrow> serial \<times> 'd" where
  "serial_aarch64_set_base io base s d =
    (\<lparr>g_pl011_base = base, g_is_cadence = False, g_ready = True\<rparr>,
     fold (\<lambda>(reg, v). io_write io (base + reg) v)
       [(PL011_CR, 0), (PL011_IBRD, 13), (PL011_FBRD, 1), (PL011_LCR_H, PL011_LCR_H_WLEN_8 OR PL011_LCR_H_FEN), (PL011_IMSC, 0),
        (PL011_CR, PL011_CR_UARTEN OR PL011_CR_TXE OR PL011_CR_RXE)] d)"

definition serial_aarch64_set_cadence_base :: "'d io \<Rightarrow> u64 \<Rightarrow> serial \<Rightarrow> 'd \<Rightarrow> serial \<times> 'd" where
  "serial_aarch64_set_cadence_base io base s d =
    (case io_read io (base + CADENCE_CR) d of (d1, control) \<Rightarrow>
      (\<lparr>g_pl011_base = base, g_is_cadence = True, g_ready = True\<rparr>,
       io_write io (base + CADENCE_CR) ((control AND NOT (CADENCE_CR_TX_DIS OR CADENCE_CR_RX_DIS)) OR CADENCE_CR_TX_EN) d1))"

definition serial_init_aarch64 :: "'d io \<Rightarrow> serial \<Rightarrow> 'd \<Rightarrow> serial \<times> 'd" where
  "serial_init_aarch64 io s d =
    (if g_pl011_base s = 0 then (s\<lparr>g_ready := False\<rparr>, d) else serial_aarch64_set_base io (g_pl011_base s) s d)"

definition transmit_ready :: "'d io \<Rightarrow> serial \<Rightarrow> 'd \<Rightarrow> 'd \<times> bool" where
  "transmit_ready io s d =
    (case io_read io (g_pl011_base s + (if g_is_cadence s then CADENCE_SR else PL011_FR)) d of
       (d1, v) \<Rightarrow> (d1, v AND (if g_is_cadence s then CADENCE_SR_TXFULL else PL011_FR_TXFF) = 0))"

partial_function (option) wait_until :: "('d \<Rightarrow> 'd \<times> bool) \<Rightarrow> 'd \<Rightarrow> 'd option" where
  [code]: "wait_until ready d = (case ready d of (d1, r) \<Rightarrow> if r then Some d1 else wait_until ready d1)"

definition putc_aarch64 :: "'d io \<Rightarrow> serial \<Rightarrow> char \<Rightarrow> 'd \<Rightarrow> 'd option" where
  "putc_aarch64 io s c d =
    (if \<not> g_ready s then Some d
     else (case wait_until (transmit_ready io s) d of
             None \<Rightarrow> None
           | Some d1 \<Rightarrow> Some (io_write io (g_pl011_base s + (if g_is_cadence s then CADENCE_FIFO else PL011_DR)) (scast (of_char c :: u8)) d1)))"

subsection \<open>COM1\<close>

definition serial_init_x86_64 :: "'d io \<Rightarrow> 'd \<Rightarrow> 'd" where
  "serial_init_x86_64 io d =
    fold (\<lambda>(port, v). io_write io port v)
      [(COM1 + 1, 0x00), (COM1 + 3, 0x80), (COM1 + 0, 0x01), (COM1 + 1, 0x00), (COM1 + 3, 0x03), (COM1 + 2, 0xC7), (COM1 + 4, 0x0B)] d"

definition transmit_empty :: "'d io \<Rightarrow> 'd \<Rightarrow> 'd \<times> bool" where
  "transmit_empty io d = (case io_read io (COM1 + 5) d of (d1, v) \<Rightarrow> (d1, v AND 0x20 \<noteq> 0))"

definition putc_x86_64 :: "'d io \<Rightarrow> char \<Rightarrow> 'd \<Rightarrow> 'd option" where
  "putc_x86_64 io c d =
    (case wait_until (transmit_empty io) d of None \<Rightarrow> None | Some d1 \<Rightarrow> Some (io_write io COM1 (ucast (of_char c :: u8)) d1))"

subsection \<open>The formatter\<close>

type_synonym 'd putc_fn = "char \<Rightarrow> 'd \<Rightarrow> 'd option"

primrec put_chars :: "'d putc_fn \<Rightarrow> string \<Rightarrow> 'd \<Rightarrow> 'd option" where
  "put_chars putc [] d = Some d"
| "put_chars putc (c # cs) d = (case putc c d of None \<Rightarrow> None | Some d1 \<Rightarrow> put_chars putc cs d1)"

primrec puts_raw :: "'d putc_fn \<Rightarrow> string \<Rightarrow> 'd \<Rightarrow> 'd option" where
  "puts_raw putc [] d = Some d"
| "puts_raw putc (c # cs) d =
    (case put_chars putc (if c = CHR 0x0A then [CHR 0x0D, c] else [c]) d of None \<Rightarrow> None | Some d1 \<Rightarrow> puts_raw putc cs d1)"

definition digit_chars :: "bool \<Rightarrow> string" where
  "digit_chars upper = (if upper then ''0123456789ABCDEF'' else ''0123456789abcdef'')"

text \<open>The digits of a number as the loop stores them into its buffer of 32 characters, lowest first.\<close>

function digit_loop :: "u64 \<Rightarrow> u64 \<Rightarrow> bool \<Rightarrow> string \<Rightarrow> string" where
  "digit_loop v base upper buf =
    (if v > 0 \<and> length buf < 32 then digit_loop (v div base) base upper (buf @ [digit_chars upper ! unat (v mod base)]) else buf)"
  by auto
termination by (relation "measure (\<lambda>(v, base, upper, buf). 32 - length buf)") auto

declare digit_loop.simps [simp del]

definition put_uint :: "'d putc_fn \<Rightarrow> u64 \<Rightarrow> u64 \<Rightarrow> bool \<Rightarrow> 'd \<Rightarrow> 'd option" where
  "put_uint putc v base upper d =
    (if v = 0 then putc (CHR ''0'') d else put_chars putc (rev (digit_loop v base upper [])) d)"

text \<open>The negation is on the machine word; for the least value, where C leaves it undefined, it wraps.\<close>

definition put_int :: "'d putc_fn \<Rightarrow> u64 \<Rightarrow> 'd \<Rightarrow> 'd option" where
  "put_int putc v d =
    (if sint v < 0 then (case putc (CHR ''-'') d of None \<Rightarrow> None | Some d1 \<Rightarrow> put_uint putc (- v) 10 False d1)
     else put_uint putc v 10 False d)"

text \<open>
  The arguments behind the format, by the type they are passed as.  Taking an argument as another type, or one that
  is not there, is undefined.
\<close>

datatype va = Va_int u32 | Va_llong u64 | Va_ptr u64 | Va_str string

definition put_ll :: "'d putc_fn \<Rightarrow> char \<Rightarrow> va list \<Rightarrow> 'd \<Rightarrow> ('d \<times> va list) option" where
  "put_ll putc c ap d =
    (if c \<in> {CHR ''u'', CHR ''x'', CHR ''X'', CHR ''d''} then
       (case ap of
          Va_llong v # ap1 \<Rightarrow>
            map_option (\<lambda>d1. (d1, ap1))
              (if c = CHR ''u'' then put_uint putc v 10 False d
               else if c = CHR ''d'' then put_int putc v d
               else put_uint putc v 16 (c = CHR ''X'') d)
        | _ \<Rightarrow> None)
     else map_option (\<lambda>d1. (d1, ap)) (put_chars putc [CHR ''%'', CHR ''l'', CHR ''l'', c] d))"

definition put_plain :: "'d putc_fn \<Rightarrow> char \<Rightarrow> va list \<Rightarrow> 'd \<Rightarrow> ('d \<times> va list) option" where
  "put_plain putc c ap d =
    (if c = CHR ''s'' then (case ap of Va_str s # ap1 \<Rightarrow> map_option (\<lambda>d1. (d1, ap1)) (puts_raw putc s d) | _ \<Rightarrow> None)
     else if c = CHR ''d'' then (case ap of Va_int v # ap1 \<Rightarrow> map_option (\<lambda>d1. (d1, ap1)) (put_int putc (scast v) d) | _ \<Rightarrow> None)
     else if c \<in> {CHR ''u'', CHR ''x'', CHR ''X''} then
       (case ap of
          Va_int v # ap1 \<Rightarrow>
            map_option (\<lambda>d1. (d1, ap1)) (put_uint putc (ucast v) (if c = CHR ''u'' then 10 else 16) (c = CHR ''X'') d)
        | _ \<Rightarrow> None)
     else if c = CHR ''c'' then (case ap of Va_int v # ap1 \<Rightarrow> map_option (\<lambda>d1. (d1, ap1)) (putc (char_of (unat (ucast v :: u8))) d) | _ \<Rightarrow> None)
     else if c = CHR ''p'' then
       (case ap of
          Va_ptr v # ap1 \<Rightarrow>
            (case put_chars putc [CHR ''0'', CHR ''x''] d of
               None \<Rightarrow> None | Some d1 \<Rightarrow> map_option (\<lambda>d2. (d2, ap1)) (put_uint putc v 16 False d1))
        | _ \<Rightarrow> None)
     else if c = CHR ''%'' then map_option (\<lambda>d1. (d1, ap)) (putc (CHR ''%'') d)
     else map_option (\<lambda>d1. (d1, ap)) (put_chars putc [CHR ''%'', c] d))"

text \<open>
  The walk over the format.  A format that ends behind a percent sign, or behind \<open>%ll\<close>, makes the loop step over
  the terminator and read on behind the string.
\<close>

fun kv_loop :: "'d putc_fn \<Rightarrow> string \<Rightarrow> va list \<Rightarrow> 'd \<Rightarrow> 'd option" where
  "kv_loop putc [] ap d = Some d"
| "kv_loop putc (c # p) ap d =
    (if c \<noteq> CHR ''%'' then
       (case put_chars putc (if c = CHR 0x0A then [CHR 0x0D, c] else [c]) d of None \<Rightarrow> None | Some d1 \<Rightarrow> kv_loop putc p ap d1)
     else
       (case p of
          [] \<Rightarrow> None
        | a # q \<Rightarrow>
            (case q of
               b # r \<Rightarrow>
                 if a = CHR ''l'' \<and> b = CHR ''l'' then
                   (case r of [] \<Rightarrow> None
                    | e # t \<Rightarrow> (case put_ll putc e ap d of None \<Rightarrow> None | Some (d1, ap1) \<Rightarrow> kv_loop putc t ap1 d1))
                 else (case put_plain putc a ap d of None \<Rightarrow> None | Some (d1, ap1) \<Rightarrow> kv_loop putc q ap1 d1)
             | [] \<Rightarrow> (case put_plain putc a ap d of None \<Rightarrow> None | Some (d1, ap1) \<Rightarrow> kv_loop putc q ap1 d1))))"

definition kvprintf :: "'d putc_fn \<Rightarrow> int option \<Rightarrow> string \<Rightarrow> va list \<Rightarrow> 'd \<Rightarrow> 'd option" where
  "kvprintf putc core_tag fmt ap d =
    (case (case core_tag of
             Some t \<Rightarrow>
               if t \<ge> 0 then
                 (case putc (CHR ''['') d of
                    None \<Rightarrow> None
                  | Some d1 \<Rightarrow>
                     (case put_uint putc (of_int t) 10 False d1 of
                        None \<Rightarrow> None | Some d2 \<Rightarrow> put_chars putc [CHR '']'', CHR '' ''] d2))
               else Some d
           | None \<Rightarrow> Some d) of
       None \<Rightarrow> None
     | Some d3 \<Rightarrow> kv_loop putc fmt ap d3)"

subsection \<open>Formatting does not depend on where the characters go\<close>

text \<open>Output into a buffer, and a sink that takes every character and remembers it in \<open>sent\<close>.\<close>

definition buffer_putc :: "string putc_fn" where
  "buffer_putc c o1 = Some (o1 @ [c])"

definition delivers :: "'d putc_fn \<Rightarrow> ('d \<Rightarrow> string) \<Rightarrow> bool" where
  "delivers putc sent \<longleftrightarrow> (\<forall>c d. \<exists>d'. putc c d = Some d' \<and> sent d' = sent d @ [c])"

text \<open>A step acts on the sink as it acts on a buffer; the second form also returns the arguments left.\<close>

definition follows :: "('d \<Rightarrow> string) \<Rightarrow> string option \<Rightarrow> string \<Rightarrow> 'd option \<Rightarrow> 'd \<Rightarrow> bool" where
  "follows sent r o0 r' d \<longleftrightarrow> (\<forall>o2. r = Some o2 \<longrightarrow> (\<exists>o1 d'. o2 = o0 @ o1 \<and> r' = Some d' \<and> sent d' = sent d @ o1))"

definition follows_args :: "('d \<Rightarrow> string) \<Rightarrow> (string \<times> va list) option \<Rightarrow> string \<Rightarrow> ('d \<times> va list) option \<Rightarrow> 'd \<Rightarrow> bool" where
  "follows_args sent r o0 r' d \<longleftrightarrow>
    (\<forall>o2 ap. r = Some (o2, ap) \<longrightarrow> (\<exists>o1 d'. o2 = o0 @ o1 \<and> r' = Some (d', ap) \<and> sent d' = sent d @ o1))"

lemma follows_None [simp]: "follows sent None o0 r' d" "follows_args sent None o0 q d"
  by (simp_all add: follows_def follows_args_def)

lemma follows_Some [simp]: "follows sent (Some o0) o0 (Some d) d"
  by (simp add: follows_def)

lemma follows_bind:
  assumes "follows sent r o0 r' d" and "\<And>o1 d1. follows sent (g o1) o1 (g' d1) d1"
  shows "follows sent (case r of None \<Rightarrow> None | Some o1 \<Rightarrow> g o1) o0 (case r' of None \<Rightarrow> None | Some d1 \<Rightarrow> g' d1) d"
  using assms by (cases r) (fastforce simp: follows_def)+

lemma follows_bind_args:
  assumes "follows_args sent r o0 r' d" and "\<And>o1 d1 ap. follows sent (g o1 ap) o1 (g' d1 ap) d1"
  shows "follows sent (case r of None \<Rightarrow> None | Some (o1, ap) \<Rightarrow> g o1 ap) o0 (case r' of None \<Rightarrow> None | Some (d1, ap) \<Rightarrow> g' d1 ap) d"
  using assms by (cases r) (fastforce simp: follows_def follows_args_def)+

lemma follows_map: "follows sent r o0 r' d \<Longrightarrow> follows_args sent (map_option (\<lambda>x. (x, ap)) r) o0 (map_option (\<lambda>x. (x, ap)) r') d"
  by (auto simp: follows_def follows_args_def)

lemmas follows_intros = follows_bind follows_bind_args follows_map

lemma follow_putc: "delivers putc sent \<Longrightarrow> follows sent (buffer_putc c o0) o0 (putc c d) d"
  unfolding delivers_def follows_def buffer_putc_def by fastforce

lemma follow_chars: "delivers putc sent \<Longrightarrow> follows sent (put_chars buffer_putc cs o0) o0 (put_chars putc cs d) d"
  by (induction cs arbitrary: o0 d) (simp_all add: follows_bind follow_putc)

lemma follow_raw: "delivers putc sent \<Longrightarrow> follows sent (puts_raw buffer_putc cs o0) o0 (puts_raw putc cs d) d"
  by (induction cs arbitrary: o0 d) (simp_all add: follows_bind follow_chars del: put_chars.simps)

lemma follow_uint: "delivers putc sent \<Longrightarrow> follows sent (put_uint buffer_putc v base up o0) o0 (put_uint putc v base up d) d"
  by (simp add: put_uint_def follow_putc follow_chars)

lemma follow_int: "delivers putc sent \<Longrightarrow> follows sent (put_int buffer_putc v o0) o0 (put_int putc v d) d"
  by (simp add: put_int_def follows_bind follow_putc follow_uint)

lemma follow_ll: "delivers putc sent \<Longrightarrow> follows_args sent (put_ll buffer_putc c ap o0) o0 (put_ll putc c ap d) d"
  by (simp add: put_ll_def follows_map follow_uint follow_int follow_chars del: put_chars.simps split: list.split va.split)

lemma follow_plain:
  assumes D: "delivers putc sent"
  shows "follows_args sent (put_plain buffer_putc c ap o0) o0 (put_plain putc c ap d) d"
proof -
  have "follows_args sent (case r of None \<Rightarrow> None | Some d1 \<Rightarrow> map_option (\<lambda>d2. (d2, ap1)) (put_uint buffer_putc v 16 False d1)) o0
      (case r' of None \<Rightarrow> None | Some d1 \<Rightarrow> map_option (\<lambda>d2. (d2, ap1)) (put_uint putc v 16 False d1)) d"
    if "follows sent r o0 r' d" for r r' v ap1
  proof -
    have "follows sent (case r of None \<Rightarrow> None | Some d1 \<Rightarrow> put_uint buffer_putc v 16 False d1) o0
      (case r' of None \<Rightarrow> None | Some d1 \<Rightarrow> put_uint putc v 16 False d1) d"
      by (intro follows_bind that follow_uint [OF D])
    from follows_map [OF this, of ap1] show ?thesis by (simp add: option.case_distrib [of "map_option _"] cong: option.case_cong)
  qed
  then show ?thesis
    by (simp add: D put_plain_def follows_map follow_uint follow_int follow_chars follow_putc follow_raw
        del: put_chars.simps split: list.split va.split)
qed

lemma follow_loop:
  assumes D: "delivers putc sent"
  shows "follows sent (kv_loop buffer_putc fmt ap o0) o0 (kv_loop putc fmt ap d) d"
proof (induction fmt arbitrary: ap o0 d rule: length_induct)
  case (1 fmt)
  then have IH: "follows sent (kv_loop buffer_putc q ap1 o1) o1 (kv_loop putc q ap1 d1) d1" if "length q < length fmt" for q ap1 o1 d1
    using that by blast
  show ?case
  proof (cases fmt)
    case (Cons c p)
    show ?thesis unfolding Cons kv_loop.simps(2) [of buffer_putc c p] kv_loop.simps(2) [of putc c p]
      using Cons
      by (auto intro!: follows_intros follow_chars [OF D] follow_ll [OF D] follow_plain [OF D] IH simp del: put_chars.simps kv_loop.simps split: list.split)
  qed simp
qed

lemma follow_kvprintf: "delivers putc sent \<Longrightarrow> follows sent (kvprintf buffer_putc tag fmt ap o0) o0 (kvprintf putc tag fmt ap d) d"
  unfolding kvprintf_def
  by (intro follows_bind follow_loop) (simp add: follows_bind follow_putc follow_uint follow_chars del: put_chars.simps split: option.split)


subsection \<open>The UARTs take what they are given\<close>

text \<open>
  What the manuals promise of a transmitter: reading its status changes nothing of what has been sent, a transmitter
  that reports room takes the character written next, and a full one has room again after finitely many readings.
\<close>

definition transmitter_laws :: "('d \<Rightarrow> 'd \<times> bool) \<Rightarrow> (u32 \<Rightarrow> 'd \<Rightarrow> 'd) \<Rightarrow> ('d \<Rightarrow> string) \<Rightarrow> bool" where
  "transmitter_laws ready write sent \<longleftrightarrow>
    (\<forall>d. sent (fst (ready d)) = sent d)
    \<and> (\<forall>d w. snd (ready d) \<longrightarrow> sent (write w (fst (ready d))) = sent d @ [char_of (unat (ucast w :: u8))])
    \<and> (\<forall>d. \<exists>n. snd (ready (((\<lambda>d. fst (ready d)) ^^ n) d)))"

lemma wait_returns:
  assumes "transmitter_laws ready write sent"
  shows "\<exists>d1. wait_until ready d = Some d1 \<and> sent (write w d1) = sent d @ [char_of (unat (ucast w :: u8))]"
proof -
  obtain n where "snd (ready (((\<lambda>d. fst (ready d)) ^^ n) d))" using assms unfolding transmitter_laws_def by blast
  then show ?thesis
  proof (induction n arbitrary: d)
    case 0
    then show ?case using assms unfolding transmitter_laws_def
      by (subst wait_until.simps) (auto split: prod.split)
  next
    case (Suc n)
    show ?case
    proof (cases "snd (ready d)")
      case True
      then show ?thesis using assms unfolding transmitter_laws_def
        by (subst wait_until.simps) (auto split: prod.split)
    next
      case False
      have "snd (ready (((\<lambda>d. fst (ready d)) ^^ n) (fst (ready d))))" using Suc.prems by (simp only: funpow_Suc_right o_apply)
      from Suc.IH [OF this] False show ?thesis using assms unfolding transmitter_laws_def
        by (subst wait_until.simps) (auto split: prod.split)
    qed
  qed
qed

lemma ucast_scast_u8: "ucast (scast (b :: u8) :: u32) = b"
  by (rule bit_word_eqI) (simp add: bit_ucast_iff bit_signed_iff)

lemma ucast_ucast_u8: "ucast (ucast (b :: u8) :: u32) = b"
  by (rule bit_word_eqI) (simp add: bit_ucast_iff)

lemma putc_aarch64_delivers:
  assumes "transmitter_laws (transmit_ready io s)
      (io_write io (g_pl011_base s + (if g_is_cadence s then CADENCE_FIFO else PL011_DR))) sent" and "g_ready s"
  shows "delivers (putc_aarch64 io s) sent"
  unfolding delivers_def
proof (intro allI)
  fix c d
  obtain d1 where "wait_until (transmit_ready io s) d = Some d1"
    "sent (io_write io (g_pl011_base s + (if g_is_cadence s then CADENCE_FIFO else PL011_DR)) (scast (of_char c :: u8)) d1) = sent d @ [c]"
    using wait_returns [OF assms(1), of d "scast (of_char c :: u8)"] by (auto simp: ucast_scast_u8 unat_of_char)
  then show "\<exists>d'. putc_aarch64 io s c d = Some d' \<and> sent d' = sent d @ [c]" using assms(2) by (simp add: putc_aarch64_def)
qed

lemma putc_x86_64_delivers:
  assumes "transmitter_laws (transmit_empty io) (io_write io COM1) sent"
  shows "delivers (putc_x86_64 io) sent"
  unfolding delivers_def
proof (intro allI)
  fix c d
  obtain d1 where "wait_until (transmit_empty io) d = Some d1" "sent (io_write io COM1 (ucast (of_char c :: u8)) d1) = sent d @ [c]"
    using wait_returns [OF assms, of d "ucast (of_char c :: u8)"] by (auto simp: ucast_ucast_u8 unat_of_char)
  then show "\<exists>d'. putc_x86_64 io c d = Some d' \<and> sent d' = sent d @ [c]" by (simp add: putc_x86_64_def)
qed

subsection \<open>Numbers\<close>

text \<open>How a number is read back from its digits.\<close>

primrec number_from :: "nat \<Rightarrow> bool \<Rightarrow> nat \<Rightarrow> string \<Rightarrow> nat option" where
  "number_from b upper acc [] = Some acc"
| "number_from b upper acc (c # cs) =
    (case first_slot ((=) c) (digit_chars upper) of
       None \<Rightarrow> None
     | Some k \<Rightarrow> if k < b then number_from b upper (acc * b + k) cs else None)"

primrec digits_of :: "nat \<Rightarrow> nat \<Rightarrow> nat \<Rightarrow> nat list" where
  "digits_of b 0 n = []"
| "digits_of b (Suc k) n = (if n = 0 then [] else n mod b # digits_of b k (n div b))"

lemma digits_value: "n < b ^ k \<Longrightarrow> foldr (\<lambda>x a. x + b * a) (digits_of b k n) 0 = n"
proof (induction k arbitrary: n)
  case (Suc k)
  then have "n div b < b ^ k" by (cases "b = 0") (simp_all add: less_mult_imp_div_less mult.commute)
  from Suc.IH [OF this] show ?case by simp
qed simp

lemma digits_small: "0 < b \<Longrightarrow> x \<in> set (digits_of b k n) \<Longrightarrow> x < b"
  by (induction k arbitrary: n) (auto split: if_splits)

lemma digit_loop_digits:
  "digit_loop v base upper buf = buf @ map (\<lambda>x. digit_chars upper ! x) (digits_of (unat base) (32 - length buf) (unat v))"
proof (induction v base upper buf rule: digit_loop.induct)
  case (1 v base upper buf)
  show ?case
  proof (cases "v > 0 \<and> length buf < 32")
    case True
    then have "32 - length buf = Suc (31 - length buf)" "unat v \<noteq> 0" by (auto simp: word_gt_0 unat_eq_0)
    then show ?thesis using 1 [OF True] True
      by (subst digit_loop.simps) (simp add: unat_div_distrib unat_mod_distrib)
  next
    case False
    then have "unat v = 0 \<or> 32 - length buf = 0" by (auto simp: word_gt_0)
    then show ?thesis using False by (subst digit_loop.simps) (cases "32 - length buf"; auto)
  qed
qed

lemma digit_char_slot: "x < 16 \<Longrightarrow> first_slot ((=) (digit_chars upper ! x)) (digit_chars upper) = Some x"
proof -
  have "list_all (\<lambda>x. first_slot ((=) (digit_chars True ! x)) (digit_chars True) = Some x) [0..<16]"
    "list_all (\<lambda>x. first_slot ((=) (digit_chars False ! x)) (digit_chars False) = Some x) [0..<16]"
    by code_simp+
  then show "x < 16 \<Longrightarrow> first_slot ((=) (digit_chars upper ! x)) (digit_chars upper) = Some x"
    by (cases upper) (simp_all add: list_all_iff)
qed

lemma number_of_digits:
  assumes "\<forall>x \<in> set ds. x < b" "b \<le> 16"
  shows "number_from b upper acc (rev (map (\<lambda>x. digit_chars upper ! x) ds)) = Some (acc * b ^ length ds + foldr (\<lambda>x a. x + b * a) ds 0)"
proof -
  have app: "number_from b upper acc (xs @ ys) = (case number_from b upper acc xs of None \<Rightarrow> None | Some a \<Rightarrow> number_from b upper a ys)"
    for acc xs ys by (induction xs arbitrary: acc) (auto split: option.split)
  show ?thesis using assms
    by (induction ds arbitrary: acc) (simp_all add: app digit_char_slot algebra_simps)
qed

lemma digits_last: "0 < n \<Longrightarrow> n < b ^ k \<Longrightarrow> digits_of b k n \<noteq> [] \<and> last (digits_of b k n) \<noteq> 0"
proof (induction k arbitrary: n)
  case (Suc k)
  show ?case
  proof (cases "n div b = 0")
    case True
    then have "digits_of b k (n div b) = []" by (cases k) simp_all
    moreover have "n mod b = n" using True Suc.prems div_mult_mod_eq [of n b] by simp
    ultimately show ?thesis using Suc.prems by simp
  next
    case False
    have "n div b < b ^ k" using Suc.prems by (cases "b = 0") (simp_all add: less_mult_imp_div_less mult.commute)
    then show ?thesis using Suc.IH [of "n div b"] False Suc.prems by simp
  qed
qed simp

lemma buffer_chars: "put_chars buffer_putc cs o0 = Some (o0 @ cs)"
  by (induction cs arbitrary: o0) (simp_all add: buffer_putc_def)

subsection \<open>Properties\<close>

text \<open>
  C32: A printed number reads back.  For every 64-bit value the digits \<open>put_uint\<close> writes in base 10 or 16 denote that value,
  and there is no leading zero: the buffer of 32 characters never cuts one short.
\<close>

theorem printed_number_reads_back:
  assumes "base = 10 \<or> base = 16"
  shows "\<exists>s. put_uint buffer_putc v base upper [] = Some s \<and> number_from (unat base) upper 0 s = Some (unat v)
    \<and> (v \<noteq> 0 \<longrightarrow> hd s \<noteq> CHR ''0'')"
proof (cases "v = 0")
  case True
  have "number_from (unat base) upper 0 ''0'' = Some 0" using assms digit_char_slot [of 0 upper] by (auto simp: digit_chars_def)
  then show ?thesis using True by (simp add: put_uint_def buffer_putc_def)
next
  case False
  define b where "b = unat base"
  have b: "b = 10 \<or> b = 16" using assms by (auto simp: b_def)
  have "unat v < 2 ^ 64" using unsigned_less [of v] by simp
  also have "(2 :: nat) ^ 64 \<le> b ^ 32" using b by auto
  finally have v: "unat v < b ^ 32" "0 < unat v" using False by (simp_all add: unat_gt_0)
  let ?ds = "digits_of b 32 (unat v)" and ?ch = "\<lambda>x. digit_chars upper ! x"
  have small: "\<forall>x \<in> set ?ds. x < b" using digits_small b by auto
  have l: "?ds \<noteq> [] \<and> last ?ds \<noteq> 0" by (rule digits_last [OF v(2,1)])
  then have "last ?ds < 16" using small b last_in_set [of ?ds] by fastforce
  note slots = digit_char_slot [OF this, of upper] digit_char_slot [of 0 upper]
  have "?ch 0 = CHR ''0''" by (simp add: digit_chars_def)
  with slots l have "?ch (last ?ds) \<noteq> CHR ''0''" by auto
  then have "hd (rev (map ?ch ?ds)) \<noteq> CHR ''0''" using l by (simp add: hd_rev last_map)
  moreover have "number_from b upper 0 (rev (map ?ch ?ds)) = Some (unat v)"
    using number_of_digits [OF small, of upper 0] digits_value [OF v(1)] b by auto
  moreover have "put_uint buffer_putc v base upper [] = Some (rev (map ?ch ?ds))"
    using False by (simp add: put_uint_def digit_loop_digits buffer_chars b_def)
  ultimately show ?thesis unfolding b_def by blast
qed

theorem printed_number_reads_back_witness:
  "(\<exists>s. put_uint buffer_putc 0xFFFFFFFFFFFFFFFF 10 False [] = Some s \<and> number_from 10 False 0 s = Some 18446744073709551615)
   \<and> put_uint buffer_putc 0xFFFFFFFFFFFFFFFF 10 False [] = Some ''18446744073709551615''"
proof (rule conjI)
  show "\<exists>s. put_uint buffer_putc 0xFFFFFFFFFFFFFFFF 10 False [] = Some s \<and> number_from 10 False 0 s = Some 18446744073709551615"
    using printed_number_reads_back [of 10 "0xFFFFFFFFFFFFFFFF" False] by auto
  show "put_uint buffer_putc 0xFFFFFFFFFFFFFFFF 10 False [] = Some ''18446744073709551615''" by code_simp
qed


text \<open>A transmitter that is full for two readings after each character.\<close>

definition demo_uart :: "(string \<times> nat) io" where
  "demo_uart = \<lparr>io_read = (\<lambda>a (t, n). ((t, n - 1), if n = 0 then 0 else PL011_FR_TXFF)),
     io_write = (\<lambda>a w (t, n). (t @ [char_of (unat (ucast w :: u8))], 2))\<rparr>"

definition demo_serial :: serial where
  "demo_serial = \<lparr>g_pl011_base = 0x9000000, g_is_cadence = False, g_ready = True\<rparr>"

lemma demo_uart_laws: "transmitter_laws (transmit_ready demo_uart demo_serial) (io_write demo_uart (0x9000000 + PL011_DR)) fst"
proof -
  have r: "transmit_ready demo_uart demo_serial (t, n) = ((t, n - 1), n = 0)" for t n
    by (simp add: transmit_ready_def demo_uart_def demo_serial_def PL011_FR_TXFF_def)
  have "((\<lambda>d. fst (transmit_ready demo_uart demo_serial d)) ^^ k) (t, n) = (t, n - k)" for k t n
    by (induction k) (simp_all add: r)
  then have "\<exists>k. snd (transmit_ready demo_uart demo_serial (((\<lambda>d. fst (transmit_ready demo_uart demo_serial d)) ^^ k) (t, n)))" for t n
    by (intro exI [of _ n]) (simp add: r)
  then show ?thesis by (auto simp: transmitter_laws_def r) (simp add: demo_uart_def)
qed


end
