(* ===== verification/Acpi_Tables.thy ===== *)
theory Acpi_Tables
  imports Byte_Memory
begin

text \<open>
  ACPI tables in physical memory, as both machine descriptions read them (\<open>acpi_x86_64.c\<close>, \<open>topology_aarch64.c\<close>): the fields
  of the root pointer and of table headers, checksums and signatures, the list of cores both produce
  (\<open>topology.h\<close>), and how the entries of an interrupt table lie in memory.
\<close>

definition load32 :: "memory \<Rightarrow> u64 \<Rightarrow> u32" where
  "load32 m a = le_word (read_bytes m a 4)"

definition rsdp_revision :: "memory \<Rightarrow> u64 \<Rightarrow> u8" where "rsdp_revision m a = m (a + 15)"
definition rsdt_address :: "memory \<Rightarrow> u64 \<Rightarrow> u32" where "rsdt_address m a = load32 m (a + 16)"
definition rsdp_length :: "memory \<Rightarrow> u64 \<Rightarrow> u32" where "rsdp_length m a = load32 m (a + 20)"
definition xsdt_address :: "memory \<Rightarrow> u64 \<Rightarrow> u64" where "xsdt_address m a = load64 m (a + 24)"

text \<open>A table header is 36 bytes long; its length covers the whole table.\<close>

definition SDT_HEADER :: u64 where "SDT_HEADER = 36"
definition sdt_length :: "memory \<Rightarrow> u64 \<Rightarrow> u32" where "sdt_length m a = load32 m (a + 4)"
definition sdt_revision :: "memory \<Rightarrow> u64 \<Rightarrow> u8" where "sdt_revision m a = m (a + 8)"

definition sum_bytes :: "memory \<Rightarrow> u64 \<Rightarrow> nat \<Rightarrow> u8" where
  "sum_bytes m p len = fold (\<lambda>i s. s + m (p + of_nat i)) [0..<len] 0"

fun signature_matches :: "memory \<Rightarrow> u64 \<Rightarrow> string \<Rightarrow> bool" where
  "signature_matches m sig [] \<longleftrightarrow> True"
| "signature_matches m sig (c # cs) \<longleftrightarrow> (if m sig \<noteq> of_char c then False else signature_matches m (sig + 1) cs)"

declare signature_matches.simps [simp del]

text \<open>The first table a list of addresses names that has the signature and a correct checksum.\<close>

fun find_table_entry :: "memory \<Rightarrow> (nat \<Rightarrow> u64) \<Rightarrow> string \<Rightarrow> nat \<Rightarrow> nat \<Rightarrow> u64 option" where
  "find_table_entry m entry sig i 0 = None"
| "find_table_entry m entry sig i (Suc k) =
    (if signature_matches m (entry i) sig \<and> sum_bytes m (entry i) (unat (sdt_length m (entry i))) = 0 then Some (entry i)
     else find_table_entry m entry sig (Suc i) k)"

lemma unat_ucast_byte [simp]: "unat (ucast (b :: u8) :: u64) = unat b"
  by (rule unat_ucast_u64) simp

subsection \<open>The result\<close>

definition TOPOLOGY_MAX_CORES :: nat where "TOPOLOGY_MAX_CORES = 64"

record topology_core_t =
  target :: u64
  enabled :: bool

record topology_t =
  cores :: "topology_core_t list"
  core_count :: nat
  arch_opaque :: "u64 list"

text \<open>The cores a caller finds, by the loop bound it is given.\<close>

definition listed_cores :: "topology_t \<Rightarrow> topology_core_t list" where
  "listed_cores t = take (core_count t) (cores t)"

subsection \<open>Entries of an interrupt table\<close>

text \<open>An entry is its type, its length and the rest; the table is one after the other.\<close>

type_synonym madt_entry = "u8 \<times> bytes"

definition entry_ok :: "madt_entry \<Rightarrow> bool" where
  "entry_ok e \<longleftrightarrow> length (snd e) + 2 \<le> 255"

definition entry_bytes :: "madt_entry \<Rightarrow> bytes" where
  "entry_bytes e = [fst e, of_nat (length (snd e) + 2)] @ snd e"

definition holds_bytes :: "memory \<Rightarrow> u64 \<Rightarrow> bytes \<Rightarrow> bool" where
  "holds_bytes m a bs \<longleftrightarrow> read_bytes m a (length bs) = bs"

lemma holds_bytes_nth: "holds_bytes m a bs \<Longrightarrow> i < length bs \<Longrightarrow> m (a + of_nat i) = bs ! i"
  using nth_read_bytes [of i "length bs" m a] by (simp add: holds_bytes_def)

lemma holds_bytes_append: "holds_bytes m a (xs @ ys) \<longleftrightarrow> holds_bytes m a xs \<and> holds_bytes m (a + of_nat (length xs)) ys"
proof -
  have "read_bytes m a (length xs + length ys) = read_bytes m a (length xs) @ read_bytes m (a + of_nat (length xs)) (length ys)"
    by (simp add: list_eq_iff_nth_eq nth_append add.assoc flip: of_nat_add)
  then show ?thesis by (simp add: holds_bytes_def)
qed

lemma entry_length: "entry_ok e \<Longrightarrow> unat (of_nat (length (snd e) + 2) :: u8) = length (entry_bytes e)"
  by (simp only: entry_ok_def entry_bytes_def unsigned_of_nat) (simp add: take_bit_nat_eq_self)

lemma entry_fields:
  assumes "holds_bytes m a (entry_bytes e)" "entry_ok e"
  shows "m a = fst e" "unat (m (a + 1)) = length (entry_bytes e)" "\<not> m (a + 1) < 2"
    "a + ucast (m (a + 1)) = a + of_nat (length (entry_bytes e))"
    "i < length (snd e) \<Longrightarrow> m (a + 2 + of_nat i) = snd e ! i"
proof -
  show "m a = fst e" using holds_bytes_nth [OF assms(1), of 0] by (simp add: entry_bytes_def)
  have "m (a + 1) = of_nat (length (snd e) + 2)" using holds_bytes_nth [OF assms(1), of 1] by (simp add: entry_bytes_def)
  then show l: "unat (m (a + 1)) = length (entry_bytes e)" using entry_length [OF assms(2)] by simp
  then show "\<not> m (a + 1) < 2" by (simp add: word_less_nat_alt entry_bytes_def)
  have "ucast (m (a + 1)) = (of_nat (unat (m (a + 1))) :: u64)" by simp
  then show "a + ucast (m (a + 1)) = a + of_nat (length (entry_bytes e))" by (simp only: l)
  show "m (a + 2 + of_nat i) = snd e ! i" if "i < length (snd e)"
    using holds_bytes_nth [OF assms(1), of "i + 2"] that by (simp add: entry_bytes_def ac_simps)
qed

text \<open>A table with its signature and a correct checksum, and the first such table of a list.\<close>

definition valid_table :: "memory \<Rightarrow> string \<Rightarrow> u64 \<Rightarrow> bool" where
  "valid_table m sig a \<longleftrightarrow> signature_matches m a sig \<and> sum_bytes m a (unat (sdt_length m a)) = 0"

definition first_listed :: "memory \<Rightarrow> (nat \<Rightarrow> u64) \<Rightarrow> nat \<Rightarrow> string \<Rightarrow> u64 \<Rightarrow> bool" where
  "first_listed m entry n sig a \<longleftrightarrow>
    (\<exists>i < n. entry i = a \<and> valid_table m sig a \<and> (\<forall>j < i. \<not> valid_table m sig (entry j)))"

lemma find_entry_first:
  "find_table_entry m entry sig k n = Some a \<longleftrightarrow>
    (\<exists>i < n. entry (k + i) = a \<and> valid_table m sig a \<and> (\<forall>j < i. \<not> valid_table m sig (entry (k + j))))"
proof (induction n arbitrary: k)
  case (Suc n)
  show ?case
  proof (cases "valid_table m sig (entry k)")
    case True
    then show ?thesis by (auto simp: valid_table_def Ex_less_Suc2 All_less_Suc2)
  next
    case False
    then have "find_table_entry m entry sig k (Suc n) = find_table_entry m entry sig (Suc k) n" by (auto simp: valid_table_def)
    with False Suc.IH [of "Suc k"] show ?thesis by (auto simp: Ex_less_Suc2 All_less_Suc2)
  qed
qed simp

lemma find_entry_listed: "find_table_entry m entry sig 0 n = Some a \<longleftrightarrow> first_listed m entry n sig a"
  by (simp add: find_entry_first first_listed_def)

text \<open>Memory that holds the given runs of bytes and is zero elsewhere.\<close>

primrec placed :: "(u64 \<times> bytes) list \<Rightarrow> memory" where
  "placed [] a = 0"
| "placed (r # rs) a = (if a - fst r < of_nat (length (snd r)) then snd r ! unat (a - fst r) else placed rs a)"

end
