(* ===== verification/Acpi_X86.thy ===== *)
theory Acpi_X86
  imports Acpi_Tables
begin

text \<open>
  Core discovery on x86-64 (\<open>acpi_x86_64.c\<close>): the root pointer is taken from the boot handoff or searched for, the interrupt
  table is found through the extended or the plain root table, and its local APIC entries become the list of cores.
  The two loops that run over addresses are partial functions, so that not ending is a value of the model.
\<close>

definition ACPI_MAX_CPUS :: nat where "ACPI_MAX_CPUS = 64"
definition MADT_TYPE_LOCAL_APIC :: u8 where "MADT_TYPE_LOCAL_APIC = 0"
definition MADT_LAPIC_FLAG_ENABLED :: u32 where "MADT_LAPIC_FLAG_ENABLED = 1"

record acpi_cpu_t =
  apic_id :: u8
  cpu_enabled :: bool

record acpi_info_t =
  cpus :: "acpi_cpu_t list"
  local_apic_address :: u32

definition validate_rsdp :: "memory \<Rightarrow> u64 \<Rightarrow> u64 option" where
  "validate_rsdp m addr =
    (if \<not> signature_matches m addr ''RSD PTR '' then None
     else if sum_bytes m addr 20 \<noteq> 0 then None
     else if rsdp_revision m addr \<ge> 2 \<and> sum_bytes m addr (unat (rsdp_length m addr)) \<noteq> 0 then None
     else Some addr)"

partial_function (option) scan_for_rsdp :: "memory \<Rightarrow> u64 \<Rightarrow> u64 \<Rightarrow> u64 option option" where
  [code]: "scan_for_rsdp m addr end =
    (if addr < end then (case validate_rsdp m addr of Some found \<Rightarrow> Some (Some found) | None \<Rightarrow> scan_for_rsdp m (addr + 16) end)
     else Some None)"

definition find_rsdp :: "memory \<Rightarrow> u64 option option" where
  "find_rsdp m =
    (let ebda_segment = (le_word (read_bytes m 0x40E 2) :: u16); ebda_addr = push_bit 4 (ucast ebda_segment) :: u64 in
     case (if ebda_addr \<noteq> 0 then scan_for_rsdp m ebda_addr (ebda_addr + 1024) else Some None) of
       None \<Rightarrow> None
     | Some (Some found) \<Rightarrow> Some (Some found)
     | Some None \<Rightarrow> scan_for_rsdp m 0xE0000 0x100000)"

text \<open>The length is widened before the header is subtracted, and the count is cut to 32 bits.\<close>

definition find_table_rsdt :: "memory \<Rightarrow> u32 \<Rightarrow> string \<Rightarrow> u64 option" where
  "find_table_rsdt m rsdt_phys sig =
    (let rsdt = ucast rsdt_phys :: u64 in
     if \<not> signature_matches m rsdt ''RSDT'' then None
     else if sum_bytes m rsdt (unat (sdt_length m rsdt)) \<noteq> 0 then None
     else let entry_count = ucast ((ucast (sdt_length m rsdt) - SDT_HEADER) div 4) :: u32
       in find_table_entry m (\<lambda>i. ucast (load32 m (rsdt + SDT_HEADER + 4 * of_nat i))) sig 0 (unat entry_count))"

definition find_table_xsdt :: "memory \<Rightarrow> u64 \<Rightarrow> string \<Rightarrow> u64 option" where
  "find_table_xsdt m xsdt sig =
    (if \<not> signature_matches m xsdt ''XSDT'' then None
     else if sum_bytes m xsdt (unat (sdt_length m xsdt)) \<noteq> 0 then None
     else let entry_count = ucast ((ucast (sdt_length m xsdt) - SDT_HEADER) div 8) :: u32
       in find_table_entry m (\<lambda>i. load64 m (xsdt + SDT_HEADER + 8 * of_nat i)) sig 0 (unat entry_count))"

definition lapic_cpu :: "memory \<Rightarrow> u64 \<Rightarrow> acpi_cpu_t" where
  "lapic_cpu m p =
    (let flags = ucast (m (p + 4)) OR push_bit 8 (ucast (m (p + 5))) OR push_bit 16 (ucast (m (p + 6))) OR push_bit 24 (ucast (m (p + 7))) :: u32
     in \<lparr>apic_id = m (p + 3), cpu_enabled = (flags AND MADT_LAPIC_FLAG_ENABLED \<noteq> 0)\<rparr>)"

partial_function (option) madt_loop :: "memory \<Rightarrow> u64 \<Rightarrow> u64 \<Rightarrow> acpi_cpu_t list \<Rightarrow> acpi_cpu_t list option" where
  [code]: "madt_loop m p end found =
    (if p < end \<and> length found < ACPI_MAX_CPUS then
       (if m (p + 1) < 2 then Some found
        else madt_loop m (p + ucast (m (p + 1))) end
               (if m p = MADT_TYPE_LOCAL_APIC \<and> m (p + 1) \<ge> 8 then found @ [lapic_cpu m p] else found))
     else Some found)"

definition find_madt :: "memory \<Rightarrow> u64 \<Rightarrow> u64 option" where
  "find_madt m rsdp =
    (case (if rsdp_revision m rsdp \<ge> 2 \<and> xsdt_address m rsdp \<noteq> 0 then find_table_xsdt m (xsdt_address m rsdp) ''APIC'' else None) of
       Some madt \<Rightarrow> Some madt
     | None \<Rightarrow> find_table_rsdt m (rsdt_address m rsdp) ''APIC'')"

text \<open>The outer option is whether discovery ends, the inner one whether it succeeds.\<close>

definition acpi_discover :: "memory \<Rightarrow> u64 \<Rightarrow> acpi_info_t option option" where
  "acpi_discover m early_rsdp_phys =
    (case (if early_rsdp_phys \<noteq> 0 then Some (validate_rsdp m early_rsdp_phys) else find_rsdp m) of
       None \<Rightarrow> None
     | Some None \<Rightarrow> Some None
     | Some (Some rsdp) \<Rightarrow>
        (case find_madt m rsdp of
           None \<Rightarrow> Some None
         | Some madt \<Rightarrow>
            map_option (\<lambda>cs. Some \<lparr>cpus = cs, local_apic_address = load32 m (madt + SDT_HEADER)\<rparr>)
              (madt_loop m (madt + SDT_HEADER + 8) (madt + ucast (sdt_length m madt)) [])))"

definition core_of :: "acpi_cpu_t \<Rightarrow> topology_core_t" where
  "core_of c = \<lparr>target = ucast (apic_id c), enabled = cpu_enabled c\<rparr>"

definition topology_discover_x86 :: "memory \<Rightarrow> topology_t \<Rightarrow> u64 \<Rightarrow> (topology_t \<times> bool) option" where
  "topology_discover_x86 m out arch_hint =
    (case acpi_discover m arch_hint of
       None \<Rightarrow> None
     | Some None \<Rightarrow> Some (out\<lparr>core_count := 0, arch_opaque := (arch_opaque out)[0 := 0]\<rparr>, False)
     | Some (Some acpi) \<Rightarrow>
         Some (out\<lparr>core_count := length (cpus acpi),
                   cores := fold (\<lambda>i cs. cs[i := core_of (cpus acpi ! i)]) [0..<min (length (cpus acpi)) TOPOLOGY_MAX_CORES] (cores out),
                   arch_opaque := [ucast (local_apic_address acpi), 0, 0, 0]\<rparr>, True))"

definition topology_timer_hint_x86 :: "topology_t \<Rightarrow> u64" where
  "topology_timer_hint_x86 t = arch_opaque t ! 0"

subsection \<open>Both loops end\<close>

lemma scan_ends: "unat end + 16 < 18446744073709551616 \<Longrightarrow> scan_for_rsdp m addr end \<noteq> None"
proof (induction "unat end - unat addr" arbitrary: addr rule: less_induct)
  case less
  show ?case
  proof (cases "addr < end")
    case True
    then have "unat addr < unat end" by (simp add: word_less_nat_alt)
    moreover from this less.prems have "unat (addr + 16) = unat addr + 16" by (simp add: no_wrap_if_lt)
    ultimately show ?thesis using less.hyps [of "addr + 16"] less.prems True
      by (subst scan_for_rsdp.simps) (simp split: option.split)
  qed (subst scan_for_rsdp.simps, simp)
qed

lemma madt_loop_ends: "unat end + 255 < 18446744073709551616 \<Longrightarrow> madt_loop m p end found \<noteq> None"
proof (induction "unat end - unat p" arbitrary: p found rule: less_induct)
  case less
  show ?case
  proof (cases "p < end \<and> length found < ACPI_MAX_CPUS \<and> \<not> m (p + 1) < 2")
    case True
    then have lt: "unat p < unat end" and len: "unat (m (p + 1)) \<ge> 2" by (simp_all add: word_less_nat_alt)
    have "unat (m (p + 1)) \<le> 255" using unat_byte by (simp add: less_Suc_eq_le [symmetric])
    then have "unat (p + ucast (m (p + 1))) = unat p + unat (m (p + 1))"
      using lt less.prems by (subst no_wrap_if_lt) (simp_all add: unat_ucast_byte)
    then show ?thesis using less.hyps [of "p + ucast (m (p + 1))"] less.prems True lt len
      by (subst madt_loop.simps) simp
  qed (subst madt_loop.simps, auto)
qed

subsection \<open>The entries become the cores\<close>

definition is_lapic :: "madt_entry \<Rightarrow> bool" where
  "is_lapic e \<longleftrightarrow> fst e = MADT_TYPE_LOCAL_APIC \<and> length (snd e) \<ge> 6"

definition entry_cpu :: "madt_entry \<Rightarrow> acpi_cpu_t" where
  "entry_cpu e = \<lparr>apic_id = snd e ! 1, cpu_enabled = bit (snd e ! 2) 0\<rparr>"

lemma low_flag: "(f AND 1 \<noteq> 0) = bit f 0" for f :: u32
  by (simp add: and_one_eq bit_0 odd_iff_mod_2_eq_one)

lemma lapic_cpu_entry:
  assumes "holds_bytes m p (entry_bytes e)" "entry_ok e" "length (snd e) \<ge> 6"
  shows "lapic_cpu m p = entry_cpu e"
proof -
  have "m (p + 3) = snd e ! 1" "m (p + 4) = snd e ! 2"
    using entry_fields(5) [OF assms(1,2), of 1] entry_fields(5) [OF assms(1,2), of 2] assms(3) by (simp_all add: add.assoc)
  then show ?thesis by (simp add: lapic_cpu_def entry_cpu_def MADT_LAPIC_FLAG_ENABLED_def low_flag bit_simps)
qed

lemma madt_loop_entries:
  assumes "list_all entry_ok es" and "holds_bytes m p (concat (map entry_bytes es))"
    and "unat p + length (concat (map entry_bytes es)) < 18446744073709551616" and "length found \<le> ACPI_MAX_CPUS"
  shows "madt_loop m p (p + of_nat (length (concat (map entry_bytes es)))) found
    = Some (take ACPI_MAX_CPUS (found @ map entry_cpu (filter is_lapic es)))"
  using assms
proof (induction es arbitrary: p found)
  case Nil
  then show ?case by (subst madt_loop.simps) simp
next
  case (Cons e es)
  let ?l = "length (entry_bytes e)" and ?r = "length (concat (map entry_bytes es))"
  let ?stop = "p + of_nat (?l + ?r)" and ?q = "p + of_nat ?l"
  let ?f = "found @ (if is_lapic e then [entry_cpu e] else [])"
  have h: "holds_bytes m p (entry_bytes e)" "holds_bytes m ?q (concat (map entry_bytes es))" and e: "entry_ok e"
    using Cons.prems by (simp_all add: holds_bytes_append)
  have u: "unat (of_nat (?l + ?r) :: u64) = ?l + ?r" "unat (of_nat ?l :: u64) = ?l"
    using Cons.prems(3) by (intro unat_of_nat_u64; simp)+
  have "unat ?stop = unat p + (?l + ?r)" using Cons.prems(3) by (subst no_wrap_if_lt) (simp_all only: u, simp)
  moreover have "2 \<le> ?l" by (simp add: entry_bytes_def)
  ultimately have lt: "p < ?stop" unfolding word_less_nat_alt by linarith
  have q: "unat ?q = unat p + ?l" using Cons.prems(3) by (subst no_wrap_if_lt) (simp_all only: u, simp)
  show ?case
  proof (cases "length found = ACPI_MAX_CPUS")
    case True
    then show ?thesis by (subst madt_loop.simps) simp
  next
    case False
    have "is_lapic e = (m p = MADT_TYPE_LOCAL_APIC \<and> m (p + 1) \<ge> 8)"
      using entry_fields(1,2) [OF h(1) e] by (simp add: is_lapic_def word_le_nat_alt entry_bytes_def)
    then have "(if m p = MADT_TYPE_LOCAL_APIC \<and> m (p + 1) \<ge> 8 then found @ [lapic_cpu m p] else found) = ?f"
      using lapic_cpu_entry [OF h(1) e] by (auto simp: is_lapic_def)
    then have step: "madt_loop m p ?stop found = madt_loop m ?q ?stop ?f"
      using False lt entry_fields(3,4) [OF h(1) e] Cons.prems(4) by (subst madt_loop.simps) simp
    have "madt_loop m ?q (?q + of_nat ?r) ?f = Some (take ACPI_MAX_CPUS (?f @ map entry_cpu (filter is_lapic es)))"
      using Cons.prems q False h(2) by (intro Cons.IH) (auto simp: ACPI_MAX_CPUS_def)
    moreover have "?stop = ?q + of_nat ?r" by simp
    moreover have "?f @ map entry_cpu (filter is_lapic es) = found @ map entry_cpu (filter is_lapic (e # es))" by simp
    ultimately have "madt_loop m p ?stop found = Some (take ACPI_MAX_CPUS (found @ map entry_cpu (filter is_lapic (e # es))))"
      using step by (simp only:)
    then show ?thesis by (simp only: list.map concat.simps length_append)
  qed
qed

text \<open>A machine description in memory: a root pointer of revision 2 whose extended table lists an interrupt table first
  among those with its signature, and that table with these entries.\<close>

definition xsdt_entry :: "memory \<Rightarrow> u64 \<Rightarrow> nat \<Rightarrow> u64" where
  "xsdt_entry m xsdt i = load64 m (xsdt + SDT_HEADER + 8 * of_nat i)"

definition describes_cores :: "memory \<Rightarrow> u64 \<Rightarrow> u64 \<Rightarrow> madt_entry list \<Rightarrow> bool" where
  "describes_cores m rsdp madt es \<longleftrightarrow>
    rsdp \<noteq> 0 \<and> validate_rsdp m rsdp = Some rsdp \<and> rsdp_revision m rsdp \<ge> 2 \<and> xsdt_address m rsdp \<noteq> 0
    \<and> valid_table m ''XSDT'' (xsdt_address m rsdp)
    \<and> (\<exists>n. sdt_length m (xsdt_address m rsdp) = of_nat (36 + 8 * n) \<and> 36 + 8 * n < 4294967296
           \<and> first_listed m (xsdt_entry m (xsdt_address m rsdp)) n ''APIC'' madt)
    \<and> list_all entry_ok es \<and> holds_bytes m (madt + SDT_HEADER + 8) (concat (map entry_bytes es))
    \<and> unat (sdt_length m madt) = 44 + length (concat (map entry_bytes es))
    \<and> unat madt + unat (sdt_length m madt) < 18446744073709551616"

lemma find_madt_listed:
  assumes "describes_cores m rsdp madt es"
  shows "find_madt m rsdp = Some madt"
proof -
  let ?x = "xsdt_address m rsdp"
  obtain n where n: "sdt_length m ?x = of_nat (36 + 8 * n)" "36 + 8 * n < 4294967296"
    "first_listed m (xsdt_entry m ?x) n ''APIC'' madt" using assms unfolding describes_cores_def by blast
  have l: "unat (sdt_length m ?x) = 36 + 8 * n"
    using n(2) unfolding n(1) by (simp only: unsigned_of_nat) (simp add: take_bit_nat_eq_self)
  have "(ucast (sdt_length m ?x) :: u64) = of_nat (unat (sdt_length m ?x))" by simp
  then have "(ucast (sdt_length m ?x) :: u64) - SDT_HEADER = of_nat (8 * n)" unfolding l by (simp add: SDT_HEADER_def)
  then have "((ucast (sdt_length m ?x) :: u64) - SDT_HEADER) div 8 = of_nat n"
    using n(2) by (subst word_unat_eq_iff) (simp add: unat_div_distrib unat_of_nat_u64 del: of_nat_mult)
  then have "unat (ucast (((ucast (sdt_length m ?x) :: u64) - SDT_HEADER) div 8) :: u32) = n"
    using n(2) by (simp add: unsigned_ucast_eq unsigned_of_nat take_bit_nat_eq_self)
  then have "find_table_xsdt m ?x ''APIC'' = Some madt"
    using assms n(3) by (simp add: find_table_xsdt_def describes_cores_def valid_table_def find_entry_listed flip: xsdt_entry_def)
  then show ?thesis using assms by (simp add: find_madt_def describes_cores_def)
qed

lemma store_each: "n \<le> length xs \<Longrightarrow> n \<le> length ys \<Longrightarrow> take n (fold (\<lambda>i zs. zs[i := f (xs ! i)]) [0..<n] ys) = map f (take n xs)"
proof (induction n)
  case (Suc n)
  have len: "length (fold (\<lambda>i zs. zs[i := f (xs ! i)]) is ys) = length ys" for "is" by (induction "is" arbitrary: ys) simp_all
  with Suc show ?case by (simp add: take_Suc_conv_app_nth nth_list_update)
qed simp


text \<open>A machine with two cores, the second one disabled.\<close>

definition demo_rsdp :: bytes where "demo_rsdp = [82, 83, 68, 32, 80, 84, 82, 32, 6, 81, 69, 77, 85, 75, 86, 2, 0, 0, 0, 0, 36, 0, 0, 0, 0, 32, 0, 0, 0, 0, 0, 0, 188, 0, 0, 0]"

definition demo_xsdt :: bytes where "demo_xsdt = [88, 83, 68, 84, 44, 0, 0, 0, 1, 96, 0, 0, 0, 0, 0, 0, 0, 0, 0, 0, 0, 0, 0, 0, 0, 0, 0, 0, 0, 0, 0, 0, 0, 0, 0, 0, 0, 48, 0, 0, 0, 0, 0, 0]"

definition demo_entries :: "madt_entry list" where
  "demo_entries = [(0, [0, 0, 1, 0, 0, 0]), (1, replicate 10 0), (0, [1, 1, 0, 0, 0, 0])]"

definition demo_madt_head :: bytes where "demo_madt_head = [65, 80, 73, 67, 72, 0, 0, 0, 1, 155, 0, 0, 0, 0, 0, 0, 0, 0, 0, 0, 0, 0, 0, 0, 0, 0, 0, 0, 0, 0, 0, 0, 0, 0, 0, 0, 0, 0, 224, 254, 1, 0, 0, 0]"

definition demo_acpi :: memory where
  "demo_acpi = placed [(0x1000, demo_rsdp), (0x2000, demo_xsdt), (0x3000, demo_madt_head @ concat (map entry_bytes demo_entries))]"

lemma demo_describes: "describes_cores demo_acpi 0x1000 0x3000 demo_entries"
proof -
  have a: "validate_rsdp demo_acpi 0x1000 = Some 0x1000" "rsdp_revision demo_acpi 0x1000 = 2" "xsdt_address demo_acpi 0x1000 = 0x2000"
    "valid_table demo_acpi ''XSDT'' 0x2000" "sdt_length demo_acpi 0x2000 = 44"
    "xsdt_entry demo_acpi 0x2000 0 = 0x3000" "valid_table demo_acpi ''APIC'' 0x3000"
    "list_all entry_ok demo_entries" "holds_bytes demo_acpi (0x3000 + SDT_HEADER + 8) (concat (map entry_bytes demo_entries))"
    "length (concat (map entry_bytes demo_entries)) = 28" "sdt_length demo_acpi 0x3000 = 72"
    by code_simp+
  have "\<exists>n. sdt_length demo_acpi 0x2000 = of_nat (36 + 8 * n) \<and> 36 + 8 * n < 4294967296
      \<and> first_listed demo_acpi (xsdt_entry demo_acpi 0x2000) n ''APIC'' 0x3000"
    using a by (intro exI [of _ 1]) (auto simp: first_listed_def)
  then show ?thesis using a by (simp add: describes_cores_def)
qed


text \<open>
  Discovery on x86-64 ends.  Whatever memory holds, it returns, unless some table with the signature of an interrupt
  table reaches into the last 255 bytes of the address space.
\<close>

theorem acpi_discover_ends:
  assumes "\<And>a. signature_matches m a ''APIC'' \<Longrightarrow>
    unat (a + ucast (sdt_length m a)) + 255 < 18446744073709551616"
  shows "topology_discover_x86 m out hint \<noteq> None"
proof -
  have scan: "scan_for_rsdp m a (a + 1024) \<noteq> None" if "a = push_bit 4 (ucast (w :: u16))" for a :: u64 and w
  proof (rule scan_ends)
    have w: "unat w < 65536" using unsigned_less [of w, where 'a = nat] by simp
    have "a = of_nat (16 * unat w)" by (simp add: that push_bit_eq_mult)
    then have "unat a = 16 * unat w" using w by (simp only: unat_of_nat_u64)
    then show "unat (a + 1024) + 16 < 18446744073709551616" using w by (subst no_wrap_if_lt) simp_all
  qed
  have "scan_for_rsdp m 0xE0000 0x100000 \<noteq> None" by (rule scan_ends) simp
  then have "find_rsdp m \<noteq> None" using scan [OF refl, of "le_word (read_bytes m 0x40E 2)"] by (auto simp: find_rsdp_def Let_def split: option.split)
  moreover have "valid_table m ''APIC'' madt" if "find_madt m r = Some madt" for r madt
    using that by (auto simp: find_madt_def find_table_xsdt_def find_table_rsdt_def find_entry_listed first_listed_def Let_def
        split: option.splits if_splits)
  ultimately have "acpi_discover m hint \<noteq> None"
    using assms madt_loop_ends by (auto simp: acpi_discover_def valid_table_def split: option.split)
  then show ?thesis by (auto simp: topology_discover_x86_def split: option.split)
qed

theorem acpi_discover_ends_witness:
  "topology_discover_x86 (\<lambda>a. 0) \<lparr>cores = [], core_count = 0, arch_opaque = [0, 0, 0, 0]\<rparr> 0 \<noteq> None"
  by (rule acpi_discover_ends) (simp add: signature_matches.simps)

text \<open>The walk does not ask whether an entry ends inside the table: bytes behind the table become a core.\<close>

lemma entry_read_behind_table:
  "madt_loop (m(0x100 := 0, 0x101 := 8, 0x103 := v, 0x104 := 1)) 0x100 0x102 [] = Some [\<lparr>apic_id = v, cpu_enabled = True\<rparr>]"
proof -
  let ?m = "m(0x100 := 0, 0x101 := 8, 0x103 := v, 0x104 := 1)"
  have "lapic_cpu ?m 0x100 = \<lparr>apic_id = v, cpu_enabled = True\<rparr>"
    by (simp add: lapic_cpu_def MADT_LAPIC_FLAG_ENABLED_def low_flag bit_simps)
  moreover have "madt_loop ?m 0x108 0x102 cs = Some cs" for cs by (subst madt_loop.simps) simp
  ultimately show ?thesis by (subst madt_loop.simps) (simp add: ACPI_MAX_CPUS_def MADT_TYPE_LOCAL_APIC_def)
qed

text \<open>A root table that claims no length at all passes the checksum, and four billion addresses behind it are followed.\<close>

lemma empty_rsdt_followed:
  assumes "signature_matches m 0x1000 ''RSDT''" and "sdt_length m 0x1000 = 0"
  shows "find_table_rsdt m 0x1000 sig = find_table_entry m (\<lambda>i. ucast (load32 m (0x1000 + SDT_HEADER + 4 * of_nat i))) sig 0 4294967287"
  using assms by (simp add: find_table_rsdt_def sum_bytes_def SDT_HEADER_def)

end
