(* ===== verification/Topology_Arm.thy ===== *)
theory Topology_Arm
  imports Acpi_Tables Fdt_Refine
begin

text \<open>
  Core discovery on ARM (\<open>topology_aarch64.c\<close>): the machine description handed over is told apart by its header and read as
  ACPI tables or as a device tree; either gives the list of cores, the console, the interrupt controller and the
  timer frequency.  The backends the discovery configures are recorded as the calls it makes, in their order.
\<close>

type_synonym phys = Byte_Memory.memory

datatype wire_call =
    Serial_base u64 | Serial_cadence_base u64
  | Irq_base u64 | Irq_cpu_base u64 | Irq_redistributor u64 u64
  | Signal_base u64 | Signal_gic_v2

definition AFFINITY :: u64 where "AFFINITY = 0xFF00FFFFFF"

definition topology_self_id_aarch64 :: "u64 \<Rightarrow> u64" where
  "topology_self_id_aarch64 mpidr = mpidr AND AFFINITY"

subsection \<open>ACPI\<close>

definition MADT_TYPE_GICC :: u8 where "MADT_TYPE_GICC = 0x0B"
definition MADT_TYPE_GICD :: u8 where "MADT_TYPE_GICD = 0x0C"
definition MADT_TYPE_GICR :: u8 where "MADT_TYPE_GICR = 0x0E"
definition MADT_GICC_FLAG_ENABLED :: u64 where "MADT_GICC_FLAG_ENABLED = 1"
definition SPCR_TYPE_PL011 :: u8 where "SPCR_TYPE_PL011 = 3"

definition is_rsdp :: "phys \<Rightarrow> u64 \<Rightarrow> bool" where
  "is_rsdp m addr \<longleftrightarrow> signature_matches m addr ''RSD PTR '' \<and> sum_bytes m addr 20 = 0"

definition le_read :: "phys \<Rightarrow> u64 \<Rightarrow> nat \<Rightarrow> u64" where
  "le_read m p n = fold (\<lambda>i v. v OR push_bit (8 * i) (ucast (m (p + of_nat i)))) [0..<n] 0"

fun acpi_find_entry :: "phys \<Rightarrow> (nat \<Rightarrow> u64) \<Rightarrow> string \<Rightarrow> nat \<Rightarrow> nat \<Rightarrow> u64 option" where
  "acpi_find_entry m entry sig i 0 = None"
| "acpi_find_entry m entry sig i (Suc k) =
    (if entry i \<noteq> 0 \<and> signature_matches m (entry i) sig \<and> sum_bytes m (entry i) (unat (sdt_length m (entry i))) = 0
     then Some (entry i) else acpi_find_entry m entry sig (Suc i) k)"

definition acpi_find :: "phys \<Rightarrow> u64 \<Rightarrow> string \<Rightarrow> u64 option" where
  "acpi_find m rsdp sig =
    (let wide = (rsdp_revision m rsdp \<ge> 2 \<and> xsdt_address m rsdp \<noteq> 0);
         root = (if wide then xsdt_address m rsdp else ucast (rsdt_address m rsdp))
     in if \<not> signature_matches m root (if wide then ''XSDT'' else ''RSDT'') \<or> sdt_length m root < 36 \<or>
           sum_bytes m root (unat (sdt_length m root)) \<noteq> 0 then None
        else let esz = (if wide then 8 else 4); n = (unat (sdt_length m root) - 36) div esz
          in acpi_find_entry m (\<lambda>i. le_read m (root + SDT_HEADER + of_nat (i * esz)) esz) sig 0 n)"

definition topology_aarch64_psci_method :: "phys \<Rightarrow> u64 \<Rightarrow> bool option" where
  "topology_aarch64_psci_method m rsdp =
    (if rsdp = 0 \<or> \<not> is_rsdp m rsdp then None
     else if rsdp_revision m rsdp < 2 \<or> rsdp_length m rsdp < 36 \<or> rsdp_length m rsdp > 4096 \<or>
             sum_bytes m rsdp (unat (rsdp_length m rsdp)) \<noteq> 0 then None
     else (case acpi_find m rsdp ''FACP'' of
             None \<Rightarrow> None
           | Some fadt \<Rightarrow>
              if sdt_revision m fadt < 5 \<or> sdt_length m fadt < 131 then None
              else let flags = ucast (le_read m (fadt + 129) 2) :: u16
                in if flags AND 1 = 0 then None else Some (flags AND 2 \<noteq> 0)))"

text \<open>What the walk over the interrupt table has found so far.\<close>

record gic_scan =
  gs_cores :: "topology_core_t list"
  gs_found :: nat
  gicc_base :: u64
  gicd_base :: u64
  gicr_base :: u64
  gicr_size :: u64
  gic_version :: u8

definition gicc_step :: "phys \<Rightarrow> u64 \<Rightarrow> gic_scan \<Rightarrow> gic_scan" where
  "gicc_step m p s =
    (let en = (le_read m (p + 12) 4 AND MADT_GICC_FLAG_ENABLED \<noteq> 0) in
     s\<lparr>gs_cores := (gs_cores s)[gs_found s := \<lparr>target = le_read m (p + 68) 8 AND AFFINITY, enabled = en\<rparr>],
       gicc_base := (if en \<and> gicc_base s = 0 then le_read m (p + 32) 8 else gicc_base s),
       gs_found := gs_found s + 1\<rparr>)"

partial_function (option) gic_loop :: "phys \<Rightarrow> u64 \<Rightarrow> u64 \<Rightarrow> gic_scan \<Rightarrow> gic_scan option" where
  [code]: "gic_loop m p end s =
    (if p + 2 \<le> end then
       (let type = m p; len = m (p + 1); next = p + ucast len in
        if len < 2 \<or> next > end then Some s
        else if type = MADT_TYPE_GICC \<and> len \<ge> 76 then
          (if gs_found s \<ge> TOPOLOGY_MAX_CORES then Some s else gic_loop m next end (gicc_step m p s))
        else if type = MADT_TYPE_GICD \<and> len \<ge> 16 then
          gic_loop m next end
            (s\<lparr>gicd_base := le_read m (p + 8) 8, gic_version := (if len \<ge> 21 then m (p + 20) else gic_version s)\<rparr>)
        else if type = MADT_TYPE_GICR \<and> len \<ge> 16 then
          gic_loop m next end (s\<lparr>gicr_base := le_read m (p + 4) 8, gicr_size := le_read m (p + 12) 4\<rparr>)
        else gic_loop m next end s)
     else Some s)"

definition gic_calls :: "gic_scan \<Rightarrow> wire_call list" where
  "gic_calls s =
    (if gic_version s = 2 \<and> gicc_base s \<noteq> 0 then [Irq_cpu_base (gicc_base s), Signal_gic_v2]
     else if gic_version s = 3 \<and> gicr_base s \<noteq> 0 \<and> gicr_size s \<noteq> 0 then [Irq_redistributor (gicr_base s) (gicr_size s)]
     else [])"

definition spcr_uart :: "phys \<Rightarrow> u64 \<Rightarrow> u64 option" where
  "spcr_uart m rsdp =
    (case acpi_find m rsdp ''SPCR'' of
       None \<Rightarrow> None
     | Some spcr \<Rightarrow>
        if sdt_length m spcr \<ge> 52 \<and> m (spcr + 36) = SPCR_TYPE_PL011 \<and> m (spcr + 40) = 0 then Some (le_read m (spcr + 44) 8) else None)"

text \<open>The outer option is whether the walk ends; a failed discovery leaves the topology as it was handed in.\<close>

definition topology_discover_acpi :: "phys \<Rightarrow> topology_t \<Rightarrow> u64 \<Rightarrow> (topology_t \<times> wire_call list \<times> bool) option" where
  "topology_discover_acpi m out rsdp =
    (if rsdp_revision m rsdp \<ge> 2 \<and> sum_bytes m rsdp (unat (rsdp_length m rsdp)) \<noteq> 0 then Some (out, [], False)
     else (case acpi_find m rsdp ''APIC'' of
             None \<Rightarrow> Some (out, [], False)
           | Some madt \<Rightarrow>
              (case gic_loop m (madt + SDT_HEADER + 8) (madt + ucast (sdt_length m madt))
                      \<lparr>gs_cores = cores out, gs_found = 0, gicc_base = 0, gicd_base = arch_opaque out ! 1, gicr_base = 0, gicr_size = 0,
                       gic_version = 0\<rparr> of
                 None \<Rightarrow> None
               | Some s \<Rightarrow>
                  Some (out\<lparr>cores := gs_cores s, core_count := gs_found s,
                            arch_opaque := (case spcr_uart m rsdp of
                               None \<Rightarrow> (arch_opaque out)[1 := gicd_base s]
                             | Some u \<Rightarrow> (arch_opaque out)[1 := gicd_base s, 0 := u])\<rparr>,
                        gic_calls s, True))))"

definition topology_wire_backends :: "bool \<Rightarrow> topology_t \<Rightarrow> wire_call list" where
  "topology_wire_backends uart_is_cadence out =
    (if arch_opaque out ! 0 \<noteq> 0 then [if uart_is_cadence then Serial_cadence_base (arch_opaque out ! 0) else Serial_base (arch_opaque out ! 0)]
     else []) @
    (if arch_opaque out ! 1 \<noteq> 0 then [Irq_base (arch_opaque out ! 1), Signal_base (arch_opaque out ! 1)] else [])"

subsection \<open>Device tree\<close>

definition node_enabled :: "blob \<Rightarrow> int \<Rightarrow> bool" where
  "node_enabled blob node_offset =
    (case fdt_getprop blob node_offset ''status'' of
       None \<Rightarrow> True
     | Some (st, len) \<Rightarrow>
        let b = the blob in
        len \<ge> 3 \<and> b st = of_char (CHR ''o'') \<and> b (st + 1) = of_char (CHR ''k'') \<and>
        (b (st + 2) = 0 \<or> (len \<ge> 5 \<and> b (st + 2) = of_char (CHR ''a'') \<and> b (st + 3) = of_char (CHR ''y'') \<and> b (st + 4) = 0)))"

definition read_reg_first_cell :: "blob \<Rightarrow> int \<Rightarrow> u64 option" where
  "read_reg_first_cell blob node_offset =
    (case fdt_getprop blob node_offset ''reg'' of
       None \<Rightarrow> None
     | Some (reg, len) \<Rightarrow>
        if len = 0 then None
        else let b = the blob; addr_cells = (case fdt_cell_counts blob node_offset of None \<Rightarrow> 2 | Some (ac, sc) \<Rightarrow> ac)
          in if addr_cells = 1 then Some (ucast (rd_be32 b reg))
             else if addr_cells = 2 then Some (push_bit 32 (ucast (rd_be32 b reg)) OR ucast (rd_be32 b (reg + 4)))
             else None)"

lemma next_child_less:
  assumes "child \<noteq> 0" "fst (fdt_next_child blob par child) \<noteq> 0"
  shows "sibling_measure (fst (fdt_next_child blob par child)) < sibling_measure child"
  using assms sibling_measure_less [of blob par child] by (auto simp: fdt_next_child_def Let_def split: if_splits)

text \<open>The children of \<open>/cpus\<close> from one on; the cursor is the child itself.\<close>

function cpus_loop :: "blob \<Rightarrow> int \<Rightarrow> int \<Rightarrow> topology_core_t list \<times> nat \<Rightarrow> topology_core_t list \<times> nat" where
  "cpus_loop blob cpus child acc =
    (if child = 0 then acc
     else (case acc of (cs, found) \<Rightarrow>
       if found \<ge> TOPOLOGY_MAX_CORES then acc
       else let next = fst (fdt_next_child blob cpus child) in
         if \<not> node_enabled blob child then cpus_loop blob cpus next acc
         else (case read_reg_first_cell blob child of
                 None \<Rightarrow> cpus_loop blob cpus next acc
               | Some mpidr \<Rightarrow> cpus_loop blob cpus next (cs[found := \<lparr>target = mpidr, enabled = True\<rparr>], Suc found))))"
  by pat_completeness auto
termination
  by (relation "measure (\<lambda>(blob, cpus, child, acc). if child = 0 then 0 else Suc (sibling_measure child))")
    (auto simp: next_child_less)

declare cpus_loop.simps [simp del]

text \<open>The first node compatible with one of the names; the search may not end.\<close>

fun first_compatible :: "blob \<Rightarrow> string list \<Rightarrow> int option option" where
  "first_compatible blob [] = Some None"
| "first_compatible blob (nm # nms) =
    (case fdt_node_by_compatible blob nm of
       None \<Rightarrow> None
     | Some (Some off) \<Rightarrow> Some (Some off)
     | Some None \<Rightarrow> first_compatible blob nms)"

definition console_base :: "blob \<Rightarrow> ((u64 \<times> bool) option) option" where
  "console_base blob =
    (case first_compatible blob [''cdns,uart-r1p12'', ''xlnx,zynqmp-uart''] of
       None \<Rightarrow> None
     | Some cadence \<Rightarrow>
        (case (case cadence of Some off \<Rightarrow> Some (Some off) | None \<Rightarrow> fdt_node_by_compatible blob ''arm,pl011'') of
           None \<Rightarrow> None
         | Some None \<Rightarrow> Some None
         | Some (Some off) \<Rightarrow>
            Some (if node_enabled blob off
                  then map_option (\<lambda>r. (r_base r, cadence \<noteq> None)) (fdt_reg_to_cpu_addr blob off 0) else None)))"

text \<open>The interrupt controller: the calls its second region gives rise to, and the base of the distributor.\<close>

definition gic_setup :: "blob \<Rightarrow> (wire_call list \<times> u64 option) option" where
  "gic_setup blob =
    (case fdt_node_by_compatible blob ''arm,gic-v3'' of
       None \<Rightarrow> None
     | Some v3 \<Rightarrow>
        (case (case v3 of Some off \<Rightarrow> Some (Some off)
               | None \<Rightarrow> first_compatible blob [''arm,cortex-a15-gic'', ''arm,gic-400'', ''arm,gic'']) of
           None \<Rightarrow> None
         | Some None \<Rightarrow> Some ([], None)
         | Some (Some off) \<Rightarrow>
            Some (if node_enabled blob off then
                    (case fdt_reg_to_cpu_addr blob off 1 of
                       None \<Rightarrow> []
                     | Some r \<Rightarrow> if v3 \<noteq> None then [Irq_redistributor (r_base r) (r_size r)] else [Irq_cpu_base (r_base r), Signal_gic_v2],
                     map_option r_base (fdt_reg_to_cpu_addr blob off 0))
                  else ([], None))))"

definition timer_frequency :: "blob \<Rightarrow> u64 option" where
  "timer_frequency blob =
    (let off = fdt_path_offset blob ''/timer'' in
     if off = FDT_ERR_NODE then None
     else (case fdt_getprop blob off ''clock-frequency'' of
             None \<Rightarrow> None
           | Some (freq, len) \<Rightarrow> if len \<ge> 4 then Some (ucast (rd_be32 (the blob) freq)) else None))"

definition set_found :: "nat \<Rightarrow> u64 option \<Rightarrow> u64 list \<Rightarrow> u64 list" where
  "set_found i v xs = (case v of None \<Rightarrow> xs | Some x \<Rightarrow> xs[i := x])"

definition topology_discover_dt :: "blob \<Rightarrow> topology_t \<Rightarrow> u64 \<Rightarrow> (topology_t \<times> wire_call list \<times> bool) option" where
  "topology_discover_dt blob out arch_hint =
    (let out1 = out\<lparr>arch_opaque := (arch_opaque out)[3 := arch_hint]\<rparr>; cpus_offset = fdt_path_offset blob ''/cpus'' in
     if cpus_offset = FDT_ERR_NODE then Some (out1, [], False)
     else (case cpus_loop blob cpus_offset (fst (fdt_next_child blob cpus_offset 0)) (cores out1, 0) of (cs, found) \<Rightarrow>
       (case console_base blob of
          None \<Rightarrow> None
        | Some uart \<Rightarrow>
           (case gic_setup blob of
              None \<Rightarrow> None
            | Some (calls, gicd) \<Rightarrow>
               let out2 = out1\<lparr>cores := cs, core_count := found,
                     arch_opaque := set_found 2 (timer_frequency blob) (set_found 1 gicd (set_found 0 (map_option fst uart) (arch_opaque out1)))\<rparr>
               in Some (out2, calls @ topology_wire_backends (case uart of None \<Rightarrow> False | Some u \<Rightarrow> snd u) out2, found > 0)))))"

definition phys_blob :: "phys \<Rightarrow> u64 \<Rightarrow> blob" where
  "phys_blob m a = Some (\<lambda>i. m (a + word_of_int i))"

definition topology_discover_aarch64 :: "phys \<Rightarrow> topology_t \<Rightarrow> u64 \<Rightarrow> (topology_t \<times> wire_call list \<times> bool) option" where
  "topology_discover_aarch64 m out0 arch_hint =
    (let out = out0\<lparr>core_count := 0, arch_opaque := [0, 0, 0, 0]\<rparr> in
     if arch_hint = 0 then Some (out, [], False)
     else if is_rsdp m arch_hint then
       (case topology_discover_acpi m out arch_hint of
          None \<Rightarrow> None
        | Some (t, calls, found) \<Rightarrow>
            if \<not> found then Some (t, calls, False)
            else Some (t, calls @ topology_wire_backends False t, core_count t > 0))
     else
       (let blob = phys_blob m arch_hint; blob_size = rd_be32 (the blob) 4 in
        if blob_size < 40 \<or> blob_size > 16 * 1024 * 1024 \<or> \<not> fdt_valid blob (ucast blob_size) then Some (out, [], False)
        else topology_discover_dt blob out arch_hint))"

record init_boot_hints =
  fdt_blob_phys :: u64
  early_rsdp_phys :: u64

definition topology_boot_hint_aarch64 :: "init_boot_hints \<Rightarrow> u64" where
  "topology_boot_hint_aarch64 info = (if fdt_blob_phys info \<noteq> 0 then fdt_blob_phys info else early_rsdp_phys info)"

definition topology_timer_hint_aarch64 :: "topology_t \<Rightarrow> u64" where
  "topology_timer_hint_aarch64 t = arch_opaque t ! 2"

end
