(* ===== verification/Topology_Props.thy ===== *)
theory Topology_Props
  imports Topology_Arm
begin

text \<open>
  What core discovery on ARM promises: on a device tree the cores are the enabled children of \<open>/cpus\<close> in document
  order, and the walk over the ACPI interrupt table reads nothing outside that table.
\<close>

subsection \<open>Properties of a node, read from the tree\<close>

lemma holds_bytes_at: "holds m p v \<Longrightarrow> i < length v \<Longrightarrow> m (p + int i) = v ! i"
proof (induction v arbitrary: p i)
  case (Cons b v)
  show ?case
  proof (cases i)
    case (Suc k)
    have "m (p + 1 + int k) = v ! k" using Cons.prems Cons.IH [of "p + 1" k] Suc by simp
    then show ?thesis using Suc by (simp add: algebra_simps)
  qed (use Cons.prems in simp)
qed simp

lemma rd_be32_value: "holds m p v \<Longrightarrow> i + 4 \<le> length v \<Longrightarrow> rd_be32 m (p + int i) = rd_be32 (mem_of v) (int i)"
  using holds_bytes_at [of m p v i] holds_bytes_at [of m p v "i + 1"] holds_bytes_at [of m p v "i + 2"]
    holds_bytes_at [of m p v "i + 3"]
  by (simp add: rd_be32_def mem_of_def algebra_simps nat_add_distrib)

text \<open>A node is usable when it has no status or the status \<open>okay\<close> or \<open>ok\<close>.\<close>

definition dt_enabled :: "dt_node \<Rightarrow> bool" where
  "dt_enabled k \<longleftrightarrow> (case map_of (dt_props k) ''status'' of
     None \<Rightarrow> True
   | Some v \<Rightarrow> take 3 v = c_string ''ok'' \<or> take 5 v = c_string ''okay'')"

definition dt_first_cell :: "nat \<Rightarrow> dt_node \<Rightarrow> u64 option" where
  "dt_first_cell ac k = (case map_of (dt_props k) ''reg'' of
     None \<Rightarrow> None
   | Some v \<Rightarrow> if v = [] then None
       else Some (if ac = 1 then ucast (rd_be32 (mem_of v) 0) else rd_be64 (mem_of v) 0))"

definition dt_cores :: "nat \<Rightarrow> dt_node list \<Rightarrow> topology_core_t list" where
  "dt_cores ac ks = map (\<lambda>w. \<lparr>target = w, enabled = True\<rparr>)
     (List.map_filter (\<lambda>k. if dt_enabled k then dt_first_cell ac k else None) ks)"

definition props_named :: "ctx_t \<Rightarrow> (string \<Rightarrow> u32) \<Rightarrow> dt_node \<Rightarrow> bool" where
  "props_named c tab k \<longleftrightarrow> (\<forall>(nm, v) \<in> set (dt_props k). name_stored c tab nm \<and> length v < 2147483648)"

lemma getprop_cases:
  assumes "blob_tree blob c tab t" "tree_node c tab t js u q" "props_named c tab u" "CHR 0x00 \<notin> set name"
  obtains "map_of (dt_props u) name = None" "fdt_getprop blob q name = None"
  | v at where "map_of (dt_props u) name = Some v" "fdt_getprop blob q name = Some (at, of_nat (length v))"
      "holds (the blob) at v" "length v < 2147483648"
proof -
  have "\<forall>(nm, v) \<in> set (dt_props u). name_stored c tab nm" using assms(3) unfolding props_named_def by blast
  note g = getprop_tree [OF assms(1,2) this assms(4)]
  have b: "the blob = base c" using ctx_initD(1) [OF blob_treeD(1) [OF assms(1)]] by simp
  show thesis
  proof (cases "map_of (dt_props u) name")
    case None
    then show thesis using g that(1) by simp
  next
    case (Some v)
    then have "length v < 2147483648" using assms(3) map_of_SomeD [OF Some] unfolding props_named_def by blast
    moreover obtain at where "fdt_getprop blob q name = Some (at, of_nat (length v))" "holds (base c) at v"
      using g Some by (cases "fdt_getprop blob q name") auto
    ultimately show thesis using that(2) Some b by simp
  qed
qed

lemma len_at_least: "n < 2147483648 \<Longrightarrow> k < 2147483648 \<Longrightarrow> (of_nat k :: u32) \<le> of_nat n \<longleftrightarrow> k \<le> n"
  by (simp only: word_le_nat_alt unsigned_of_nat) (simp add: take_bit_nat_eq_self)

lemma take_3_eq: "take 3 v = [x0, x1, x2] \<longleftrightarrow> 3 \<le> length v \<and> v ! 0 = x0 \<and> v ! 1 = x1 \<and> v ! 2 = x2"
  by (cases v; cases "tl v"; cases "tl (tl v)") (auto simp: numeral_eq_Suc)

lemma take_5_eq: "take 5 v = [x0, x1, x2, x3, x4] \<longleftrightarrow>
    5 \<le> length v \<and> v ! 0 = x0 \<and> v ! 1 = x1 \<and> v ! 2 = x2 \<and> v ! 3 = x3 \<and> v ! 4 = x4"
  by (cases v; cases "tl v"; cases "tl (tl v)"; cases "tl (tl (tl v))"; cases "tl (tl (tl (tl v)))") (auto simp: numeral_eq_Suc)

lemma node_enabled_tree:
  assumes "blob_tree blob c tab t" "tree_node c tab t js u q" "props_named c tab u"
  shows "node_enabled blob q \<longleftrightarrow> dt_enabled u"
proof (rule getprop_cases [OF assms, of "''status''"])
  assume "map_of (dt_props u) ''status'' = None" "fdt_getprop blob q ''status'' = None"
  then show ?thesis by (simp add: node_enabled_def dt_enabled_def)
next
  fix v at
  assume v: "map_of (dt_props u) ''status'' = Some v" "fdt_getprop blob q ''status'' = Some (at, of_nat (length v))"
    "holds (the blob) at v" "length v < 2147483648"
  have l: "3 \<le> (of_nat (length v) :: u32) \<longleftrightarrow> 3 \<le> length v" "5 \<le> (of_nat (length v) :: u32) \<longleftrightarrow> 5 \<le> length v"
    using len_at_least [OF v(4), of 3] len_at_least [OF v(4), of 5] by simp_all
  have at: "the blob (at + int i) = v ! i" if "i < length v" for i using holds_bytes_at [OF v(3) that] .
  let ?o = "of_char (CHR ''o'') :: u8" and ?k = "of_char (CHR ''k'') :: u8"
  have "node_enabled blob q \<longleftrightarrow> 3 \<le> length v \<and> v ! 0 = ?o \<and> v ! 1 = ?k \<and>
      (v ! 2 = 0 \<or> 5 \<le> length v \<and> v ! 2 = of_char (CHR ''a'') \<and> v ! 3 = of_char (CHR ''y'') \<and> v ! 4 = 0)"
  proof (cases "3 \<le> length v")
    case True
    then have "the blob at = v ! 0" using at [of 0] by fastforce
    with True show ?thesis using at [of 1] at [of 2] at [of 3] at [of 4]
      by (auto simp only: node_enabled_def v(2) option.case prod.case l Let_def of_nat_0 of_nat_1 of_nat_numeral add_0_right)
  qed (simp add: node_enabled_def v(2) l)
  moreover have "dt_enabled u \<longleftrightarrow> take 3 v = [?o, ?k, 0] \<or> take 5 v = [?o, ?k, of_char (CHR ''a''), of_char (CHR ''y''), 0]"
    by (simp only: dt_enabled_def v(1) option.case c_string_def list.map append.simps)
  ultimately show ?thesis by (auto simp only: take_3_eq take_5_eq)
qed simp

subsection \<open>Cell counts\<close>

lemma own_cells_tree:
  assumes "blob_tree blob c tab t" "tree_node c tab t js u q" "props_named c tab u" "CHR 0x00 \<notin> set name"
    and "map_of (dt_props u) name = Some (be32 w)"
  shows "own_cells c blob q name = Some w"
proof (rule getprop_cases [OF assms(1-4)])
  fix v at
  assume v: "map_of (dt_props u) name = Some v" "fdt_getprop blob q name = Some (at, of_nat (length v))" "holds (the blob) at v"
  then have "v = be32 w" using assms(5) by simp
  then show ?thesis using v ctx_initD(1) [OF blob_treeD(1) [OF assms(1)]] by (simp add: own_cells_def)
qed (use assms(5) in simp)

lemma cell_counts_tree:
  assumes "blob_tree blob c tab t" "tree_node c tab t js u q" "length js < 16" "props_named c tab u"
    and "map_of (dt_props u) ''#address-cells'' = Some (be32 ac)" "map_of (dt_props u) ''#size-cells'' = Some (be32 sc)"
    and "i < length (dt_children u)"
  shows "fdt_cell_counts blob (child_at tab u q i) = Some (sint ac, sint sc)"
proof -
  have "0 \<le> q" using tree_nodeD(3) [OF assms(1,2)] blob_treeD(2) [OF assms(1)] by (simp add: small_ctx_def ctx_wf_def)
  moreover have "own_cells c blob q ''#address-cells'' = Some ac" "own_cells c blob q ''#size-cells'' = Some sc"
    using own_cells_tree [OF assms(1,2,4)] assms(5,6) by simp_all
  ultimately have "cells_up blob c q None None = (Some ac, Some sc)" by (simp add: cells_up.simps found_first_def)
  then show ?thesis using parent_of_child [OF assms(1,2,7,3)] blob_treeD(1) [OF assms(1)]
    by (simp add: fdt_cell_counts_def fdt_parent_cells_def)
qed

lemma first_cell_tree:
  assumes B: "blob_tree blob c tab t" and n: "tree_node c tab t js u q" and p: "props_named c tab u"
    and "fdt_cell_counts blob q = Some (int ac, sc)" "ac = 1 \<or> ac = 2"
    and len: "\<And>v. map_of (dt_props u) ''reg'' = Some v \<Longrightarrow> v \<noteq> [] \<Longrightarrow> 4 * ac \<le> length v"
  shows "read_reg_first_cell blob q = dt_first_cell ac u"
proof (rule getprop_cases [OF B n p, of "''reg''"])
  assume "map_of (dt_props u) ''reg'' = None" "fdt_getprop blob q ''reg'' = None"
  then show ?thesis by (simp add: read_reg_first_cell_def dt_first_cell_def)
next
  fix v at
  assume v: "map_of (dt_props u) ''reg'' = Some v" "fdt_getprop blob q ''reg'' = Some (at, of_nat (length v))"
    "holds (the blob) at v" "length v < 2147483648"
  have z: "(of_nat (length v) :: u32) = 0 \<longleftrightarrow> v = []"
    using len_at_least [OF v(4), of 1] by (cases v) (auto simp: word_le_nat_alt)
  show ?thesis
  proof (cases "v = []")
    case False
    then have "4 * ac \<le> length v" by (rule len [OF v(1)])
    then show ?thesis using assms(4,5) False rd_be32_value [OF v(3), of 0] rd_be32_value [OF v(3), of 4]
      by (auto simp: read_reg_first_cell_def dt_first_cell_def v(1,2) z rd_be64_def)
  qed (simp add: read_reg_first_cell_def dt_first_cell_def v(1,2))
qed simp

subsection \<open>The walk over the children\<close>

definition kid_at :: "(string \<Rightarrow> u32) \<Rightarrow> dt_node \<Rightarrow> int \<Rightarrow> nat \<Rightarrow> int" where
  "kid_at tab u q i = (if i < length (dt_children u) then child_at tab u q i else 0)"

lemma next_child_tree:
  assumes "blob_tree blob c tab t" "tree_node c tab t js u q" "length js < 16"
  shows "fst (fdt_next_child blob q 0) = kid_at tab u q 0"
    "i < length (dt_children u) \<Longrightarrow> fst (fdt_next_child blob q (child_at tab u q i)) = kid_at tab u q (Suc i)"
    "child_at tab u q i \<noteq> 0"
  using first_child_tree [OF assms(1,2)] next_sibling_tree [OF assms(1,2) _ assms(3)] child_at_node [OF assms(1,2)]
    child_at_nonneg [OF assms(1,2), of i]
  by (auto simp: fdt_next_child_def kid_at_def Let_def)

text \<open>What a processor list must look like: cell counts of one or two words, and registers at least that long.\<close>

definition cpu_list :: "ctx_t \<Rightarrow> (string \<Rightarrow> u32) \<Rightarrow> nat \<Rightarrow> dt_node \<Rightarrow> bool" where
  "cpu_list c tab ac u \<longleftrightarrow> (ac = 1 \<or> ac = 2) \<and> props_named c tab u
     \<and> map_of (dt_props u) ''#address-cells'' = Some (be32 (of_nat ac))
     \<and> (\<exists>sc. map_of (dt_props u) ''#size-cells'' = Some (be32 sc))
     \<and> (\<forall>k \<in> set (dt_children u). props_named c tab k
          \<and> (\<forall>v. map_of (dt_props k) ''reg'' = Some v \<longrightarrow> v \<noteq> [] \<longrightarrow> 4 * ac \<le> length v))"

lemma cpu_read:
  assumes B: "blob_tree blob c tab t" and n: "tree_node c tab t js u q" and d: "length js < 16" and l: "cpu_list c tab ac u"
    and i: "i < length (dt_children u)"
  shows "node_enabled blob (child_at tab u q i) = dt_enabled (dt_children u ! i)"
    "read_reg_first_cell blob (child_at tab u q i) = dt_first_cell ac (dt_children u ! i)"
proof -
  note k = tree_node_child [OF n i]
  have p: "props_named c tab (dt_children u ! i)" using l i by (simp add: cpu_list_def)
  show "node_enabled blob (child_at tab u q i) = dt_enabled (dt_children u ! i)" by (rule node_enabled_tree [OF B k p])
  obtain sc where "map_of (dt_props u) ''#size-cells'' = Some (be32 sc)" using l by (auto simp: cpu_list_def)
  from cell_counts_tree [OF B n d _ _ this i, of "of_nat ac"] l
  have "fdt_cell_counts blob (child_at tab u q i) = Some (int ac, sint sc)" by (auto simp: cpu_list_def)
  moreover have "ac = 1 \<or> ac = 2" using l unfolding cpu_list_def by blast
  moreover have "4 * ac \<le> length v" if "map_of (dt_props (dt_children u ! i)) ''reg'' = Some v" "v \<noteq> []" for v
    using l nth_mem [OF i] that unfolding cpu_list_def by blast
  ultimately show "read_reg_first_cell blob (child_at tab u q i) = dt_first_cell ac (dt_children u ! i)"
    by (rule first_cell_tree [OF B k p])
qed

lemma dt_cores_Cons:
  "dt_cores ac (k # ks) = (case (if dt_enabled k then dt_first_cell ac k else None) of
     None \<Rightarrow> dt_cores ac ks | Some w \<Rightarrow> \<lparr>target = w, enabled = True\<rparr> # dt_cores ac ks)"
  by (simp add: dt_cores_def map_filter_simps split: option.split)

lemma cpus_loop_tree:
  assumes B: "blob_tree blob c tab t" and n: "tree_node c tab t js u q" and d: "length js < 16" and l: "cpu_list c tab ac u"
    and "length cs = TOPOLOGY_MAX_CORES" "k \<le> TOPOLOGY_MAX_CORES" "i \<le> length (dt_children u)"
    and "cpus_loop blob q (kid_at tab u q i) (cs, k) = (cs', k')"
  shows "take k' cs' = take TOPOLOGY_MAX_CORES (take k cs @ dt_cores ac (drop i (dt_children u)))
    \<and> k' = min TOPOLOGY_MAX_CORES (k + length (dt_cores ac (drop i (dt_children u))))"
  using assms(5-)
proof (induction "length (dt_children u) - i" arbitrary: i cs k)
  case 0
  then show ?case by (auto simp: kid_at_def cpus_loop.simps dt_cores_def map_filter_simps)
next
  case (Suc x)
  have i: "i < length (dt_children u)" and x: "x = length (dt_children u) - Suc i" using Suc.hyps(2) by simp_all
  let ?k = "dt_children u ! i" and ?next = "kid_at tab u q (Suc i)"
  have dr: "drop i (dt_children u) = ?k # drop (Suc i) (dt_children u)" using i by (rule Cons_nth_drop_Suc [symmetric])
  show ?case
  proof (cases "k < TOPOLOGY_MAX_CORES")
    case False
    then show ?thesis using Suc.prems i next_child_tree(3) [OF B n d, of i]
      by (auto simp: kid_at_def cpus_loop.simps [of blob q "child_at tab u q i"])
  next
    case True
    have "cpus_loop blob q (kid_at tab u q i) (cs, k) =
        (case (if dt_enabled ?k then dt_first_cell ac ?k else None) of
           None \<Rightarrow> cpus_loop blob q ?next (cs, k)
         | Some w \<Rightarrow> cpus_loop blob q ?next (cs[k := \<lparr>target = w, enabled = True\<rparr>], Suc k))"
      using True i next_child_tree(2,3) [OF B n d, of i] cpu_read [OF B n d l i]
      by (simp add: kid_at_def [of _ _ _ i] cpus_loop.simps [of blob q "child_at tab u q i"] Let_def)
    with Suc.prems(4) show ?thesis
      using Suc.hyps(1) [OF x, of cs k] Suc.hyps(1) [OF x, of "cs[k := w]" "Suc k" for w] Suc.prems(1-3) True i
      by (auto simp: dr dt_cores_Cons take_Suc_conv_app_nth split: option.splits if_splits)
  qed
qed


text \<open>A tree with one console-less machine of three processors, the second one disabled.\<close>

definition cpu_tab :: "string \<Rightarrow> u32" where
  "cpu_tab nm = (if nm = ''reg'' then 0 else if nm = ''status'' then 4 else if nm = ''#address-cells'' then 11 else 26)"

definition cpu_strings :: bytes where
  "cpu_strings = c_string ''reg'' @ c_string ''status'' @ c_string ''#address-cells'' @ c_string ''#size-cells''"

definition cpu_node :: "u32 \<Rightarrow> (string \<times> bytes) list \<Rightarrow> dt_node" where
  "cpu_node w ps = DtNode ''cpu'' ((''reg'', be32 w) # ps) []"

definition cpu_tree :: dt_node where
  "cpu_tree = DtNode [] [] [DtNode ''cpus'' [(''#address-cells'', be32 1), (''#size-cells'', be32 0)]
     [cpu_node 0 [], cpu_node 1 [(''status'', c_string ''disabled'')], cpu_node 0x100 [(''status'', c_string ''okay'')]]]"

definition cpu_phys :: phys where
  "cpu_phys a = mem_of (mk_blob cpu_tab cpu_strings cpu_tree) (uint (a - 0x40000000))"

lemma placed_blob:
  fixes a :: u64
  assumes "length bs < 18446744073709551616"
  shows "holds (\<lambda>i. mem_of bs (uint (a + word_of_int i - a))) 0 bs"
proof -
  have "holds (\<lambda>i. mem_of bs (uint (a + word_of_int i - a))) (int k) (drop k bs)" if "k \<le> length bs" for k
    using that
  proof (induction "length bs - k" arbitrary: k)
    case (Suc x)
    then have k: "k < length bs" by simp
    then have "uint (a + word_of_int (int k) - a) = int k" using assms by (simp add: unsigned_of_nat take_bit_nat_eq_self)
    then have "mem_of bs (uint (a + word_of_int (int k) - a)) = bs ! k" using k by (simp only: mem_of_def) simp
    moreover have "holds (\<lambda>i. mem_of bs (uint (a + word_of_int i - a))) (int (Suc k)) (drop (Suc k) bs)"
      using Suc.hyps(2) k by (intro Suc.hyps(1)) simp_all
    ultimately show ?case using Cons_nth_drop_Suc [OF k, symmetric] by (simp add: add.commute)
  qed simp
  from this [of 0] show ?thesis by simp
qed

abbreviation cpu_blob :: "int \<Rightarrow> u8" where
  "cpu_blob \<equiv> \<lambda>i. mem_of (mk_blob cpu_tab cpu_strings cpu_tree) (uint (0x40000000 + word_of_int i - (0x40000000 :: u64)))"

lemma cpu_phys_blob: "phys_blob cpu_phys 0x40000000 = Some cpu_blob"
  by (simp add: phys_blob_def cpu_phys_def)

lemma cpu_sizes: "length (enc_node cpu_tab cpu_tree) = 188" "length cpu_strings = 38"
  by (simp_all add: cpu_tree_def cpu_node_def enc_props_def pad4_def cpu_strings_def)

lemma cpu_held: "holds cpu_blob 0 (mk_blob cpu_tab cpu_strings cpu_tree)"
  by (rule placed_blob) (simp add: mk_blob_def cpu_sizes)

abbreviation cpu_ctx :: ctx_t where
  "cpu_ctx \<equiv> (mk_ctx cpu_tab cpu_strings cpu_tree)\<lparr>base := cpu_blob\<rparr>"

lemma cpu_names: "name_stored cpu_ctx cpu_tab ''reg''" "name_stored cpu_ctx cpu_tab ''status''"
  "name_stored cpu_ctx cpu_tab ''#address-cells''" "name_stored cpu_ctx cpu_tab ''#size-cells''"
proof -
  have "holds cpu_blob 228 cpu_strings" using cpu_held by (simp add: mk_blob_def cpu_sizes)
  then have "holds cpu_blob 228 (c_string ''reg'')" "holds cpu_blob 232 (c_string ''status'')"
    "holds cpu_blob 239 (c_string ''#address-cells'')" "holds cpu_blob 254 (c_string ''#size-cells'')"
    unfolding cpu_strings_def Fdt_Tree.holds_append by (simp_all only: length_c_string) (simp_all del: holds.simps)
  then show "name_stored cpu_ctx cpu_tab ''reg''" "name_stored cpu_ctx cpu_tab ''status''"
    "name_stored cpu_ctx cpu_tab ''#address-cells''" "name_stored cpu_ctx cpu_tab ''#size-cells''"
    by (simp_all add: name_stored_def mk_ctx_def cpu_sizes cpu_tab_def)
qed

lemma cpu_tree_ok: "cpu_list cpu_ctx cpu_tab 1 (dt_children cpu_tree ! 0)"
  using cpu_names by (auto simp: cpu_list_def props_named_def cpu_tree_def cpu_node_def)


subsection \<open>The ACPI walk\<close>

lemma le_read_agree: "(\<And>i. i < n \<Longrightarrow> m (p + of_nat i) = m' (p + of_nat i)) \<Longrightarrow> le_read m p n = le_read m' p n"
  unfolding le_read_def by (rule fold_cong) simp_all

text \<open>An address a little behind a pointer that is inside the table.\<close>

lemma inside_table:
  assumes "agree_on p0 (end - p0) m m'" "p0 \<le> p" "unat p + k < unat end"
  shows "m (p + of_nat k) = m' (p + of_nat k)"
proof -
  have k: "unat (of_nat k :: u64) = k" using assms(3) u64_unat_lt [of "end"] by (intro unat_of_nat_u64) linarith
  have pk: "unat (p + of_nat k) = unat p + k" using assms(3) u64_unat_lt [of "end"] using no_wrap_if_lt [of p "of_nat k"] k by linarith
  have "unat p0 \<le> unat p" using assms(2) by (simp add: word_le_nat_alt)
  then have "p0 \<le> p + of_nat k" "p0 \<le> end" using pk assms(3) by (simp_all add: word_le_nat_alt)
  then have "unat (p + of_nat k - p0) < unat (end - p0)" using pk assms(3) \<open>unat p0 \<le> unat p\<close> by (simp add: unat_sub)
  then show ?thesis using assms(1) by (auto simp: agree_on_def in_region_def word_less_nat_alt)
qed

lemma table_read:
  assumes "agree_on p0 (end - p0) m m'" "p0 \<le> p" "unat p + k + n \<le> unat end"
  shows "le_read m (p + of_nat k) n = le_read m' (p + of_nat k) n"
proof (rule le_read_agree)
  fix i assume "i < n"
  then show "m (p + of_nat k + of_nat i) = m' (p + of_nat k + of_nat i)"
    using inside_table [OF assms(1,2), of "k + i"] assms(3) by (simp add: add.assoc)
qed

lemma gic_loop_inside:
  assumes "agree_on p0 (end - p0) m m'" "unat end + 255 < 18446744073709551616" "p0 \<le> p" "p \<le> end"
  shows "gic_loop m p end s = gic_loop m' p end s \<and> gic_loop m p end s \<noteq> None"
  using assms(3,4)
proof (induction "unat end - unat p" arbitrary: p s rule: less_induct)
  case less
  let ?len = "m (p + 1)"
  let ?next = "p + ucast ?len"
  have le: "unat p \<le> unat end" using less.prems(2) by (simp add: word_le_nat_alt)
  have two: "p + 2 \<le> end \<longleftrightarrow> unat p + 2 \<le> unat end"
    using le assms(2) by (simp add: word_le_nat_alt no_wrap_if_lt)
  have nx: "unat ?next = unat p + unat ?len" using le assms(2) unat_byte [of ?len] by (subst no_wrap_if_lt) simp_all
  show ?case
  proof (cases "p + 2 \<le> end \<and> \<not> ?len < 2 \<and> \<not> ?next > end")
    case False
    show ?thesis
    proof (cases "p + 2 \<le> end")
      case True
      then have "?len = m' (p + 1)" using inside_table [OF assms(1) less.prems(1), of 1] two by simp
      then show ?thesis using True False by (simp add: gic_loop.simps [of m p] gic_loop.simps [of m' p] Let_def)
    qed (simp add: gic_loop.simps [of m p] gic_loop.simps [of m' p])
  next
    case True
    then have l: "unat p + unat ?len \<le> unat end" "2 \<le> unat ?len" using nx by (simp_all add: word_le_nat_alt word_less_nat_alt)
    then have e: "m p = m' p" "?len = m' (p + 1)"
      using inside_table [OF assms(1) less.prems(1), of 0] inside_table [OF assms(1) less.prems(1), of 1] by simp_all
    have "p0 \<le> ?next" "?next \<le> end" using less.prems(1) nx l by (simp_all add: word_le_nat_alt)
    then have IH: "gic_loop m ?next end s1 = gic_loop m' ?next end s1 \<and> gic_loop m ?next end s1 \<noteq> None" for s1
      by (intro less.hyps) (use nx l in simp_all)
    note rd = table_read [OF assms(1) less.prems(1)]
    have r: "gicc_step m p s1 = gicc_step m' p s1" if "76 \<le> ?len" for s1
    proof -
      have "unat p + 76 \<le> unat end" using that l by (simp add: word_le_nat_alt)
      then show ?thesis using rd [of 12 4] rd [of 68 8] rd [of 32 8] by (simp add: gicc_step_def Let_def)
    qed
    have g: "le_read m (p + 8) 8 = le_read m' (p + 8) 8" "le_read m (p + 4) 8 = le_read m' (p + 4) 8"
      "le_read m (p + 12) 4 = le_read m' (p + 12) 4" if "16 \<le> ?len"
      using that l rd [of 8 8] rd [of 4 8] rd [of 12 4] by (simp_all add: word_le_nat_alt)
    have v: "m (p + 20) = m' (p + 20)" if "21 \<le> ?len"
      using that l inside_table [OF assms(1) less.prems(1), of 20] by (simp add: word_le_nat_alt)
    have IH1: "gic_loop m ?next end s1 = gic_loop m' ?next end s1" and IH2: "gic_loop m' ?next end s1 \<noteq> None" for s1
      using IH by metis+
    show ?thesis
      using True r g v unfolding gic_loop.simps [of m p] gic_loop.simps [of m' p] Let_def e [symmetric]
      by (simp add: IH1 IH2 MADT_TYPE_GICC_def MADT_TYPE_GICD_def MADT_TYPE_GICR_def del: not_None_eq)
  qed
qed

text \<open>
  C30: The ARM walk over the interrupt table reads nothing outside it.  For a table that ends at least 255 bytes below the
  top of the address space the walk returns, and what it finds depends only on the bytes of the table, whatever
  lengths the entries claim.
\<close>

theorem gic_walk_stays_inside:
  assumes "agree_on (madt + SDT_HEADER + 8) (ucast (sdt_length m madt) - (SDT_HEADER + 8)) m m'"
    and "44 \<le> unat (sdt_length m madt)" and "unat madt + unat (sdt_length m madt) + 255 < 18446744073709551616"
  shows "gic_loop m (madt + SDT_HEADER + 8) (madt + ucast (sdt_length m madt)) s
      = gic_loop m' (madt + SDT_HEADER + 8) (madt + ucast (sdt_length m madt)) s
    \<and> gic_loop m (madt + SDT_HEADER + 8) (madt + ucast (sdt_length m madt)) s \<noteq> None"
proof -
  let ?p = "madt + SDT_HEADER + 8" and ?e = "madt + ucast (sdt_length m madt)"
  have e: "unat ?e = unat madt + unat (sdt_length m madt)"
    using assms(3) no_wrap_if_lt [of madt "ucast (sdt_length m madt)"] by (simp add: unat_ucast_u64)
  have "madt + 44 = ?p" by (simp add: SDT_HEADER_def)
  moreover have "unat (madt + 44) = unat madt + 44" using assms(2,3) no_wrap_if_lt [of madt 44] by simp
  ultimately have "unat ?p = unat madt + 44" by (simp only:)
  then have "?p \<le> ?e" using e assms(2) by (simp add: word_le_nat_alt)
  moreover have "ucast (sdt_length m madt) - (SDT_HEADER + 8) = ?e - ?p" by simp
  note a = assms(1) [unfolded this]
  ultimately show ?thesis using assms(3) e by (intro gic_loop_inside [OF a]) simp_all
qed

definition demo_gic :: phys where
  "demo_gic = placed [(0x3004, [0x50, 0, 0, 0]), (0x302C, [0x0C, 24] @ replicate 6 0 @ [0, 0, 0, 8, 0, 0, 0, 0, 0, 0, 0, 0, 2, 0, 0, 0] @ [0x0B, 76, 0, 0])]"

text \<open>A table of 80 bytes whose second entry claims to be 76 bytes long: nothing behind the table is looked at.\<close>

theorem gic_walk_stays_inside_witness:
  "gic_loop demo_gic 0x302C 0x3050 \<lparr>gs_cores = [], gs_found = 0, gicc_base = 0, gicd_base = 0, gicr_base = 0, gicr_size = 0, gic_version = 0\<rparr>
   = gic_loop (demo_gic(0x3050 := 7)) 0x302C 0x3050
       \<lparr>gs_cores = [], gs_found = 0, gicc_base = 0, gicd_base = 0, gicr_base = 0, gicr_size = 0, gic_version = 0\<rparr>"
proof -
  have "sdt_length demo_gic 0x3000 = 80" by code_simp
  moreover have "agree_on 0x302C 36 demo_gic (demo_gic(0x3050 := 7))" by (auto simp: agree_on_def in_region_def)
  ultimately show ?thesis using gic_walk_stays_inside [where madt = "0x3000" and m = demo_gic and m' = "demo_gic(0x3050 := 7)"] by (simp add: SDT_HEADER_def)
qed

end
