(* ===== verification/Arm_Mmu.thy ===== *)
theory Arm_Mmu
  imports Page_Tables Smp_Layout
begin

text \<open>
  The stage-1 page walk of the ARMv8 architecture with three levels of 4 KiB tables, and the identity map of
  \<open>coreinit/arch_mmu_aarch64.c\<close>.  The tables are in memory; the record \<open>arm_core\<close> holds the fields of the core state
  this and the page fault code use, with the addresses of the arrays it embeds.  Translations are always those of the
  tables: every change of an entry in the program is followed by the invalidation of the translations.
\<close>

subsection \<open>Descriptors\<close>

definition ARM_ADDR_MASK :: u64 where "ARM_ADDR_MASK = 0x0000FFFFFFFFF000"
definition ARM_VALID :: u64 where "ARM_VALID = 1"
definition TABLE_OR_PAGE :: u64 where "TABLE_OR_PAGE = 3"
definition NORMAL_MEMORY :: u64 where "NORMAL_MEMORY = 4"
definition READ_ONLY :: u64 where "READ_ONLY = 0x80"
definition INNER_SHAREABLE :: u64 where "INNER_SHAREABLE = 0x300"
definition ACCESS_FLAG :: u64 where "ACCESS_FLAG = 0x400"
definition DESC_PXN :: u64 where "DESC_PXN = 0x20000000000000"
definition DESC_UXN :: u64 where "DESC_UXN = 0x40000000000000"

lemmas arm_bits = ARM_VALID_def TABLE_OR_PAGE_def NORMAL_MEMORY_def READ_ONLY_def INNER_SHAREABLE_def
  ACCESS_FLAG_def DESC_PXN_def DESC_UXN_def

text \<open>
  The walk for an address: the status code of the fault, or the physical address, the level of the leaf, whether EL0 may use it and whether
  it may be written.  A leaf at a level maps \<open>2 ^ sh\<close> bytes; the table descriptors on the way can take rights away.
\<close>

definition arm_leaf :: "u64 \<Rightarrow> nat \<Rightarrow> u64 \<Rightarrow> u64 \<Rightarrow> u64 \<Rightarrow> u64 + (u64 \<times> u64 \<times> bool \<times> bool)" where
  "arm_leaf level sh tables e va =
    (if \<not> bit e 10 then Inl (8 + level)
     else Inr (e AND ARM_ADDR_MASK AND NOT (mask sh) OR va AND mask sh,
       level, bit e 6 \<and> \<not> bit tables 61, \<not> bit e 7 \<and> \<not> bit tables 62))"

definition arm_walk :: "memory \<Rightarrow> u64 \<Rightarrow> u64 \<Rightarrow> u64 + (u64 \<times> u64 \<times> bool \<times> bool)" where
  "arm_walk m root va =
    (let e1 = entry_at m root (table_index 30 va);
         e2 = entry_at m (e1 AND ARM_ADDR_MASK) (table_index 21 va);
         e3 = entry_at m (e2 AND ARM_ADDR_MASK) (table_index 12 va)
     in if drop_bit 39 va \<noteq> 0 then Inl 4
        else if \<not> bit e1 0 then Inl 5
        else if \<not> bit e1 1 then arm_leaf 1 30 0 e1 va
        else if \<not> bit e2 0 then Inl 6
        else if \<not> bit e2 1 then arm_leaf 2 21 e1 e2 va
        else if \<not> bit e3 0 \<or> \<not> bit e3 1 then Inl 7
        else arm_leaf 3 12 (e1 OR e2) e3 va)"

subsection \<open>The core and its map\<close>

record arm_core =
  mmu_l1 :: u64
  mmu_owned_map :: bool
  pf_l2 :: u64
  pf_l3 :: u64
  pf_split_base :: u64
  arm_have_split :: bool
  pf_handler_ready :: bool
  pf_streamed :: "u64 list"
  pf_cow :: "u64 list"
  pf_cow_used :: nat
  arm_cow_pool :: u64
  arm_fault_count :: u64
  pf_cow_copies :: u64

text \<open>Memory, the system registers the code touches, and the core state, which a core may lack.\<close>

record arm_machine =
  am_mem :: memory
  am_el :: u64
  am_sctlr :: u64
  am_mair :: u64
  am_tcr :: u64
  am_ttbr0 :: u64
  am_vbar :: u64
  am_irq_masked :: bool
  am_core :: "arm_core option"

definition arch_has_mmu_aarch64 :: "arm_machine \<Rightarrow> bool" where
  "arch_has_mmu_aarch64 st \<longleftrightarrow> am_sctlr st AND 1 \<noteq> 0"

definition arch_mmu_root_phys :: "arm_machine \<Rightarrow> u64" where
  "arch_mmu_root_phys st = (case am_core st of None \<Rightarrow> 0 | Some cs \<Rightarrow> if mmu_owned_map cs then mmu_l1 cs else 0)"

definition identity_tables :: "u64 \<Rightarrow> u64 \<Rightarrow> memory \<Rightarrow> memory" where
  "identity_tables l1 kernel_invoke_addr m =
    (let m0 = fold (\<lambda>i m. set_entry m l1 i 0) [0..<512] m;
         m1 = set_entry m0 l1 0 (ARM_VALID OR ACCESS_FLAG OR DESC_UXN OR DESC_PXN);
         m2 = set_entry m1 l1 1 (AARCH64_RAM_BASE OR ARM_VALID OR ACCESS_FLAG OR NORMAL_MEMORY OR INNER_SHAREABLE OR DESC_UXN);
         m3 = set_entry m2 l1 2 (0x80000000 OR ARM_VALID OR ACCESS_FLAG OR DESC_UXN OR DESC_PXN);
         m4 = set_entry m3 l1 3 (0xC0000000 OR ARM_VALID OR ACCESS_FLAG OR DESC_UXN OR DESC_PXN);
         kernel_block = ucast (drop_bit 30 kernel_invoke_addr) :: u32
     in if kernel_block < 4 then
          set_entry m4 l1 (unat kernel_block)
            (push_bit 30 (ucast kernel_block) OR ARM_VALID OR ACCESS_FLAG OR NORMAL_MEMORY OR INNER_SHAREABLE OR DESC_UXN)
        else m4)"

definition arch_mmu_enable_identity_map :: "u64 \<Rightarrow> arm_machine \<Rightarrow> arm_machine \<times> bool" where
  "arch_mmu_enable_identity_map kernel_invoke_addr st =
    (if am_el st \<noteq> push_bit 2 1 then (st, False)
     else (case am_core st of None \<Rightarrow> (st, False)
       | Some cs \<Rightarrow>
          if am_sctlr st AND 1 \<noteq> 0 then (st, True)
          else let st1 = st\<lparr>am_mem := identity_tables (mmu_l1 cs) kernel_invoke_addr (am_mem st),
                     am_irq_masked := True, am_mair := 0xFF04,
                     am_tcr := 25 OR push_bit 16 16 OR push_bit 23 1 OR push_bit 8 1 OR push_bit 10 1 OR push_bit 12 3,
                     am_ttbr0 := mmu_l1 cs, am_sctlr := am_sctlr st OR 1 OR push_bit 2 1 OR push_bit 12 1,
                     am_core := Some (cs\<lparr>mmu_owned_map := True\<rparr>)\<rparr>
               in (st1, arch_has_mmu_aarch64 st1)))"

subsection \<open>Entries of the identity map\<close>

definition identity_entry :: "u64 \<Rightarrow> nat \<Rightarrow> u64" where
  "identity_entry kernel_invoke_addr i =
    (let kernel_block = unat (ucast (drop_bit 30 kernel_invoke_addr) :: u32);
         ram = ARM_VALID OR ACCESS_FLAG OR NORMAL_MEMORY OR INNER_SHAREABLE OR DESC_UXN
     in if i \<ge> 4 then 0
        else push_bit 30 (of_nat i) OR (if i = 1 \<or> i = kernel_block then ram else ARM_VALID OR ACCESS_FLAG OR DESC_UXN OR DESC_PXN))"

lemma identity_tables_outside: "same_outside l1 0x1000 m (identity_tables l1 k m)"
proof -
  have s: "same_outside l1 0x1000 m (set_entry m' l1 j e)" if "same_outside l1 0x1000 m m'" "j < 512" for m' j e
    using same_outside_trans [OF that(1) set_entry_same_outside [OF that(2)]] .
  have "unat b < 512" if "b < (4 :: u32)" for b using that by (simp add: word_less_nat_alt)
  then show ?thesis unfolding identity_tables_def Let_def by (simp add: s filled_table(1))
qed

lemma identity_tables_entry:
  assumes "i < 512"
  shows "entry_at (identity_tables l1 k m) l1 i = identity_entry k i"
proof -
  define b where "b = (ucast (drop_bit 30 k) :: u32)"
  have e: "entry_at (set_entry m' l1 j e) l1 i = (if i = j then e else entry_at m' l1 i)" if "j < 512" for m' j e
    using that assms entry_set_other [of j i] by simp
  let ?m4 = "set_entry (set_entry (set_entry (set_entry (fold (\<lambda>i m. set_entry m l1 i 0) [0..<512] m) l1 0
      (ARM_VALID OR ACCESS_FLAG OR DESC_UXN OR DESC_PXN)) l1 1
      (AARCH64_RAM_BASE OR ARM_VALID OR ACCESS_FLAG OR NORMAL_MEMORY OR INNER_SHAREABLE OR DESC_UXN)) l1 2
      (0x80000000 OR ARM_VALID OR ACCESS_FLAG OR DESC_UXN OR DESC_PXN)) l1 3
      (0xC0000000 OR ARM_VALID OR ACCESS_FLAG OR DESC_UXN OR DESC_PXN)"
  have m4: "entry_at ?m4 l1 i = (if i \<ge> 4 then 0 else push_bit 30 (of_nat i) OR
      (if i = 1 then ARM_VALID OR ACCESS_FLAG OR NORMAL_MEMORY OR INNER_SHAREABLE OR DESC_UXN
       else ARM_VALID OR ACCESS_FLAG OR DESC_UXN OR DESC_PXN))"
  proof -
    have "i = 0 \<or> i = 1 \<or> i = 2 \<or> i = 3 \<or> i \<ge> 4" by linarith
    moreover have "entry_at (fold (\<lambda>i m. set_entry m l1 i 0) [0..<512] m) l1 i = 0" by (rule filled_table(2) [OF assms])
    moreover have l: "(0 :: nat) < 512" "(1 :: nat) < 512" "(2 :: nat) < 512" "(3 :: nat) < 512" by simp_all
    ultimately show ?thesis
      unfolding e [OF l(1)] e [OF l(2)] e [OF l(3)] e [OF l(4)]
      by (elim disjE) (simp_all add: AARCH64_RAM_BASE_def push_bit_eq_mult or.assoc)
  qed
  have "entry_at (identity_tables l1 k m) l1 i = (if b < 4 \<and> i = unat b then push_bit 30 (ucast b) OR ARM_VALID OR ACCESS_FLAG OR
      NORMAL_MEMORY OR INNER_SHAREABLE OR DESC_UXN else entry_at ?m4 l1 i)"
    unfolding identity_tables_def Let_def b_def [symmetric]
    by (cases "b < 4"; simp only: if_True if_False HOL.simp_thms; subst e) (simp_all add: word_less_nat_alt)
  moreover have "b < 4 \<longleftrightarrow> unat b < 4" by (simp add: word_less_nat_alt)
  moreover have "(ucast b :: u64) = of_nat (unat b)" by simp
  ultimately show ?thesis
    unfolding identity_entry_def Let_def b_def [symmetric] m4 by (simp add: or.assoc del: of_nat_unat)
qed

subsection \<open>Properties\<close>

text \<open>A block of the map.\<close>

lemma identity_block:
  assumes "i < 4"
  shows "bit (identity_entry k i) 0" "\<not> bit (identity_entry k i) 1" "bit (identity_entry k i) 10"
    "\<not> bit (identity_entry k i) 6" "\<not> bit (identity_entry k i) 7"
    "identity_entry k i AND ARM_ADDR_MASK AND NOT (mask 30) = push_bit 30 (of_nat i)"
proof -
  have "i = 0 \<or> i = 1 \<or> i = 2 \<or> i = 3" using assms by linarith
  then show "bit (identity_entry k i) 0" "\<not> bit (identity_entry k i) 1" "bit (identity_entry k i) 10"
    "\<not> bit (identity_entry k i) 6" "\<not> bit (identity_entry k i) 7"
    "identity_entry k i AND ARM_ADDR_MASK AND NOT (mask 30) = push_bit 30 (of_nat i)"
    unfolding identity_entry_def Let_def
    by (elim disjE; simp add: arm_bits ARM_ADDR_MASK_def mask_eq_exp_minus_1 push_bit_eq_mult split: if_split)+
qed

lemma table_index_div: "table_index sh va = unat va div 2 ^ sh mod 512"
proof -
  have "drop_bit sh va AND 511 = take_bit 9 (drop_bit sh va)" by (simp only: mask_9 take_bit_eq_mask)
  then have "table_index sh va = take_bit 9 (drop_bit sh (unat va))"
    by (simp only: table_index_def unsigned_take_bit_eq unsigned_drop_bit_eq)
      (simp add: take_bit_eq_mod drop_bit_eq_div)
  then show ?thesis by (simp add: take_bit_eq_mod drop_bit_eq_div)
qed

lemma drop_bit_zero_iff: "n < 64 \<Longrightarrow> drop_bit n (va :: u64) = 0 \<longleftrightarrow> unat va < 2 ^ n"
proof -
  have "drop_bit n va = 0 \<longleftrightarrow> unat (drop_bit n va) = 0" by (simp only: unat_eq_0)
  also have "unat (drop_bit n va) = drop_bit n (take_bit 64 (unat va))" by (simp only: unsigned_drop_bit_eq) simp
  finally show ?thesis by (simp add: drop_bit_eq_div div_eq_0_iff take_bit_nat_eq_self)
qed

lemma identity_walk:
  "arm_walk (identity_tables l1 k m) l1 va =
    (if va < 0x100000000 then Inr (va, 1, False, True) else Inl (if drop_bit 39 va = 0 then 5 else 4))"
proof -
  define i where "i = table_index 30 va"
  have z: "drop_bit 39 va = 0 \<longleftrightarrow> unat va < 549755813888" by (simp add: drop_bit_zero_iff)
  have w: "va < 0x100000000 \<longleftrightarrow> unat va < 4294967296" by (simp add: word_less_nat_alt)
  have e: "entry_at (identity_tables l1 k m) l1 i = identity_entry k i"
    by (rule identity_tables_entry) (simp add: i_def)
  show ?thesis
  proof (cases "unat va < 549755813888")
    case False
    then show ?thesis using z w by (simp add: arm_walk_def)
  next
    case True
    then have i: "i = unat va div 1073741824" by (simp add: i_def table_index_div)
    show ?thesis
    proof (cases "i < 4")
      case low: True
      have "unat (drop_bit 30 va) = i" unfolding i by (simp only: unsigned_drop_bit_eq) (simp add: drop_bit_eq_div take_bit_nat_eq_self)
      then have "(of_nat i :: u64) = drop_bit 30 va" by (metis of_nat_unat ucast_id)
      then have "push_bit 30 (of_nat i) OR va AND mask 30 = va"
        by (intro bit_word_eqI) (auto simp: bit_simps)
      moreover have "va < 0x100000000" using low unfolding w i by simp
      ultimately show ?thesis
        using identity_block [OF low, of k] True unfolding arm_walk_def z i_def [symmetric] e by (simp add: arm_leaf_def Let_def)
    next
      case False
      then have "\<not> unat va < 4294967296" unfolding i by simp
      moreover have "identity_entry k i = 0" using False by (simp add: identity_entry_def)
      ultimately show ?thesis using True unfolding arm_walk_def z w i_def [symmetric] e by (simp add: Let_def)
    qed
  qed
qed

text \<open>
  C21: Switching translation on keeps every address.  On a core at EL1 with translation off the identity map is
  installed: every address below 4 GiB translates to itself, for EL1 only and with write access, every other address
  faults, nothing but the table itself is written, and the block that holds the kernel may be executed.
\<close>

theorem identity_map_is_identity:
  assumes "am_el st = 4" "am_core st = Some cs" "am_sctlr st AND 1 = 0"
    and "arch_mmu_enable_identity_map entry st = (st', r)"
  shows "r \<and> am_ttbr0 st' = mmu_l1 cs \<and> arch_mmu_root_phys st' = mmu_l1 cs
    \<and> (\<forall>va. arm_walk (am_mem st') (am_ttbr0 st') va =
          (if va < 0x100000000 then Inr (va, 1, False, True) else Inl (if drop_bit 39 va = 0 then 5 else 4)))
    \<and> (\<forall>a. \<not> in_region (mmu_l1 cs) 0x1000 a \<longrightarrow> am_mem st' a = am_mem st a)
    \<and> (entry < 0x100000000 \<longrightarrow> \<not> bit (entry_at (am_mem st') (mmu_l1 cs) (table_index 30 entry)) 53)"
proof -
  let ?m = "identity_tables (mmu_l1 cs) entry (am_mem st)"
  have st: "am_mem st' = ?m" "am_ttbr0 st' = mmu_l1 cs" "arch_mmu_root_phys st' = mmu_l1 cs" "r"
    using assms by (auto simp: arch_mmu_enable_identity_map_def Let_def arch_mmu_root_phys_def arch_has_mmu_aarch64_def and_one_eq even_or_iff)
  have "\<not> bit (entry_at ?m (mmu_l1 cs) (table_index 30 entry)) 53" if "entry < 0x100000000"
  proof -
    have "unat entry < 4294967296" using that by (simp add: word_less_nat_alt)
    moreover have "unat (drop_bit 30 entry) = unat entry div 1073741824"
      by (simp only: unsigned_drop_bit_eq) (simp add: drop_bit_eq_div take_bit_nat_eq_self)
    ultimately have "unat (ucast (drop_bit 30 entry) :: u32) = table_index 30 entry"
      by (simp add: table_index_div unsigned_ucast_eq take_bit_nat_eq_self del: drop_bit_eq_div)
    moreover have "table_index 30 entry < 4" using \<open>unat entry < 4294967296\<close> by (simp add: table_index_div)
    then have "table_index 30 entry = 0 \<or> table_index 30 entry = 1 \<or> table_index 30 entry = 2 \<or> table_index 30 entry = 3" by linarith
    ultimately show ?thesis
      by (auto simp: identity_tables_entry identity_entry_def Let_def arm_bits bit_or_iff push_bit_eq_mult)
  qed
  then show ?thesis
    using st same_outsideD [OF identity_tables_outside] by (simp add: identity_walk)
qed

definition demo_arm_core :: arm_core where
  "demo_arm_core = \<lparr>mmu_l1 = 0x40101000, mmu_owned_map = False, pf_l2 = 0x40102000, pf_l3 = 0x40103000, pf_split_base = 0,
     arm_have_split = False, pf_handler_ready = False, pf_streamed = [], pf_cow = [], pf_cow_used = 0,
     arm_cow_pool = 0x40104000, arm_fault_count = 0, pf_cow_copies = 0\<rparr>"

definition demo_arm :: arm_machine where
  "demo_arm = \<lparr>am_mem = (\<lambda>a. ucast a), am_el = 4, am_sctlr = 0x30D00800, am_mair = 0, am_tcr = 0, am_ttbr0 = 0, am_vbar = 0,
     am_irq_masked = False, am_core = Some demo_arm_core\<rparr>"

theorem identity_map_is_identity_witness:
  "(case arch_mmu_enable_identity_map 0x40200000 demo_arm of (st', r) \<Rightarrow>
      r \<and> arm_walk (am_mem st') (am_ttbr0 st') 0x12345678 = Inr (0x12345678, 1, False, True)
      \<and> arm_walk (am_mem st') (am_ttbr0 st') 0x100000000 = Inl 5 \<and> am_mem st' 0x40100FFF = 0xFF
      \<and> \<not> bit (entry_at (am_mem st') 0x40101000 1) 53)"
proof -
  have "am_el demo_arm = 4" "am_core demo_arm = Some demo_arm_core" "am_sctlr demo_arm AND 1 = 0" by (simp_all add: demo_arm_def)
  note T = identity_map_is_identity [OF this]
  obtain st' r where e: "arch_mmu_enable_identity_map 0x40200000 demo_arm = (st', r)" by fastforce
  have "mmu_l1 demo_arm_core = 0x40101000" "table_index 30 0x40200000 = 1" "\<not> in_region 0x40101000 0x1000 0x40100FFF"
    "am_mem demo_arm 0x40100FFF = 0xFF"
    by (simp_all add: demo_arm_core_def demo_arm_def in_region_def table_index_div)
  moreover have "arm_walk (am_mem st') (am_ttbr0 st') va =
      (if va < 0x100000000 then Inr (va, 1, False, True) else Inl (if drop_bit 39 va = 0 then 5 else 4))" for va
    using T [OF e] by blast
  then have "arm_walk (am_mem st') (am_ttbr0 st') 0x12345678 = Inr (0x12345678, 1, False, True)"
    "arm_walk (am_mem st') (am_ttbr0 st') 0x100000000 = Inl 5" by simp_all
  ultimately show ?thesis using T [OF e] by (simp add: e)
qed

end
