(* ===== verification/Arm_Pagefault.thy ===== *)
theory Arm_Pagefault
  imports Arm_Mmu
begin

text \<open>
  Demand mapping and copy-on-write on AArch64, \<open>coreinit/pagefault_aarch64.c\<close>, over the identity map of \<open>Arm_Mmu\<close>.
  The two further tables and the pool of private pages lie in memory.  A load or store of the core walks the tables
  and, on a fault, runs the handler and is retried.
\<close>

subsection \<open>Marking pages\<close>

definition ARM_REGION_SIZE :: u64 where "ARM_REGION_SIZE = 0x200000"
definition ARM_RAM_END :: u64 where "ARM_RAM_END = 0x80000000"
definition ARM_MAX_STREAMED_PAGES :: nat where "ARM_MAX_STREAMED_PAGES = 16"
definition ARM_MAX_COW_PAGES :: nat where "ARM_MAX_COW_PAGES = 16"
definition ARM_COW_POOL_SIZE :: nat where "ARM_COW_POOL_SIZE = 4"

text \<open>The entry for an address, as its index in the last table.\<close>

definition page_entry :: "arm_core \<Rightarrow> u64 \<Rightarrow> nat option" where
  "page_entry cs addr =
    (if \<not> arm_have_split cs \<or> addr < pf_split_base cs \<or> addr \<ge> pf_split_base cs + ARM_REGION_SIZE then None
     else Some (table_index 12 addr))"

definition pagefault_supported_aarch64 :: "arm_machine \<Rightarrow> bool" where
  "pagefault_supported_aarch64 st \<longleftrightarrow> arch_has_mmu_aarch64 st \<and> arch_mmu_root_phys st \<noteq> 0"

definition pagefault_init_aarch64 :: "u64 \<Rightarrow> arm_machine \<Rightarrow> arm_machine" where
  "pagefault_init_aarch64 irq_aarch64_vectors st =
    (case am_core st of None \<Rightarrow> st
     | Some cs \<Rightarrow>
        if \<not> pagefault_supported_aarch64 st then st
        else st\<lparr>am_vbar := irq_aarch64_vectors, am_core := Some (cs\<lparr>pf_handler_ready := True\<rparr>)\<rparr>)"

definition RAM_FLAGS :: u64 where
  "RAM_FLAGS = ARM_VALID OR NORMAL_MEMORY OR INNER_SHAREABLE OR ACCESS_FLAG OR DESC_UXN"

definition l2_block :: "nat \<Rightarrow> u64" where
  "l2_block i = (AARCH64_RAM_BASE + of_nat i * ARM_REGION_SIZE) OR RAM_FLAGS"

definition l3_page :: "u64 \<Rightarrow> nat \<Rightarrow> u64" where
  "l3_page region_base i = (region_base + of_nat i * 4096) OR RAM_FLAGS OR TABLE_OR_PAGE"

definition pagefault_split_region_aarch64 :: "u64 \<Rightarrow> arm_machine \<Rightarrow> arm_machine \<times> bool" where
  "pagefault_split_region_aarch64 region_base st =
    (case am_core st of None \<Rightarrow> (st, False)
     | Some cs \<Rightarrow>
        let l1 = arch_mmu_root_phys st in
        if \<not> pf_handler_ready cs \<or> l1 = 0 \<or> region_base AND (ARM_REGION_SIZE - 1) \<noteq> 0 \<or> region_base < AARCH64_RAM_BASE \<or>
          region_base \<ge> ARM_RAM_END \<or> arm_have_split cs then (st, False)
        else if entry_at (am_mem st) l1 1 AND 3 \<noteq> ARM_VALID then (st, False)
        else let m1 = fold (\<lambda>i m. set_entry m (pf_l2 cs) i (l2_block i)) [0..<512] (am_mem st);
                 m2 = set_entry m1 l1 1 (pf_l2 cs OR TABLE_OR_PAGE);
                 m3 = fold (\<lambda>i m. set_entry m (pf_l3 cs) i (l3_page region_base i)) [0..<512] m2;
                 m4 = set_entry m3 (pf_l2 cs) (table_index 21 region_base) (pf_l3 cs OR TABLE_OR_PAGE)
             in (st\<lparr>am_mem := m4, am_core := Some (cs\<lparr>pf_split_base := region_base, arm_have_split := True\<rparr>)\<rparr>, True))"

definition register_streamed_aarch64 :: "u64 \<Rightarrow> arm_core \<Rightarrow> arm_core" where
  "register_streamed_aarch64 page_addr cs =
    (if page_addr \<notin> set (pf_streamed cs) \<and> length (pf_streamed cs) < ARM_MAX_STREAMED_PAGES
     then cs\<lparr>pf_streamed := pf_streamed cs @ [page_addr]\<rparr> else cs)"

definition pagefault_register_streamed_page_aarch64 :: "u64 \<Rightarrow> arm_machine \<Rightarrow> arm_machine" where
  "pagefault_register_streamed_page_aarch64 page_addr st =
    st\<lparr>am_core := map_option (register_streamed_aarch64 page_addr) (am_core st)\<rparr>"

definition pagefault_mark_absent_aarch64 :: "u64 \<Rightarrow> arm_machine \<Rightarrow> arm_machine \<times> bool" where
  "pagefault_mark_absent_aarch64 page_addr st =
    (case am_core st of None \<Rightarrow> (st, False)
     | Some cs \<Rightarrow>
        (case page_entry cs page_addr of None \<Rightarrow> (st, False)
         | Some i \<Rightarrow>
            let pte = entry_at (am_mem st) (pf_l3 cs) i in
            if \<not> pf_handler_ready cs \<or> pte AND ARM_VALID = 0 \<or>
              page_addr \<notin> set (pf_streamed cs) \<and> length (pf_streamed cs) = ARM_MAX_STREAMED_PAGES then (st, False)
            else let st1 = pagefault_register_streamed_page_aarch64 page_addr st
                 in (st1\<lparr>am_mem := set_entry (am_mem st1) (pf_l3 cs) i (pte AND NOT ARM_VALID)\<rparr>, True)))"

definition pagefault_mark_cow_aarch64 :: "u64 \<Rightarrow> arm_machine \<Rightarrow> arm_machine \<times> bool" where
  "pagefault_mark_cow_aarch64 page_addr st =
    (case am_core st of None \<Rightarrow> (st, False)
     | Some cs \<Rightarrow>
        (case page_entry cs page_addr of None \<Rightarrow> (st, False)
         | Some i \<Rightarrow>
            let pte = entry_at (am_mem st) (pf_l3 cs) i in
            if \<not> pf_handler_ready cs \<or> pte AND ARM_VALID = 0 \<or>
              page_addr \<notin> set (pf_cow cs) \<and> length (pf_cow cs) = ARM_MAX_COW_PAGES then (st, False)
            else let cs1 = (if page_addr \<notin> set (pf_cow cs) then cs\<lparr>pf_cow := pf_cow cs @ [page_addr]\<rparr> else cs)
                 in (st\<lparr>am_core := Some cs1, am_mem := set_entry (am_mem st) (pf_l3 cs) i (pte OR READ_ONLY)\<rparr>, True)))"

subsection \<open>The fault handler\<close>

definition arm_cow_page :: "arm_core \<Rightarrow> nat \<Rightarrow> u64" where
  "arm_cow_page cs i = arm_cow_pool cs + of_nat (4096 * i)"

definition resolve_cow_aarch64 :: "arm_core \<Rightarrow> nat \<Rightarrow> memory \<Rightarrow> memory \<times> arm_core" where
  "resolve_cow_aarch64 cs i m =
    (let pte = entry_at m (pf_l3 cs) i; dst = arm_cow_page cs (pf_cow_used cs);
         m1 = write_bytes m dst (read_bytes m (pte AND ARM_ADDR_MASK) 4096);
         m2 = set_entry m1 (pf_l3 cs) i ((pte AND NOT (ARM_ADDR_MASK OR READ_ONLY)) OR dst AND ARM_ADDR_MASK)
     in (m2, cs\<lparr>pf_cow_used := pf_cow_used cs + 1, pf_cow_copies := pf_cow_copies cs + 1\<rparr>))"

text \<open>
  The handler of synchronous exceptions, with the hook for exceptions from EL0 as an argument on the wrapper's state:
  whether the interrupted code resumes; otherwise the core halts with interrupts masked.
\<close>

definition pagefault_aarch64_handle ::
  "('h \<Rightarrow> u64 list \<Rightarrow> u64 \<Rightarrow> u64 \<Rightarrow> 'h \<times> u64 list \<times> bool) option \<Rightarrow> 'h \<Rightarrow> u64 list \<Rightarrow> u64 \<Rightarrow> u64 \<Rightarrow>
    arm_machine \<Rightarrow> 'h \<times> u64 list \<times> arm_machine \<times> bool" where
  "pagefault_aarch64_handle hook h frame esr far st =
    (let ec = drop_bit 26 esr AND 0x3F;
         (h1, frame1, taken) = (case hook of None \<Rightarrow> (h, frame, False)
           | Some f \<Rightarrow> if ec = 0x15 \<or> ec = 0x24 \<or> ec = 0x3C then f h frame esr far else (h, frame, False))
     in if taken then (h1, frame1, st, True)
        else let dfsc = esr AND 0x3F; page = far AND NOT 0xFFF in
          (case am_core st of None \<Rightarrow> (h1, frame1, st\<lparr>am_irq_masked := True\<rparr>, False)
           | Some cs0 \<Rightarrow>
              if \<not> pf_handler_ready cs0 \<or> \<not> (ec = 0x25 \<or> ec = 0x24) then (h1, frame1, st\<lparr>am_irq_masked := True\<rparr>, False)
              else let cs = cs0\<lparr>arm_fault_count := arm_fault_count cs0 + 1\<rparr>; stc = st\<lparr>am_core := Some cs\<rparr> in
                (case page_entry cs page of None \<Rightarrow> (h1, frame1, stc\<lparr>am_irq_masked := True\<rparr>, False)
                 | Some i \<Rightarrow>
                    let pte = entry_at (am_mem st) (pf_l3 cs) i in
                    if dfsc \<ge> 4 \<and> dfsc \<le> 7 \<and> page \<in> set (pf_streamed cs) \<and> pte AND ARM_VALID = 0 then
                      (h1, frame1, stc\<lparr>am_mem := set_entry (am_mem st) (pf_l3 cs) i (pte OR ARM_VALID)\<rparr>, True)
                    else if dfsc \<ge> 12 \<and> dfsc \<le> 15 \<and> esr AND push_bit 6 1 \<noteq> 0 \<and> page \<in> set (pf_cow cs) \<and>
                      pte AND READ_ONLY \<noteq> 0 \<and> pf_cow_used cs < ARM_COW_POOL_SIZE then
                      (case resolve_cow_aarch64 cs i (am_mem st) of (m, cs1) \<Rightarrow>
                        (h1, frame1, st\<lparr>am_mem := m, am_core := Some cs1\<rparr>, True))
                    else (h1, frame1, stc\<lparr>am_irq_masked := True\<rparr>, False))))"

definition pagefault_get_count_aarch64 :: "arm_machine \<Rightarrow> u64" where
  "pagefault_get_count_aarch64 st = (case am_core st of None \<Rightarrow> 0 | Some cs \<Rightarrow> arm_fault_count cs)"

definition pagefault_get_cow_copy_count_aarch64 :: "arm_machine \<Rightarrow> u64" where
  "pagefault_get_cow_copy_count_aarch64 st = (case am_core st of None \<Rightarrow> 0 | Some cs \<Rightarrow> pf_cow_copies cs)"

definition pagefault_debug_read_pte_aarch64 :: "u64 \<Rightarrow> arm_machine \<Rightarrow> u64" where
  "pagefault_debug_read_pte_aarch64 addr st =
    (case am_core st of None \<Rightarrow> 0
     | Some cs \<Rightarrow> (case page_entry cs addr of None \<Rightarrow> 0 | Some i \<Rightarrow> entry_at (am_mem st) (pf_l3 cs) i))"

subsection \<open>Accesses of the core at EL1\<close>

text \<open>The status of a data access: the physical address or the fault code.\<close>

definition access_target :: "bool \<Rightarrow> u64 \<Rightarrow> arm_machine \<Rightarrow> u64 + u64" where
  "access_target write va st =
    (case arm_walk (am_mem st) (am_ttbr0 st) va of Inl f \<Rightarrow> Inl f
     | Inr (pa, level, el0, w) \<Rightarrow> if write \<and> \<not> w then Inl (12 + level) else Inr pa)"

definition data_abort :: "bool \<Rightarrow> u64 \<Rightarrow> u64" where
  "data_abort write status = push_bit 26 0x25 OR push_bit 25 1 OR (if write then push_bit 6 1 else 0) OR status"

definition el1_fault :: "bool \<Rightarrow> u64 \<Rightarrow> u64 \<Rightarrow> arm_machine \<Rightarrow> arm_machine \<times> bool" where
  "el1_fault write status va st = snd (snd (pagefault_aarch64_handle None () [] (data_abort write status) va st))"

text \<open>
  An access faults until it goes through, giving the physical address, or until the core halts, giving none.  The
  whole is None when the access is retried forever.
\<close>

partial_function (option) arm_access :: "bool \<Rightarrow> u64 \<Rightarrow> arm_machine \<Rightarrow> (arm_machine \<times> u64 option) option" where
  [code]: "arm_access write va st =
    (case access_target write va st of
       Inr pa \<Rightarrow> Some (st, Some pa)
     | Inl status \<Rightarrow>
        (case el1_fault write status va st of
           (st', resumed) \<Rightarrow> if resumed then arm_access write va st' else Some (st', None)))"

text \<open>What a core does with its memory: the calls of the page fault interface, loads and stores.\<close>

datatype arm_op = Split u64 | Mark_absent u64 | Mark_cow u64 | Store u64 u8 | Load u64

definition arm_step :: "arm_op \<Rightarrow> arm_machine \<Rightarrow> (arm_machine \<times> bytes \<times> bool) option" where
  "arm_step operation st =
    (case operation of
       Split region \<Rightarrow> Some (fst (pagefault_split_region_aarch64 region st), [], False)
     | Mark_absent page \<Rightarrow> Some (fst (pagefault_mark_absent_aarch64 page st), [], False)
     | Mark_cow page \<Rightarrow> Some (fst (pagefault_mark_cow_aarch64 page st), [], False)
     | Store va b \<Rightarrow>
        (case arm_access True va st of None \<Rightarrow> None
         | Some (st', None) \<Rightarrow> Some (st', [], True)
         | Some (st', Some pa) \<Rightarrow> Some (st'\<lparr>am_mem := (am_mem st')(pa := b)\<rparr>, [], False))
     | Load va \<Rightarrow>
        (case arm_access False va st of None \<Rightarrow> None
         | Some (st', None) \<Rightarrow> Some (st', [], True)
         | Some (st', Some pa) \<Rightarrow> Some (st', [am_mem st' pa], False)))"

text \<open>A run of operations: the bytes loaded, and whether the core halted on the way.\<close>

fun arm_run :: "arm_op list \<Rightarrow> arm_machine \<Rightarrow> (arm_machine \<times> bytes \<times> bool) option" where
  "arm_run [] st = Some (st, [], False)"
| "arm_run (x # ops) st =
    (case arm_step x st of None \<Rightarrow> None
     | Some (st', bs, halted) \<Rightarrow>
        if halted then Some (st', bs, True)
        else (case arm_run ops st' of None \<Rightarrow> None
          | Some (st'', bs', halted') \<Rightarrow> Some (st'', bs @ bs', halted')))"

text \<open>The same operations on a plain memory: marking does nothing.\<close>

fun flat_run :: "arm_op list \<Rightarrow> memory \<Rightarrow> memory \<times> bytes" where
  "flat_run [] m = (m, [])"
| "flat_run (Store va b # ops) m = flat_run ops (m(va := b))"
| "flat_run (Load va # ops) m = (case flat_run ops m of (m', bs) \<Rightarrow> (m', m va # bs))"
| "flat_run (Split r # ops) m = flat_run ops m"
| "flat_run (Mark_absent p # ops) m = flat_run ops m"
| "flat_run (Mark_cow p # ops) m = flat_run ops m"

end
