(* ===== verification/Arm_Paging.thy ===== *)
theory Arm_Paging
  imports Arm_Pagefault
begin

text \<open>
  The page fault code of AArch64 is transparent: the invariant of the three tables, that every operation keeps it, and
  that loads and stores through the tables act on a plain memory.
\<close>

subsection \<open>Parts of an address\<close>

lemma unat_and_mask: "unat ((x :: u64) AND mask n) = unat x mod 2 ^ n"
proof -
  have "unat (take_bit n x) = take_bit n (unat x)" by (rule unsigned_take_bit_eq)
  then show ?thesis by (simp add: take_bit_eq_mask take_bit_eq_mod [symmetric] flip: take_bit_eq_mask)
qed

lemma mask_parts: "(x AND NOT (mask n)) + (x AND mask n) = (x :: u64)" "(x AND NOT (mask n)) OR (x AND mask n) = x"
proof -
  show o: "(x AND NOT (mask n)) OR (x AND mask n) = x" by (rule bit_word_eqI) (auto simp: bit_simps)
  have "(x AND NOT (mask n)) AND (x AND mask n) = 0" by (rule bit_word_eqI) (auto simp: bit_simps)
  from disjunctive_add_eq_or [OF this] show "(x AND NOT (mask n)) + (x AND mask n) = x" unfolding o .
qed

lemma unat_and_not_mask: "unat ((x :: u64) AND NOT (mask n)) = unat x div 2 ^ n * 2 ^ n"
proof -
  have "x AND NOT (mask n) = x - (x AND mask n)" using mask_parts(1) [of x n] by (metis add_diff_cancel_right')
  moreover have "x AND mask n \<le> x" by (simp add: word_le_nat_alt unat_and_mask)
  ultimately have "unat (x AND NOT (mask n)) = unat x - unat x mod 2 ^ n" by (simp add: unat_sub unat_and_mask)
  then show ?thesis by (simp add: minus_mod_eq_div_mult)
qed

lemma base_offset: "unat x = unat (va :: u64) div 2 ^ n * 2 ^ n \<Longrightarrow> x OR va AND mask n = va" "unat x = unat (va :: u64) div 2 ^ n * 2 ^ n \<Longrightarrow> x + (va AND mask n) = va"
proof -
  assume "unat x = unat va div 2 ^ n * 2 ^ n"
  then have "x = va AND NOT (mask n)" by (metis unat_and_not_mask unsigned_word_eqI)
  then show "x OR va AND mask n = va" "x + (va AND mask n) = va" using mask_parts by simp_all
qed

lemma and_mask_same: "unat x < 2 ^ n \<Longrightarrow> (x :: u64) AND mask n = x"
  by (metis mod_less unat_and_mask unsigned_word_eqI)

lemma and_not_mask_same: "2 ^ n dvd unat x \<Longrightarrow> (x :: u64) AND NOT (mask n) = x"
  by (metis dvd_div_mult_self unat_and_not_mask unsigned_word_eqI)

subsection \<open>Descriptors\<close>

lemma arm_mask_alt: "ARM_ADDR_MASK = mask 48 AND NOT (mask 12)"
  by (simp add: ARM_ADDR_MASK_def mask_eq_exp_minus_1)

lemma masked_frame: "unat x < 2 ^ 48 \<Longrightarrow> 4096 dvd unat x \<Longrightarrow> x AND ARM_ADDR_MASK = x"
  using and_mask_same [of x 48] and_not_mask_same [of 12 x] unfolding arm_mask_alt and.assoc [symmetric] by simp

lemma frame_bounds:
  assumes "x AND ARM_ADDR_MASK = x"
  shows "unat x < 2 ^ 48" "4096 dvd unat x"
proof -
  have "x = (x AND mask 48) AND NOT (mask 12)" using assms unfolding arm_mask_alt and.assoc [symmetric] by simp
  then have *: "unat x = unat x mod 2 ^ 48 div 2 ^ 12 * 2 ^ 12" by (metis unat_and_mask unat_and_not_mask)
  have "(4096 :: nat) = 2 ^ 12" by simp
  then show "4096 dvd unat x" using * by (metis dvd_triv_right)
  have "unat x mod 2 ^ 48 div 2 ^ 12 * 2 ^ 12 \<le> unat x mod 2 ^ 48" by simp
  also have "\<dots> < 2 ^ 48" by simp
  finally show "unat x < 2 ^ 48" using * by simp
qed

lemma table_descriptor:
  assumes "x AND ARM_ADDR_MASK = x"
  shows "(x OR TABLE_OR_PAGE) AND ARM_ADDR_MASK = x" "bit (x OR TABLE_OR_PAGE) 0" "bit (x OR TABLE_OR_PAGE) 1"
    "\<not> bit (x OR TABLE_OR_PAGE) 61" "\<not> bit (x OR TABLE_OR_PAGE) 62"
proof -
  have h: "\<not> bit x n" if "48 \<le> n" for n using no_high_bit [OF frame_bounds(1) [OF assms] that] .
  have "TABLE_OR_PAGE AND ARM_ADDR_MASK = 0" by (simp add: TABLE_OR_PAGE_def ARM_ADDR_MASK_def)
  then show "(x OR TABLE_OR_PAGE) AND ARM_ADDR_MASK = x" by (simp add: bit.conj_disj_distrib2 assms)
  show "bit (x OR TABLE_OR_PAGE) 0" "bit (x OR TABLE_OR_PAGE) 1" "\<not> bit (x OR TABLE_OR_PAGE) 61" "\<not> bit (x OR TABLE_OR_PAGE) 62"
    using h by (simp_all add: bit_or_iff TABLE_OR_PAGE_def)
qed

lemma frame_descriptor:
  assumes "unat x < 2 ^ 48" "4096 dvd unat x"
  shows "(x OR RAM_FLAGS) AND ARM_ADDR_MASK = x" "(x OR RAM_FLAGS OR TABLE_OR_PAGE) AND ARM_ADDR_MASK = x"
    "bit (x OR RAM_FLAGS) 0" "\<not> bit (x OR RAM_FLAGS) 1" "bit (x OR RAM_FLAGS OR TABLE_OR_PAGE) 1"
    "bit (x OR RAM_FLAGS) 10" "\<not> bit (x OR RAM_FLAGS) 6" "\<not> bit (x OR RAM_FLAGS) 7"
proof -
  note m = masked_frame [OF assms]
  have l: "\<not> bit x n" if "n < 12" for n
  proof -
    have "bit x n = bit (x AND ARM_ADDR_MASK) n" by (simp only: m)
    then show ?thesis using that by (simp add: arm_mask_alt bit_simps)
  qed
  have "RAM_FLAGS AND ARM_ADDR_MASK = 0" "TABLE_OR_PAGE AND ARM_ADDR_MASK = 0"
    by (simp_all add: RAM_FLAGS_def arm_bits ARM_ADDR_MASK_def)
  then show "(x OR RAM_FLAGS) AND ARM_ADDR_MASK = x" "(x OR RAM_FLAGS OR TABLE_OR_PAGE) AND ARM_ADDR_MASK = x"
    by (simp_all add: bit.conj_disj_distrib2 m)
  show "bit (x OR RAM_FLAGS) 0" "\<not> bit (x OR RAM_FLAGS) 1" "bit (x OR RAM_FLAGS OR TABLE_OR_PAGE) 1"
    "bit (x OR RAM_FLAGS) 10" "\<not> bit (x OR RAM_FLAGS) 6" "\<not> bit (x OR RAM_FLAGS) 7"
    using l [of 1] l [of 6] l [of 7] by (simp_all add: bit_or_iff RAM_FLAGS_def arm_bits)
qed

lemma unat_l2_block: "i < 512 \<Longrightarrow> unat (AARCH64_RAM_BASE + of_nat i * ARM_REGION_SIZE) = (512 + i) * 2097152"
proof -
  assume "i < 512"
  then have "unat (of_nat ((512 + i) * 2097152) :: u64) = (512 + i) * 2097152" by (intro unat_of_nat_u64) simp
  moreover have "AARCH64_RAM_BASE + of_nat i * ARM_REGION_SIZE = (of_nat ((512 + i) * 2097152) :: u64)"
    by (simp add: AARCH64_RAM_BASE_def ARM_REGION_SIZE_def algebra_simps)
  ultimately show ?thesis by simp
qed

lemma l2_block_leaf:
  assumes "i < 512"
  shows "bit (l2_block i) 0" "\<not> bit (l2_block i) 1" "bit (l2_block i) 10" "\<not> bit (l2_block i) 6" "\<not> bit (l2_block i) 7"
    "unat (l2_block i AND ARM_ADDR_MASK AND NOT (mask 21)) = (512 + i) * 2097152"
proof -
  let ?x = "AARCH64_RAM_BASE + of_nat i * ARM_REGION_SIZE"
  note u = unat_l2_block [OF assms]
  have "unat ?x < 2 ^ 48" "4096 dvd unat ?x" unfolding u using assms by (simp_all add: dvd_mult)
  note d = frame_descriptor [OF this]
  show "bit (l2_block i) 0" "\<not> bit (l2_block i) 1" "bit (l2_block i) 10" "\<not> bit (l2_block i) 6" "\<not> bit (l2_block i) 7"
    unfolding l2_block_def by (fact d)+
  have "?x AND NOT (mask 21) = ?x" by (rule and_not_mask_same) (simp add: u)
  then show "unat (l2_block i AND ARM_ADDR_MASK AND NOT (mask 21)) = (512 + i) * 2097152"
    unfolding l2_block_def and.assoc [symmetric] d(1) using u by simp
qed

subsection \<open>Invariant\<close>

text \<open>
  Where the arrays of the core state are: on page boundaries below 4 GiB and apart from each other.  Data are the
  other addresses below 4 GiB.
\<close>

definition arm_layout :: "arm_core \<Rightarrow> bool" where
  "arm_layout cs \<longleftrightarrow> mmu_l1 cs \<noteq> 0 \<and> mmu_l1 cs AND ARM_ADDR_MASK = mmu_l1 cs \<and> pf_l2 cs AND ARM_ADDR_MASK = pf_l2 cs \<and>
    pf_l3 cs AND ARM_ADDR_MASK = pf_l3 cs \<and> arm_cow_pool cs AND ARM_ADDR_MASK = arm_cow_pool cs \<and>
    unat (arm_cow_pool cs) + 0x4000 \<le> 0x100000000 \<and>
    regions_apart (mmu_l1 cs) 0x1000 (pf_l2 cs) 0x1000 \<and> regions_apart (mmu_l1 cs) 0x1000 (pf_l3 cs) 0x1000 \<and>
    regions_apart (pf_l2 cs) 0x1000 (pf_l3 cs) 0x1000 \<and> regions_apart (mmu_l1 cs) 0x1000 (arm_cow_pool cs) 0x4000 \<and>
    regions_apart (pf_l2 cs) 0x1000 (arm_cow_pool cs) 0x4000 \<and> regions_apart (pf_l3 cs) 0x1000 (arm_cow_pool cs) 0x4000"

definition data_address :: "arm_core \<Rightarrow> u64 \<Rightarrow> bool" where
  "data_address cs a \<longleftrightarrow> a < 0x100000000 \<and> \<not> in_region (mmu_l1 cs) 0x1000 a \<and> \<not> in_region (pf_l2 cs) 0x1000 a \<and>
    \<not> in_region (pf_l3 cs) 0x1000 a \<and> \<not> in_region (arm_cow_pool cs) 0x4000 a"

text \<open>
  The last table: every page of data is mapped to itself or to a page of the pool in use, no two to the same one; a
  page that is not valid is registered as streamed, one that is read-only as copy-on-write.
\<close>

definition page_frame :: "arm_core \<Rightarrow> nat \<Rightarrow> u64" where
  "page_frame cs i = pf_split_base cs + of_nat i * 4096"

definition l3_ok :: "arm_core \<Rightarrow> u64 \<Rightarrow> nat \<Rightarrow> bool" where
  "l3_ok cs e i \<longleftrightarrow> bit e 1 \<and> bit e 10 \<and> (\<not> bit e 0 \<longrightarrow> page_frame cs i \<in> set (pf_streamed cs)) \<and>
    (bit e 7 \<longrightarrow> page_frame cs i \<in> set (pf_cow cs)) \<and>
    (e AND ARM_ADDR_MASK = page_frame cs i \<or> (\<exists>p < pf_cow_used cs. e AND ARM_ADDR_MASK = arm_cow_page cs p))"

definition data_page :: "arm_core \<Rightarrow> nat \<Rightarrow> bool" where
  "data_page cs i \<longleftrightarrow> i < 512 \<and> data_address cs (page_frame cs i)"

definition split_ok :: "memory \<Rightarrow> arm_core \<Rightarrow> bool" where
  "split_ok m cs \<longleftrightarrow> 2097152 dvd unat (pf_split_base cs) \<and> 0x40000000 \<le> unat (pf_split_base cs) \<and> unat (pf_split_base cs) < 0x80000000 \<and>
    entry_at m (mmu_l1 cs) 1 = pf_l2 cs OR TABLE_OR_PAGE \<and>
    (\<forall>i < 512. entry_at m (pf_l2 cs) i = (if i = table_index 21 (pf_split_base cs) then pf_l3 cs OR TABLE_OR_PAGE else l2_block i)) \<and>
    (\<forall>i. data_page cs i \<longrightarrow> l3_ok cs (entry_at m (pf_l3 cs) i) i) \<and>
    (\<forall>i j. data_page cs i \<longrightarrow> data_page cs j \<longrightarrow>
       entry_at m (pf_l3 cs) i AND ARM_ADDR_MASK = entry_at m (pf_l3 cs) j AND ARM_ADDR_MASK \<longrightarrow> i = j)"

definition arm_wf :: "u64 \<Rightarrow> arm_machine \<Rightarrow> arm_core \<Rightarrow> bool" where
  "arm_wf k st cs \<longleftrightarrow> am_core st = Some cs \<and> am_ttbr0 st = mmu_l1 cs \<and> mmu_owned_map cs \<and> pf_handler_ready cs \<and> arm_layout cs \<and>
    pf_cow_used cs \<le> ARM_COW_POOL_SIZE \<and> (\<forall>i < 512. i \<noteq> 1 \<longrightarrow> entry_at (am_mem st) (mmu_l1 cs) i = identity_entry k i) \<and>
    (if arm_have_split cs then split_ok (am_mem st) cs else entry_at (am_mem st) (mmu_l1 cs) 1 = identity_entry k 1)"

text \<open>The physical address behind an address, and what is there.\<close>

definition backing :: "memory \<Rightarrow> arm_core \<Rightarrow> u64 \<Rightarrow> u64" where
  "backing m cs va =
    (case page_entry cs va of None \<Rightarrow> va
     | Some i \<Rightarrow> (entry_at m (pf_l3 cs) i AND ARM_ADDR_MASK) + (va AND mask 12))"

definition data_view :: "memory \<Rightarrow> arm_core \<Rightarrow> u64 \<Rightarrow> u8" where
  "data_view m cs va = m (backing m cs va)"

lemma page_entryD:
  assumes "page_entry cs va = Some i" "split_ok m cs"
  shows "i < 512" "i = table_index 12 va" "unat va div 2097152 = unat (pf_split_base cs) div 2097152"
    "unat (page_frame cs i) = unat va div 4096 * 4096" "page_frame cs i = page_of va" "unat va < 0x80000000" "0x40000000 \<le> unat va"
    "table_index 30 va = 1" "table_index 21 va = table_index 21 (pf_split_base cs)" "arm_have_split cs"
proof -
  obtain q where q: "unat (pf_split_base cs) = q * 2097152" "512 \<le> q" "q < 1024"
    using assms(2) unfolding split_ok_def by (auto elim!: dvdE simp: mult.commute)
  have b: "unat (pf_split_base cs + ARM_REGION_SIZE) = (q + 1) * 2097152"
    using q by (subst no_wrap_if_lt) (simp_all add: ARM_REGION_SIZE_def)
  have v: "q * 2097152 \<le> unat va" "unat va < (q + 1) * 2097152" "i = table_index 12 va" "arm_have_split cs"
    using assms(1) q b by (auto simp: page_entry_def word_le_nat_alt word_less_nat_alt split: if_splits)
  then have d: "unat va div 2097152 = q" by (intro div_nat_eqI) simp_all
  define w where "w = unat va div 4096"
  have "w div 512 = q" using d by (simp add: w_def div_mult2_eq [symmetric])
  moreover have "i = w mod 512" by (simp add: v(3) w_def table_index_div)
  ultimately have i: "q * 512 + i = w" using div_mult_mod_eq [of w 512] by simp
  show "i < 512" "i = table_index 12 va" "arm_have_split cs" "unat va div 2097152 = unat (pf_split_base cs) div 2097152"
    using v d q by (simp_all add: v(3))
  show "unat va < 0x80000000" "0x40000000 \<le> unat va" using v q by simp_all
  then show "table_index 30 va = 1" by (simp add: table_index_div div_nat_eqI)
  show "table_index 21 va = table_index 21 (pf_split_base cs)" using d q by (simp add: table_index_div)
  have f: "unat (page_frame cs i) = w * 4096"
  proof -
    have "page_frame cs i = of_nat (q * 2097152 + i * 4096)"
      unfolding page_frame_def using q(1) by (metis of_nat_add of_nat_mult of_nat_numeral of_nat_unat ucast_id)
    moreover have "q * 2097152 + i * 4096 = w * 4096" using i by simp
    moreover have "w * 4096 < 18446744073709551616" using i q(3) v(3) table_index_less [of 12 va] by linarith
    ultimately show ?thesis by (simp only: unat_of_nat_u64)
  qed
  then show "unat (page_frame cs i) = unat va div 4096 * 4096" by (simp add: w_def)
  have "page_of va = va AND NOT (mask 12)" by (simp add: page_of_def mask_12)
  then have "unat (page_of va) = w * 4096" by (simp add: unat_and_not_mask w_def)
  then show "page_frame cs i = page_of va" using f by (metis unsigned_word_eqI)
qed

subsection \<open>Accesses\<close>

lemma leaf_at:
  "bit e 10 \<Longrightarrow> \<not> bit tables 61 \<Longrightarrow> \<not> bit tables 62 \<Longrightarrow>
    arm_leaf level sh tables e va = Inr (e AND ARM_ADDR_MASK AND NOT (mask sh) OR va AND mask sh, level, bit e 6, \<not> bit e 7)"
  by (simp add: arm_leaf_def)

lemma access_first_level:
  assumes "entry_at (am_mem st) (am_ttbr0 st) (table_index 30 va) = identity_entry k (table_index 30 va)" "va < 0x100000000"
  shows "access_target write va st = Inr va"
proof -
  have u: "unat va < 4294967296" using assms(2) by (simp add: word_less_nat_alt)
  then have z: "drop_bit 39 va = 0" by (simp add: drop_bit_zero_iff)
  have i: "table_index 30 va = unat va div 2 ^ 30" "table_index 30 va < 4" using u by (simp_all add: table_index_div)
  note b = identity_block [OF i(2), of k]
  have "unat (push_bit 30 (of_nat (table_index 30 va)) :: u64) = unat va div 2 ^ 30 * 2 ^ 30"
  proof -
    have "push_bit 30 (of_nat (table_index 30 va)) = (of_nat (table_index 30 va * 1073741824) :: u64)" by (simp add: push_bit_eq_mult)
    moreover have "table_index 30 va * 1073741824 < 18446744073709551616" using i(2) by simp
    ultimately show ?thesis using i(1) by (simp only: unat_of_nat_u64) simp
  qed
  then have "identity_entry k (table_index 30 va) AND ARM_ADDR_MASK AND NOT (mask 30) OR va AND mask 30 = va"
    unfolding b(6) by (rule base_offset)
  then show ?thesis
    using b z by (simp add: access_target_def arm_walk_def Let_def assms(1) leaf_at)
qed

lemma access_second_level:
  assumes "split_ok (am_mem st) cs" "arm_layout cs" "am_ttbr0 st = mmu_l1 cs" "arm_have_split cs"
    and "table_index 30 va = 1" "unat va < 0x80000000" "page_entry cs va = None"
  shows "access_target write va st = Inr va"
proof -
  note S = assms(1) [unfolded split_ok_def] and t = table_descriptor [of "pf_l2 cs"]
  have z: "drop_bit 39 va = 0" using assms(6) by (simp add: drop_bit_zero_iff)
  have l: "unat va div 1073741824 = 1" using assms(5,6) by (simp add: table_index_div)
  let ?i = "table_index 21 va"
  have i: "unat va div 2097152 = 512 + ?i"
  proof -
    have "unat va div 2097152 div 512 = 1" using l by (simp add: div_mult2_eq [symmetric])
    then show ?thesis using div_mult_mod_eq [of "unat va div 2097152" 512] by (simp add: table_index_div)
  qed
  have n: "?i \<noteq> table_index 21 (pf_split_base cs)"
  proof
    assume e: "?i = table_index 21 (pf_split_base cs)"
    obtain q where q: "unat (pf_split_base cs) = q * 2097152" "512 \<le> q" "q < 1024"
      using S by (auto elim!: dvdE simp: mult.commute)
    moreover from q have "q - 512 < 512" by linarith
    ultimately have "512 + table_index 21 (pf_split_base cs) = q" by (simp add: table_index_div le_mod_geq)
    then have "unat va div 2097152 = q" using e i by simp
    then have "q * 2097152 \<le> unat va" "unat va < (q + 1) * 2097152"
      using div_less_iff_less_mult [of 2097152 "unat va" "q + 1"] less_eq_div_iff_mult_less_eq [of 2097152 q "unat va"] by simp_all
    moreover have "unat (pf_split_base cs + ARM_REGION_SIZE) = (q + 1) * 2097152"
      using q by (subst no_wrap_if_lt) (simp_all add: ARM_REGION_SIZE_def)
    ultimately show False using assms(4,7) q by (simp add: page_entry_def word_le_nat_alt word_less_nat_alt split: if_splits)
  qed
  then have e: "entry_at (am_mem st) (pf_l2 cs) ?i = l2_block ?i" "entry_at (am_mem st) (mmu_l1 cs) 1 = pf_l2 cs OR TABLE_OR_PAGE"
    using S by simp_all
  have L: "pf_l2 cs AND ARM_ADDR_MASK = pf_l2 cs" using assms(2) by (simp add: arm_layout_def)
  note b = l2_block_leaf [OF table_index_less, of 21 va]
  have "l2_block ?i AND ARM_ADDR_MASK AND NOT (mask 21) OR va AND mask 21 = va"
    using b(6) i by (intro base_offset) simp
  then show ?thesis
    using b z t [OF L] unfolding access_target_def arm_walk_def assms(3,5) Let_def e(2) by (simp add: e leaf_at)
qed

lemma access_third_level:
  assumes "split_ok (am_mem st) cs" "arm_layout cs" "am_ttbr0 st = mmu_l1 cs" "page_entry cs va = Some i" "data_page cs i"
    and "e = entry_at (am_mem st) (pf_l3 cs) i"
  shows "access_target write va st =
    (if \<not> bit e 0 then Inl 7 else if write \<and> bit e 7 then Inl 15 else Inr (backing (am_mem st) cs va))"
proof -
  note S = assms(1) [unfolded split_ok_def] and D = page_entryD [OF assms(4,1)]
  have z: "drop_bit 39 va = 0" using D(6) by (simp add: drop_bit_zero_iff)
  have L: "pf_l2 cs AND ARM_ADDR_MASK = pf_l2 cs" "pf_l3 cs AND ARM_ADDR_MASK = pf_l3 cs" using assms(2) by (simp_all add: arm_layout_def)
  note t2 = table_descriptor [OF L(1)] and t3 = table_descriptor [OF L(2)]
  have e: "entry_at (am_mem st) (mmu_l1 cs) 1 = pf_l2 cs OR TABLE_OR_PAGE"
    "entry_at (am_mem st) (pf_l2 cs) (table_index 21 va) = pf_l3 cs OR TABLE_OR_PAGE"
    using S D(9) table_index_less [of 21 va] by simp_all
  have ok: "bit e 1" "bit e 10" using S assms(5,6) by (auto simp: l3_ok_def)
  have m: "e AND ARM_ADDR_MASK AND NOT (mask 12) OR va AND mask 12 = (e AND ARM_ADDR_MASK) + (va AND mask 12)"
  proof -
    have "e AND ARM_ADDR_MASK AND NOT (mask 12) = e AND ARM_ADDR_MASK" by (simp add: arm_mask_alt and.assoc)
    moreover have "(e AND ARM_ADDR_MASK) AND (va AND mask 12) = 0" by (rule bit_word_eqI) (auto simp: arm_mask_alt bit_simps)
    from disjunctive_add_eq_or [OF this] have "(e AND ARM_ADDR_MASK) + (va AND mask 12) = e AND ARM_ADDR_MASK OR va AND mask 12" .
    ultimately show ?thesis by simp
  qed
  have "arm_walk (am_mem st) (am_ttbr0 st) va =
      (if \<not> bit e 0 then Inl 7 else Inr ((e AND ARM_ADDR_MASK) + (va AND mask 12), 3, bit e 6, \<not> bit e 7))"
    using z t2 t3 ok assms(6) unfolding arm_walk_def assms(3) D(8) Let_def e(1)
    by (simp add: e(2) D(2) [symmetric] leaf_at bit_or_iff m [unfolded assms(6)])
  then show ?thesis using assms(4,6) by (auto simp: access_target_def backing_def)
qed

text \<open>Together: an access to data outside the region goes to the address itself.\<close>

lemma access_plain:
  assumes "arm_wf k st cs" "data_address cs va" "page_entry cs va = None"
  shows "access_target write va st = Inr va"
proof (cases "arm_have_split cs \<and> table_index 30 va = 1")
  case True
  have "unat va < 4294967296" using assms(2) by (simp add: data_address_def word_less_nat_alt)
  then have "unat va div 1073741824 = 1" using True by (simp add: table_index_div)
  then have "unat va < 0x80000000"
    using div_mult_mod_eq [of "unat va" 1073741824] mod_less_divisor [of 1073741824 "unat va", OF zero_less_numeral] by linarith
  then show ?thesis using assms True by (intro access_second_level [of st cs]) (auto simp: arm_wf_def)
next
  case False
  have "entry_at (am_mem st) (am_ttbr0 st) (table_index 30 va) = identity_entry k (table_index 30 va)"
    using assms(1) False by (cases "table_index 30 va = 1") (simp_all add: arm_wf_def)
  then show ?thesis using assms(2) by (intro access_first_level) (simp_all add: data_address_def)
qed

lemma in_region_nat:
  assumes "unat t + unat n < 18446744073709551616"
  shows "in_region t n a \<longleftrightarrow> unat t \<le> unat a \<and> unat a < unat t + unat n"
proof (cases "t \<le> a")
  case True
  then have "unat (a - t) = unat a - unat t" by (simp add: unat_sub)
  then show ?thesis using True by (auto simp: in_region_def word_less_nat_alt word_le_nat_alt)
next
  case False
  then have l: "unat a < unat t" by (simp add: word_le_nat_alt)
  then have "unat (t - a) = unat t - unat a" by (simp add: unat_sub word_le_nat_alt)
  moreover have "t - a \<noteq> 0" using False by auto
  ultimately have "unat (a - t) = 18446744073709551616 - (unat t - unat a)" using unat_uminus [of "t - a"] l by simp
  then have "unat n \<le> unat (a - t)" using assms by linarith
  then show ?thesis using l by (simp add: in_region_def word_less_nat_alt)
qed

lemma same_page_region:
  assumes "t AND ARM_ADDR_MASK = t" "n = 0x1000 \<or> n = 0x4000"
  shows "in_region t n (page_of a) = in_region t n a"
proof -
  obtain q where q: "unat t = q * 4096" "unat t < 2 ^ 48" using frame_bounds [OF assms(1)] by (auto elim!: dvdE simp: mult.commute)
  have n: "unat t + unat n < 18446744073709551616" using q(2) assms(2) by auto
  have "page_of a = a AND NOT (mask 12)" by (simp add: page_of_def mask_12)
  then have p: "unat (page_of a) = unat a div 4096 * 4096" by (simp add: unat_and_not_mask)
  obtain r where r: "unat n = r * 4096" using assms(2) by (auto intro: that [of 1] that [of 4])
  have "q * 4096 \<le> x \<longleftrightarrow> q * 4096 \<le> x div 4096 * 4096" for x
    by (simp add: less_eq_div_iff_mult_less_eq [symmetric])
  moreover have "x < k * 4096 \<longleftrightarrow> x div 4096 * 4096 < k * 4096" for x k :: nat
    by (simp add: div_less_iff_less_mult [symmetric])
  ultimately show ?thesis unfolding in_region_nat [OF n] p q(1) r add_mult_distrib [symmetric] by metis
qed

lemma data_page_of:
  assumes "page_entry cs va = Some i" "split_ok m cs" "data_address cs va" "arm_layout cs"
  shows "data_page cs i"
proof -
  note D = page_entryD [OF assms(1,2)]
  have "unat va div 4096 * 4096 \<le> unat va" by (rule div_times_less_eq_dividend)
  then have "page_of va < 0x100000000" unfolding D(5) [symmetric] word_less_nat_alt D(4) using D(6) by simp
  then show ?thesis using assms(3,4) D(1) unfolding data_page_def D(5) by (simp add: data_address_def arm_layout_def same_page_region)
qed

subsection \<open>Changing an entry of the last table\<close>

text \<open>What other stores leave alone: the entries of the first two tables, and of the third but one.\<close>

lemma layout_apart:
  assumes "arm_layout cs"
  shows "regions_apart (mmu_l1 cs) 0x1000 (pf_l2 cs) 0x1000" "regions_apart (mmu_l1 cs) 0x1000 (pf_l3 cs) 0x1000"
    "regions_apart (pf_l2 cs) 0x1000 (pf_l3 cs) 0x1000" "regions_apart (pf_l2 cs) 0x1000 (mmu_l1 cs) 0x1000"
    "regions_apart (pf_l3 cs) 0x1000 (pf_l2 cs) 0x1000" "regions_apart (pf_l3 cs) 0x1000 (mmu_l1 cs) 0x1000"
    "regions_apart (mmu_l1 cs) 0x1000 (arm_cow_pool cs) 0x4000" "regions_apart (pf_l2 cs) 0x1000 (arm_cow_pool cs) 0x4000"
    "regions_apart (pf_l3 cs) 0x1000 (arm_cow_pool cs) 0x4000"
  using assms regions_apart_sym by (auto simp: arm_layout_def)

lemma pool_page:
  assumes "arm_layout cs" "p < 4"
  shows "unat (arm_cow_page cs p) = unat (arm_cow_pool cs) + 4096 * p" "arm_cow_page cs p AND ARM_ADDR_MASK = arm_cow_page cs p"
    "i < 4096 \<Longrightarrow> in_region (arm_cow_pool cs) 0x4000 (arm_cow_page cs p + of_nat i)"
proof -
  have P: "arm_cow_pool cs AND ARM_ADDR_MASK = arm_cow_pool cs" "unat (arm_cow_pool cs) + 0x4000 \<le> 0x100000000"
    using assms(1) by (simp_all add: arm_layout_def)
  have p: "unat (of_nat (4096 * p) :: u64) = 4096 * p" using assms(2) by (intro unat_of_nat_u64) simp
  show u: "unat (arm_cow_page cs p) = unat (arm_cow_pool cs) + 4096 * p"
    unfolding arm_cow_page_def using P(2) assms(2) p by (subst no_wrap_if_lt) simp_all
  show "arm_cow_page cs p AND ARM_ADDR_MASK = arm_cow_page cs p"
    using P(2) assms(2) frame_bounds(2) [OF P(1)] by (intro masked_frame) (simp_all add: u)
  have d: "arm_cow_page cs p + of_nat i - arm_cow_pool cs = of_nat (4096 * p + i)" by (simp add: arm_cow_page_def)
  have "unat (of_nat (4096 * p + i) :: u64) = 4096 * p + i" if "i < 4096" using assms(2) that by (intro unat_of_nat_u64) simp
  then show "i < 4096 \<Longrightarrow> in_region (arm_cow_pool cs) 0x4000 (arm_cow_page cs p + of_nat i)"
    using assms(2) unfolding in_region_def d word_less_nat_alt by simp
qed

text \<open>An address behind data lies outside the tables, and data addresses have different addresses behind them.\<close>

lemma backing_cases:
  assumes "arm_wf k st cs" "data_address cs va"
  obtains (plain) "page_entry cs va = None" "backing (am_mem st) cs va = va"
  | (page) i e where "page_entry cs va = Some i" "data_page cs i" "e = entry_at (am_mem st) (pf_l3 cs) i" "l3_ok cs e i" "split_ok (am_mem st) cs"
      "backing (am_mem st) cs va = (e AND ARM_ADDR_MASK) + (va AND mask 12)"
proof (cases "page_entry cs va")
  case None
  then show ?thesis by (intro plain) (simp_all add: backing_def)
next
  case (Some i)
  then have "arm_have_split cs" by (simp add: page_entry_def split: if_splits)
  then have S: "split_ok (am_mem st) cs" "arm_layout cs" using assms(1) by (simp_all add: arm_wf_def)
  note d = data_page_of [OF Some S(1) assms(2) S(2)]
  then have "l3_ok cs (entry_at (am_mem st) (pf_l3 cs) i) i" using S(1) by (simp add: split_ok_def)
  then show ?thesis using Some S d by (intro page) (simp_all add: backing_def)
qed

lemma backing_region:
  assumes "arm_wf k st cs" "data_address cs va"
  shows "backing (am_mem st) cs va = va \<or>
    (\<exists>p < pf_cow_used cs. \<exists>i < 4096. backing (am_mem st) cs va = arm_cow_page cs p + of_nat i)"
  using assms
proof (cases rule: backing_cases)
  case (page i e)
  obtain n where n: "n < 4096" "va AND mask 12 = of_nat n" using offset_nat [of va] by (auto simp: mask_12)
  show ?thesis
  proof (cases "e AND ARM_ADDR_MASK = page_frame cs i")
    case True
    have "unat (page_frame cs i) = unat va div 2 ^ 12 * 2 ^ 12" using page_entryD(4) [OF page(1,5)] by simp
    from base_offset(2) [OF this] show ?thesis using True page(6) by simp
  next
    case False
    then obtain p where "p < pf_cow_used cs" "e AND ARM_ADDR_MASK = arm_cow_page cs p" using page(4) by (auto simp: l3_ok_def)
    then have "\<exists>p < pf_cow_used cs. \<exists>i < 4096. backing (am_mem st) cs va = arm_cow_page cs p + of_nat i"
      using page(6) n by auto
    then show ?thesis ..
  qed
qed simp

lemma backing_outside_tables:
  assumes "arm_wf k st cs" "data_address cs va" "t = mmu_l1 cs \<or> t = pf_l2 cs \<or> t = pf_l3 cs"
  shows "\<not> in_region t 0x1000 (backing (am_mem st) cs va)"
  using backing_region [OF assms(1,2)]
proof (elim disjE exE conjE)
  fix p i assume p: "p < pf_cow_used cs" "i < 4096" "backing (am_mem st) cs va = arm_cow_page cs p + of_nat i"
  have L: "arm_layout cs" "p < 4" using assms(1) p(1) by (simp_all add: arm_wf_def ARM_COW_POOL_SIZE_def)
  have "in_region (arm_cow_pool cs) 0x4000 (backing (am_mem st) cs va)" unfolding p(3) by (rule pool_page(3) [OF L p(2)])
  then show ?thesis using layout_apart [OF L(1)] regions_apartD assms(3) by blast
qed (use assms(2,3) in \<open>auto simp: data_address_def\<close>)

lemma frame_parts:
  assumes "f AND ARM_ADDR_MASK = f"
  shows "(f + (v AND mask 12)) AND mask 12 = v AND mask 12" "(f + (v AND mask 12)) AND NOT (mask 12) = f"
proof -
  have f: "f AND NOT (mask 12) = f" using frame_bounds(2) [OF assms] by (intro and_not_mask_same) simp
  have "f AND (v AND mask 12) = 0" by (subst f [symmetric], rule bit_word_eqI) (auto simp: bit_simps)
  then have o: "f + (v AND mask 12) = f OR v AND mask 12" by (rule disjunctive_add_eq_or)
  show "(f + (v AND mask 12)) AND mask 12 = v AND mask 12"
    unfolding o by (subst f [symmetric], rule bit_word_eqI) (auto simp: bit_simps)
  show "(f + (v AND mask 12)) AND NOT (mask 12) = f"
    unfolding o bit.conj_disj_distrib2 f by (simp add: and.assoc)
qed

lemma backing_inj:
  assumes "arm_wf k st cs" "data_address cs va" "data_address cs va'" "backing (am_mem st) cs va = backing (am_mem st) cs va'"
  shows "va = va'"
proof -
  have data: "a = a'" if "data_address cs a" "data_address cs a'" "a = backing (am_mem st) cs a'" for a a'
    using backing_region [OF assms(1) that(2)]
  proof (elim disjE exE conjE)
    fix p i assume p: "p < pf_cow_used cs" "i < 4096" "backing (am_mem st) cs a' = arm_cow_page cs p + of_nat i"
    have "arm_layout cs" "p < 4" using assms(1) p(1) by (simp_all add: arm_wf_def ARM_COW_POOL_SIZE_def)
    then show ?thesis using that(1,3) p pool_page(3) by (simp add: data_address_def)
  qed (use that in simp)
  from assms(1,2) show ?thesis
  proof (cases rule: backing_cases)
    case plain
    then show ?thesis using data [OF assms(2,3)] assms(4) by simp
  next
    case (page i e)
    note P = page
    from assms(1,3) show ?thesis
    proof (cases rule: backing_cases)
      case plain
      then show ?thesis using data [OF assms(3,2)] assms(4) by simp
    next
      case (page j e')
      have m: "(x AND ARM_ADDR_MASK) AND ARM_ADDR_MASK = x AND ARM_ADDR_MASK" for x by (simp add: and.assoc)
      have eq: "(e AND ARM_ADDR_MASK) + (va AND mask 12) = (e' AND ARM_ADDR_MASK) + (va' AND mask 12)"
        using assms(4) P(6) page(6) by simp
      have "e AND ARM_ADDR_MASK = e' AND ARM_ADDR_MASK" "va AND mask 12 = va' AND mask 12"
        using frame_parts [OF m] eq by metis+
      moreover from this(1) have "i = j" using P page by (auto simp: split_ok_def)
      then have "page_of va = page_of va'" using page_entryD(5) [OF P(1,5)] page_entryD(5) [OF page(1,5)] by simp
      ultimately show ?thesis using same_page_offset by (simp add: mask_12)
    qed
  qed
qed

lemma entry_at_upd: "\<not> in_region t 0x1000 a \<Longrightarrow> i < 512 \<Longrightarrow> entry_at (m(a := b)) t i = entry_at m t i"
proof -
  assume a: "\<not> in_region t 0x1000 a" "i < 512"
  have "in_region t 0x1000 (t + of_nat (8 * i) + of_nat k)" if "k < 8" for k
    by (rule spans_in_region [OF entry_spans [OF a(2)] that])
  then have "t + of_nat (8 * i) + of_nat k \<noteq> a" if "k < 8" for k using a(1) that by blast
  then show ?thesis unfolding entry_at_def load64_def by (intro arg_cong [of _ _ le_word] read_bytes_cong) simp
qed

definition same_tables :: "arm_core \<Rightarrow> memory \<Rightarrow> memory \<Rightarrow> bool" where
  "same_tables cs m m' \<longleftrightarrow> (\<forall>i < 512. entry_at m' (mmu_l1 cs) i = entry_at m (mmu_l1 cs) i \<and> entry_at m' (pf_l2 cs) i = entry_at m (pf_l2 cs) i \<and>
    entry_at m' (pf_l3 cs) i = entry_at m (pf_l3 cs) i)"

lemma arm_wf_same_tables:
  assumes "arm_wf k st cs" "same_tables cs (am_mem st) m"
  shows "arm_wf k (st\<lparr>am_mem := m\<rparr>) cs" "data_address cs va \<Longrightarrow> backing m cs va = backing (am_mem st) cs va"
proof -
  have e: "entry_at m (mmu_l1 cs) i = entry_at (am_mem st) (mmu_l1 cs) i" "entry_at m (pf_l2 cs) i = entry_at (am_mem st) (pf_l2 cs) i"
    "entry_at m (pf_l3 cs) i = entry_at (am_mem st) (pf_l3 cs) i" if "i < 512" for i
    using assms(2) that by (simp_all add: same_tables_def)
  have "split_ok m cs" if "split_ok (am_mem st) cs" using that by (simp add: split_ok_def e data_page_def)
  then show "arm_wf k (st\<lparr>am_mem := m\<rparr>) cs" using assms(1) e(1) [of 1] by (cases "arm_have_split cs") (simp_all add: arm_wf_def e)
  show "backing m cs va = backing (am_mem st) cs va" if "data_address cs va"
    using assms(1) that by (cases rule: backing_cases) (simp_all add: backing_def data_page_def e)
qed

lemma store_view:
  assumes "arm_wf k st cs" "data_address cs va"
  shows "arm_wf k (st\<lparr>am_mem := (am_mem st)(backing (am_mem st) cs va := b)\<rparr>) cs"
    "data_address cs a \<Longrightarrow> data_view ((am_mem st)(backing (am_mem st) cs va := b)) cs a = (if a = va then b else data_view (am_mem st) cs a)"
proof -
  let ?m = "(am_mem st)(backing (am_mem st) cs va := b)"
  have "same_tables cs (am_mem st) ?m"
    unfolding same_tables_def using entry_at_upd [OF backing_outside_tables [OF assms]] by simp
  note W = arm_wf_same_tables [OF assms(1) this]
  show "arm_wf k (st\<lparr>am_mem := ?m\<rparr>) cs" by (rule W(1))
  show "data_view ?m cs a = (if a = va then b else data_view (am_mem st) cs a)" if "data_address cs a"
    using backing_inj [OF assms(1) that assms(2)] W(2) [OF that] by (auto simp: data_view_def)
qed

text \<open>
  Setting an entry for a page of data to one that maps the page to the same frame: the invariant holds for a core
  state with the page registered accordingly.
\<close>

definition same_core :: "arm_core \<Rightarrow> arm_core \<Rightarrow> bool" where
  "same_core cs cs' \<longleftrightarrow> mmu_l1 cs' = mmu_l1 cs \<and> mmu_owned_map cs' = mmu_owned_map cs \<and> pf_l2 cs' = pf_l2 cs \<and> pf_l3 cs' = pf_l3 cs \<and>
    pf_split_base cs' = pf_split_base cs \<and> arm_have_split cs' = arm_have_split cs \<and> pf_handler_ready cs' = pf_handler_ready cs \<and>
    arm_cow_pool cs' = arm_cow_pool cs"

lemma same_coreD:
  assumes "same_core cs cs'"
  shows "arm_layout cs' = arm_layout cs" "data_address cs' = data_address cs" "page_frame cs' = page_frame cs" "page_entry cs' = page_entry cs"
    "data_page cs' = data_page cs" "arm_cow_page cs' = arm_cow_page cs" "backing m cs' = backing m cs"
  using assms
  by (auto simp: same_core_def arm_layout_def data_address_def page_frame_def page_entry_def data_page_def arm_cow_page_def backing_def fun_eq_iff split: option.splits)

lemma set_page_entry:
  assumes "arm_wf k st cs" "arm_have_split cs" "data_page cs i" "same_core cs cs'" "pf_cow_used cs' \<le> ARM_COW_POOL_SIZE"
    and "same_outside (arm_cow_pool cs) 0x4000 (am_mem st) m1" "m = set_entry m1 (pf_l3 cs) i e" "l3_ok cs' e i"
    and "\<And>j. data_page cs j \<Longrightarrow> j \<noteq> i \<Longrightarrow> l3_ok cs' (entry_at (am_mem st) (pf_l3 cs) j) j"
    and "\<And>j. data_page cs j \<Longrightarrow> j \<noteq> i \<Longrightarrow> e AND ARM_ADDR_MASK \<noteq> entry_at (am_mem st) (pf_l3 cs) j AND ARM_ADDR_MASK"
  shows "arm_wf k (st\<lparr>am_mem := m, am_core := Some cs'\<rparr>) cs'"
proof -
  have L: "arm_layout cs" and S: "split_ok (am_mem st) cs" and i: "i < 512" using assms(1,2,3) by (simp_all add: arm_wf_def data_page_def)
  note A = layout_apart [OF L] and C = same_coreD [OF assms(4)]
  have o: "entry_at m1 t j = entry_at (am_mem st) t j" if "t = mmu_l1 cs \<or> t = pf_l2 cs \<or> t = pf_l3 cs" "j < 512" for t j
    using entry_at_same_outside [OF assms(6) _ that(2)] A that(1) by blast
  have e: "entry_at m (mmu_l1 cs) j = entry_at (am_mem st) (mmu_l1 cs) j" "entry_at m (pf_l2 cs) j = entry_at (am_mem st) (pf_l2 cs) j"
    "entry_at m (pf_l3 cs) j = (if j = i then e else entry_at (am_mem st) (pf_l3 cs) j)" if "j < 512" for j
    unfolding assms(7) using entry_at_other [OF A(2) i that] entry_at_other [OF A(3) i that] entry_set_other [of i j, OF _ i that] o [OF _ that]
    by simp_all
  have "split_ok m cs'"
    using S assms(8,9,10) unfolding split_ok_def C using assms(4)
    by (simp add: same_core_def e data_page_def) metis
  then show ?thesis using assms(1,2,4,5) by (simp add: arm_wf_def C same_core_def e)
qed

subsection \<open>Faults\<close>

lemma arm_flag_bits: "e AND ARM_VALID = 0 \<longleftrightarrow> \<not> bit e 0" "e AND READ_ONLY = 0 \<longleftrightarrow> \<not> bit e 7"
  using and_exp_eq_0_iff_not_bit [of e 0] and_exp_eq_0_iff_not_bit [of e 7] by (simp_all add: arm_bits)

lemma abort_fields:
  "drop_bit 26 (data_abort w 7) AND 0x3F = 0x25" "data_abort w 7 AND 0x3F = 7"
  "drop_bit 26 (data_abort True 15) AND 0x3F = 0x25" "data_abort True 15 AND 0x3F = 15" "data_abort True 15 AND 64 \<noteq> 0"
  by (cases w; simp add: data_abort_def)+

lemma page_and: "va AND - 4096 = page_of va"
  by (simp add: page_of_def)

lemma page_entry_page:
  assumes "page_entry cs va = Some i" "split_ok m cs"
  shows "page_entry cs (page_of va) = Some i"
proof -
  note D = page_entryD [OF assms]
  obtain q where q: "unat (pf_split_base cs) = q * 2097152" "512 \<le> q" "q < 1024"
    using assms(2) unfolding split_ok_def by (auto elim!: dvdE simp: mult.commute)
  have b: "unat (pf_split_base cs + ARM_REGION_SIZE) = (q + 1) * 2097152"
    using q by (subst no_wrap_if_lt) (simp_all add: ARM_REGION_SIZE_def)
  have p: "unat (page_of va) = unat va div 4096 * 4096" using D(4,5) by simp
  have "unat va div 4096 div 512 = q" using D(3) q by (simp add: div_mult2_eq [symmetric])
  then have "q * 512 \<le> unat va div 4096" "unat va div 4096 < (q + 1) * 512"
    using div_less_iff_less_mult [of 512 "unat va div 4096" "q + 1"] less_eq_div_iff_mult_less_eq [of 512 q "unat va div 4096"] by simp_all
  then have "\<not> page_of va < pf_split_base cs" "\<not> pf_split_base cs + ARM_REGION_SIZE \<le> page_of va"
    unfolding word_less_nat_alt word_le_nat_alt p b q(1) by simp_all
  moreover have "table_index 12 (page_of va) = i" unfolding D(2) using drop_page [of 12 va] by (simp add: table_index_def)
  ultimately show ?thesis using D(10) by (simp add: page_entry_def)
qed

definition counted :: "arm_core \<Rightarrow> arm_core" where
  "counted cs = cs\<lparr>arm_fault_count := arm_fault_count cs + 1\<rparr>"

lemma counted_same: "same_core cs (counted cs)" "pf_cow_used (counted cs) = pf_cow_used cs" "pf_streamed (counted cs) = pf_streamed cs"
  "pf_cow (counted cs) = pf_cow cs" "l3_ok (counted cs) = l3_ok cs" "page_entry (counted cs) = page_entry cs" "pf_l3 (counted cs) = pf_l3 cs"
  by (simp_all add: same_core_def counted_def l3_ok_def page_frame_def arm_cow_page_def fun_eq_iff page_entry_def)

text \<open>A page that is absent becomes valid, and its contents are those from before.\<close>

lemma fault_absent:
  assumes "arm_wf k st cs" "data_address cs va" "page_entry cs va = Some i" "e = entry_at (am_mem st) (pf_l3 cs) i" "\<not> bit e 0"
  shows "el1_fault write 7 va st = (st\<lparr>am_core := Some (counted cs), am_mem := set_entry (am_mem st) (pf_l3 cs) i (e OR ARM_VALID)\<rparr>, True)"
proof -
  have c: "am_core st = Some cs" "pf_handler_ready cs" using assms(1) by (simp_all add: arm_wf_def)
  from assms(1,2) show ?thesis
  proof (cases rule: backing_cases)
    case (page j x)
    have "j = i" using page(1) assms(3) by simp
    then have "page_of va \<in> set (pf_streamed cs)" using page(3,4) assms(4,5) page_entryD(5) [OF page(1,5)] by (simp add: l3_ok_def)
    moreover have "page_entry cs (page_of va) = Some i" by (rule page_entry_page [OF assms(3) page(5)])
    ultimately show ?thesis
      using assms(4,5) c unfolding el1_fault_def pagefault_aarch64_handle_def
      by (simp add: Let_def abort_fields page_and counted_def [symmetric] counted_same arm_flag_bits)
  qed (use assms(3) in simp)
qed

lemma valid_entry: "(e OR ARM_VALID) AND ARM_ADDR_MASK = e AND ARM_ADDR_MASK" "bit (e OR ARM_VALID) 0" "n \<noteq> 0 \<Longrightarrow> bit (e OR ARM_VALID) n = bit e n"
proof -
  have "ARM_VALID AND ARM_ADDR_MASK = 0" by (simp add: ARM_VALID_def ARM_ADDR_MASK_def)
  then show "(e OR ARM_VALID) AND ARM_ADDR_MASK = e AND ARM_ADDR_MASK" by (simp add: bit.conj_disj_distrib2)
  show "bit (e OR ARM_VALID) 0" "n \<noteq> 0 \<Longrightarrow> bit (e OR ARM_VALID) n = bit e n" by (simp_all add: bit_or_iff ARM_VALID_def bit_1_iff)
qed

lemma resolve_absent:
  assumes "arm_wf k st cs" "page_entry cs va = Some i" "data_page cs i" "e = entry_at (am_mem st) (pf_l3 cs) i"
    and "m = set_entry (am_mem st) (pf_l3 cs) i (e OR ARM_VALID)"
  shows "arm_wf k (st\<lparr>am_core := Some (counted cs), am_mem := m\<rparr>) (counted cs)"
    "data_address cs a \<Longrightarrow> backing m cs a = backing (am_mem st) cs a" "data_address cs a \<Longrightarrow> data_view m cs a = data_view (am_mem st) cs a"
    "entry_at m (pf_l3 cs) i = e OR ARM_VALID"
proof -
  have h: "arm_have_split cs" using assms(2) by (simp add: page_entry_def split: if_splits)
  then have S: "split_ok (am_mem st) cs" and U: "pf_cow_used cs \<le> ARM_COW_POOL_SIZE" and L: "arm_layout cs" using assms(1) by (simp_all add: arm_wf_def)
  have i: "i < 512" using assms(3) by (simp add: data_page_def)
  have ok: "l3_ok cs e i" using S assms(3,4) by (simp add: split_ok_def)
  have "arm_wf k (st\<lparr>am_mem := m, am_core := Some (counted cs)\<rparr>) (counted cs)"
  proof (rule set_page_entry [OF assms(1) h assms(3) counted_same(1) _ same_outside_refl assms(5)])
    show "l3_ok (counted cs) (e OR ARM_VALID) i" using ok by (simp add: counted_same l3_ok_def valid_entry)
    fix j assume j: "data_page cs j" "j \<noteq> i"
    show "l3_ok (counted cs) (entry_at (am_mem st) (pf_l3 cs) j) j" using S j by (simp add: counted_same split_ok_def)
    show "(e OR ARM_VALID) AND ARM_ADDR_MASK \<noteq> entry_at (am_mem st) (pf_l3 cs) j AND ARM_ADDR_MASK"
      using S j assms(3,4) by (auto simp: valid_entry split_ok_def)
  qed (simp add: counted_same U)
  moreover have "st\<lparr>am_core := Some (counted cs), am_mem := m\<rparr> = st\<lparr>am_mem := m, am_core := Some (counted cs)\<rparr>" by simp
  ultimately show "arm_wf k (st\<lparr>am_core := Some (counted cs), am_mem := m\<rparr>) (counted cs)" by (simp only:)
  show "entry_at m (pf_l3 cs) i = e OR ARM_VALID" using assms(5) by simp
  have b: "backing m cs a = backing (am_mem st) cs a" if "data_address cs a" for a
    using assms(1) that
  proof (cases rule: backing_cases)
    case (page j x)
    then show ?thesis using entry_set_other [of i j, OF _ i] by (cases "j = i") (simp_all add: backing_def assms(4,5) valid_entry data_page_def)
  qed (simp add: backing_def)
  then show "data_address cs a \<Longrightarrow> backing m cs a = backing (am_mem st) cs a" .
  have "\<not> in_region (pf_l3 cs) 0x1000 (backing (am_mem st) cs a)" if "data_address cs a" for a
    by (rule backing_outside_tables [OF assms(1) that]) simp
  then show "data_address cs a \<Longrightarrow> data_view m cs a = data_view (am_mem st) cs a"
    using b same_outsideD [OF set_entry_same_outside [OF i]] by (simp add: data_view_def assms(5))
qed

text \<open>A store to a page that is read-only moves the page to the next page of the pool.\<close>

definition moved :: "arm_core \<Rightarrow> arm_core" where
  "moved cs = cs\<lparr>arm_fault_count := arm_fault_count cs + 1, pf_cow_used := pf_cow_used cs + 1, pf_cow_copies := pf_cow_copies cs + 1\<rparr>"

definition moved_mem :: "arm_core \<Rightarrow> nat \<Rightarrow> memory \<Rightarrow> memory" where
  "moved_mem cs i m = fst (resolve_cow_aarch64 cs i m)"

lemma moved_same: "same_core cs (moved cs)" "pf_cow_used (moved cs) = pf_cow_used cs + 1" "pf_streamed (moved cs) = pf_streamed cs"
  "pf_cow (moved cs) = pf_cow cs"
  by (simp_all add: same_core_def moved_def)

lemma fault_read_only:
  assumes "arm_wf k st cs" "data_address cs va" "page_entry cs va = Some i" "e = entry_at (am_mem st) (pf_l3 cs) i" "bit e 7"
  shows "el1_fault True 15 va st =
    (if pf_cow_used cs < ARM_COW_POOL_SIZE then (st\<lparr>am_mem := moved_mem cs i (am_mem st), am_core := Some (moved cs)\<rparr>, True)
     else (st\<lparr>am_core := Some (counted cs), am_irq_masked := True\<rparr>, False))"
proof -
  have c: "am_core st = Some cs" "pf_handler_ready cs" using assms(1) by (simp_all add: arm_wf_def)
  have r: "resolve_cow_aarch64 (counted cs) i (am_mem st) = (moved_mem cs i (am_mem st), moved cs)"
    by (simp add: resolve_cow_aarch64_def moved_mem_def counted_def moved_def Let_def arm_cow_page_def)
  from assms(1,2) show ?thesis
  proof (cases rule: backing_cases)
    case (page j x)
    have "j = i" using page(1) assms(3) by simp
    then have "page_of va \<in> set (pf_cow cs)" using page(3,4) assms(4,5) page_entryD(5) [OF page(1,5)] by (simp add: l3_ok_def)
    moreover have "page_entry cs (page_of va) = Some i" by (rule page_entry_page [OF assms(3) page(5)])
    ultimately show ?thesis
      using assms(4,5) c unfolding el1_fault_def pagefault_aarch64_handle_def
      by (simp add: Let_def abort_fields page_and counted_def [symmetric] counted_same arm_flag_bits r)
  qed (use assms(3) in simp)
qed

definition moved_entry :: "arm_core \<Rightarrow> u64 \<Rightarrow> u64" where
  "moved_entry cs e = (e AND NOT (ARM_ADDR_MASK OR READ_ONLY)) OR arm_cow_page cs (pf_cow_used cs) AND ARM_ADDR_MASK"

lemma bit_read_only: "bit READ_ONLY n \<longleftrightarrow> n = 7"
proof -
  have "bit READ_ONLY n \<longleftrightarrow> bit (push_bit 7 1 :: u64) n" by (simp add: READ_ONLY_def)
  also have "\<dots> \<longleftrightarrow> n = 7" by (simp only: bit_push_bit_iff bit_1_iff possible_bit_word) auto
  finally show ?thesis .
qed

lemma moved_entry_bits:
  assumes "arm_cow_page cs (pf_cow_used cs) AND ARM_ADDR_MASK = arm_cow_page cs (pf_cow_used cs)"
  shows "moved_entry cs e AND ARM_ADDR_MASK = arm_cow_page cs (pf_cow_used cs)" "\<not> bit (moved_entry cs e) 7"
    "n < 12 \<Longrightarrow> n \<noteq> 7 \<Longrightarrow> bit (moved_entry cs e) n = bit e n"
proof -
  let ?p = "arm_cow_page cs (pf_cow_used cs)"
  have l: "\<not> bit ?p n" if "n < 12" for n
  proof -
    have "bit ?p n = bit (?p AND ARM_ADDR_MASK) n" by (simp only: assms)
    then show ?thesis using that by (simp add: arm_mask_alt bit_simps)
  qed
  have "(e AND NOT (ARM_ADDR_MASK OR READ_ONLY)) AND ARM_ADDR_MASK = 0" by (rule bit_word_eqI) (auto simp: bit_simps)
  then show "moved_entry cs e AND ARM_ADDR_MASK = ?p" unfolding moved_entry_def by (simp add: bit.conj_disj_distrib2 assms)
  note r = bit_read_only
  show "\<not> bit (moved_entry cs e) 7" using l [of 7] unfolding moved_entry_def assms by (simp add: bit_simps r)
  show "bit (moved_entry cs e) n = bit e n" if "n < 12" "n \<noteq> 7"
    using l [OF that(1)] that bit_imp_le_length [of e n] unfolding moved_entry_def assms
    by (auto simp: bit_simps r arm_mask_alt)
qed

text \<open>The next page of the pool is not in use, and what moving does to memory.\<close>

lemma next_page_unused:
  assumes "l3_ok cs x j" "data_page cs j" "arm_layout cs" "pf_cow_used cs < 4"
  shows "x AND ARM_ADDR_MASK \<noteq> arm_cow_page cs (pf_cow_used cs)"
proof
  assume x: "x AND ARM_ADDR_MASK = arm_cow_page cs (pf_cow_used cs)"
  note P = pool_page [OF assms(3,4)]
  from assms(1) consider "x AND ARM_ADDR_MASK = page_frame cs j" | p where "p < pf_cow_used cs" "x AND ARM_ADDR_MASK = arm_cow_page cs p"
    by (auto simp: l3_ok_def)
  then show False
  proof cases
    case 1
    then show False using assms(2) P(3) [of 0] x by (simp add: data_page_def data_address_def)
  next
    case 2
    then have "p < 4" using assms(4) by simp
    then show False using pool_page(1) [OF assms(3)] 2 x P(1) by (metis add_left_cancel less_irrefl mult_cancel1 zero_neq_numeral)
  qed
qed

lemma moved_mem_at:
  assumes "arm_layout cs" "pf_cow_used cs < 4" "i < 512" "e = entry_at m (pf_l3 cs) i" "d = arm_cow_page cs (pf_cow_used cs)"
  shows "\<exists>m1. same_outside (arm_cow_pool cs) 0x4000 m m1 \<and> moved_mem cs i m = set_entry m1 (pf_l3 cs) i (moved_entry cs e)"
    "\<not> in_region (pf_l3 cs) 0x1000 x \<Longrightarrow> \<forall>n < 4096. x \<noteq> d + of_nat n \<Longrightarrow> moved_mem cs i m x = m x"
    "n < 4096 \<Longrightarrow> moved_mem cs i m (d + of_nat n) = m ((e AND ARM_ADDR_MASK) + of_nat n)"
proof -
  note P = pool_page [OF assms(1,2), folded assms(5)]
  let ?m1 = "write_bytes m d (read_bytes m (e AND ARM_ADDR_MASK) 4096)"
  have m: "moved_mem cs i m = set_entry ?m1 (pf_l3 cs) i (moved_entry cs e)"
    by (simp add: assms(4,5) moved_mem_def resolve_cow_aarch64_def Let_def moved_entry_def)
  have o1: "?m1 a = m a" if "\<forall>n < 4096. a \<noteq> d + of_nat n" for a using that by (intro write_bytes_outside) simp
  have "same_outside (arm_cow_pool cs) 0x4000 m ?m1" unfolding same_outside_def using o1 P(3) by metis
  then show "\<exists>m1. same_outside (arm_cow_pool cs) 0x4000 m m1 \<and> moved_mem cs i m = set_entry m1 (pf_l3 cs) i (moved_entry cs e)"
    using m by blast
  have l3: "moved_mem cs i m x = ?m1 x" if "\<not> in_region (pf_l3 cs) 0x1000 x" for x
    unfolding m using same_outsideD [OF set_entry_same_outside [OF assms(3)] that] by simp
  show "moved_mem cs i m x = m x" if "\<not> in_region (pf_l3 cs) 0x1000 x" "\<forall>n < 4096. x \<noteq> d + of_nat n"
    using l3 [OF that(1)] o1 [OF that(2)] by simp
  show "moved_mem cs i m (d + of_nat n) = m ((e AND ARM_ADDR_MASK) + of_nat n)" if "n < 4096"
  proof -
    have "\<not> in_region (pf_l3 cs) 0x1000 (d + of_nat n)" using P(3) [OF that] layout_apart(9) [OF assms(1)] regions_apartD by blast
    from l3 [OF this] show ?thesis using write_bytes_nth [of n "read_bytes m (e AND ARM_ADDR_MASK) 4096" m d] that by simp
  qed
qed

lemma moved_wf:
  assumes "arm_wf k st cs" "page_entry cs va = Some i" "data_page cs i" "e = entry_at (am_mem st) (pf_l3 cs) i" "pf_cow_used cs < ARM_COW_POOL_SIZE"
    and "m = moved_mem cs i (am_mem st)"
  shows "arm_wf k (st\<lparr>am_mem := m, am_core := Some (moved cs)\<rparr>) (moved cs)" "entry_at m (pf_l3 cs) i = moved_entry cs e"
    "j < 512 \<Longrightarrow> j \<noteq> i \<Longrightarrow> entry_at m (pf_l3 cs) j = entry_at (am_mem st) (pf_l3 cs) j"
proof -
  have h: "arm_have_split cs" using assms(2) by (simp add: page_entry_def split: if_splits)
  then have S: "split_ok (am_mem st) cs" and L: "arm_layout cs" using assms(1) by (simp_all add: arm_wf_def)
  have i: "i < 512" using assms(3) by (simp add: data_page_def)
  have ok: "l3_ok cs e i" using S assms(3,4) by (simp add: split_ok_def)
  have u: "pf_cow_used cs < 4" using assms(5) by (simp add: ARM_COW_POOL_SIZE_def)
  note E = moved_entry_bits [OF pool_page(2) [OF L u]]
  obtain m1 where m1: "same_outside (arm_cow_pool cs) 0x4000 (am_mem st) m1" "m = set_entry m1 (pf_l3 cs) i (moved_entry cs e)"
    using moved_mem_at(1) [OF L u i assms(4) refl] assms(6) by blast
  show "arm_wf k (st\<lparr>am_mem := m, am_core := Some (moved cs)\<rparr>) (moved cs)"
  proof (rule set_page_entry [OF assms(1) h assms(3) moved_same(1) _ m1])
    show "l3_ok (moved cs) (moved_entry cs e) i"
      using ok by (auto simp: l3_ok_def E same_coreD [OF moved_same(1)] moved_same)
    fix j assume j: "data_page cs j" "j \<noteq> i"
    then have jo: "l3_ok cs (entry_at (am_mem st) (pf_l3 cs) j) j" using S by (simp add: split_ok_def)
    then show "l3_ok (moved cs) (entry_at (am_mem st) (pf_l3 cs) j) j"
      by (simp add: l3_ok_def same_coreD [OF moved_same(1)] moved_same) (meson less_SucI)
    show "moved_entry cs e AND ARM_ADDR_MASK \<noteq> entry_at (am_mem st) (pf_l3 cs) j AND ARM_ADDR_MASK"
      using next_page_unused [OF jo j(1) L u] by (simp add: E)
  qed (use u in \<open>simp add: moved_same ARM_COW_POOL_SIZE_def\<close>)
  show "entry_at m (pf_l3 cs) i = moved_entry cs e" by (simp add: m1)
  show "entry_at m (pf_l3 cs) j = entry_at (am_mem st) (pf_l3 cs) j" if "j < 512" "j \<noteq> i"
    using entry_at_same_outside [OF m1(1) layout_apart(9) [OF L] that(1)] entry_set_other [of i j, OF _ i that(1)] that(2) by (simp add: m1(2))
qed

lemma moved_view:
  assumes "arm_wf k st cs" "page_entry cs va = Some i" "data_page cs i" "e = entry_at (am_mem st) (pf_l3 cs) i" "pf_cow_used cs < ARM_COW_POOL_SIZE"
    and "m = moved_mem cs i (am_mem st)" "data_address cs a"
  shows "data_view m cs a = data_view (am_mem st) cs a"
proof -
  have L: "arm_layout cs" using assms(1) by (simp add: arm_wf_def)
  have i: "i < 512" using assms(3) by (simp add: data_page_def)
  have u: "pf_cow_used cs < 4" using assms(5) by (simp add: ARM_COW_POOL_SIZE_def)
  let ?d = "arm_cow_page cs (pf_cow_used cs)"
  note P = pool_page [OF L u] and W = moved_wf [OF assms(1-6)] and M = moved_mem_at(2,3) [OF L u i assms(4) refl, folded assms(6)]
  from assms(1,7) show ?thesis
  proof (cases rule: backing_cases)
    case plain
    have "\<forall>n < 4096. a \<noteq> ?d + of_nat n" using assms(7) P(3) by (auto simp: data_address_def)
    then show ?thesis using plain assms(7) M(1) [of a] by (simp add: data_view_def backing_def data_address_def)
  next
    case (page j x)
    obtain n where n: "n < 4096" "a AND mask 12 = of_nat n" using offset_nat [of a] by (auto simp: mask_12)
    show ?thesis
    proof (cases "j = i")
      case True
      then have "backing m cs a = ?d + of_nat n" using page(1) n by (simp add: backing_def W(2) moved_entry_bits [OF P(2)])
      then show ?thesis using M(2) [OF n(1)] page n True assms(4) by (simp add: data_view_def)
    next
      case False
      then have b: "backing m cs a = backing (am_mem st) cs a"
        using page(1,2) W(3) by (simp add: backing_def data_page_def)
      have "backing (am_mem st) cs a \<noteq> ?d + of_nat n'" if "n' < 4096" for n'
      proof
        assume q: "backing (am_mem st) cs a = ?d + of_nat n'"
        have "(of_nat n' :: u64) AND mask 12 = of_nat n'" using that by (intro and_mask_same) (simp add: unat_of_nat_u64)
        then have "(x AND ARM_ADDR_MASK) = ?d"
          using frame_parts(2) [OF P(2), of "of_nat n'"] frame_parts(2) [of "x AND ARM_ADDR_MASK" a] q page(6) by (simp add: and.assoc)
        then show False using next_page_unused [OF page(4,2) L u] by simp
      qed
      then show ?thesis unfolding data_view_def b
        using M(1) [of "backing (am_mem st) cs a"] backing_outside_tables [OF assms(1,7)] by simp
    qed
  qed
qed

end
