(* ===== verification/Arm_Paging_Props.thy ===== *)
theory Arm_Paging_Props
  imports Arm_Paging
begin

text \<open>
  Paging on AArch64 is transparent: whatever a core does with the page fault interface, its loads and stores act as on a
  plain memory.
\<close>

subsection \<open>Budget\<close>

text \<open>Pages of the pool in use and pages that may still need one.\<close>

definition ro_pages :: "memory \<Rightarrow> arm_core \<Rightarrow> nat set" where
  "ro_pages m cs = (if arm_have_split cs then {i. data_page cs i \<and> bit (entry_at m (pf_l3 cs) i) 7} else {})"

definition arm_inv :: "u64 \<Rightarrow> arm_machine \<Rightarrow> arm_core \<Rightarrow> nat \<Rightarrow> bool" where
  "arm_inv k st cs n \<longleftrightarrow> arm_wf k st cs \<and> length (pf_streamed cs) \<le> ARM_MAX_STREAMED_PAGES \<and>
    pf_cow_used cs + card (ro_pages (am_mem st) cs) \<le> n"

lemma ro_pages_finite [simp]: "finite (ro_pages m cs)"
  by (rule finite_subset [of _ "{..<512}"]) (auto simp: ro_pages_def data_page_def)

definition same_place :: "arm_core \<Rightarrow> arm_core \<Rightarrow> bool" where
  "same_place cs cs' \<longleftrightarrow> mmu_l1 cs' = mmu_l1 cs \<and> pf_l2 cs' = pf_l2 cs \<and> pf_l3 cs' = pf_l3 cs \<and> arm_cow_pool cs' = arm_cow_pool cs"

lemma same_place_data: "same_place cs cs' \<Longrightarrow> data_address cs' = data_address cs"
  by (auto simp: same_place_def data_address_def fun_eq_iff)

lemma same_place_trans: "same_place a b \<Longrightarrow> same_place b c \<Longrightarrow> same_place a c"
  by (simp add: same_place_def)

lemma same_core_place: "same_core cs cs' \<Longrightarrow> same_place cs cs'"
  by (simp add: same_core_def same_place_def)

text \<open>What a step keeps: the invariant within a budget, the place of the tables, and the view of memory.\<close>

definition keeps_view :: "u64 \<Rightarrow> arm_machine \<Rightarrow> arm_core \<Rightarrow> nat \<Rightarrow> arm_machine \<Rightarrow> arm_core \<Rightarrow> bool" where
  "keeps_view k st cs n st' cs' \<longleftrightarrow> arm_inv k st' cs' n \<and> same_place cs cs' \<and>
    (\<forall>a. data_address cs a \<longrightarrow> data_view (am_mem st') cs' a = data_view (am_mem st) cs a)"

lemma keeps_view_refl: "arm_inv k st cs n \<Longrightarrow> keeps_view k st cs n st cs"
  by (simp add: keeps_view_def same_place_def)

lemma keeps_view_trans: "keeps_view k st cs n st1 cs1 \<Longrightarrow> keeps_view k st1 cs1 n' st2 cs2 \<Longrightarrow> keeps_view k st cs n' st2 cs2"
  using same_place_data [of cs cs1] same_place_trans [of cs cs1 cs2] by (auto simp: keeps_view_def)

lemma same_core_view: "same_core cs cs' \<Longrightarrow> data_view m cs' = data_view m cs"
  by (simp add: data_view_def same_coreD fun_eq_iff)

lemma ro_pages_core: "same_core cs cs' \<Longrightarrow> ro_pages m cs' = ro_pages m cs"
  by (simp add: ro_pages_def same_coreD) (simp add: same_core_def)

subsection \<open>Faults\<close>

lemma wf_page:
  assumes "arm_wf k st cs" "page_entry cs va = Some i" "data_address cs va"
  shows "data_page cs i" "split_ok (am_mem st) cs" "arm_layout cs" "l3_ok cs (entry_at (am_mem st) (pf_l3 cs) i) i"
proof -
  have "arm_have_split cs" using assms(2) by (simp add: page_entry_def split: if_splits)
  then show S: "split_ok (am_mem st) cs" "arm_layout cs" using assms(1) by (simp_all add: arm_wf_def)
  show d: "data_page cs i" by (rule data_page_of [OF assms(2) S(1) assms(3) S(2)])
  then show "l3_ok cs (entry_at (am_mem st) (pf_l3 cs) i) i" using S(1) by (simp add: split_ok_def)
qed

lemma step_absent:
  assumes "arm_inv k st cs n" "data_address cs va" "page_entry cs va = Some i" "\<not> bit (entry_at (am_mem st) (pf_l3 cs) i) 0"
  obtains st' where "el1_fault write 7 va st = (st', True)" "keeps_view k st cs n st' (counted cs)"
    "entry_at (am_mem st') (pf_l3 cs) i = entry_at (am_mem st) (pf_l3 cs) i OR ARM_VALID"
proof -
  let ?e = "entry_at (am_mem st) (pf_l3 cs) i"
  let ?m = "set_entry (am_mem st) (pf_l3 cs) i (?e OR ARM_VALID)"
  have wf: "arm_wf k st cs" using assms(1) by (simp add: arm_inv_def)
  have h: "arm_have_split cs" using assms(3) by (simp add: page_entry_def split: if_splits)
  have d: "data_page cs i" by (rule wf_page(1) [OF wf assms(3,2)])
  note R = resolve_absent [OF wf assms(3) d refl refl]
  have "ro_pages ?m (counted cs) = ro_pages (am_mem st) cs"
  proof -
    have "bit (entry_at ?m (pf_l3 cs) j) 7 = bit (entry_at (am_mem st) (pf_l3 cs) j) 7" if "j < 512" for j
      using entry_set_other [of i j, OF _ _ that] d by (cases "j = i") (simp_all add: valid_entry data_page_def)
    then show ?thesis
      unfolding ro_pages_core [OF counted_same(1)] by (auto simp: ro_pages_def data_page_def)
  qed
  then have "keeps_view k st cs n (st\<lparr>am_core := Some (counted cs), am_mem := ?m\<rparr>) (counted cs)"
    using R assms(1) same_core_view [OF counted_same(1)]
    by (simp add: keeps_view_def arm_inv_def counted_same same_core_place)
  then show thesis using that [OF fault_absent [OF wf assms(2,3) refl assms(4)]] by simp
qed

lemma step_moved:
  assumes "arm_inv k st cs n" "data_address cs va" "page_entry cs va = Some i" "bit (entry_at (am_mem st) (pf_l3 cs) i) 7"
    and "pf_cow_used cs < ARM_COW_POOL_SIZE" "st' = st\<lparr>am_mem := moved_mem cs i (am_mem st), am_core := Some (moved cs)\<rparr>"
  shows "el1_fault True 15 va st = (st', True)" "keeps_view k st cs n st' (moved cs)"
    "entry_at (am_mem st') (pf_l3 cs) i = moved_entry cs (entry_at (am_mem st) (pf_l3 cs) i)"
proof -
  have wf: "arm_wf k st cs" using assms(1) by (simp add: arm_inv_def)
  have h: "arm_have_split cs" using assms(3) by (simp add: page_entry_def split: if_splits)
  have d: "data_page cs i" by (rule wf_page(1) [OF wf assms(3,2)])
  note W = moved_wf [OF wf assms(3) d refl assms(5) refl]
  have L: "arm_layout cs" "pf_cow_used cs < 4" using wf assms(5) by (simp_all add: arm_wf_def ARM_COW_POOL_SIZE_def)
  show "el1_fault True 15 va st = (st', True)" using fault_read_only [OF wf assms(2,3) refl assms(4)] assms(5,6) by simp
  show "entry_at (am_mem st') (pf_l3 cs) i = moved_entry cs (entry_at (am_mem st) (pf_l3 cs) i)" using W(2) assms(6) by simp
  have "bit (entry_at (am_mem st') (pf_l3 cs) j) 7 \<longleftrightarrow> j \<noteq> i \<and> bit (entry_at (am_mem st) (pf_l3 cs) j) 7" if "j < 512" for j
    using W(2) W(3) [OF that] moved_entry_bits(2) [OF pool_page(2) [OF L]] assms(6) by (cases "j = i") simp_all
  then have "ro_pages (am_mem st') (moved cs) = ro_pages (am_mem st) cs - {i}"
    unfolding ro_pages_core [OF moved_same(1)] by (auto simp: ro_pages_def data_page_def)
  moreover have "i \<in> ro_pages (am_mem st) cs" using h d assms(4) by (simp add: ro_pages_def)
  ultimately have "Suc (card (ro_pages (am_mem st') (moved cs))) = card (ro_pages (am_mem st) cs)"
    using card_Suc_Diff1 [of "ro_pages (am_mem st) cs" i] by simp
  then show "keeps_view k st cs n st' (moved cs)"
    using W(1) assms(1,6) moved_view [OF wf assms(3) d refl assms(5) refl] same_core_view [OF moved_same(1)]
    by (simp add: keeps_view_def arm_inv_def moved_same same_core_place)
qed

subsection \<open>Accesses\<close>

text \<open>
  An access to data reaches the address behind it, after at most two faults; a store needs a page of the pool when its page
  is read-only, and the budget says there is one.
\<close>

lemma access_done: "access_target write va st = Inr pa \<Longrightarrow> arm_access write va st = Some (st, Some pa)"
  by (subst arm_access.simps) simp

lemma access_retry: "access_target write va st = Inl f \<Longrightarrow> el1_fault write f va st = (st', True) \<Longrightarrow> arm_access write va st = arm_access write va st'"
  by (subst arm_access.simps) simp

lemma page_access:
  assumes "arm_wf k st cs" "page_entry cs va = Some i" "data_address cs va" "e = entry_at (am_mem st) (pf_l3 cs) i"
  shows "access_target write va st =
    (if \<not> bit e 0 then Inl 7 else if write \<and> bit e 7 then Inl 15 else Inr (backing (am_mem st) cs va))"
proof -
  note W = wf_page [OF assms(1,2,3)]
  have "am_ttbr0 st = mmu_l1 cs" using assms(1) by (simp add: arm_wf_def)
  from access_third_level [OF W(2,3) this assms(2) W(1) assms(4)] show ?thesis .
qed

lemma access_present:
  assumes "arm_inv k st cs n" "data_address cs va" "page_entry cs va = Some i" "bit (entry_at (am_mem st) (pf_l3 cs) i) 0" "n \<le> 4"
  shows "\<exists>st' cs'. arm_access write va st = Some (st', Some (backing (am_mem st') cs' va)) \<and> keeps_view k st cs n st' cs'"
proof -
  let ?e = "entry_at (am_mem st) (pf_l3 cs) i"
  have wf: "arm_wf k st cs" using assms(1) by (simp add: arm_inv_def)
  note t = page_access [OF wf assms(3,2) refl]
  show ?thesis
  proof (cases "write \<and> bit ?e 7")
    case False
    then show ?thesis using access_done t [of "write"] assms(4) keeps_view_refl [OF assms(1)] by auto
  next
    case True
    then have "i \<in> ro_pages (am_mem st) cs"
      using wf_page(1) [OF wf assms(3,2)] assms(3) by (simp add: ro_pages_def page_entry_def split: if_splits)
    then have "card (ro_pages (am_mem st) cs) \<noteq> 0" by auto
    then have u: "pf_cow_used cs < ARM_COW_POOL_SIZE" using assms(1,5) unfolding arm_inv_def ARM_COW_POOL_SIZE_def by linarith
    define st1 where "st1 = st\<lparr>am_mem := moved_mem cs i (am_mem st), am_core := Some (moved cs)\<rparr>"
    note M = step_moved [OF assms(1,2,3) conjunct2 [OF True] u st1_def]
    have wf1: "arm_wf k st1 (moved cs)" "data_address (moved cs) va" "page_entry (moved cs) va = Some i" "pf_l3 (moved cs) = pf_l3 cs"
      using M(2) assms(2,3) same_coreD [OF moved_same(1)] by (simp_all add: keeps_view_def arm_inv_def moved_def)
    have "arm_layout cs" "pf_cow_used cs < 4" using wf u by (simp_all add: arm_wf_def ARM_COW_POOL_SIZE_def)
    note E = moved_entry_bits [OF pool_page(2) [OF this]]
    have "access_target write va st1 = Inr (backing (am_mem st1) (moved cs) va)"
      using page_access [OF wf1(1,3,2) refl, of "write"] M(3) assms(4) unfolding wf1(4) by (simp add: E)
    moreover have "access_target write va st = Inl 15" using t [of "write"] True assms(4) by simp
    ultimately have "arm_access write va st = Some (st1, Some (backing (am_mem st1) (moved cs) va))"
      using access_retry [of "write" va st 15 st1] access_done [of "write" va st1] M(1) True by simp
    then show ?thesis using M(2) by blast
  qed
qed

lemma access_reaches:
  assumes "arm_inv k st cs n" "data_address cs va" "n \<le> 4"
  obtains st' cs' where "arm_access write va st = Some (st', Some (backing (am_mem st') cs' va))" "keeps_view k st cs n st' cs'"
proof (cases "page_entry cs va")
  case None
  then have "access_target write va st = Inr (backing (am_mem st) cs va)"
    using access_plain [of k st cs va "write"] assms by (simp add: arm_inv_def backing_def)
  then show thesis using that access_done keeps_view_refl [OF assms(1)] by blast
next
  case (Some i)
  show thesis
  proof (cases "bit (entry_at (am_mem st) (pf_l3 cs) i) 0")
    case True
    from access_present [OF assms(1,2) Some this assms(3), of "write"] show thesis using that by blast
  next
    case False
    obtain st1 where s: "el1_fault write 7 va st = (st1, True)" "keeps_view k st cs n st1 (counted cs)"
      "entry_at (am_mem st1) (pf_l3 cs) i = entry_at (am_mem st) (pf_l3 cs) i OR ARM_VALID"
      using step_absent [OF assms(1,2) Some False] .
    have "arm_wf k st cs" using assms(1) by (simp add: arm_inv_def)
    from page_access [OF this Some assms(2) refl, of "write"] have "access_target write va st = Inl 7" using False by simp
    then have r: "arm_access write va st = arm_access write va st1" by (rule access_retry [OF _ s(1)])
    have "arm_inv k st1 (counted cs) n" "data_address (counted cs) va" "page_entry (counted cs) va = Some i"
      "bit (entry_at (am_mem st1) (pf_l3 (counted cs)) i) 0"
      using s assms(2) Some by (simp_all add: keeps_view_def counted_same same_coreD [OF counted_same(1)] valid_entry)
    from access_present [OF this assms(3), of "write"] show thesis
      using that keeps_view_trans [OF s(2)] unfolding r by blast
  qed
qed

subsection \<open>Marking\<close>

definition op_ok :: "arm_core \<Rightarrow> arm_op \<Rightarrow> bool" where
  "op_ok cs x = (case x of Split r \<Rightarrow> True | Mark_absent p \<Rightarrow> page_of p = p \<and> data_address cs p | Mark_cow p \<Rightarrow> page_of p = p \<and> data_address cs p
     | Store va b \<Rightarrow> data_address cs va | Load va \<Rightarrow> data_address cs va)"

text \<open>Changing the flags of an entry changes neither what is behind an address nor what is there.\<close>

lemma set_flags_view:
  assumes "arm_wf k st cs" "data_page cs i" "e AND ARM_ADDR_MASK = entry_at (am_mem st) (pf_l3 cs) i AND ARM_ADDR_MASK" "data_address cs a"
  shows "data_view (set_entry (am_mem st) (pf_l3 cs) i e) cs a = data_view (am_mem st) cs a"
proof -
  let ?m = "set_entry (am_mem st) (pf_l3 cs) i e"
  have i: "i < 512" using assms(2) by (simp add: data_page_def)
  have "backing ?m cs a = backing (am_mem st) cs a"
    using assms(1,4)
  proof (cases rule: backing_cases)
    case (page j x)
    then show ?thesis using entry_set_other [of i j, OF _ i] assms(3) by (cases "j = i") (simp_all add: backing_def data_page_def)
  qed (simp add: backing_def)
  moreover have "\<not> in_region (pf_l3 cs) 0x1000 (backing (am_mem st) cs a)"
    by (rule backing_outside_tables [OF assms(1,4)]) simp
  ultimately show ?thesis using same_outsideD [OF set_entry_same_outside [OF i]] by (simp add: data_view_def)
qed

lemma set_flags_wf:
  assumes "arm_wf k st cs" "arm_have_split cs" "data_page cs i" "same_core cs cs'" "pf_cow_used cs' = pf_cow_used cs"
    and "set (pf_streamed cs) \<subseteq> set (pf_streamed cs')" "set (pf_cow cs) \<subseteq> set (pf_cow cs')"
    and "e AND ARM_ADDR_MASK = entry_at (am_mem st) (pf_l3 cs) i AND ARM_ADDR_MASK" "l3_ok cs' e i"
  shows "arm_wf k (st\<lparr>am_mem := set_entry (am_mem st) (pf_l3 cs) i e, am_core := Some cs'\<rparr>) cs'"
proof -
  have S: "split_ok (am_mem st) cs" and u: "pf_cow_used cs \<le> ARM_COW_POOL_SIZE" using assms(1,2) by (simp_all add: arm_wf_def)
  show ?thesis
  proof (rule set_page_entry [OF assms(1-4) _ same_outside_refl refl assms(9)])
    fix j assume j: "data_page cs j" "j \<noteq> i"
    then have "l3_ok cs (entry_at (am_mem st) (pf_l3 cs) j) j" using S by (simp add: split_ok_def)
    then show "l3_ok cs' (entry_at (am_mem st) (pf_l3 cs) j) j"
      using assms(5-7) by (auto simp: l3_ok_def same_coreD [OF assms(4)])
    show "e AND ARM_ADDR_MASK \<noteq> entry_at (am_mem st) (pf_l3 cs) j AND ARM_ADDR_MASK"
      using S j assms(3,8) by (auto simp: split_ok_def)
  qed (use u assms(5) in simp)
qed

lemma absent_entry: "(e AND NOT ARM_VALID) AND ARM_ADDR_MASK = e AND ARM_ADDR_MASK" "\<not> bit (e AND NOT ARM_VALID) 0"
  "n \<noteq> 0 \<Longrightarrow> n < 64 \<Longrightarrow> bit (e AND NOT ARM_VALID) n = bit e n"
proof -
  have b: "bit ARM_VALID n \<longleftrightarrow> n = 0" for n by (simp add: ARM_VALID_def bit_1_iff)
  show "(e AND NOT ARM_VALID) AND ARM_ADDR_MASK = e AND ARM_ADDR_MASK"
    by (rule bit_word_eqI) (auto simp: bit_simps b arm_mask_alt)
  show "\<not> bit (e AND NOT ARM_VALID) 0" "n \<noteq> 0 \<Longrightarrow> n < 64 \<Longrightarrow> bit (e AND NOT ARM_VALID) n = bit e n" by (auto simp: bit_simps b)
qed

lemma read_only_entry: "(e OR READ_ONLY) AND ARM_ADDR_MASK = e AND ARM_ADDR_MASK" "bit (e OR READ_ONLY) 7" "n < 7 \<Longrightarrow> bit (e OR READ_ONLY) n = bit e n"
  "bit (e OR READ_ONLY) 10 = bit e 10"
proof -
  have "READ_ONLY AND ARM_ADDR_MASK = 0" by (simp add: READ_ONLY_def ARM_ADDR_MASK_def)
  then show "(e OR READ_ONLY) AND ARM_ADDR_MASK = e AND ARM_ADDR_MASK" by (simp add: bit.conj_disj_distrib2)
  have r: "bit READ_ONLY n \<longleftrightarrow> n = 7" for n by (rule bit_read_only)
  show "bit (e OR READ_ONLY) 7" "n < 7 \<Longrightarrow> bit (e OR READ_ONLY) n = bit e n" "bit (e OR READ_ONLY) 10 = bit e 10" by (simp_all add: bit_or_iff r)
qed

lemma registered_same:
  assumes "length (pf_streamed cs) \<le> ARM_MAX_STREAMED_PAGES" "\<not> (p \<notin> set (pf_streamed cs) \<and> length (pf_streamed cs) = ARM_MAX_STREAMED_PAGES)"
    and "cs' = register_streamed_aarch64 p cs"
  shows "same_core cs cs'" "pf_cow_used cs' = pf_cow_used cs" "pf_cow cs' = pf_cow cs" "set (pf_streamed cs') = insert p (set (pf_streamed cs))"
    "length (pf_streamed cs') \<le> ARM_MAX_STREAMED_PAGES"
  using assms by (auto simp: register_streamed_aarch64_def same_core_def)

lemma mark_absent_keeps:
  assumes "arm_inv k st cs n" "op_ok cs (Mark_absent p)"
  shows "\<exists>cs'. keeps_view k st cs n (fst (pagefault_mark_absent_aarch64 p st)) cs'"
proof -
  have w: "arm_wf k st cs" and p: "page_of p = p" "data_address cs p" and l: "length (pf_streamed cs) \<le> ARM_MAX_STREAMED_PAGES"
    using assms by (simp_all add: arm_inv_def op_ok_def)
  note wf = w w [unfolded arm_wf_def, THEN conjunct1]
  show ?thesis
  proof (cases "snd (pagefault_mark_absent_aarch64 p st)")
    case False
    then have "fst (pagefault_mark_absent_aarch64 p st) = st"
      by (auto simp: pagefault_mark_absent_aarch64_def Let_def split: option.splits if_splits)
    then show ?thesis using keeps_view_refl [OF assms(1)] by auto
  next
    case True
    define cs' where "cs' = register_streamed_aarch64 p cs"
    obtain i where i: "page_entry cs p = Some i"
      using True wf(2) by (cases "page_entry cs p") (simp_all add: pagefault_mark_absent_aarch64_def)
    define e where "e = entry_at (am_mem st) (pf_l3 cs) i"
    have c: "\<not> (p \<notin> set (pf_streamed cs) \<and> length (pf_streamed cs) = ARM_MAX_STREAMED_PAGES)"
      using True wf(2) i by (auto simp: pagefault_mark_absent_aarch64_def Let_def split: if_splits)
    let ?m = "set_entry (am_mem st) (pf_l3 cs) i (e AND NOT ARM_VALID)" 
    have r: "fst (pagefault_mark_absent_aarch64 p st) = st\<lparr>am_mem := ?m, am_core := Some cs'\<rparr>"
      using True wf(2) i
      by (auto simp: pagefault_mark_absent_aarch64_def Let_def pagefault_register_streamed_page_aarch64_def cs'_def e_def split: if_splits)
    note R = registered_same [OF l c cs'_def] and W = wf_page [OF wf(1) i p(2)]
    have h: "arm_have_split cs" using i by (simp add: page_entry_def split: if_splits)
    have "page_frame cs i = p" using page_entryD(5) [OF i W(2)] p(1) by simp
    then have ok: "l3_ok cs' (e AND NOT ARM_VALID) i"
      using W(4) R unfolding l3_ok_def same_coreD [OF R(1)] e_def [symmetric] by (simp add: absent_entry)
    have "ro_pages ?m cs' = ro_pages (am_mem st) cs"
    proof -
      have "bit (entry_at ?m (pf_l3 cs) j) 7 = bit (entry_at (am_mem st) (pf_l3 cs) j) 7" if "j < 512" for j
        using entry_set_other [of i j, OF _ _ that] W(1) by (cases "j = i") (simp_all add: absent_entry data_page_def e_def)
      then show ?thesis unfolding ro_pages_core [OF R(1)] by (auto simp: ro_pages_def data_page_def)
    qed
    moreover have "arm_wf k (st\<lparr>am_mem := ?m, am_core := Some cs'\<rparr>) cs'"
      using R ok by (intro set_flags_wf [OF wf(1) h W(1) R(1,2)]) (auto simp: absent_entry e_def)
    moreover have "data_view ?m cs a = data_view (am_mem st) cs a" if "data_address cs a" for a
      by (rule set_flags_view [OF wf(1) W(1) _ that]) (simp add: absent_entry e_def)
    ultimately have "keeps_view k st cs n (st\<lparr>am_mem := ?m, am_core := Some cs'\<rparr>) cs'"
      using assms(1) R same_core_view [OF R(1)] by (simp add: keeps_view_def arm_inv_def same_core_place)
    then show ?thesis using r by auto
  qed
qed

lemma mark_cow_keeps:
  assumes "arm_inv k st cs n" "op_ok cs (Mark_cow p)"
  shows "\<exists>cs'. keeps_view k st cs (Suc n) (fst (pagefault_mark_cow_aarch64 p st)) cs'"
proof -
  have w: "arm_wf k st cs" and p: "page_of p = p" "data_address cs p" using assms by (simp_all add: arm_inv_def op_ok_def)
  note wf = w w [unfolded arm_wf_def, THEN conjunct1]
  show ?thesis
  proof (cases "snd (pagefault_mark_cow_aarch64 p st)")
    case False
    then have "fst (pagefault_mark_cow_aarch64 p st) = st"
      by (auto simp: pagefault_mark_cow_aarch64_def Let_def split: option.splits if_splits)
    moreover have "arm_inv k st cs (Suc n)" using assms(1) by (simp add: arm_inv_def)
    ultimately show ?thesis using keeps_view_refl by metis
  next
    case True
    define cs' where "cs' = (if p \<notin> set (pf_cow cs) then cs\<lparr>pf_cow := pf_cow cs @ [p]\<rparr> else cs)"
    obtain i where i: "page_entry cs p = Some i"
      using True wf(2) by (cases "page_entry cs p") (simp_all add: pagefault_mark_cow_aarch64_def)
    define e where "e = entry_at (am_mem st) (pf_l3 cs) i"
    let ?m = "set_entry (am_mem st) (pf_l3 cs) i (e OR READ_ONLY)" 
    have r: "fst (pagefault_mark_cow_aarch64 p st) = st\<lparr>am_mem := ?m, am_core := Some cs'\<rparr>"
      using True wf(2) i by (auto simp: pagefault_mark_cow_aarch64_def Let_def cs'_def e_def split: if_splits)
    have R: "same_core cs cs'" "pf_cow_used cs' = pf_cow_used cs" "pf_streamed cs' = pf_streamed cs" "set (pf_cow cs') = insert p (set (pf_cow cs))"
      by (auto simp: cs'_def same_core_def)
    note W = wf_page [OF wf(1) i p(2)]
    have h: "arm_have_split cs" using i by (simp add: page_entry_def split: if_splits)
    have "page_frame cs i = p" using page_entryD(5) [OF i W(2)] p(1) by simp
    then have ok: "l3_ok cs' (e OR READ_ONLY) i"
      using W(4) R unfolding l3_ok_def same_coreD [OF R(1)] e_def [symmetric] by (simp add: read_only_entry)
    have "ro_pages ?m cs' \<subseteq> insert i (ro_pages (am_mem st) cs)"
    proof -
      have "bit (entry_at ?m (pf_l3 cs) j) 7 = bit (entry_at (am_mem st) (pf_l3 cs) j) 7" if "j < 512" "j \<noteq> i" for j
        using entry_set_other [of i j, OF _ _ that(1)] that(2) W(1) by (simp add: data_page_def)
      then show ?thesis unfolding ro_pages_core [OF R(1)] by (auto simp: ro_pages_def data_page_def)
    qed
    then have "card (ro_pages ?m cs') \<le> card (insert i (ro_pages (am_mem st) cs))" by (rule card_mono [rotated]) simp
    also have "\<dots> \<le> Suc (card (ro_pages (am_mem st) cs))" by (rule card_insert_le_m1) simp_all
    finally have "card (ro_pages ?m cs') \<le> Suc (card (ro_pages (am_mem st) cs))" .
    moreover have "arm_wf k (st\<lparr>am_mem := ?m, am_core := Some cs'\<rparr>) cs'"
      using R ok by (intro set_flags_wf [OF wf(1) h W(1) R(1,2)]) (auto simp: read_only_entry e_def)
    moreover have "data_view ?m cs a = data_view (am_mem st) cs a" if "data_address cs a" for a
      by (rule set_flags_view [OF wf(1) W(1) _ that]) (simp add: read_only_entry e_def)
    ultimately have "keeps_view k st cs (Suc n) (st\<lparr>am_mem := ?m, am_core := Some cs'\<rparr>) cs'"
      using assms(1) R same_core_view [OF R(1)] by (simp add: keeps_view_def arm_inv_def same_core_place)
    then show ?thesis using r by auto
  qed
qed

subsection \<open>Splitting the region\<close>

lemma aligned_region:
  assumes "region AND (ARM_REGION_SIZE - 1) = 0"
  shows "2097152 dvd unat region"
proof -
  have "ARM_REGION_SIZE - 1 = mask 21" by (simp add: ARM_REGION_SIZE_def mask_eq_exp_minus_1)
  then have "unat region mod 2 ^ 21 = 0" using assms unat_and_mask [of region 21] by simp
  then show ?thesis by auto
qed

lemma unat_l3_page:
  fixes region :: u64
  assumes "unat region < 0x80000000" "i < 512"
  shows "unat (region + of_nat i * 4096) = unat region + i * 4096"
proof -
  have "unat (of_nat (i * 4096) :: u64) = i * 4096" using assms(2) by (intro unat_of_nat_u64) simp
  then have "unat (of_nat i * 4096 :: u64) = i * 4096" by simp
  then show ?thesis using assms no_wrap_if_lt [of region "of_nat i * 4096"] by simp
qed

lemma l3_page_leaf:
  assumes "unat region < 0x80000000" "2097152 dvd unat region" "i < 512"
  shows "l3_page region i AND ARM_ADDR_MASK = region + of_nat i * 4096" "bit (l3_page region i) 0" "bit (l3_page region i) 1"
    "bit (l3_page region i) 10" "\<not> bit (l3_page region i) 7"
proof -
  let ?x = "region + of_nat i * 4096"
  note u = unat_l3_page [OF assms(1,3)]
  have d: "4096 dvd unat region" using assms(2) by (rule dvd_trans [rotated]) simp
  have "unat ?x < 2 ^ 48" "4096 dvd unat ?x" unfolding u using assms(1,3) d by simp_all
  note D = frame_descriptor [OF this]
  have "\<not> bit TABLE_OR_PAGE 7" "bit TABLE_OR_PAGE 0" by (simp_all add: TABLE_OR_PAGE_def)
  then show "l3_page region i AND ARM_ADDR_MASK = ?x" "bit (l3_page region i) 0" "bit (l3_page region i) 1"
    "bit (l3_page region i) 10" "\<not> bit (l3_page region i) 7"
    using D(2,3,5,6,8) unfolding l3_page_def or.assoc [symmetric] by (simp_all add: bit_or_iff)
qed

definition split_core :: "u64 \<Rightarrow> arm_core \<Rightarrow> arm_core" where
  "split_core region cs = cs\<lparr>pf_split_base := region, arm_have_split := True\<rparr>"

definition split_mem :: "u64 \<Rightarrow> arm_core \<Rightarrow> memory \<Rightarrow> memory" where
  "split_mem region cs m =
    set_entry (fold (\<lambda>i m. set_entry m (pf_l3 cs) i (l3_page region i)) [0..<512]
      (set_entry (fold (\<lambda>i m. set_entry m (pf_l2 cs) i (l2_block i)) [0..<512] m) (mmu_l1 cs) 1 (pf_l2 cs OR TABLE_OR_PAGE)))
      (pf_l2 cs) (table_index 21 region) (pf_l3 cs OR TABLE_OR_PAGE)"

lemma split_mem_entries:
  assumes "arm_layout cs" "i < 512"
  shows "entry_at (split_mem region cs m) (mmu_l1 cs) i = (if i = 1 then pf_l2 cs OR TABLE_OR_PAGE else entry_at m (mmu_l1 cs) i)"
    "entry_at (split_mem region cs m) (pf_l2 cs) i = (if i = table_index 21 region then pf_l3 cs OR TABLE_OR_PAGE else l2_block i)"
    "entry_at (split_mem region cs m) (pf_l3 cs) i = l3_page region i"
    "data_address cs a \<Longrightarrow> split_mem region cs m a = m a"
proof -
  note A = layout_apart [OF assms(1)]
  let ?m1 = "fold (\<lambda>i m. set_entry m (pf_l2 cs) i (l2_block i)) [0..<512] m"
  let ?m2 = "set_entry ?m1 (mmu_l1 cs) 1 (pf_l2 cs OR TABLE_OR_PAGE)"
  let ?m3 = "fold (\<lambda>i m. set_entry m (pf_l3 cs) i (l3_page region i)) [0..<512] ?m2"
  have s1: "same_outside (pf_l2 cs) 0x1000 m ?m1" and s3: "same_outside (pf_l3 cs) 0x1000 ?m2 ?m3" by (rule filled_table(1))+
  have s2: "same_outside (mmu_l1 cs) 0x1000 ?m1 ?m2" by (rule set_entry_same_outside) simp
  have s4: "same_outside (pf_l2 cs) 0x1000 ?m3 (split_mem region cs m)" unfolding split_mem_def by (rule set_entry_same_outside) simp
  note e = entry_at_same_outside [OF _ _ assms(2)]
  have one: "(1 :: nat) < 512" by simp
  show "entry_at (split_mem region cs m) (mmu_l1 cs) i = (if i = 1 then pf_l2 cs OR TABLE_OR_PAGE else entry_at m (mmu_l1 cs) i)"
    using e [OF s4 A(1)] e [OF s3 A(2)] e [OF s1 A(1)] entry_set_other [of 1 i, OF _ one assms(2)] by (cases "i = 1") simp_all
  show "entry_at (split_mem region cs m) (pf_l2 cs) i = (if i = table_index 21 region then pf_l3 cs OR TABLE_OR_PAGE else l2_block i)"
    using e [OF s3 A(3)] e [OF s2 A(4)] filled_table(2) [OF assms(2), of "pf_l2 cs" l2_block m]
      entry_set_other [of "table_index 21 region" i, OF _ table_index_less assms(2)]
    by (cases "i = table_index 21 region") (simp_all add: split_mem_def)
  show "entry_at (split_mem region cs m) (pf_l3 cs) i = l3_page region i"
    using e [OF s4 A(5)] filled_table(2) [OF assms(2)] by simp
  show "split_mem region cs m a = m a" if "data_address cs a"
    using same_outsideD [OF s1] same_outsideD [OF s2] same_outsideD [OF s3] same_outsideD [OF s4] that by (simp add: data_address_def)
qed

lemma split_result_aarch64:
  assumes "arm_wf k st cs" "pagefault_split_region_aarch64 region st = (st', True)"
  shows "st' = st\<lparr>am_mem := split_mem region cs (am_mem st), am_core := Some (split_core region cs)\<rparr>" "\<not> arm_have_split cs"
    "2097152 dvd unat region" "0x40000000 \<le> unat region" "unat region < 0x80000000"
proof -
  note W = assms(1) [unfolded arm_wf_def]
  have r: "arch_mmu_root_phys st = mmu_l1 cs" using W by (simp add: arch_mmu_root_phys_def)
  have *: "pagefault_split_region_aarch64 region st =
    (if \<not> pf_handler_ready cs \<or> mmu_l1 cs = 0 \<or> region AND (ARM_REGION_SIZE - 1) \<noteq> 0 \<or> region < AARCH64_RAM_BASE \<or>
          region \<ge> ARM_RAM_END \<or> arm_have_split cs \<or> entry_at (am_mem st) (mmu_l1 cs) 1 AND 3 \<noteq> ARM_VALID then (st, False)
     else (st\<lparr>am_mem := split_mem region cs (am_mem st), am_core := Some (split_core region cs)\<rparr>, True))"
    unfolding pagefault_split_region_aarch64_def W [THEN conjunct1] option.case r Let_def split_mem_def split_core_def by simp
  show "st' = st\<lparr>am_mem := split_mem region cs (am_mem st), am_core := Some (split_core region cs)\<rparr>" "\<not> arm_have_split cs"
    using assms(2) unfolding * by (simp_all split: if_splits)
  have "region AND (ARM_REGION_SIZE - 1) = 0" "\<not> region < AARCH64_RAM_BASE" "\<not> region \<ge> ARM_RAM_END"
    using assms(2) unfolding * by (simp_all split: if_splits)
  then show "2097152 dvd unat region" "0x40000000 \<le> unat region" "unat region < 0x80000000"
    by (simp_all add: aligned_region AARCH64_RAM_BASE_def ARM_RAM_END_def word_less_nat_alt word_le_nat_alt)
qed

lemma split_core_same:
  "same_place cs (split_core region cs)" "arm_layout (split_core region cs) = arm_layout cs" "page_frame (split_core region cs) i = region + of_nat i * 4096"
  by (simp_all add: same_place_def split_core_def arm_layout_def page_frame_def)

lemma split_wf:
  assumes "arm_wf k st cs" "pagefault_split_region_aarch64 region st = (st', True)"
  shows "arm_wf k st' (split_core region cs)"
proof -
  note R = split_result_aarch64 [OF assms] and W = assms(1) [unfolded arm_wf_def]
  have L: "arm_layout cs" using W by blast
  let ?m = "split_mem region cs (am_mem st)" and ?c = "split_core region cs"
  note E = split_mem_entries [OF L] and P = l3_page_leaf [OF R(5,3)]
  have f: "mmu_l1 ?c = mmu_l1 cs" "pf_l2 ?c = pf_l2 cs" "pf_l3 ?c = pf_l3 cs" "pf_split_base ?c = region" by (simp_all add: split_core_def)
  have "split_ok ?m ?c"
    unfolding split_ok_def f
  proof (intro conjI allI impI)
    show "2097152 dvd unat region" "0x40000000 \<le> unat region" "unat region < 0x80000000" by (fact R)+
    show "entry_at ?m (mmu_l1 cs) 1 = pf_l2 cs OR TABLE_OR_PAGE" using E(1) [of 1] by simp
    fix i j
    show "i < 512 \<Longrightarrow> entry_at ?m (pf_l2 cs) i = (if i = table_index 21 region then pf_l3 cs OR TABLE_OR_PAGE else l2_block i)" by (rule E(2))
    show "data_page ?c i \<Longrightarrow> l3_ok ?c (entry_at ?m (pf_l3 cs) i) i"
      by (simp add: l3_ok_def data_page_def E(3) P P(3) [unfolded One_nat_def] split_core_same)
    assume d: "data_page ?c i" "data_page ?c j" "entry_at ?m (pf_l3 cs) i AND ARM_ADDR_MASK = entry_at ?m (pf_l3 cs) j AND ARM_ADDR_MASK"
    then have "i < 512" "j < 512" by (simp_all add: data_page_def)
    moreover from this have "unat (region + of_nat i * 4096) = unat (region + of_nat j * 4096)" using d(3) by (simp add: E(3) P(1))
    ultimately show "i = j" using unat_l3_page [OF R(5)] by simp
  qed
  moreover have "arm_have_split ?c" "mmu_owned_map ?c = mmu_owned_map cs" "pf_handler_ready ?c = pf_handler_ready cs" "pf_cow_used ?c = pf_cow_used cs"
    by (simp_all add: split_core_def)
  ultimately show ?thesis using W by (simp add: arm_wf_def R(1) f split_core_same E(1))
qed

lemma split_keeps:
  assumes "arm_inv k st cs n"
  shows "\<exists>cs'. keeps_view k st cs n (fst (pagefault_split_region_aarch64 region st)) cs'"
proof (cases "snd (pagefault_split_region_aarch64 region st)")
  case False
  then have "fst (pagefault_split_region_aarch64 region st) = st"
    by (auto simp: pagefault_split_region_aarch64_def Let_def split: option.splits if_splits)
  then show ?thesis using keeps_view_refl [OF assms] by auto
next
  case True
  have wf: "arm_wf k st cs" using assms by (simp add: arm_inv_def)
  obtain st' where st': "pagefault_split_region_aarch64 region st = (st', True)" using True by (metis prod.collapse)
  note R = split_result_aarch64 [OF wf st'] and W = split_wf [OF wf st']
  let ?m = "split_mem region cs (am_mem st)" and ?c = "split_core region cs"
  have L: "arm_layout cs" using wf by (simp add: arm_wf_def)
  note E = split_mem_entries [OF L] and P = l3_page_leaf [OF R(5,3)]
  have "pf_l3 ?c = pf_l3 cs" by (simp add: split_core_def)
  then have "ro_pages ?m ?c = {}" by (auto simp: ro_pages_def data_page_def E(3) P(5))
  moreover have "data_view ?m ?c a = data_view (am_mem st) cs a" if a: "data_address cs a" for a
  proof -
    have "backing ?m ?c a = a"
    proof (cases "page_entry ?c a")
      case (Some i)
      have S: "split_ok ?m ?c" using W by (simp add: arm_wf_def R(1) split_core_def)
      note D = page_entryD [OF Some S]
      have "unat (page_frame ?c i) = unat a div 2 ^ 12 * 2 ^ 12" using D(4) by simp
      from base_offset(2) [OF this] show ?thesis
        using Some D(1) by (simp add: backing_def \<open>pf_l3 ?c = pf_l3 cs\<close> E(3) P(1) split_core_same)
    qed (simp add: backing_def)
    moreover have "page_entry cs a = None" using R(2) by (simp add: page_entry_def)
    ultimately show ?thesis using E(4) [OF zero_less_numeral a] by (simp add: data_view_def backing_def)
  qed
  ultimately have "keeps_view k st cs n st' ?c"
    using assms W by (simp add: keeps_view_def arm_inv_def R(1) split_core_same) (simp add: split_core_def)
  then show ?thesis using st' by auto
qed

subsection \<open>Runs\<close>

definition is_mark_cow :: "arm_op \<Rightarrow> bool" where
  "is_mark_cow x = (case x of Mark_cow p \<Rightarrow> True | _ \<Rightarrow> False)"

definition cow_marks :: "arm_op list \<Rightarrow> nat" where
  "cow_marks ops = length (filter is_mark_cow ops)"

text \<open>The view a core has of its data, as a plain memory.\<close>

definition views :: "u64 \<Rightarrow> arm_machine \<Rightarrow> arm_core \<Rightarrow> nat \<Rightarrow> memory \<Rightarrow> bool" where
  "views k st cs n m \<longleftrightarrow> arm_inv k st cs n \<and> (\<forall>a. data_address cs a \<longrightarrow> data_view (am_mem st) cs a = m a)"

lemma views_keeps: "views k st cs n m \<Longrightarrow> keeps_view k st cs n' st' cs' \<Longrightarrow> views k st' cs' n' m \<and> same_place cs cs'"
  using same_place_data [of cs cs'] by (auto simp: views_def keeps_view_def)

definition flat_step :: "arm_op \<Rightarrow> memory \<Rightarrow> memory \<times> bytes" where
  "flat_step x m = (case x of Store va b \<Rightarrow> (m(va := b), []) | Load va \<Rightarrow> (m, [m va]) | _ \<Rightarrow> (m, []))"

lemma flat_run_step: "flat_run (x # ops) m = (case flat_step x m of (m1, bs) \<Rightarrow> case flat_run ops m1 of (m2, bs') \<Rightarrow> (m2, bs @ bs'))"
  by (cases x) (simp_all add: flat_step_def split: prod.splits)

lemma step_refines:
  assumes "views k st cs n m" "op_ok cs x" "n + cow_marks [x] \<le> 4"
  obtains st' cs' where "arm_step x st = Some (st', snd (flat_step x m), False)" "views k st' cs' (n + cow_marks [x]) (fst (flat_step x m))" "same_place cs cs'"
proof -
  have inv: "arm_inv k st cs n" using assms(1) by (simp add: views_def)
  show thesis
  proof (cases x)
    case (Split r)
    obtain cs' where "keeps_view k st cs n (fst (pagefault_split_region_aarch64 r st)) cs'" using split_keeps [OF inv] by blast
    from views_keeps [OF assms(1) this] show thesis
      using Split by (intro that) (auto simp: arm_step_def flat_step_def cow_marks_def is_mark_cow_def)
  next
    case (Mark_absent p)
    obtain cs' where "keeps_view k st cs n (fst (pagefault_mark_absent_aarch64 p st)) cs'"
      using mark_absent_keeps [OF inv] assms(2) Mark_absent by blast
    from views_keeps [OF assms(1) this] show thesis
      using Mark_absent by (intro that) (auto simp: arm_step_def flat_step_def cow_marks_def is_mark_cow_def)
  next
    case (Mark_cow p)
    obtain cs' where "keeps_view k st cs (Suc n) (fst (pagefault_mark_cow_aarch64 p st)) cs'"
      using mark_cow_keeps [OF inv] assms(2) Mark_cow by blast
    from views_keeps [OF assms(1) this] show thesis
      using Mark_cow by (intro that) (auto simp: arm_step_def flat_step_def cow_marks_def is_mark_cow_def)
  next
    case (Load va)
    then have a: "data_address cs va" "n \<le> 4" using assms(2,3) by (simp_all add: op_ok_def)
    obtain st' cs' where s: "arm_access False va st = Some (st', Some (backing (am_mem st') cs' va))" "keeps_view k st cs n st' cs'"
      using access_reaches [OF inv a] .
    from views_keeps [OF assms(1) s(2)] have v: "views k st' cs' n m" "same_place cs cs'" by simp_all
    moreover have "am_mem st' (backing (am_mem st') cs' va) = m va"
      using v a(1) same_place_data [OF v(2)] by (simp add: views_def data_view_def)
    ultimately show thesis using Load s(1) by (intro that) (auto simp: arm_step_def flat_step_def cow_marks_def is_mark_cow_def)
  next
    case (Store va b)
    then have a: "data_address cs va" "n \<le> 4" using assms(2,3) by (simp_all add: op_ok_def)
    obtain st1 cs1 where s: "arm_access True va st = Some (st1, Some (backing (am_mem st1) cs1 va))" "keeps_view k st cs n st1 cs1"
      using access_reaches [OF inv a] .
    from views_keeps [OF assms(1) s(2)] have v: "views k st1 cs1 n m" "same_place cs cs1" by simp_all
    have wf: "arm_wf k st1 cs1" "data_address cs1 va" using v a(1) same_place_data [OF v(2)] by (simp_all add: views_def arm_inv_def)
    let ?m = "(am_mem st1)(backing (am_mem st1) cs1 va := b)"
    note V = store_view [OF wf, where b = b]
    have "ro_pages ?m cs1 = ro_pages (am_mem st1) cs1"
      using entry_at_upd [OF backing_outside_tables [OF wf, of "pf_l3 cs1"]] by (auto simp: ro_pages_def data_page_def)
    then have "views k (st1\<lparr>am_mem := ?m\<rparr>) cs1 n (m(va := b))"
      using V v(1) by (simp add: views_def arm_inv_def)
    then show thesis using Store s(1) v(2) by (intro that) (auto simp: arm_step_def flat_step_def cow_marks_def is_mark_cow_def)
  qed
qed

lemma op_ok_place: "same_place cs cs' \<Longrightarrow> op_ok cs' x = op_ok cs x"
  by (simp add: op_ok_def same_place_data split: arm_op.split)

lemma run_refines:
  assumes "views k st cs n m" "\<forall>x \<in> set ops. op_ok cs x" "n + cow_marks ops \<le> 4"
  shows "\<exists>st' cs'. arm_run ops st = Some (st', snd (flat_run ops m), False) \<and> views k st' cs' (n + cow_marks ops) (fst (flat_run ops m)) \<and> same_place cs cs'"
  using assms
proof (induction ops arbitrary: st cs n m)
  case Nil
  then have "views k st cs (n + cow_marks []) (fst (flat_run [] m)) \<and> same_place cs cs" by (simp add: cow_marks_def same_place_def)
  then show ?case by auto
next
  case (Cons x ops)
  have c: "cow_marks (x # ops) = cow_marks [x] + cow_marks ops" by (simp add: cow_marks_def)
  obtain st1 cs1 where s: "arm_step x st = Some (st1, snd (flat_step x m), False)" "views k st1 cs1 (n + cow_marks [x]) (fst (flat_step x m))" "same_place cs cs1"
    using step_refines [OF Cons.prems(1), of x] Cons.prems(2,3) c by auto
  obtain m1 bs where f: "flat_step x m = (m1, bs)" by fastforce
  have "\<forall>x \<in> set ops. op_ok cs1 x" "n + cow_marks [x] + cow_marks ops \<le> 4"
    using Cons.prems(2,3) c op_ok_place [OF s(3)] by auto
  from Cons.IH [OF s(2) this] obtain st2 cs2 where r: "arm_run ops st1 = Some (st2, snd (flat_run ops m1), False)"
    "views k st2 cs2 (n + cow_marks [x] + cow_marks ops) (fst (flat_run ops m1))" "same_place cs1 cs2"
    using f by auto
  have "arm_run (x # ops) st = Some (st2, snd (flat_run (x # ops) m), False)"
    using s(1) r(1) f by (simp add: flat_run_step case_prod_beta)
  moreover have "views k st2 cs2 (n + cow_marks (x # ops)) (fst (flat_run (x # ops) m))"
    using r(2) f c by (simp add: flat_run_step add.assoc case_prod_beta)
  ultimately show ?case using same_place_trans [OF s(3) r(3)] by blast
qed

subsection \<open>Properties\<close>

lemma started_views:
  assumes "am_el st = 4" "am_core st = Some cs" "am_sctlr st AND 1 = 0" "arm_layout cs" "\<not> arm_have_split cs" "pf_cow_used cs = 0"
    and "pf_streamed cs = []" "st' = pagefault_init_aarch64 vectors (fst (arch_mmu_enable_identity_map k st))"
  shows "\<exists>cs'. views k st' cs' 0 (am_mem st) \<and> same_place cs cs'"
proof -
  let ?m = "identity_tables (mmu_l1 cs) k (am_mem st)" and ?c = "cs\<lparr>mmu_owned_map := True, pf_handler_ready := True\<rparr>"
  have odd_4101: "(am_sctlr st OR 4101) mod 2 = 1" by (simp add: odd_iff_mod_2_eq_one [symmetric] even_or_iff)
  have "mmu_l1 cs \<noteq> 0" using assms(4) by (simp add: arm_layout_def)
  then have st': "am_mem st' = ?m" "am_core st' = Some ?c" "am_ttbr0 st' = mmu_l1 cs"
    using assms(1-3,8) odd_4101
    by (simp_all add: arch_mmu_enable_identity_map_def Let_def pagefault_init_aarch64_def pagefault_supported_aarch64_def
        arch_has_mmu_aarch64_def arch_mmu_root_phys_def and_one_eq)
  have "entry_at ?m (mmu_l1 cs) i = identity_entry k i" if "i < 512" for i using identity_tables_entry [OF that] .
  then have "arm_wf k st' ?c"
    using st' assms(4-6) unfolding arm_wf_def by (simp add: arm_layout_def)
  moreover have "ro_pages ?m ?c = {}" using assms(5) by (simp add: ro_pages_def)
  moreover have "data_view ?m ?c a = am_mem st a" if "data_address ?c a" for a
    using assms(5) that same_outsideD [OF identity_tables_outside, of "mmu_l1 cs" a]
    by (simp add: data_view_def backing_def page_entry_def data_address_def)
  ultimately have "views k st' ?c 0 (am_mem st)" using assms(6,7) st' by (simp add: views_def arm_inv_def)
  then show ?thesis by (intro exI [of _ ?c]) (simp add: same_place_def)
qed


lemma demo_arm_layout: "arm_layout demo_arm_core"
  by (simp add: arm_layout_def demo_arm_core_def ARM_ADDR_MASK_def regions_apart_def)


text \<open>With the pool used up, a store to a page that is still shared halts the core.\<close>

lemma exhausted_pool_halts:
  assumes "arm_inv k st cs n" "data_address cs va" "page_entry cs va = Some i" "bit (entry_at (am_mem st) (pf_l3 cs) i) 0"
    and "bit (entry_at (am_mem st) (pf_l3 cs) i) 7" "pf_cow_used cs = ARM_COW_POOL_SIZE"
  shows "\<exists>st'. arm_access True va st = Some (st', None) \<and> am_mem st' = am_mem st"
proof -
  have wf: "arm_wf k st cs" using assms(1) by (simp add: arm_inv_def)
  have "access_target True va st = Inl 15" using page_access [OF wf assms(3,2) refl, of True] assms(4,5) by simp
  moreover have "el1_fault True 15 va st = (st\<lparr>am_core := Some (counted cs), am_irq_masked := True\<rparr>, False)"
    using fault_read_only [OF wf assms(2,3) refl assms(5)] assms(6) by simp
  ultimately show ?thesis by (subst arm_access.simps) simp
qed

end
