(* ===== verification/Spec2Isabelle.thy ===== *)
theory Spec2Isabelle
  imports Node_Props Mutex_Props Resource_Props Fdt_Props Capnp_List Network_Ether Stage_Loader X86_Pagefault
    Job_Exec X86_Switch Arm_Switch Securinit_X86 Client_Props Freestanding_Mem Serial_Format Acpi_X86 Topology_Props Arm_Paging_Props
begin

text \<open>
  The program is the first user-space program of a small multi-core kernel and its second stage.  \<open>coreinit\<close> runs
  on every core: it reads the machine description, installs page tables, interrupts and a console, joins the cluster, and then works
  for the cluster scheduler, which runs as an object on the first core.  Nodes reach the scheduler by messages, locally or over
  Ethernet.  \<open>securinit\<close> is loaded as an image; it owns a gate object and runs unprivileged guests that may call
  nothing but that gate.  The kernel itself is not part of the repository.

  \<^bold>\<open>Conventions.\<close>  Machine integers are words of their width (\<open>Coreinit_Prelude\<close>), so sums wrap where they do in C.  Memory
  is a function from 64-bit addresses to bytes (\<open>Byte_Memory\<close>).  A struct is a record with the fields of the C
  struct, a fixed array a list, an operation a function from state to state and result; early returns are the branches of the
  function.  Errors are the return values of the code.  Output by \<open>kprintf\<close> is left out except in the theory of the
  console.  The operations of an object run one after the other, as the locks of the code make them; races between cores on unlocked data are not
  modelled.

  \<^bold>\<open>Messages.\<close>  \<open>Capnp_Flat\<close> and \<open>Capnp_List\<close> are the builders and readers of \<open>coreinit/capnp_build.h\<close> and \<open>include/capnp_list.h\<close>
  with \<open>coreinit/boot_protocol_decode.h\<close>; what is built is read back, and readers stay inside the message.

  \<^bold>\<open>Memory manager.\<close>  \<open>Mem_Mgr\<close> is \<open>coreinit/mem_mgr.c\<close> over the layout of \<open>include/smp_layout.h\<close> (\<open>Smp_Layout\<close>).  The locale \<open>region_ledger\<close>
  is the contract of a ledger of address ranges; the model's ledger is an interpretation.  Live claims never overlap, and the
  allocator is first fit.

  \<^bold>\<open>Cluster scheduler.\<close>  \<open>Cluster_State\<close>, \<open>Cluster_Objects\<close> and \<open>Cluster_Scheduler\<close> are \<open>coreinit/cluster_scheduler.c\<close>: tables, the
  four kinds of object and the methods.  The kernel is the argument \<open>K\<close>, with the laws \<open>kernel_laws\<close>; \<open>Demo_Kernel\<close> is a
  kernel that satisfies them and \<open>Demo_Runs\<close> are runs on it.  \<open>Cluster_Facts\<close>, \<open>Cluster_Inv\<close> and \<open>Cluster_Preserve\<close> hold the
  effect of each internal call and the well-formedness of the tables; the locale \<open>scheduler_invariant\<close> (\<open>Scheduler_Invariant\<close>)
  lifts a property kept by a dozen table operations to all methods and to every sequence of calls, and is interpreted for
  well-formedness and for a job in the hands of a node.  \<open>Cluster_Dispatch\<close> and \<open>Dispatch_Props\<close> treat the choice of
  jobs, \<open>Job_Props\<close>, \<open>Node_Props\<close>, \<open>Mutex_Props\<close>, \<open>Resource_Props\<close> and \<open>Slice_Props\<close> the other objects.

  \<^bold>\<open>Scheduler client.\<close>  \<open>Scheduler_Client\<close> is \<open>coreinit/scheduler.c\<close> and the slices of \<open>coreinit/job_memory.c\<close>;
  \<open>Client_Props\<close> composes it with the scheduler and the memory manager: an acquired slice is private, and a worker's turn
  publishes the result of the job the scheduler chose.

  \<^bold>\<open>Remote calls.\<close>  \<open>Network_Rpc\<close> and \<open>Network_Ether\<close> are \<open>coreinit/network_rpc.c\<close> and \<open>coreinit/network_ether.c\<close>; the packet
  device is an argument.  A call over Ethernet is the local call, within the size of a frame.

  \<^bold>\<open>Jobs on a core.\<close>  \<open>Job_Exec\<close> is \<open>coreinit/job_exec.c\<close>.  \<open>Context_Switch\<close> states what a switch promises as locales; \<open>X86_Switch\<close> and
  \<open>Arm_Switch\<close> run the two assembly routines instruction by instruction and interpret them.

  \<^bold>\<open>Machine description.\<close>  \<open>Fdt\<close> is the reader of \<open>lib/fdt.c\<close>; \<open>Fdt_Tree\<close> has trees as a datatype and their flattened form,
  and \<open>Fdt_Refine\<close> and \<open>Fdt_Props\<close> relate each function to the tree.  \<open>Acpi_Tables\<close>, \<open>Acpi_X86\<close>, \<open>Topology_Arm\<close> and \<open>Topology_Props\<close> are
  \<open>acpi_x86_64.c\<close> and \<open>topology_aarch64.c\<close>: the cores found are those the description lists.

  \<^bold>\<open>Paging.\<close>  \<open>Page_Tables\<close> has tables in memory, \<open>X86_Mmu\<close> the page walk of the processor, and \<open>X86_Pagefault\<close> is
  \<open>coreinit/pagefault_x86_64.c\<close>: a split keeps every translation, and a store to a copy-on-write page is private.  \<open>Arm_Mmu\<close> is the ARM page walk and
  \<open>coreinit/arch_mmu_aarch64.c\<close>, \<open>Arm_Pagefault\<close> is \<open>coreinit/pagefault_aarch64.c\<close>; \<open>Arm_Paging\<close> has the invariant of the tables and \<open>Arm_Paging_Props\<close> shows
  that loads and stores through them act as on a plain memory.

  \<^bold>\<open>Second stage.\<close>  \<open>Stage_Loader\<close> is \<open>coreinit/stage_loader.c\<close>.  \<open>Securinit\<close> is \<open>securinit/securinit.c\<close>, with the wrapper of the
  target as an argument and its law as a hypothesis.  \<open>User_Ipc\<close> is \<open>securinit/user_ipc.c\<close>, \<open>X86_Wrapper\<close> is \<open>securinit/x86_wrapper.c\<close> with the
  guest as any sequence of steps the page walk allows, and \<open>Securinit_X86\<close> shows that this wrapper satisfies the law.

  \<^bold>\<open>Library code.\<close>  \<open>Freestanding_Mem\<close> is \<open>lib/freestanding_mem.c\<close>; \<open>Serial_Format\<close> is the console with its formatter on
  both targets.

  \<^bold>\<open>Loops.\<close>  Loops with a fixed bound are folds or structural recursion.  Loops that may not end are \<open>partial_function (option)\<close>, where
  None is a run that never returns; the theorems on them state that they return, or, where the code hangs, that they do not.  No
  definition takes fuel.

  \<^bold>\<open>Not modelled.\<close>  The start-up sequence and demonstrations of \<open>coreinit.c\<close>, bringing up further cores (\<open>smp_*.c\<close> and
  the trampoline), interrupt controllers, timers, disk, PCI and network devices: they program device registers, and what they
  guarantee is a statement about the devices.  The kernel interface headers only declare types.  The GRUB loader under
  \<open>tools/\<close> is a patch to a program whose sources are not in the repository.  Caches and stale translations are not
  modelled: the code invalidates after every change.
\<close>

end
